(* ===== verification/Prelude.thy ===== *)
theory Prelude
  imports Main "HOL-Library.Word"
begin

text \<open>
  Shared vocabulary of the development.  The widths of the C integer types are fixed here as
  word types; \<open>size_t\<close> counts that are bounded by the size of an object in memory are \<open>nat\<close>.
  The rest of the theory is generic: bit lemmas on natural numbers and words, lemmas on
  \<open>filter\<close>, list update and options that several components use, and the collections
  \<open>model_defs\<close> and \<open>inv_intros\<close> that component proofs pass to the simplifier and to
  the classical reasoner.
\<close>

unbundle bit_operations_syntax

named_theorems model_defs \<open>definitions that component proofs unfold together\<close>
named_theorems inv_intros \<open>preservation of the component invariants\<close>

type_synonym u8 = "8 word"
type_synonym u16 = "16 word"
type_synonym u32 = "32 word"
type_synonym u64 = "64 word"

text \<open>A fallible computation: \<open>None\<close> is a failed \<open>GPR_ASSERT\<close> or a null dereference.\<close>

type_synonym 'a crashable = "'a option"

subsection \<open>Lists\<close>

lemma length_filter_Cons: "length (filter P (x # xs)) = of_bool (P x) + length (filter P xs)"
  by simp

lemma list_all_nth_iff: "list_all P xs \<longleftrightarrow> (\<forall>i < length xs. P (xs ! i))"
  by (simp add: list_all_length)

lemma nth_list_update_if:
  "i < length xs \<Longrightarrow> xs[i := x] ! j = (if i = j then x else xs ! j)"
  by simp

lemma sum_list_update_nat:
  "i < length xs \<Longrightarrow> sum_list (xs[i := (x::nat)]) + xs ! i = sum_list xs + x"
proof (induction xs arbitrary: i)
  case Nil
  then show ?case by simp
next
  case (Cons y ys)
  then show ?case by (cases i) (auto simp: add.assoc add.commute)
qed

lemma all_less_add: "(\<forall>i < a + b. P i) \<longleftrightarrow> (\<forall>i < a. P i) \<and> (\<forall>k < b. P (a + k))" for a b :: nat
proof (intro iffI conjI allI impI)
  fix i assume a: "(\<forall>i < a. P i) \<and> (\<forall>k < b. P (a + k))" and i: "i < a + b"
  show "P i"
  proof (cases "i < a")
    case False
    then have "i = a + (i - a)" "i - a < b" using i by auto
    with a show ?thesis by metis
  qed (use a in simp)
qed auto

lemma takeWhile_replicate_append [simp]:
  "P x \<Longrightarrow> takeWhile P (replicate n x @ ys) = replicate n x @ takeWhile P ys"
  by (induction n) auto

subsection \<open>A loop whose body may fail\<close>

fun fold_opt :: "('a \<Rightarrow> 's \<Rightarrow> 's option) \<Rightarrow> 'a list \<Rightarrow> 's \<Rightarrow> 's option" where
  "fold_opt f [] s = Some s"
| "fold_opt f (x # xs) s = (case f x s of None \<Rightarrow> None | Some s' \<Rightarrow> fold_opt f xs s')"

lemma fold_opt_append:
  "fold_opt f (xs @ ys) s = (case fold_opt f xs s of None \<Rightarrow> None | Some s' \<Rightarrow> fold_opt f ys s')"
  by (induction xs arbitrary: s) (auto split: option.splits)

text \<open>An invariant indexed by the number of iterations carries through a counted loop.\<close>

lemma fold_opt_upt:
  assumes "I 0 s" and "\<And>i t. i < n \<Longrightarrow> I i t \<Longrightarrow> \<exists>t'. f i t = Some t' \<and> I (Suc i) t'"
  shows "\<exists>t. fold_opt f [0..<n] s = Some t \<and> I n t"
  using assms(2)
proof (induction n)
  case 0
  then show ?case using assms(1) by simp
next
  case (Suc n)
  then obtain t where "fold_opt f [0..<n] s = Some t" "I n t" by force
  with Suc.prems [of n t] show ?case by (auto simp: fold_opt_append)
qed

subsection \<open>Bits of natural numbers and words\<close>

lemma bit_nat_less: "(r::nat) < 2 ^ k \<Longrightarrow> bit r n \<Longrightarrow> n < k"
  by (metis bit_take_bit_iff take_bit_nat_eq_self)

lemma add_mult_eq_or: "(r::nat) < 2 ^ k \<Longrightarrow> r + 2 ^ k * m = r OR push_bit k m"
  unfolding push_bit_eq_mult mult.commute [of m]
  by (rule disjunctive_add) (metis bit_nat_less bit_push_bit_iff leD mult.commute push_bit_eq_mult)

lemma word_bits_expand: "w = horner_sum of_bool 2 (map (bit w) [0..<LENGTH('a)])"
  for w :: "'a::len word"
  by (simp add: horner_sum_bit_eq_take_bit)

lemma word_eq_all_bits: "w = v \<longleftrightarrow> (\<forall>n < LENGTH('a). bit w n = bit v n)"
  for w v :: "'a::len word"
  by (metis bit_word_eqI)

lemma bit_one_shift [simp]:
  "n < LENGTH('a) \<Longrightarrow> bit ((2 :: 'a::len word) ^ n) m \<longleftrightarrow> m = n"
  by (auto simp: bit_simps)

lemma and_one_shift_eq_0:
  "(w AND 2 ^ n = 0) = (\<not> bit w n)" for w :: "'a::len word"
  by (metis and_exp_eq_0_iff_not_bit)

section \<open>Runs of operations\<close>

text \<open>A component whose operations are the values of a type \<open>'o\<close> refines an abstract machine when every
  operation that is valid in the abstract state succeeds, keeps the invariant and commutes with the
  abstraction, or simulates it when a relation between the states is kept.  A run of valid operations then never fails and computes the
  abstract run.\<close>

fun valid_run :: "('o \<Rightarrow> 'a \<Rightarrow> bool) \<Rightarrow> ('o \<Rightarrow> 'a \<Rightarrow> 'a) \<Rightarrow> 'o list \<Rightarrow> 'a \<Rightarrow> bool" where
  "valid_run valid spec [] a \<longleftrightarrow> True"
| "valid_run valid spec (x # xs) a \<longleftrightarrow> valid x a \<and> valid_run valid spec xs (spec x a)"

locale simulation =
  fixes step :: "'o \<Rightarrow> 's \<Rightarrow> 's option"
    and spec :: "'o \<Rightarrow> 'a \<Rightarrow> 'a"
    and valid :: "'o \<Rightarrow> 'a \<Rightarrow> bool"
    and rel :: "'s \<Rightarrow> 'a \<Rightarrow> bool"
  assumes step_sim: "rel s a \<Longrightarrow> valid x a \<Longrightarrow> \<exists>s'. step x s = Some s' \<and> rel s' (spec x a)"
begin

lemma run_sim: "rel s a \<Longrightarrow> valid_run valid spec xs a \<Longrightarrow> \<exists>s'. fold_opt step xs s = Some s' \<and> rel s' (fold spec xs a)"
proof (induction xs arbitrary: s a)
  case (Cons x xs)
  then obtain s' where "step x s = Some s'" "rel s' (spec x a)" using step_sim [of s a x] by auto
  with Cons show ?case by simp
qed simp

end

text \<open>A functional refinement is the simulation along the graph of its abstraction.\<close>

locale refinement =
  fixes step :: "'o \<Rightarrow> 's \<Rightarrow> 's option"
    and spec :: "'o \<Rightarrow> 'a \<Rightarrow> 'a"
    and valid :: "'o \<Rightarrow> 'a \<Rightarrow> bool"
    and abs :: "'s \<Rightarrow> 'a"
    and ok :: "'s \<Rightarrow> bool"
  assumes step_ok: "ok s \<Longrightarrow> valid x (abs s) \<Longrightarrow> \<exists>s'. step x s = Some s' \<and> ok s' \<and> abs s' = spec x (abs s)"

sublocale refinement \<subseteq> sim: simulation step spec valid "\<lambda>s a. ok s \<and> abs s = a"
  by unfold_locales (use step_ok in blast)

context refinement
begin

lemma run_ok:
  "ok s \<Longrightarrow> valid_run valid spec xs (abs s) \<Longrightarrow>
   \<exists>s'. fold_opt step xs s = Some s' \<and> ok s' \<and> abs s' = fold spec xs (abs s)"
  using sim.run_sim [of s "abs s" xs] by simp

end

end
