(* ===== verification/Useful.thy ===== *)
theory Useful
  imports Prelude
begin

text \<open>
  The helpers of \<^verbatim>\<open>src/core/lib/gpr/useful.h\<close>: clamping, rotation, single-bit access, the
  population count that \<open>BitSet\<close> uses, the three-way comparison and the pointer hash.  Templates over an unsigned type are
  polymorphic in the word width.  The population count is proved equal to the number of
  one bits.
\<close>

section \<open>Definitions\<close>

definition Clamp :: "'a::linorder \<Rightarrow> 'a \<Rightarrow> 'a \<Rightarrow> 'a" where
  "Clamp val lo hi = (if val < lo then lo else if hi < val then hi else val)"

definition RotateLeft :: "'w::len word \<Rightarrow> nat \<Rightarrow> 'w word" where
  "RotateLeft x n = (push_bit n x OR drop_bit (LENGTH('w) - n) x)"

definition RotateRight :: "'w::len word \<Rightarrow> nat \<Rightarrow> 'w word" where
  "RotateRight x n = (drop_bit n x OR push_bit (LENGTH('w) - n) x)"

definition SetBit :: "'w::len word \<Rightarrow> nat \<Rightarrow> 'w word" where
  "SetBit i n = i OR push_bit n 1"

definition ClearBit :: "'w::len word \<Rightarrow> nat \<Rightarrow> 'w word" where
  "ClearBit i n = i AND NOT (push_bit n 1)"

definition GetBit :: "'w::len word \<Rightarrow> nat \<Rightarrow> bool" where
  "GetBit i n \<longleftrightarrow> i AND push_bit n 1 \<noteq> 0"

definition HexdigitBitcount :: "u32 \<Rightarrow> u32" where
  "HexdigitBitcount x =
     x - (drop_bit 1 x AND 0x77777777) - (drop_bit 2 x AND 0x33333333)
       - (drop_bit 3 x AND 0x11111111)"

definition BitCount32 :: "u32 \<Rightarrow> u32" where
  "BitCount32 i =
     ((HexdigitBitcount i + drop_bit 4 (HexdigitBitcount i)) AND 0x0f0f0f0f) mod 255"

definition BitCount64 :: "u64 \<Rightarrow> u32" where
  "BitCount64 i = BitCount32 (ucast i) + BitCount32 (ucast (drop_bit 32 i))"

text \<open>The overload that a unit of width \<open>'w\<close> selects: 64-bit units are counted in two
  halves, every narrower unit is zero-extended to 32 bits.\<close>

definition BitCount :: "'w::len word \<Rightarrow> u32" where
  "BitCount i = (if LENGTH('w) = 64 then BitCount64 (ucast i) else BitCount32 (ucast i))"

definition QsortCompare :: "'a::linorder \<Rightarrow> 'a \<Rightarrow> int" where
  "QsortCompare a b = (if a < b then -1 else if b < a then 1 else 0)"

definition HashPointer :: "u64 \<Rightarrow> u64 \<Rightarrow> u64" where
  "HashPointer p rng = (drop_bit 4 p XOR drop_bit 9 p XOR drop_bit 14 p) mod rng"

text \<open>The reference population count.\<close>

definition popcount :: "'w::len word \<Rightarrow> nat" where
  "popcount x = length (filter (bit x) [0..<LENGTH('w)])"

section \<open>Clamp, rotation, single bits, comparison\<close>

lemma Clamp_bounds: "lo \<le> hi \<Longrightarrow> lo \<le> Clamp v lo hi \<and> Clamp v lo hi \<le> hi"
  by (auto simp: Clamp_def)

lemma Clamp_id: "lo \<le> v \<Longrightarrow> v \<le> hi \<Longrightarrow> Clamp v lo hi = v"
  by (auto simp: Clamp_def)

lemma Clamp_mono: "lo \<le> hi \<Longrightarrow> v \<le> v' \<Longrightarrow> Clamp v lo hi \<le> Clamp v' lo hi"
  by (auto simp: Clamp_def)

lemma bit_RotateLeft:
  "0 < n \<Longrightarrow> n < LENGTH('w) \<Longrightarrow> i < LENGTH('w) \<Longrightarrow>
   bit (RotateLeft (x :: 'w::len word) n) i
     = bit x (if i < n then i + (LENGTH('w) - n) else i - n)"
  by (auto simp: RotateLeft_def bit_simps add.commute dest: bit_imp_le_length)

lemma bit_RotateRight:
  "0 < n \<Longrightarrow> n < LENGTH('w) \<Longrightarrow> i < LENGTH('w) \<Longrightarrow>
   bit (RotateRight (x :: 'w::len word) n) i
     = bit x (if i + n < LENGTH('w) then i + n else i - (LENGTH('w) - n))"
  by (auto simp: RotateRight_def bit_simps add.commute dest: bit_imp_le_length)

lemma RotateRight_RotateLeft:
  "0 < n \<Longrightarrow> n < LENGTH('w) \<Longrightarrow> RotateRight (RotateLeft (x :: 'w::len word) n) n = x"
  by (auto simp: word_eq_all_bits bit_RotateLeft bit_RotateRight)

lemma bit_SetBit: "n < LENGTH('w) \<Longrightarrow> bit (SetBit (i :: 'w::len word) n) m \<longleftrightarrow> m = n \<or> bit i m"
  by (auto simp: SetBit_def bit_or_iff)

lemma bit_ClearBit: "n < LENGTH('w) \<Longrightarrow> bit (ClearBit (i :: 'w::len word) n) m \<longleftrightarrow> m \<noteq> n \<and> bit i m"
  by (auto simp: ClearBit_def bit_and_iff bit_not_iff dest: bit_imp_le_length)

lemma GetBit_bit: "n < LENGTH('w) \<Longrightarrow> GetBit (i :: 'w::len word) n = bit i n"
  by (simp add: GetBit_def and_one_shift_eq_0)

lemma QsortCompare_sign:
  "QsortCompare a b < 0 \<longleftrightarrow> a < b" "QsortCompare a b > 0 \<longleftrightarrow> b < a" "QsortCompare a b = 0 \<longleftrightarrow> a = b"
  by (auto simp: QsortCompare_def)

lemma HashPointer_in_range: "0 < rng \<Longrightarrow> HashPointer p rng < rng"
  by (simp add: HashPointer_def word_mod_less_divisor)

section \<open>The population count\<close>

lemma upt32: "[0..<32] = [0,1,2,3,4,5,6,7,8,9,10,11,12,13,14,15,
    16,17,18,19,20,21,22,23,24,25,26,27,28,29,30,31]"
  by code_simp

definition nibble :: "32 word \<Rightarrow> nat \<Rightarrow> nat" where
  "nibble x k = of_bool (bit x (4*k)) + of_bool (bit x (4*k+1)) + of_bool (bit x (4*k+2)) + of_bool (bit x (4*k+3))"

lemma word32_expand:
  "w = horner_sum of_bool 2 (map (bit w) [0,1,2,3,4,5,6,7,8,9,10,11,12,13,14,15,
    16,17,18,19,20,21,22,23,24,25,26,27,28,29,30,31])"
 for w :: "32 word"
  using word_bits_expand[of w] by (simp only: upt32 len_num1 len_bit0 len_num0 mult_2 numeral_plus_numeral one_add_one) (simp add: upt32)

lemma hex_sum:
  fixes x :: "32 word"
  shows "HexdigitBitcount x = of_nat (horner_sum (nibble x) 16 [0,1,2,3,4,5,6,7])"
  unfolding HexdigitBitcount_def
   apply (subst word32_expand[of "drop_bit 1 x AND _"], subst word32_expand[of "drop_bit 2 x AND _"], subst word32_expand[of "drop_bit 3 x AND _"])
   apply (subst (1) word32_expand[of x])
   by (simp add: bit_simps nibble_def numeral_2_eq_2 numeral_3_eq_3)

lemma nibble_le: "nibble x k \<le> 4" by (auto simp: nibble_def)

lemma and_hexdigit: "n AND (15 + 256 * m) = n mod 16 + 256 * (n div 256 AND m)" for n m :: nat
proof -
  have 1: "15 + 256 * m = mask 4 OR push_bit 8 m" and
       2: "n mod 16 + 256 * (n div 256 AND m) = take_bit 4 n OR push_bit 8 (drop_bit 8 n AND m)"
    using add_mult_eq_or[of 15 8 m] add_mult_eq_or[of "n mod 16" 8 "n div 256 AND m"]
    by (simp_all add: take_bit_eq_mod drop_bit_eq_div mask_eq_exp_minus_1)
  show ?thesis unfolding 1 2
    by (rule bit_eqI) (auto simp: bit_simps)
qed

lemma and_0f: "n AND 0x0f0f0f0f = n mod 16 + 256 * (n div 256 mod 16 + 256 * (n div 256 div 256 mod 16 + 256 * (n div 256 div 256 div 256 mod 16)))" for n :: nat
proof -
  have "(0x0f0f0f0f :: nat) = 15 + 256 * (15 + 256 * (15 + 256 * (15 + 256 * 0)))" by simp
  moreover have "k AND (15 + 256 * 0) = k mod 16" for k :: nat
    using and_hexdigit[of k 0] by simp
  ultimately show ?thesis by (simp only: and_hexdigit)
qed

lemma hexdigit_step: "(r::nat) < 16 \<Longrightarrow> (r + 16 * q) mod 16 = r" "r < 16 \<Longrightarrow> (r + 16 * q) div 16 = q"
  by auto
lemma div_256: "n div 256 = n div 16 div 16" for n :: nat by (simp add: div_mult2_eq[symmetric])

lemma digits:
  assumes "\<And>k. (d::nat \<Rightarrow> nat) k \<le> 4" and h: "h = horner_sum d 16 [0,1,2,3,4,5,6,7]"
  shows "((h + h div 16) AND 0x0f0f0f0f) mod 255 = d 0 + d 1 + d 2 + d 3 + d 4 + d 5 + d 6 + d 7"
proof -
  have d: "d 0 \<le> 4" "d 1 \<le> 4" "d 2 \<le> 4" "d 3 \<le> 4" "d 4 \<le> 4" "d 5 \<le> 4" "d 6 \<le> 4" "d 7 \<le> 4" using assms by auto
  define n where "n = h + h div 16"
  have n: "n = (d 0 + d 1) + 16 * ((d 1 + d 2) + 16 * ((d 2 + d 3) + 16 * ((d 3 + d 4) + 16 * ((d 4 + d 5) + 16 * ((d 5 + d 6) + 16 * ((d 6 + d 7) + 16 * d 7))))))"
    using d unfolding n_def h by simp
  have lt: "d 0 + d 1 < 16" "d 1 + d 2 < 16" "d 2 + d 3 < 16" "d 3 + d 4 < 16" "d 4 + d 5 < 16" "d 5 + d 6 < 16" "d 6 + d 7 < 16"
    using d by auto
  have "n AND 0x0f0f0f0f = d 0 + d 1 + 256 * (d 2 + d 3 + 256 * (d 4 + d 5 + 256 * (d 6 + d 7)))"
    unfolding and_0f n by (simp only: div_256 hexdigit_step lt)
  also have "\<dots> = (d 0 + d 1 + d 2 + d 3 + d 4 + d 5 + d 6 + d 7) + 255 * (d 2 + d 3 + 257 * (d 4 + d 5) + 65793 * (d 6 + d 7))"
    by simp
  finally have "(n AND 0x0f0f0f0f) mod 255 = (d 0 + d 1 + d 2 + d 3 + d 4 + d 5 + d 6 + d 7) mod 255"
    by (simp only: mod_mult_self2)
  then show ?thesis using d by (simp add: n_def)
qed

lemma popcount_nibbles: "popcount x = horner_sum (nibble x) 1 [0,1,2,3,4,5,6,7]" for x :: "32 word"
  proof -
  have "popcount x = length (filter (bit x) [0..<32])" by (simp add: popcount_def)
  then show ?thesis unfolding upt32 length_filter_Cons
    by (simp add: nibble_def numeral_2_eq_2 numeral_3_eq_3 del: filter.simps add: length_filter_Cons)
qed

lemma BitCount32_popcount: "BitCount32 x = of_nat (popcount x)"
proof -
  define h where "h = horner_sum (nibble x) 16 [0,1,2,3,4,5,6,7]"
  have b: "h \<le> 4 * 0x11111111"
    using nibble_le[of x 0] nibble_le[of x 1] nibble_le[of x 2] nibble_le[of x 3] nibble_le[of x 4] nibble_le[of x 5] nibble_le[of x 6] nibble_le[of x 7]
    by (simp add: h_def)
  have "unat (HexdigitBitcount x) = h"
    using b by (simp only: hex_sum h_def [symmetric]) (simp add: unat_of_nat)
  then have "unat (BitCount32 x) = ((h + h div 16) AND 0x0f0f0f0f) mod 255"
    using b unfolding BitCount32_def
    by (simp add: unat_mod_distrib unsigned_and_eq unat_word_ariths unsigned_drop_bit_eq drop_bit_eq_div)
  also have "\<dots> = popcount x" by (subst digits[OF nibble_le h_def]) (simp add: popcount_nibbles)
  finally show ?thesis by (metis of_nat_unat ucast_id)
qed

lemma popcount_card: "popcount x = card {n. n < LENGTH('w) \<and> bit x n}" for x :: "'w::len word"
proof -
  have "popcount x = card (set (filter (bit x) [0..<LENGTH('w)]))"
    unfolding popcount_def by (rule distinct_card [symmetric]) simp
  also have "set (filter (bit x) [0..<LENGTH('w)]) = {n. n < LENGTH('w) \<and> bit x n}" by auto
  finally show ?thesis .
qed

lemma popcount_le: "popcount x \<le> LENGTH('w)" for x :: "'w::len word"
  unfolding popcount_def by (metis diff_zero length_filter_le length_upt)

lemma popcount_ucast_32: "LENGTH('w) \<le> 32 \<Longrightarrow> popcount (ucast x :: u32) = popcount x"
  for x :: "'w::len word"
  unfolding popcount_card
  by (rule arg_cong [where f = card]) (auto simp: bit_simps dest: bit_imp_le_length)

lemma popcount_ucast_64: "LENGTH('w) = 64 \<Longrightarrow> popcount (ucast x :: u64) = popcount x"
  for x :: "'w::len word"
  unfolding popcount_card
  by (rule arg_cong [where f = card]) (auto simp: bit_simps dest: bit_imp_le_length)

lemma popcount_filter_32:
  "popcount (w :: u32) = length (filter (bit w) [0..<32])"
  by (simp add: popcount_def)

lemma popcount_halves:
  "popcount (ucast x :: u32) + popcount (ucast (drop_bit 32 x) :: u32) = popcount x" for x :: u64
proof -
  have split: "[0..<64] = [0..<32] @ map (\<lambda>i. i + 32) [0..<32]"
    by (simp add: map_add_upt upt_add_eq_append [of 0 32 32, simplified])
  have "popcount x = length (filter (bit x) [0..<64])" by (simp add: popcount_def)
  also have "\<dots> = length (filter (bit x) [0..<32]) + length (filter (\<lambda>i. bit x (i + 32)) [0..<32])"
    unfolding split by (simp add: filter_map comp_def)
  also have "length (filter (bit x) [0..<32]) = popcount (ucast x :: u32)"
    unfolding popcount_filter_32 by (rule arg_cong [where f = length], rule filter_cong) (auto simp: bit_simps)
  also have "length (filter (\<lambda>i. bit x (i + 32)) [0..<32]) = popcount (ucast (drop_bit 32 x) :: u32)"
    unfolding popcount_filter_32
    by (rule arg_cong [where f = length], rule filter_cong) (auto simp: bit_simps add.commute)
  finally show ?thesis by simp
qed

lemma BitCount64_popcount: "BitCount64 x = of_nat (popcount x)"
  unfolding BitCount64_def BitCount32_popcount by (metis of_nat_add popcount_halves)

lemma BitCount_popcount:
  "LENGTH('w) \<le> 32 \<or> LENGTH('w) = 64 \<Longrightarrow> BitCount x = of_nat (popcount x)" for x :: "'w::len word"
  by (auto simp: BitCount_def BitCount32_popcount BitCount64_popcount popcount_ucast_32
      popcount_ucast_64)

section \<open>Property\<close>

text \<open>The parallel bit count of every unit type that \<open>BitSet\<close> may be built on (8, 16, 32 or 64 bits) is the number of one bits: the
  nibble-wise subtraction, the \<open>0x0f0f0f0f\<close> mask and the \<open>% 255\<close> never lose a carry.\<close>

theorem bit_count_exact:
  "unat (BitCount32 x) = card {n. n < 32 \<and> bit x n} \<and> unat (BitCount64 y) = card {n. n < 64 \<and> bit y n}"
  using popcount_le [of x] popcount_le [of y] popcount_card [of x] popcount_card [of y]
  by (simp add: BitCount32_popcount BitCount64_popcount unat_of_nat take_bit_nat_eq_self)

end
