(* ===== verification/Bit_Set.thy ===== *)
theory Bit_Set
  imports Useful
begin

text \<open>
  \<open>BitSet<kTotalBits, kUnitBits>\<close> of \<^verbatim>\<open>src/core/lib/gprpp/bitset.h\<close>: an array of unsigned units of
  width \<open>'w\<close> (\<open>kUnitBits\<close>), with the bit count \<open>kTotalBits\<close> as an argument of every
  operation.  Bit indices below \<open>kTotalBits\<close> are the ones the class may be used with; an index past the array is undefined
  behaviour in C++ and is excluded by the hypotheses below.  The invariant \<open>bitset_ok\<close> says that the array has
  \<open>kUnits\<close> units and that the padding bits of the last unit stay clear; it is what makes
  \<open>all\<close> and \<open>count\<close> exact.  The locale \<open>flag_array\<close> is the contract that \<open>Table\<close> relies on.
\<close>

section \<open>Definitions\<close>

definition ChooseUnitBitsForBitSet :: "nat \<Rightarrow> nat" where
  "ChooseUnitBitsForBitSet total_bits =
     (if total_bits \<le> 8 then 8
      else if total_bits \<le> 16 then 16
      else if total_bits \<le> 24 then 8
      else if total_bits \<le> 32 then 32
      else if total_bits \<le> 48 then 16
      else if total_bits \<le> 64 then 64
      else if total_bits \<le> 96 then 32
      else 64)"

record 'u bitset =
  units :: "'u list"

definition kUnits :: "nat \<Rightarrow> nat \<Rightarrow> nat" where
  "kUnits kTotalBits kUnitBits = (kTotalBits + kUnitBits - 1) div kUnitBits"

definition BitSet_init :: "nat \<Rightarrow> 'w::len word bitset" where
  "BitSet_init kTotalBits = \<lparr>units = replicate (kUnits kTotalBits LENGTH('w)) 0\<rparr>"

definition unit_for :: "'w::len itself \<Rightarrow> nat \<Rightarrow> nat" where
  "unit_for _ i = i div LENGTH('w)"

definition mask_for :: "nat \<Rightarrow> 'w::len word" where
  "mask_for i = push_bit (i mod LENGTH('w)) 1"

definition all_ones :: "'w::len word" where
  "all_ones = NOT 0"

definition n_ones :: "nat \<Rightarrow> 'w::len word" where
  "n_ones n = (if n = LENGTH('w) then all_ones else push_bit n 1 - 1)"

definition BitSet_set :: "nat \<Rightarrow> 'w::len word bitset \<Rightarrow> 'w word bitset" where
  "BitSet_set i s =
     (let u = unit_for TYPE('w) i in s\<lparr>units := (units s)[u := units s ! u OR mask_for i]\<rparr>)"

definition BitSet_clear :: "nat \<Rightarrow> 'w::len word bitset \<Rightarrow> 'w word bitset" where
  "BitSet_clear i s =
     (let u = unit_for TYPE('w) i in s\<lparr>units := (units s)[u := units s ! u AND NOT (mask_for i)]\<rparr>)"

definition BitSet_set_to :: "nat \<Rightarrow> bool \<Rightarrow> 'w::len word bitset \<Rightarrow> 'w word bitset" where
  "BitSet_set_to i is_set s = (if is_set then BitSet_set i s else BitSet_clear i s)"

definition BitSet_is_set :: "'w::len word bitset \<Rightarrow> nat \<Rightarrow> bool" where
  "BitSet_is_set s i \<longleftrightarrow> units s ! unit_for TYPE('w) i AND mask_for i \<noteq> 0"

definition BitSet_all :: "nat \<Rightarrow> 'w::len word bitset \<Rightarrow> bool" where
  "BitSet_all kTotalBits s =
     (let n = kUnits kTotalBits LENGTH('w) in
      if kTotalBits mod LENGTH('w) = 0
      then list_all (\<lambda>i. units s ! i = all_ones) [0..<n]
      else list_all (\<lambda>i. units s ! i = all_ones) [0..<n - 1]
           \<and> units s ! (n - 1) = n_ones (kTotalBits mod LENGTH('w)))"

definition BitSet_none :: "nat \<Rightarrow> 'w::len word bitset \<Rightarrow> bool" where
  "BitSet_none kTotalBits s =
     list_all (\<lambda>i. units s ! i = 0) [0..<kUnits kTotalBits LENGTH('w)]"

definition BitSet_count :: "nat \<Rightarrow> 'w::len word bitset \<Rightarrow> u32" where
  "BitSet_count kTotalBits s =
     foldl (\<lambda>c i. c + BitCount (units s ! i)) 0 [0..<kUnits kTotalBits LENGTH('w)]"

definition supported_unit :: "'w::len itself \<Rightarrow> bool" where
  "supported_unit _ \<longleftrightarrow> LENGTH('w) \<in> {8, 16, 32, 64}"

definition bitset_ok :: "nat \<Rightarrow> 'w::len word bitset \<Rightarrow> bool" where
  "bitset_ok kTotalBits s \<longleftrightarrow>
     supported_unit TYPE('w) \<and> kTotalBits < 2 ^ 32 \<and>
     length (units s) = kUnits kTotalBits LENGTH('w) \<and>
     (\<forall>i. kTotalBits \<le> i \<and> i < kUnits kTotalBits LENGTH('w) * LENGTH('w) \<longrightarrow> \<not> BitSet_is_set s i)"

section \<open>Units and bits\<close>

lemma list_all_upt: "list_all P [0..<n] \<longleftrightarrow> (\<forall>i < n. P i)"
  by (auto simp: list_all_iff)

lemma unit_for_less:
  "i < kTotalBits \<Longrightarrow> unit_for TYPE('w::len) i < kUnits kTotalBits LENGTH('w)"
proof -
  assume "i < kTotalBits"
  then have "i + LENGTH('w) \<le> kTotalBits + LENGTH('w) - 1" by simp
  then have "(i + LENGTH('w)) div LENGTH('w) \<le> (kTotalBits + LENGTH('w) - 1) div LENGTH('w)"
    by (rule div_le_mono)
  then have "Suc (i div LENGTH('w)) \<le> (kTotalBits + LENGTH('w) - 1) div LENGTH('w)"
    by (simp only: div_add_self2 [OF len_not_eq_0])
  then show ?thesis by (simp add: unit_for_def kUnits_def)
qed

lemma kUnits_covers: "kTotalBits \<le> kUnits kTotalBits LENGTH('w) * LENGTH('w::len)"
proof (cases "kTotalBits = 0")
  case False
  then have "unit_for TYPE('w) (kTotalBits - 1) < kUnits kTotalBits LENGTH('w)"
    by (intro unit_for_less) simp
  then have "(kTotalBits - 1) div LENGTH('w) < kUnits kTotalBits LENGTH('w)"
    by (simp add: unit_for_def)
  then have "kTotalBits - 1 < kUnits kTotalBits LENGTH('w) * LENGTH('w)"
    by (simp add: div_less_iff_less_mult)
  with False show ?thesis by simp
qed simp

lemma BitSet_is_set_bit:
  "BitSet_is_set (s :: 'w::len word bitset) i \<longleftrightarrow> bit (units s ! (i div LENGTH('w))) (i mod LENGTH('w))"
  by (simp add: BitSet_is_set_def mask_for_def unit_for_def and_one_shift_eq_0)

lemma bit_units_is_set:
  "k < LENGTH('w) \<Longrightarrow> bit (units s ! u) k \<longleftrightarrow> BitSet_is_set (s :: 'w::len word bitset) (u * LENGTH('w) + k)"
  by (simp add: BitSet_is_set_bit)

lemma div_mod_eq_iff: "0 < (d::nat) \<Longrightarrow> i div d = j div d \<and> i mod d = j mod d \<longleftrightarrow> i = j"
  by (metis div_mod_decomp)

lemma is_set_set_to:
  assumes "i div LENGTH('w) < length (units s)"
  shows "BitSet_is_set (BitSet_set_to i b (s :: 'w::len word bitset)) j
    \<longleftrightarrow> (if j = i then b else BitSet_is_set s j)"
proof (cases "j div LENGTH('w) = i div LENGTH('w)")
  case True
  then have "j mod LENGTH('w) = i mod LENGTH('w) \<longleftrightarrow> j = i"
    using div_mod_eq_iff [of "LENGTH('w)" i j] by auto
  with True assms show ?thesis
    by (auto simp: BitSet_is_set_bit BitSet_set_to_def BitSet_set_def BitSet_clear_def Let_def
        unit_for_def mask_for_def bit_and_iff bit_or_iff bit_not_iff dest: bit_imp_le_length)
next
  case False
  with assms show ?thesis
    by (auto simp: BitSet_is_set_bit BitSet_set_to_def BitSet_set_def BitSet_clear_def Let_def
        unit_for_def)
qed

lemma length_set_to [simp]: "length (units (BitSet_set_to i b s)) = length (units s)"
  by (simp add: BitSet_set_to_def BitSet_set_def BitSet_clear_def Let_def)

lemma bitset_okD:
  assumes "bitset_ok kTotalBits (s :: 'w::len word bitset)"
  shows "length (units s) = kUnits kTotalBits LENGTH('w)"
    and "i < kTotalBits \<Longrightarrow> i div LENGTH('w) < length (units s)"
    and "LENGTH('w) \<le> 32 \<or> LENGTH('w) = 64"
    and "kTotalBits < 2 ^ 32"
  using assms unit_for_less [where 'w = 'w, of i kTotalBits]
  by (auto simp: bitset_ok_def unit_for_def supported_unit_def)

lemma bitset_ok_init:
  "supported_unit TYPE('w) \<Longrightarrow> kTotalBits < 2 ^ 32 \<Longrightarrow> bitset_ok kTotalBits (BitSet_init kTotalBits :: 'w::len word bitset)"
  by (auto simp: bitset_ok_def BitSet_init_def BitSet_is_set_bit less_mult_imp_div_less)

lemma is_set_init: "i < kTotalBits \<Longrightarrow> \<not> BitSet_is_set (BitSet_init kTotalBits :: 'w::len word bitset) i"
  using unit_for_less [where 'w = 'w, of i kTotalBits]
  by (simp add: BitSet_init_def BitSet_is_set_bit unit_for_def)

lemma bitset_ok_set_to [inv_intros]:
  "bitset_ok kTotalBits (s :: 'w::len word bitset) \<Longrightarrow> i < kTotalBits \<Longrightarrow> bitset_ok kTotalBits (BitSet_set_to i b s)"
  using bitset_okD(2) [of kTotalBits s i]
  by (auto simp: bitset_ok_def is_set_set_to)

section \<open>all, none and count against the set of set bits\<close>

text \<open>A quantifier over units and positions is a quantifier over bit indices.\<close>

lemma all_units_iff:
  fixes s :: "'w::len word bitset"
  shows "(\<forall>u < n. \<forall>k < LENGTH('w). P u k) \<longleftrightarrow>
    (\<forall>i < n * LENGTH('w). P (i div LENGTH('w)) (i mod LENGTH('w)))"
proof (intro iffI allI impI)
  fix i assume "\<forall>u < n. \<forall>k < LENGTH('w). P u k" "i < n * LENGTH('w)"
  then show "P (i div LENGTH('w)) (i mod LENGTH('w))"
    by (simp add: less_mult_imp_div_less)
next
  fix u k assume a: "\<forall>i < n * LENGTH('w). P (i div LENGTH('w)) (i mod LENGTH('w))"
    and u: "u < n" and k: "k < LENGTH('w)"
  have "u * LENGTH('w) + k < Suc u * LENGTH('w)" using k by simp
  also have "\<dots> \<le> n * LENGTH('w)" using u by (intro mult_le_mono1) simp
  finally show "P u k" using a k by (metis div_mult_self3 div_less add.right_neutral len_gt_0
      mod_less mod_mult_self3 not_gr_zero)
qed

lemma BitSet_none_iff:
  assumes "bitset_ok kTotalBits (s :: 'w::len word bitset)"
  shows "BitSet_none kTotalBits s \<longleftrightarrow> (\<forall>i < kTotalBits. \<not> BitSet_is_set s i)"
proof -
  have "BitSet_none kTotalBits s \<longleftrightarrow>
     (\<forall>u < kUnits kTotalBits LENGTH('w). \<forall>k < LENGTH('w). \<not> bit (units s ! u) k)"
    by (auto simp: BitSet_none_def list_all_iff word_eq_all_bits)
  also have "\<dots> \<longleftrightarrow> (\<forall>i < kUnits kTotalBits LENGTH('w) * LENGTH('w). \<not> BitSet_is_set s i)"
    unfolding all_units_iff [where 'w = 'w] BitSet_is_set_bit ..
  also have "\<dots> \<longleftrightarrow> (\<forall>i < kTotalBits. \<not> BitSet_is_set s i)"
    using assms kUnits_covers [where 'w = 'w, of kTotalBits]
    by (meson bitset_ok_def le_less_linear less_le_trans)
  finally show ?thesis .
qed

lemma bit_n_ones: "n < LENGTH('w) \<Longrightarrow> k < LENGTH('w) \<Longrightarrow> bit (n_ones n :: 'w::len word) k \<longleftrightarrow> k < n"
  by (simp add: n_ones_def flip: mask_eq_exp_minus_1) (simp add: bit_mask_iff)

lemma kUnits_partial:
  assumes "kTotalBits mod LENGTH('w) \<noteq> 0"
  shows "kUnits kTotalBits LENGTH('w::len) = Suc (kTotalBits div LENGTH('w))"
proof -
  have "kTotalBits + LENGTH('w) - 1
      = (kTotalBits mod LENGTH('w) - 1) + Suc (kTotalBits div LENGTH('w)) * LENGTH('w)"
    using assms div_mult_mod_eq [of kTotalBits "LENGTH('w)"] by simp
  moreover have "(kTotalBits mod LENGTH('w) - 1) div LENGTH('w) = 0"
    by (simp add: less_imp_diff_less)
  ultimately show ?thesis
    unfolding kUnits_def by (metis add.commute add.right_neutral div_mult_self2 len_not_eq_0 mult.commute)
qed

lemma kUnits_exact:
  "kTotalBits mod LENGTH('w) = 0 \<Longrightarrow> kUnits kTotalBits LENGTH('w::len) * LENGTH('w) = kTotalBits"
proof -
  assume "kTotalBits mod LENGTH('w) = 0"
  then obtain q where q: "kTotalBits = q * LENGTH('w)" by (metis mod_0_imp_dvd dvd_div_mult_self)
  have "q * LENGTH('w) + LENGTH('w) - 1 = (LENGTH('w) - 1) + q * LENGTH('w)"
    by (simp add: Suc_leI)
  then have "kUnits kTotalBits LENGTH('w) = q"
    unfolding kUnits_def q by (metis add.right_neutral div_less div_mult_self3 len_not_eq_0
        diff_less len_gt_0 zero_less_one add.commute)
  with q show ?thesis by simp
qed

lemma BitSet_all_iff:
  assumes ok: "bitset_ok kTotalBits (s :: 'w::len word bitset)"
  shows "BitSet_all kTotalBits s \<longleftrightarrow> (\<forall>i < kTotalBits. BitSet_is_set s i)"
proof -
  have full: "(\<forall>u < n. units s ! u = all_ones) \<longleftrightarrow> (\<forall>i < n * LENGTH('w). BitSet_is_set s i)" for n
    unfolding BitSet_is_set_bit
      all_units_iff [where 'w = 'w and P = "\<lambda>u k. bit (units s ! u) k", symmetric]
    by (auto simp: word_eq_all_bits all_ones_def)
  show ?thesis
  proof (cases "kTotalBits mod LENGTH('w) = 0")
    case True
    then show ?thesis
      using full [of "kUnits kTotalBits LENGTH('w)"]
      by (simp add: BitSet_all_def list_all_upt kUnits_exact [where 'w = 'w])
  next
    case False
    let ?q = "kTotalBits div LENGTH('w)" and ?r = "kTotalBits mod LENGTH('w)"
    have pad: "\<not> BitSet_is_set s (?q * LENGTH('w) + k)" if "?r \<le> k" "k < LENGTH('w)" for k
    proof -
      have "kTotalBits \<le> ?q * LENGTH('w) + k"
        using that div_mult_mod_eq [of kTotalBits "LENGTH('w)"] by linarith
      with ok that show ?thesis by (simp add: bitset_ok_def kUnits_partial [OF False])
    qed
    have "units s ! ?q = n_ones ?r \<longleftrightarrow> (\<forall>k < ?r. BitSet_is_set s (?q * LENGTH('w) + k))"
      by (simp add: word_eq_all_bits bit_n_ones bit_units_is_set)
        (meson len_gt_0 less_trans linorder_not_less mod_less_divisor pad)
    moreover have "(\<forall>i < kTotalBits. BitSet_is_set s i) \<longleftrightarrow>
      (\<forall>i < ?q * LENGTH('w). BitSet_is_set s i) \<and> (\<forall>k < ?r. BitSet_is_set s (?q * LENGTH('w) + k))"
      unfolding all_less_add [symmetric] div_mult_mod_eq ..
    ultimately show ?thesis
      using full [of ?q] False
      by (simp add: BitSet_all_def list_all_upt kUnits_partial [OF False])
  qed
qed

lemma foldl_BitCount:
  assumes "LENGTH('w) \<le> 32 \<or> LENGTH('w) = 64"
  shows "foldl (\<lambda>c i. c + BitCount (f i :: 'w::len word)) c xs = c + of_nat (\<Sum>i\<leftarrow>xs. popcount (f i))"
  by (induction xs arbitrary: c) (simp_all add: BitCount_popcount [OF assms])

lemma sum_popcount_card:
  fixes s :: "'w::len word bitset"
  shows "(\<Sum>u\<leftarrow>[0..<n]. popcount (units s ! u)) = card {i. i < n * LENGTH('w) \<and> BitSet_is_set s i}"
proof (induction n)
  case 0
  then show ?case by simp
next
  case (Suc n)
  let ?A = "{i. i < n * LENGTH('w) \<and> BitSet_is_set s i}"
  let ?B = "(\<lambda>k. n * LENGTH('w) + k) ` {k. k < LENGTH('w) \<and> bit (units s ! n) k}"
  have "{i. i < Suc n * LENGTH('w) \<and> BitSet_is_set s i} = ?A \<union> ?B"
  proof (intro set_eqI iffI)
    fix i assume i: "i \<in> {i. i < Suc n * LENGTH('w) \<and> BitSet_is_set s i}"
    show "i \<in> ?A \<union> ?B"
    proof (cases "i < n * LENGTH('w)")
      case False
      with i have "i = n * LENGTH('w) + (i - n * LENGTH('w))" "i - n * LENGTH('w) < LENGTH('w)" by auto
      with i show ?thesis by (auto simp: image_iff bit_units_is_set)
    qed (use i in simp)
  qed (auto simp: bit_units_is_set)
  moreover have "card ?B = popcount (units s ! n)"
    by (simp add: card_image popcount_card)
  moreover have "?A \<inter> ?B = {}" by auto
  ultimately show ?case using Suc by (simp add: card_Un_disjoint)
qed

lemma BitSet_count_card:
  assumes ok: "bitset_ok kTotalBits (s :: 'w::len word bitset)"
  shows "unat (BitSet_count kTotalBits s) = card {i. i < kTotalBits \<and> BitSet_is_set s i}"
proof -
  let ?n = "kUnits kTotalBits LENGTH('w)"
  have eq: "{i. i < ?n * LENGTH('w) \<and> BitSet_is_set s i} = {i. i < kTotalBits \<and> BitSet_is_set s i}"
    using ok kUnits_covers [where 'w = 'w, of kTotalBits]
    by (auto simp: bitset_ok_def not_less [symmetric] intro: less_le_trans)
  have "card {i. i < kTotalBits \<and> BitSet_is_set s i} \<le> card {..<kTotalBits}"
    by (intro card_mono) auto
  then have "card {i. i < kTotalBits \<and> BitSet_is_set s i} < 2 ^ 32"
    using bitset_okD(4) [OF ok] by simp
  moreover have "BitSet_count kTotalBits s = of_nat (card {i. i < kTotalBits \<and> BitSet_is_set s i})"
    unfolding BitSet_count_def foldl_BitCount [OF bitset_okD(3) [OF ok]] sum_popcount_card eq by simp
  ultimately show ?thesis by (simp add: unat_of_nat)
qed

section \<open>The contract of a flag array\<close>

locale flag_array =
  fixes n :: nat
    and put :: "nat \<Rightarrow> bool \<Rightarrow> 's \<Rightarrow> 's"
    and test :: "'s \<Rightarrow> nat \<Rightarrow> bool"
    and total :: "'s \<Rightarrow> nat"
    and ok :: "'s \<Rightarrow> bool"
  assumes ok_put: "ok s \<Longrightarrow> i < n \<Longrightarrow> ok (put i b s)"
    and test_put: "ok s \<Longrightarrow> i < n \<Longrightarrow> j < n \<Longrightarrow> test (put i b s) j \<longleftrightarrow> (if j = i then b else test s j)"
    and total_card: "ok s \<Longrightarrow> total s = card {i. i < n \<and> test s i}"
begin

lemma total_le: "ok s \<Longrightarrow> total s \<le> n"
  using card_mono [of "{..<n}" "{i. i < n \<and> test s i}"] by (auto simp: total_card)

lemma total_put:
  assumes "ok s" "i < n"
  shows "total (put i b s) + of_bool (test s i) = total s + of_bool b"
proof -
  let ?rest = "{j. j < n \<and> j \<noteq> i \<and> test s j}"
  have split: "{j. j < n \<and> test t j} = (if test t i then insert i ?rest else ?rest)"
    if "\<And>j. j < n \<Longrightarrow> j \<noteq> i \<Longrightarrow> test t j = test s j" for t
    using that assms by auto
  have "card {j. j < n \<and> test (put i b s) j} = card ?rest + of_bool b"
    by (subst split) (use assms in \<open>simp_all add: test_put\<close>)
  moreover have "card {j. j < n \<and> test s j} = card ?rest + of_bool (test s i)"
    by (subst split) simp_all
  ultimately show ?thesis using assms by (simp add: total_card ok_put)
qed

lemma total_eq_0: "ok s \<Longrightarrow> total s = 0 \<longleftrightarrow> (\<forall>i < n. \<not> test s i)"
  by (auto simp: total_card)

lemma total_eq_n: "ok s \<Longrightarrow> total s = n \<longleftrightarrow> (\<forall>i < n. test s i)"
proof
  assume "ok s" "total s = n"
  then have "{i. i < n \<and> test s i} = {..<n}"
    by (intro card_subset_eq) (auto simp: total_card)
  then show "\<forall>i < n. test s i" by auto
next
  assume "ok s" "\<forall>i < n. test s i"
  then have "{i. i < n \<and> test s i} = {..<n}" by auto
  with \<open>ok s\<close> show "total s = n" by (simp add: total_card)
qed

end

interpretation bs: flag_array kTotalBits BitSet_set_to BitSet_is_set
    "\<lambda>s. unat (BitSet_count kTotalBits s)" "bitset_ok kTotalBits" for kTotalBits
  by unfold_locales
    (auto simp: bitset_ok_set_to is_set_set_to bitset_okD(2) BitSet_count_card)

section \<open>Runs of a bit set\<close>

definition bitset_step :: "nat \<times> bool \<Rightarrow> 'w::len word bitset \<Rightarrow> 'w word bitset option" where
  "bitset_step p s = Some (BitSet_set_to (fst p) (snd p) s)"

definition flag_step :: "nat \<times> bool \<Rightarrow> nat set \<Rightarrow> nat set" where
  "flag_step p A = (if snd p then insert (fst p) A else A - {fst p})"

definition bitset_members :: "nat \<Rightarrow> 'w::len word bitset \<Rightarrow> nat set" where
  "bitset_members n s = {i. i < n \<and> BitSet_is_set s i}"

interpretation bsr: refinement bitset_step flag_step "\<lambda>p _. fst p < kTotalBits"
    "bitset_members kTotalBits" "bitset_ok kTotalBits" for kTotalBits
  by unfold_locales (auto simp: bitset_step_def flag_step_def bitset_members_def bitset_ok_set_to bs.test_put split: if_splits)

lemma bitset_members_queries:
  assumes "bitset_ok n (s :: 'w::len word bitset)"
  shows "unat (BitSet_count n s) = card (bitset_members n s)"
    and "BitSet_all n s \<longleftrightarrow> bitset_members n s = {..<n}"
    and "BitSet_none n s \<longleftrightarrow> bitset_members n s = {}"
  by (auto simp: BitSet_count_card [OF assms] BitSet_all_iff [OF assms] BitSet_none_iff [OF assms] bitset_members_def)

text \<open>C12: After any sequence of \<open>set(i, b)\<close> calls with indices below \<open>kTotalBits\<close> on a fresh \<open>BitSet\<close>, the bits that
  \<open>is_set\<close> reports are exactly those of the set built by the same insertions and removals, \<open>count()\<close> is its cardinality (through the
  bit-twiddling \<open>BitCount\<close>), \<open>all()\<close> holds exactly when every index is in it and \<open>none()\<close> when it is empty.\<close>

theorem bitset_run_exact:
  fixes n :: nat
  assumes "supported_unit TYPE('w::len)" "n < 2 ^ 32" "list_all (\<lambda>p. fst p < n) ops"
  shows "\<exists>s :: 'w word bitset. fold_opt bitset_step ops (BitSet_init n) = Some s \<and>
    (\<forall>i < n. BitSet_is_set s i \<longleftrightarrow> i \<in> fold flag_step ops {}) \<and>
    unat (BitSet_count n s) = card (fold flag_step ops {}) \<and>
    (BitSet_all n s \<longleftrightarrow> fold flag_step ops {} = {..<n}) \<and>
    (BitSet_none n s \<longleftrightarrow> fold flag_step ops {} = {})"
proof -
  have v: "valid_run (\<lambda>p _. fst p < n) flag_step ops A" for A
    using assms(3) by (induction ops arbitrary: A) auto
  have "bitset_members n (BitSet_init n :: 'w word bitset) = {}"
    using is_set_init by (auto simp: bitset_members_def)
  then obtain s :: "'w word bitset" where s: "fold_opt bitset_step ops (BitSet_init n) = Some s" "bitset_ok n s"
      "bitset_members n s = fold flag_step ops {}"
    using bsr.run_ok [OF bitset_ok_init [OF assms(1,2)] v] by auto
  then show ?thesis
    using bitset_members_queries [OF s(2)] by (intro exI [of _ s]) (auto simp: bitset_members_def)
qed

theorem bitset_run_exact_witness:
  "\<exists>s :: 8 word bitset. fold_opt bitset_step [(3, True), (9, True), (3, False)] (BitSet_init 10) = Some s \<and>
    unat (BitSet_count 10 s) = 1"
  using bitset_run_exact [where 'w = 8 and n = 10 and ops = "[(3, True), (9, True), (3, False)]"]
  by (auto simp: supported_unit_def flag_step_def)

end
