(* ===== verification/Table.thy ===== *)
theory Table
  imports Bit_Set
begin

text \<open>
  \<open>Table<Ts...>\<close> of \<^verbatim>\<open>src/core/lib/gprpp/table.h\<close>: a tuple of optional values whose presence bits
  are packed in a \<open>BitSet\<close>.  The element memory is manually managed in the source, so a cell of the model is
  \<open>Raw\<close> (no object alive) or \<open>Live v\<close>; placement new on a live cell and assignment to, destruction
  of or a read from a raw cell are faults (\<open>None\<close>).  The types of the pack are values of a type \<open>'t\<close> and
  the elements share one value type \<open>'v\<close>.  The theorems show that no operation faults, that the
  presence bits always agree with the cells, and that the operations are those of a finite map.
\<close>

section \<open>Type-level helpers\<close>

fun CountIncluded :: "'t \<Rightarrow> 't list \<Rightarrow> nat" where
  "CountIncluded needle [] = 0"
| "CountIncluded needle (straw # rest) = of_bool (needle = straw) + CountIncluded needle rest"

fun IndexOfStruct :: "'t \<Rightarrow> 't list \<Rightarrow> nat option" where
  "IndexOfStruct needle [] = None"
| "IndexOfStruct needle (straw # rest) =
     (if needle = straw then Some 0 else map_option Suc (IndexOfStruct needle rest))"

text \<open>\<open>None\<close> is the compile-time error of \<open>enable_if_t\<close>.\<close>

definition IndexOf :: "'t \<Rightarrow> 't list \<Rightarrow> nat option" where
  "IndexOf needle haystack = (if CountIncluded needle haystack = 1 then IndexOfStruct needle haystack else None)"

fun TypeIndex :: "nat \<Rightarrow> 't list \<Rightarrow> 't option" where
  "TypeIndex i [] = None"
| "TypeIndex 0 (t # ts) = Some t"
| "TypeIndex (Suc i) (t # ts) = TypeIndex i ts"

section \<open>The table\<close>

datatype 'v cell = Raw | Live 'v

record ('u, 'v) table =
  present_bits :: "'u bitset"
  elements :: "'v cell list"

definition Table_init :: "nat \<Rightarrow> ('w::len word, 'v) table" where
  "Table_init n = \<lparr>present_bits = BitSet_init n, elements = replicate n Raw\<rparr>"

fun read_cell :: "'v cell \<Rightarrow> 'v crashable" where
  "read_cell Raw = None"
| "read_cell (Live v) = Some v"

definition construct_at :: "nat \<Rightarrow> 'v \<Rightarrow> ('u, 'v) table \<Rightarrow> ('u, 'v) table crashable" where
  "construct_at i v t =
     (case elements t ! i of Raw \<Rightarrow> Some (t\<lparr>elements := (elements t)[i := Live v]\<rparr>) | Live _ \<Rightarrow> None)"

definition assign_at :: "nat \<Rightarrow> 'v \<Rightarrow> ('u, 'v) table \<Rightarrow> ('u, 'v) table crashable" where
  "assign_at i v t =
     (case elements t ! i of Raw \<Rightarrow> None | Live _ \<Rightarrow> Some (t\<lparr>elements := (elements t)[i := Live v]\<rparr>))"

definition destroy_at :: "nat \<Rightarrow> ('u, 'v) table \<Rightarrow> ('u, 'v) table crashable" where
  "destroy_at i t =
     (case elements t ! i of Raw \<Rightarrow> None | Live _ \<Rightarrow> Some (t\<lparr>elements := (elements t)[i := Raw]\<rparr>))"

definition Table_has :: "nat \<Rightarrow> ('w::len word, 'v) table \<Rightarrow> bool" where
  "Table_has i t = BitSet_is_set (present_bits t) i"

definition set_present :: "nat \<Rightarrow> bool \<Rightarrow> ('w::len word, 'v) table \<Rightarrow> bool \<times> ('w word, 'v) table" where
  "set_present i val t =
     (BitSet_is_set (present_bits t) i, t\<lparr>present_bits := BitSet_set_to i val (present_bits t)\<rparr>)"

text \<open>\<open>Some None\<close> is the null pointer.\<close>

definition Table_get :: "nat \<Rightarrow> ('w::len word, 'v) table \<Rightarrow> 'v option crashable" where
  "Table_get i t = (if Table_has i t then map_option Some (read_cell (elements t ! i)) else Some None)"

definition Table_get_or_create ::
    "nat \<Rightarrow> 'v \<Rightarrow> ('w::len word, 'v) table \<Rightarrow> ('v \<times> ('w word, 'v) table) crashable" where
  "Table_get_or_create i dflt t =
     (let (was, t1) = set_present i True t in
      case (if was then Some t1 else construct_at i dflt t1) of
        None \<Rightarrow> None
      | Some t2 \<Rightarrow> map_option (\<lambda>v. (v, t2)) (read_cell (elements t2 ! i)))"

definition Table_set :: "nat \<Rightarrow> 'v \<Rightarrow> ('w::len word, 'v) table \<Rightarrow> ('w word, 'v) table crashable" where
  "Table_set i v t =
     (let (was, t') = set_present i True t in
      if was then assign_at i v t' else construct_at i v t')"

definition Table_clear :: "nat \<Rightarrow> ('w::len word, 'v) table \<Rightarrow> ('w word, 'v) table crashable" where
  "Table_clear i t =
     (let (was, t') = set_present i False t in if was then destroy_at i t' else Some t')"

definition Table_count :: "nat \<Rightarrow> ('w::len word, 'v) table \<Rightarrow> nat" where
  "Table_count n t = unat (BitSet_count n (present_bits t))"

definition CopyIf ::
    "bool \<Rightarrow> ('w::len word, 'v) table \<Rightarrow> nat \<Rightarrow> ('w word, 'v) table \<Rightarrow> ('w word, 'v) table crashable" where
  "CopyIf or_clear rhs i t =
     (case Table_get i rhs of
        None \<Rightarrow> None
      | Some (Some p) \<Rightarrow> Table_set i p t
      | Some None \<Rightarrow> if or_clear then Table_clear i t else Some t)"

text \<open>A moved-from value stays alive in \<open>rhs\<close>; \<open>moved\<close> is what the element type's move leaves behind.\<close>

definition MoveIf ::
    "bool \<Rightarrow> ('v \<Rightarrow> 'v) \<Rightarrow> nat \<Rightarrow> ('w::len word, 'v) table \<times> ('w word, 'v) table
      \<Rightarrow> (('w word, 'v) table \<times> ('w word, 'v) table) crashable" where
  "MoveIf or_clear moved i ts =
     (case ts of (t, rhs) \<Rightarrow>
       (case Table_get i rhs of
          None \<Rightarrow> None
        | Some (Some p) \<Rightarrow>
            (case Table_set i p t of
               None \<Rightarrow> None
             | Some t' \<Rightarrow> map_option (Pair t') (assign_at i (moved p) rhs))
        | Some None \<Rightarrow>
            map_option (\<lambda>t'. (t', rhs)) (if or_clear then Table_clear i t else Some t)))"

definition CallIf :: "('v \<Rightarrow> 's \<Rightarrow> 's) \<Rightarrow> ('w::len word, 'v) table \<Rightarrow> nat \<Rightarrow> 's \<Rightarrow> 's crashable" where
  "CallIf f t i s =
     (case Table_get i t of None \<Rightarrow> None | Some None \<Rightarrow> Some s | Some (Some p) \<Rightarrow> Some (f p s))"

definition Table_Copy ::
    "bool \<Rightarrow> nat \<Rightarrow> ('w::len word, 'v) table \<Rightarrow> ('w word, 'v) table \<Rightarrow> ('w word, 'v) table crashable" where
  "Table_Copy or_clear n rhs t = fold_opt (CopyIf or_clear rhs) [0..<n] t"

definition Table_Move ::
    "bool \<Rightarrow> ('v \<Rightarrow> 'v) \<Rightarrow> nat \<Rightarrow> ('w::len word, 'v) table \<Rightarrow> ('w word, 'v) table
      \<Rightarrow> (('w word, 'v) table \<times> ('w word, 'v) table) crashable" where
  "Table_Move or_clear moved n rhs t = fold_opt (MoveIf or_clear moved) [0..<n] (t, rhs)"

definition Table_ForEach :: "nat \<Rightarrow> ('v \<Rightarrow> 's \<Rightarrow> 's) \<Rightarrow> ('w::len word, 'v) table \<Rightarrow> 's \<Rightarrow> 's crashable" where
  "Table_ForEach n f t s = fold_opt (CallIf f t) [0..<n] s"

definition DestructIfNotNull :: "nat \<Rightarrow> ('w::len word, 'v) table \<Rightarrow> ('w word, 'v) table crashable" where
  "DestructIfNotNull i t =
     (case Table_get i t of None \<Rightarrow> None | Some None \<Rightarrow> Some t | Some (Some _) \<Rightarrow> destroy_at i t)"

definition Table_Destruct :: "nat \<Rightarrow> ('w::len word, 'v) table \<Rightarrow> ('w word, 'v) table crashable" where
  "Table_Destruct n t = fold_opt DestructIfNotNull [0..<n] t"

definition Table_copy_construct :: "nat \<Rightarrow> ('w::len word, 'v) table \<Rightarrow> ('w word, 'v) table crashable" where
  "Table_copy_construct n rhs = Table_Copy False n rhs (Table_init n)"

definition Table_copy_assign ::
    "nat \<Rightarrow> ('w::len word, 'v) table \<Rightarrow> ('w word, 'v) table \<Rightarrow> ('w word, 'v) table crashable" where
  "Table_copy_assign n rhs t = Table_Copy True n rhs t"

section \<open>Invariant and abstraction\<close>

definition table_ok :: "nat \<Rightarrow> ('w::len word, 'v) table \<Rightarrow> bool" where
  "table_ok n t \<longleftrightarrow>
     bitset_ok n (present_bits t) \<and> length (elements t) = n \<and>
     (\<forall>i < n. BitSet_is_set (present_bits t) i \<longleftrightarrow> elements t ! i \<noteq> Raw)"

definition table_map :: "('u, 'v) table \<Rightarrow> nat \<Rightarrow> 'v option" where
  "table_map t i = (if i < length (elements t) then read_cell (elements t ! i) else None)"

lemma read_cell_None [simp]: "read_cell c = None \<longleftrightarrow> c = Raw"
  by (cases c) auto

lemma cell_not_Raw [simp]: "(c \<noteq> Raw) = (\<exists>v. c = Live v)"
  by (cases c) auto

lemma read_cell_Some [simp]: "read_cell c = Some v \<longleftrightarrow> c = Live v"
  by (cases c) auto

lemma table_okD:
  assumes "table_ok n t"
  shows "bitset_ok n (present_bits t)" "length (elements t) = n"
    and "i < n \<Longrightarrow> BitSet_is_set (present_bits t) i \<longleftrightarrow> elements t ! i \<noteq> Raw"
  using assms by (auto simp: table_ok_def)

lemma table_ok_init:
  "supported_unit TYPE('w) \<Longrightarrow> n < 2 ^ 32 \<Longrightarrow> table_ok n (Table_init n :: ('w::len word, 'v) table)"
  by (simp add: table_ok_def Table_init_def bitset_ok_init is_set_init)

lemma table_map_init [simp]: "table_map (Table_init n) = Map.empty"
  by (auto simp: table_map_def Table_init_def)

lemma table_map_dom: "table_ok n t \<Longrightarrow> dom (table_map t) = {i. i < n \<and> BitSet_is_set (present_bits t) i}"
  by (auto simp: table_map_def table_ok_def split: if_splits)

text \<open>Writing a cell together with its presence bit keeps the invariant and updates the map.\<close>

lemma table_write:
  fixes t :: "('w::len word, 'v) table" and c :: "'v cell"
  assumes "table_ok n t" "i < n"
  defines "t' \<equiv> t\<lparr>present_bits := BitSet_set_to i (c \<noteq> Raw) (present_bits t), elements := (elements t)[i := c]\<rparr>"
  shows "table_ok n t'" "table_map t' = (table_map t)(i := read_cell c)"
proof -
  show "table_ok n t'"
    using assms by (auto simp: table_ok_def nth_list_update bs.ok_put bs.test_put)
  show "table_map t' = (table_map t)(i := read_cell c)"
    using assms by (auto simp: table_map_def table_ok_def fun_eq_iff)
qed

section \<open>Functional behaviour\<close>

lemma Table_get_ok: "table_ok n t \<Longrightarrow> i < n \<Longrightarrow> Table_get i t = Some (table_map t i)"
  by (cases "elements t ! i") (auto simp: Table_get_def Table_has_def table_map_def table_ok_def)

lemma Table_has_ok: "table_ok n t \<Longrightarrow> i < n \<Longrightarrow> Table_has i t \<longleftrightarrow> table_map t i \<noteq> None"
  by (auto simp: Table_has_def table_map_def table_ok_def)

lemma Table_set_ok:
  assumes "table_ok n t" "i < n"
  shows "\<exists>t'. Table_set i v t = Some t' \<and> table_ok n t' \<and> table_map t' = (table_map t)(i \<mapsto> v)"
  using table_write [OF assms, of "Live v"] table_okD(3) [OF assms]
  by (cases "elements t ! i")
    (auto simp: Table_set_def set_present_def assign_at_def construct_at_def split: cell.splits)

lemma Table_clear_ok:
  assumes "table_ok n t" "i < n"
  shows "\<exists>t'. Table_clear i t = Some t' \<and> table_ok n t' \<and> table_map t' = (table_map t)(i := None)"
  using table_write [OF assms, of Raw] table_okD(3) [OF assms] list_update_id [of "elements t" i]
  by (cases "elements t ! i")
    (auto simp: Table_clear_def set_present_def destroy_at_def split: cell.splits)

lemma Table_get_or_create_ok:
  assumes "table_ok n t" "i < n"
  shows "\<exists>t'. Table_get_or_create i d t = Some (case table_map t i of None \<Rightarrow> d | Some v \<Rightarrow> v, t') \<and>
    table_ok n t' \<and> table_map t' = (table_map t)(i \<mapsto> case table_map t i of None \<Rightarrow> d | Some v \<Rightarrow> v)"
proof (cases "elements t ! i")
  case Raw
  then show ?thesis
    using table_write [OF assms, of "Live d"] table_okD [OF assms(1)] assms(2)
    by (auto simp: Table_get_or_create_def set_present_def construct_at_def table_map_def)
next
  case (Live v)
  then have "(elements t)[i := Live v] = elements t" by (metis list_update_id)
  with Live show ?thesis
    using table_write [OF assms, of "Live v"] table_okD [OF assms(1)] assms(2)
    by (auto simp: Table_get_or_create_def set_present_def table_map_def)
qed

lemma Table_count_ok: "table_ok n t \<Longrightarrow> Table_count n t = card (dom (table_map t))"
  using bs.total_card [OF table_okD(1)] by (simp add: Table_count_def table_map_dom)

section \<open>A store of optional slots\<close>

locale slot_store =
  fixes n :: nat
    and put :: "nat \<Rightarrow> 'v \<Rightarrow> 't \<Rightarrow> 't option"
    and del :: "nat \<Rightarrow> 't \<Rightarrow> 't option"
    and look :: "'t \<Rightarrow> nat \<Rightarrow> 'v option"
    and ok :: "'t \<Rightarrow> bool"
  assumes put_ok: "ok t \<Longrightarrow> i < n \<Longrightarrow> \<exists>t'. put i v t = Some t' \<and> ok t' \<and> look t' = (look t)(i \<mapsto> v)"
    and del_ok: "ok t \<Longrightarrow> i < n \<Longrightarrow> \<exists>t'. del i t = Some t' \<and> ok t' \<and> look t' = (look t)(i := None)"
begin

text \<open>Transferring a source slot by slot, with and without clearing the slots the source lacks.\<close>

lemma transfer_ok:
  assumes "ok t" and "\<And>i. i < n \<Longrightarrow> src i = Some (s i)"
  shows "\<exists>t'. fold_opt (\<lambda>i t. case src i of None \<Rightarrow> None | Some (Some p) \<Rightarrow> put i p t
                | Some None \<Rightarrow> if or_clear then del i t else Some t) [0..<n] t = Some t' \<and> ok t' \<and>
    look t' = (\<lambda>i. if i < n \<and> (or_clear \<or> s i \<noteq> None) then s i else look t i)"
proof -
  let ?I = "\<lambda>k t'. ok t' \<and> look t' = (\<lambda>i. if i < k \<and> (or_clear \<or> s i \<noteq> None) then s i else look t i)"
  have "\<exists>t'. fold_opt (\<lambda>i t. case src i of None \<Rightarrow> None | Some (Some p) \<Rightarrow> put i p t
                | Some None \<Rightarrow> if or_clear then del i t else Some t) [0..<n] t = Some t' \<and> ?I n t'"
  proof (rule fold_opt_upt [where I = ?I])
    show "?I 0 t" using assms(1) by simp
  next
    fix i u assume i: "i < n" and I: "?I i u"
    obtain u1 where del: "del i u = Some u1" "ok u1" "look u1 = (look u)(i := None)"
      using del_ok I i by blast
    show "\<exists>u'. (case src i of None \<Rightarrow> None | Some (Some p) \<Rightarrow> put i p u
                | Some None \<Rightarrow> if or_clear then del i u else Some u) = Some u' \<and> ?I (Suc i) u'"
    proof (cases "s i")
      case None
      show ?thesis
      proof (cases or_clear)
        case True
        with None del I assms(2) [OF i] show ?thesis by (auto simp: less_Suc_eq fun_eq_iff)
      next
        case False
        with None I assms(2) [OF i] show ?thesis by (auto simp: less_Suc_eq fun_eq_iff)
      qed
    next
      case (Some p)
      then obtain u2 where "put i p u = Some u2" "ok u2" "look u2 = (look u)(i \<mapsto> p)"
        using put_ok I i by blast
      with Some I assms(2) [OF i] show ?thesis by (auto simp: less_Suc_eq fun_eq_iff)
    qed
  qed
  then show ?thesis .
qed

end

interpretation tbl: slot_store n Table_set Table_clear table_map "table_ok n" for n
  by unfold_locales (simp_all add: Table_set_ok Table_clear_ok)

lemma table_map_outside: "table_ok n t \<Longrightarrow> \<not> i < n \<Longrightarrow> table_map t i = None"
  by (simp add: table_map_def table_ok_def)

lemma Table_Copy_ok:
  assumes "table_ok n t" "table_ok n rhs"
  shows "\<exists>t'. Table_Copy or_clear n rhs t = Some t' \<and> table_ok n t' \<and>
    table_map t' = (if or_clear then table_map rhs else table_map t ++ table_map rhs)"
proof -
  have "\<exists>t'. Table_Copy or_clear n rhs t = Some t' \<and> table_ok n t' \<and>
      table_map t' = (\<lambda>i. if i < n \<and> (or_clear \<or> table_map rhs i \<noteq> None) then table_map rhs i else table_map t i)"
    unfolding Table_Copy_def CopyIf_def
    by (rule tbl.transfer_ok) (use assms Table_get_ok in auto)
  moreover have "(\<lambda>i. if i < n \<and> (or_clear \<or> table_map rhs i \<noteq> None) then table_map rhs i else table_map t i)
      = (if or_clear then table_map rhs else table_map t ++ table_map rhs)"
    using table_map_outside [OF assms(1)] table_map_outside [OF assms(2)]
    by (fastforce simp: fun_eq_iff map_add_def split: option.splits)
  ultimately show ?thesis by simp
qed

lemma Table_ForEach_ok:
  assumes "table_ok n t"
  shows "Table_ForEach n f t s = Some (fold f (List.map_filter (table_map t) [0..<n]) s)"
proof -
  have "\<exists>s'. fold_opt (CallIf f t) [0..<n] s = Some s' \<and> s' = fold f (List.map_filter (table_map t) [0..<n]) s"
    by (rule fold_opt_upt)
      (auto simp: CallIf_def Table_get_ok [OF assms] map_filter_def split: option.splits)
  then show ?thesis by (simp add: Table_ForEach_def)
qed

lemma Table_Destruct_ok:
  fixes t :: "('w::len word, 'v) table"
  assumes "table_ok n t"
  shows "\<exists>t'. Table_Destruct n t = Some t' \<and> elements t' = replicate n Raw"
proof -
  let ?I = "\<lambda>k (t' :: ('w word, 'v) table). present_bits t' = present_bits t \<and> length (elements t') = n \<and>
    (\<forall>i < n. elements t' ! i = (if i < k then Raw else elements t ! i))"
  have "\<exists>t'. fold_opt DestructIfNotNull [0..<n] t = Some t' \<and> ?I n t'"
  proof (rule fold_opt_upt [where I = ?I])
    show "?I 0 t" using assms by (simp add: table_ok_def)
    fix i u assume i: "i < n" and I: "?I i u"
    have u: "elements u ! i = elements t ! i" using I i by simp
    have set: "BitSet_is_set (present_bits u) i \<longleftrightarrow> elements t ! i \<noteq> Raw"
      using I table_okD(3) [OF assms i] by simp
    show "\<exists>u'. DestructIfNotNull i u = Some u' \<and> ?I (Suc i) u'"
    proof (cases "elements t ! i")
      case Raw
      then have "DestructIfNotNull i u = Some u"
        using set by (simp add: DestructIfNotNull_def Table_get_def Table_has_def)
      with Raw I show ?thesis by (auto simp: less_Suc_eq)
    next
      case (Live v)
      then have d: "DestructIfNotNull i u = Some (u\<lparr>elements := (elements u)[i := Raw]\<rparr>)"
        using set u by (simp add: DestructIfNotNull_def Table_get_def Table_has_def destroy_at_def)
      have "?I (Suc i) (u\<lparr>elements := (elements u)[i := Raw]\<rparr>)"
        using I i by (auto simp: less_Suc_eq nth_list_update)
      with d show ?thesis by (intro exI conjI) (assumption | (elim conjE, assumption))+
    qed
  qed
  then obtain t' where "Table_Destruct n t = Some t'" "length (elements t') = n"
      "\<forall>i < n. elements t' ! i = Raw"
    unfolding Table_Destruct_def by auto
  then show ?thesis by (intro exI [of _ t']) (simp add: nth_equalityI)
qed

section \<open>Moving a table\<close>

lemma assign_at_ok:
  assumes "table_ok n t" "i < n" "table_map t i = Some p"
  shows "\<exists>t'. assign_at i v t = Some t' \<and> table_ok n t' \<and> table_map t' = (table_map t)(i \<mapsto> v)"
proof -
  have "elements t ! i = Live p" using assms by (auto simp: table_map_def split: if_splits)
  with assms show ?thesis
    by (auto simp: assign_at_def table_ok_def table_map_def nth_list_update fun_eq_iff)
qed

lemma Table_Move_ok:
  fixes t rhs :: "('w::len word, 'v) table"
  assumes "table_ok n t" "table_ok n rhs"
  shows "\<exists>t' rhs'. Table_Move True moved n rhs t = Some (t', rhs') \<and> table_ok n t' \<and> table_ok n rhs' \<and>
    table_map t' = table_map rhs \<and> table_map rhs' = map_option moved \<circ> table_map rhs"
proof -
  let ?I = "\<lambda>k (ts :: ('w word, 'v) table \<times> ('w word, 'v) table). table_ok n (fst ts) \<and> table_ok n (snd ts) \<and>
    table_map (fst ts) = (\<lambda>i. if i < k then table_map rhs i else table_map t i) \<and>
    table_map (snd ts) = (\<lambda>i. if i < k then map_option moved (table_map rhs i) else table_map rhs i)"
  have "\<exists>ts. fold_opt (MoveIf True moved) [0..<n] (t, rhs) = Some ts \<and> ?I n ts"
  proof (rule fold_opt_upt [where I = ?I])
    show "?I 0 (t, rhs)" using assms by simp
  next
    fix i ts assume i: "i < n" and I: "?I i ts"
    obtain u r where ts: "ts = (u, r)" by (cases ts)
    have get: "Table_get i r = Some (table_map rhs i)" using Table_get_ok [of n r i] I i ts by simp
    show "\<exists>ts'. MoveIf True moved i ts = Some ts' \<and> ?I (Suc i) ts'"
    proof (cases "table_map rhs i")
      case None
      obtain u1 where "Table_clear i u = Some u1" "table_ok n u1" "table_map u1 = (table_map u)(i := None)"
        using Table_clear_ok [of n u i] I i ts by auto
      with None I get ts show ?thesis by (auto simp: MoveIf_def less_Suc_eq fun_eq_iff)
    next
      case (Some p)
      obtain u1 where u1: "Table_set i p u = Some u1" "table_ok n u1" "table_map u1 = (table_map u)(i \<mapsto> p)"
        using Table_set_ok [of n u i] I i ts by auto
      obtain r1 where r1: "assign_at i (moved p) r = Some r1" "table_ok n r1"
          "table_map r1 = (table_map r)(i \<mapsto> moved p)"
        using assign_at_ok [of n r i p "moved p"] I i ts Some by auto
      have "MoveIf True moved i ts = Some (u1, r1)"
        using get Some u1(1) r1(1) ts by (simp add: MoveIf_def)
      moreover have "?I (Suc i) (u1, r1)"
        using u1 r1 I ts Some by (auto simp: less_Suc_eq fun_eq_iff)
      ultimately show ?thesis by blast
    qed
  qed
  then obtain t' r' where "Table_Move True moved n rhs t = Some (t', r')" "?I n (t', r')"
    unfolding Table_Move_def by force
  moreover have "(\<lambda>i. if i < n then table_map rhs i else table_map t i) = table_map rhs"
    "(\<lambda>i. if i < n then map_option moved (table_map rhs i) else table_map rhs i) = map_option moved \<circ> table_map rhs"
    using table_map_outside [OF assms(1)] table_map_outside [OF assms(2)] by (auto simp: fun_eq_iff)
  ultimately show ?thesis by auto
qed

section \<open>Indices of types\<close>

lemma CountIncluded_count: "CountIncluded x ts = count_list ts x"
  by (induction ts) auto

lemma IndexOf_sound: "IndexOf x ts = Some i \<Longrightarrow> i < length ts \<and> ts ! i = x \<and> TypeIndex i ts = Some x"
proof -
  have "IndexOfStruct x ts = Some i \<Longrightarrow> i < length ts \<and> ts ! i = x \<and> TypeIndex i ts = Some x"
    by (induction ts arbitrary: i) (auto split: if_splits)
  then show "IndexOf x ts = Some i \<Longrightarrow> ?thesis" by (simp add: IndexOf_def split: if_splits)
qed

lemma IndexOf_defined: "(\<exists>i. IndexOf x ts = Some i) \<longleftrightarrow> count_list ts x = 1"
proof -
  have "x \<in> set ts \<Longrightarrow> \<exists>i. IndexOfStruct x ts = Some i"
    by (induction ts) auto
  moreover have "count_list ts x = 1 \<Longrightarrow> x \<in> set ts"
    by (metis count_list_0_iff zero_neq_one)
  ultimately show ?thesis by (auto simp: IndexOf_def CountIncluded_count)
qed

section \<open>Runs of a table\<close>

datatype 'v table_op = TSet nat 'v | TClear nat | TGetOrCreate nat 'v

fun table_step :: "'v table_op \<Rightarrow> ('w::len word, 'v) table \<Rightarrow> ('w word, 'v) table option" where
  "table_step (TSet i v) t = Table_set i v t"
| "table_step (TClear i) t = Table_clear i t"
| "table_step (TGetOrCreate i d) t = map_option snd (Table_get_or_create i d t)"

fun map_step :: "'v table_op \<Rightarrow> (nat \<rightharpoonup> 'v) \<Rightarrow> (nat \<rightharpoonup> 'v)" where
  "map_step (TSet i v) m = m(i \<mapsto> v)"
| "map_step (TClear i) m = m(i := None)"
| "map_step (TGetOrCreate i d) m = m(i \<mapsto> case m i of None \<Rightarrow> d | Some v \<Rightarrow> v)"

fun op_slot :: "'v table_op \<Rightarrow> nat" where
  "op_slot (TSet i v) = i" | "op_slot (TClear i) = i" | "op_slot (TGetOrCreate i d) = i"

lemma table_step_ok:
  "table_ok n t \<Longrightarrow> op_slot x < n \<Longrightarrow>
   \<exists>t'. table_step x t = Some t' \<and> table_ok n t' \<and> table_map t' = map_step x (table_map t)"
  using Table_set_ok [of n t] Table_clear_ok [of n t] Table_get_or_create_ok [of n t]
  by (cases x) fastforce+

interpretation tblr: refinement table_step map_step "\<lambda>x _. op_slot x < n" table_map "table_ok n" for n
  by unfold_locales (rule table_step_ok)

text \<open>C15: Any sequence of \<open>set\<close>, \<open>clear\<close> and \<open>get_or_create\<close> calls on a fresh \<open>Table\<close> of \<open>n\<close> slots runs without constructing over a
  live element, assigning to, destroying or reading a dead one, and afterwards \<open>get\<close>, \<open>has\<close> and \<open>count\<close> answer as the finite map
  built by the same updates.\<close>

theorem table_run_exact:
  fixes n :: nat
  assumes "supported_unit TYPE('w::len)" "n < 2 ^ 32" "list_all (\<lambda>x. op_slot x < n) ops"
  shows "\<exists>t :: ('w word, 'v) table. fold_opt table_step ops (Table_init n) = Some t \<and>
    (\<forall>i < n. Table_get i t = Some (fold map_step ops Map.empty i) \<and>
             (Table_has i t \<longleftrightarrow> fold map_step ops Map.empty i \<noteq> None)) \<and>
    Table_count n t = card (dom (fold map_step ops Map.empty))"
proof -
  have v: "valid_run (\<lambda>x _. op_slot x < n) map_step ops m" for m
    using assms(3) by (induction ops arbitrary: m) auto
  obtain t :: "('w word, 'v) table" where t: "fold_opt table_step ops (Table_init n) = Some t" "table_ok n t"
      "table_map t = fold map_step ops Map.empty"
    using tblr.run_ok [OF table_ok_init [OF assms(1,2)] v] by auto
  then show ?thesis
    using Table_get_ok [OF t(2)] Table_has_ok [OF t(2)] Table_count_ok [OF t(2)] by (intro exI [of _ t]) simp
qed

theorem table_run_exact_witness:
  "\<exists>t :: (8 word, string) table.
     fold_opt table_step [TSet 1 ''a'', TGetOrCreate 2 ''b'', TGetOrCreate 1 ''c'', TClear 2] (Table_init 3) = Some t \<and>
     Table_get 1 t = Some (Some ''a'') \<and> Table_get 2 t = Some None \<and> Table_count 3 t = 1"
  using table_run_exact [where 'w = 8 and n = 3
      and ops = "[TSet 1 ''a'', TGetOrCreate 2 ''b'', TGetOrCreate 1 ''c'', TClear 2]"]
  by (auto simp: supported_unit_def)

text \<open>C16: Move assignment from a table leaves the target with exactly the source's contents (slots the source lacks are cleared), and
  every element of the source stays alive in its moved-from state, so both destructors then run without fault.\<close>

theorem table_move_exact:
  fixes t rhs :: "('w::len word, 'v) table"
  assumes "table_ok n t" "table_ok n rhs"
  shows "\<exists>t' rhs'. Table_Move True moved n rhs t = Some (t', rhs') \<and>
    table_map t' = table_map rhs \<and> table_map rhs' = map_option moved \<circ> table_map rhs \<and>
    (\<exists>d. Table_Destruct n t' = Some d \<and> elements d = replicate n Raw) \<and>
    (\<exists>d. Table_Destruct n rhs' = Some d \<and> elements d = replicate n Raw)"
  using Table_Move_ok [OF assms, of moved] Table_Destruct_ok by blast

theorem table_move_exact_witness:
  "\<exists>rhs t' rhs'. Table_set 1 ''a'' (Table_init 3 :: (8 word, string) table) = Some rhs \<and>
     Table_Move True (\<lambda>_. ''moved'') 3 rhs (Table_init 3) = Some (t', rhs') \<and>
     table_map t' 1 = Some ''a'' \<and> table_map rhs' 1 = Some ''moved''"
proof -
  have init: "table_ok 3 (Table_init 3 :: (8 word, string) table)"
    by (rule table_ok_init) (simp_all add: supported_unit_def)
  obtain rhs where "Table_set 1 ''a'' (Table_init 3 :: (8 word, string) table) = Some rhs" "table_ok 3 rhs"
      "table_map rhs = [1 \<mapsto> ''a'']"
    using Table_set_ok [OF init, of 1 "''a''"] by auto
  then show ?thesis using table_move_exact [OF init, of rhs "\<lambda>_. ''moved''"] by auto
qed

end
