(* ===== verification/Chunked_Vector.thy ===== *)
theory Chunked_Vector
  imports Table
begin

text \<open>
  \<open>ChunkedVector<T, kChunkSize>\<close> of \<^verbatim>\<open>src/core/lib/gprpp/chunked_vector.h\<close>.  The chain of chunks that
  starts at \<open>first_\<close> is a list, and a \<open>Chunk*\<close> into it is an index (\<open>None\<close> for the null pointer).  A slot
  is a \<open>cell\<close> as in \<open>Table\<close>, because \<open>ManualConstructor\<close> constructs and destroys in place.  A failed
  \<open>GPR_ASSERT\<close>, a null dereference, a construction over a live element and a read of a dead one are \<open>None\<close>.  The theorems
  show that the class implements a list with \<open>append\<close>, \<open>last\<close>/\<open>butlast\<close> and \<open>[]\<close>, and that iteration visits its elements in order.
\<close>

section \<open>Definitions\<close>

record 'a chunk =
  chunk_count :: nat
  chunk_data :: "'a cell list"

record 'a cvec =
  chunks :: "'a chunk list"
  append_ptr :: "nat option"

definition new_chunk :: "nat \<Rightarrow> 'a chunk" where
  "new_chunk k = \<lparr>chunk_count = 0, chunk_data = replicate k Raw\<rparr>"

definition ChunkedVector_init :: "'a cvec" where
  "ChunkedVector_init = \<lparr>chunks = [], append_ptr = None\<rparr>"

text \<open>The slot that \<open>AppendSlot\<close> returns is named by its chunk and its index in the chunk.\<close>

definition AppendSlot :: "nat \<Rightarrow> 'a cvec \<Rightarrow> ((nat \<times> nat) \<times> 'a cvec) crashable" where
  "AppendSlot k v =
     (case (case append_ptr v of
              None \<Rightarrow> if chunks v = [] then Some (v\<lparr>chunks := [new_chunk k], append_ptr := Some 0\<rparr>) else None
            | Some a \<Rightarrow>
                if a \<ge> length (chunks v) then None
                else if chunk_count (chunks v ! a) = k
                then Some (v\<lparr>chunks := chunks v @ (if Suc a = length (chunks v) then [new_chunk k] else []),
                             append_ptr := Some (Suc a)\<rparr>)
                else Some v) of
        None \<Rightarrow> None
      | Some w \<Rightarrow>
          (case append_ptr w of
             None \<Rightarrow> None
           | Some a \<Rightarrow>
               let c = chunks w ! a in
               Some ((a, chunk_count c),
                     w\<lparr>chunks := (chunks w)[a := c\<lparr>chunk_count := Suc (chunk_count c)\<rparr>]\<rparr>)))"

definition slot_init :: "nat \<times> nat \<Rightarrow> 'a \<Rightarrow> 'a cvec \<Rightarrow> 'a cvec crashable" where
  "slot_init p x v =
     (case p of (a, i) \<Rightarrow>
        let c = chunks v ! a in
        if a < length (chunks v) \<and> i < length (chunk_data c) \<and> chunk_data c ! i = Raw
        then Some (v\<lparr>chunks := (chunks v)[a := c\<lparr>chunk_data := (chunk_data c)[i := Live x]\<rparr>]\<rparr>)
        else None)"

definition EmplaceBack :: "nat \<Rightarrow> 'a \<Rightarrow> 'a cvec \<Rightarrow> 'a cvec crashable" where
  "EmplaceBack k x v = (case AppendSlot k v of None \<Rightarrow> None | Some (p, w) \<Rightarrow> slot_init p x w)"

text \<open>The walk \<open>while (chunk->next != append_) chunk = chunk->next\<close>.\<close>

function find_prev :: "nat \<Rightarrow> nat \<Rightarrow> nat \<Rightarrow> nat crashable" where
  "find_prev n a i = (if n \<le> i then None else if Suc i = a then Some i else find_prev n a (Suc i))"
  by pat_completeness auto
termination
  by (relation "measure (\<lambda>(n, a, i). n - i)") auto

declare find_prev.simps [simp del]

definition PopBack :: "'a cvec \<Rightarrow> ('a \<times> 'a cvec) crashable" where
  "PopBack v =
     (case append_ptr v of
        None \<Rightarrow> None
      | Some a0 \<Rightarrow>
          (case (if chunk_count (chunks v ! a0) = 0
                 then (if a0 = 0 then None else find_prev (length (chunks v)) a0 0)
                 else Some a0) of
             None \<Rightarrow> None
           | Some a \<Rightarrow>
               let c = chunks v ! a; l = chunk_count c - 1 in
               (case read_cell (chunk_data c ! l) of
                  None \<Rightarrow> None
                | Some x \<Rightarrow>
                    Some (x, v\<lparr>chunks := (chunks v)[a := \<lparr>chunk_count = l, chunk_data = (chunk_data c)[l := Raw]\<rparr>],
                               append_ptr := Some a\<rparr>))))"

text \<open>Destroying the first \<open>count\<close> elements of a chunk, then following the chain until an empty chunk.\<close>

fun destroy_prefix :: "nat \<Rightarrow> 'a cell list \<Rightarrow> 'a cell list crashable" where
  "destroy_prefix 0 cs = Some cs"
| "destroy_prefix (Suc n) [] = None"
| "destroy_prefix (Suc n) (Raw # cs) = None"
| "destroy_prefix (Suc n) (Live x # cs) = map_option (Cons Raw) (destroy_prefix n cs)"

fun clear_chunks :: "'a chunk list \<Rightarrow> 'a chunk list crashable" where
  "clear_chunks [] = Some []"
| "clear_chunks (c # cs) =
     (if chunk_count c = 0 then Some (c # cs)
      else case destroy_prefix (chunk_count c) (chunk_data c) of
             None \<Rightarrow> None
           | Some d \<Rightarrow> map_option (Cons \<lparr>chunk_count = 0, chunk_data = d\<rparr>) (clear_chunks cs))"

definition Clear :: "'a cvec \<Rightarrow> 'a cvec crashable" where
  "Clear v = map_option (\<lambda>cs. \<lparr>chunks = cs, append_ptr = (if cs = [] then None else Some 0)\<rparr>) (clear_chunks (chunks v))"

definition cv_size :: "'a cvec \<Rightarrow> nat" where
  "cv_size v = sum_list (map chunk_count (chunks v))"

definition Swap :: "'a cvec \<times> 'a cvec \<Rightarrow> 'a cvec \<times> 'a cvec" where
  "Swap p = (snd p, fst p)"

text \<open>The move constructor: the new vector and what is left of \<open>other\<close>.\<close>

definition move_construct :: "'a cvec \<Rightarrow> 'a cvec \<times> 'a cvec" where
  "move_construct other = (other, \<lparr>chunks = [], append_ptr = None\<rparr>)"

text \<open>An iterator is a chunk pointer and an index.\<close>

type_synonym cv_iter = "nat option \<times> nat"

definition cv_end :: cv_iter where
  "cv_end = (None, 0)"

definition cv_begin :: "'a cvec \<Rightarrow> cv_iter" where
  "cv_begin v =
     (case chunks v of [] \<Rightarrow> (None, 0)
      | c # _ \<Rightarrow> if chunk_count c = 0 then cv_end else (Some 0, 0))"

function iter_skip :: "'a cvec \<Rightarrow> cv_iter \<Rightarrow> cv_iter" where
  "iter_skip v (None, n) = (None, n)"
| "iter_skip v (Some c, n) =
     (if c < length (chunks v) \<and> n = chunk_count (chunks v ! c)
      then iter_skip v (if Suc c < length (chunks v) then Some (Suc c) else None, 0)
      else (Some c, n))"
  by pat_completeness auto
termination
  by (relation "measure (\<lambda>(v, c, n). case c of None \<Rightarrow> 0 | Some c \<Rightarrow> Suc (length (chunks v)) - c)") auto

declare iter_skip.simps(2) [simp del]

definition iter_inc :: "'a cvec \<Rightarrow> cv_iter \<Rightarrow> cv_iter" where
  "iter_inc v it = iter_skip v (fst it, Suc (snd it))"

definition iter_deref :: "'a cvec \<Rightarrow> cv_iter \<Rightarrow> 'a crashable" where
  "iter_deref v it =
     (case fst it of None \<Rightarrow> None
      | Some c \<Rightarrow> if c < length (chunks v) \<and> snd it < length (chunk_data (chunks v ! c))
                 then read_cell (chunk_data (chunks v ! c) ! snd it) else None)"

text \<open>\<open>for (it = begin(); it != end(); ++it)\<close>, with fuel.\<close>

fun iterate :: "nat \<Rightarrow> 'a cvec \<Rightarrow> cv_iter \<Rightarrow> 'a list crashable" where
  "iterate 0 v it = None"
| "iterate (Suc f) v it =
     (if it = cv_end then Some []
      else case iter_deref v it of None \<Rightarrow> None
           | Some x \<Rightarrow> map_option (Cons x) (iterate f v (iter_inc v it)))"

definition copy_construct :: "nat \<Rightarrow> nat \<Rightarrow> 'a cvec \<Rightarrow> 'a cvec crashable" where
  "copy_construct fuel k other =
     (case iterate fuel other (cv_begin other) of
        None \<Rightarrow> None
      | Some xs \<Rightarrow> fold_opt (EmplaceBack k) xs ChunkedVector_init)"

section \<open>Invariant and abstraction\<close>

definition chunk_ok :: "nat \<Rightarrow> 'a chunk \<Rightarrow> bool" where
  "chunk_ok k c \<longleftrightarrow> chunk_count c \<le> k \<and> length (chunk_data c) = k \<and>
     list_all (\<lambda>x. x \<noteq> Raw) (take (chunk_count c) (chunk_data c)) \<and>
     drop (chunk_count c) (chunk_data c) = replicate (k - chunk_count c) Raw"

definition chunk_list :: "'a chunk \<Rightarrow> 'a list" where
  "chunk_list c = List.map_filter read_cell (take (chunk_count c) (chunk_data c))"

definition cv_list :: "'a cvec \<Rightarrow> 'a list" where
  "cv_list v = concat (map chunk_list (chunks v))"

definition cv_ok :: "nat \<Rightarrow> 'a cvec \<Rightarrow> bool" where
  "cv_ok k v \<longleftrightarrow> 0 < k \<and> list_all (chunk_ok k) (chunks v) \<and>
     (case append_ptr v of
        None \<Rightarrow> chunks v = []
      | Some a \<Rightarrow> a < length (chunks v) \<and>
          list_all (\<lambda>c. chunk_count c = k) (take a (chunks v)) \<and>
          list_all (\<lambda>c. chunk_count c = 0) (drop (Suc a) (chunks v)))"

text \<open>A chunk that satisfies its invariant is its element list, laid out.\<close>

definition mk_chunk :: "nat \<Rightarrow> 'a list \<Rightarrow> 'a chunk" where
  "mk_chunk k xs = \<lparr>chunk_count = length xs, chunk_data = map Live xs @ replicate (k - length xs) Raw\<rparr>"

lemma mk_chunk_sel [simp]:
  "chunk_count (mk_chunk k xs) = length xs"
  "chunk_data (mk_chunk k xs) = map Live xs @ replicate (k - length xs) Raw"
  by (simp_all add: mk_chunk_def)

lemma map_filter_read_Live [simp]: "List.map_filter read_cell (map Live xs) = xs"
  by (induction xs) auto

lemma chunk_list_mk [simp]: "chunk_list (mk_chunk k xs) = xs"
  by (simp add: chunk_list_def)

lemma chunk_ok_mk [simp]: "chunk_ok k (mk_chunk k xs) \<longleftrightarrow> length xs \<le> k"
  by (auto simp: chunk_ok_def list_all_iff)

lemma all_Live: "list_all (\<lambda>x. x \<noteq> Raw) cs \<Longrightarrow> cs = map Live (List.map_filter read_cell cs)"
  by (induction cs) auto

lemma chunk_ok_eq_mk: "chunk_ok k c \<Longrightarrow> c = mk_chunk k (chunk_list c)"
proof -
  assume ok: "chunk_ok k c"
  have t: "take (chunk_count c) (chunk_data c) = map Live (chunk_list c)"
    using ok all_Live by (fastforce simp: chunk_ok_def chunk_list_def)
  have l: "length (chunk_list c) = chunk_count c"
    using ok arg_cong [OF t, of length] by (simp add: chunk_ok_def)
  have "chunk_data c = map Live (chunk_list c) @ replicate (k - chunk_count c) Raw"
    using ok t append_take_drop_id [of "chunk_count c" "chunk_data c"] by (simp add: chunk_ok_def)
  with l show ?thesis by (simp add: mk_chunk_def)
qed

text \<open>The shape of a well-formed vector: full chunks, the chunk being filled, empty chunks.\<close>

lemma replicate_empty_chunks:
  "list_all (chunk_ok k) cs \<Longrightarrow> list_all (\<lambda>c. chunk_count c = 0) cs \<Longrightarrow>
   cs = replicate (length cs) (mk_chunk k [])"
proof (induction cs)
  case (Cons c cs)
  then have "chunk_list c = []" by (simp add: chunk_list_def)
  with Cons chunk_ok_eq_mk [of k c] show ?case by simp
qed simp

lemma full_chunks:
  "list_all (chunk_ok k) cs \<Longrightarrow> list_all (\<lambda>c. chunk_count c = k) cs \<Longrightarrow>
   \<exists>xss. cs = map (mk_chunk k) xss \<and> list_all (\<lambda>xs. length xs = k) xss"
proof (induction cs)
  case (Cons c cs)
  then obtain xss where "cs = map (mk_chunk k) xss" "list_all (\<lambda>xs. length xs = k) xss" by auto
  moreover have "c = mk_chunk k (chunk_list c)" using Cons by (simp add: chunk_ok_eq_mk)
  moreover have "length (chunk_list c) = k" using Cons.prems calculation(3) by (metis (full_types) list.pred_inject(2) mk_chunk_sel(1))
  ultimately show ?case by (intro exI [of _ "chunk_list c # xss"]) simp
qed simp

definition mk_cvec :: "nat \<Rightarrow> 'a list list \<Rightarrow> 'a list \<Rightarrow> nat \<Rightarrow> 'a cvec" where
  "mk_cvec k xss xs e =
     \<lparr>chunks = map (mk_chunk k) xss @ mk_chunk k xs # replicate e (mk_chunk k []),
      append_ptr = Some (length xss)\<rparr>"

lemma cv_ok_mk: "0 < k \<Longrightarrow> list_all (\<lambda>xs. length xs = k) xss \<Longrightarrow> length xs \<le> k \<Longrightarrow> cv_ok k (mk_cvec k xss xs e)"
  by (auto simp: cv_ok_def mk_cvec_def list_all_iff)

lemma cv_list_mk [simp]: "cv_list (mk_cvec k xss xs e) = concat xss @ xs"
  by (simp add: cv_list_def mk_cvec_def comp_def)

lemma cv_ok_cases:
  assumes "cv_ok k v"
  obtains (empty) "v = ChunkedVector_init"
  | (mk) xss xs e where "v = mk_cvec k xss xs e" "list_all (\<lambda>xs. length xs = k) xss" "length xs \<le> k"
proof (cases "append_ptr v")
  case None
  then have "v = ChunkedVector_init" using assms by (simp add: cv_ok_def ChunkedVector_init_def)
  then show thesis by (rule empty)
next
  case (Some a)
  have ok: "list_all (chunk_ok k) (chunks v)" "a < length (chunks v)"
      "list_all (\<lambda>c. chunk_count c = k) (take a (chunks v))"
      "list_all (\<lambda>c. chunk_count c = 0) (drop (Suc a) (chunks v))"
    using assms Some by (auto simp: cv_ok_def)
  have "list_all (chunk_ok k) (take a (chunks v))" "list_all (chunk_ok k) (drop (Suc a) (chunks v))"
    and ca: "chunk_ok k (chunks v ! a)"
    using ok(1,2) by (auto simp: list_all_iff dest: in_set_takeD in_set_dropD)
  then obtain xss where xss: "take a (chunks v) = map (mk_chunk k) xss" "list_all (\<lambda>xs. length xs = k) xss"
    and es: "drop (Suc a) (chunks v) = replicate (length (drop (Suc a) (chunks v))) (mk_chunk k [])"
    using ok full_chunks replicate_empty_chunks by metis
  have len: "length xss = a" using xss(1) ok(2) by (metis length_map length_take min.absorb4)
  have "chunks v = take a (chunks v) @ chunks v ! a # drop (Suc a) (chunks v)"
    using ok(2) by (rule id_take_nth_drop)
  then have "v = mk_cvec k xss (chunk_list (chunks v ! a)) (length (drop (Suc a) (chunks v)))"
    using xss(1) es chunk_ok_eq_mk [OF ca] len Some by (simp add: mk_cvec_def)
  moreover have "length (chunk_list (chunks v ! a)) \<le> k"
    using ca chunk_ok_eq_mk [OF ca] by (metis chunk_ok_mk)
  ultimately show thesis using xss(2) mk by blast
qed

section \<open>Refinement of lists\<close>

lemma cv_ok_init: "0 < k \<Longrightarrow> cv_ok k ChunkedVector_init" "cv_list ChunkedVector_init = []"
  by (simp_all add: cv_ok_def ChunkedVector_init_def cv_list_def)

lemma new_chunk_mk: "new_chunk k = mk_chunk k []"
  by (simp add: new_chunk_def mk_chunk_def)

lemma EmplaceBack_room:
  "length xs < k \<Longrightarrow> EmplaceBack k x (mk_cvec k xss xs e) = Some (mk_cvec k xss (xs @ [x]) e)"
  by (auto simp: EmplaceBack_def AppendSlot_def slot_init_def mk_cvec_def Let_def nth_append
      list_update_append mk_chunk_def replicate_append_same Suc_diff_Suc
      simp flip: replicate_Suc) (metis Suc_diff_Suc list_update_code(2) replicate_Suc)

lemma EmplaceBack_full:
  "0 < k \<Longrightarrow> length xs = k \<Longrightarrow> EmplaceBack k x (mk_cvec k xss xs e) = Some (mk_cvec k (xss @ [xs]) [x] (e - 1))"
proof (cases e)
  case 0
  assume "0 < k" "length xs = k"
  with 0 show ?thesis
    by (cases k) (auto simp: EmplaceBack_def AppendSlot_def slot_init_def mk_cvec_def Let_def nth_append
      list_update_append mk_chunk_def new_chunk_def)
next
  case (Suc e')
  assume "0 < k" "length xs = k"
  with Suc show ?thesis
    by (cases k) (auto simp: EmplaceBack_def AppendSlot_def slot_init_def mk_cvec_def Let_def nth_append
      list_update_append mk_chunk_def)
qed

lemma EmplaceBack_first:
  "0 < k \<Longrightarrow> EmplaceBack k x ChunkedVector_init = Some (mk_cvec k [] [x] 0)"
  by (cases k) (auto simp: EmplaceBack_def AppendSlot_def slot_init_def mk_cvec_def Let_def mk_chunk_def
      ChunkedVector_init_def new_chunk_def)

lemma EmplaceBack_ok:
  assumes "cv_ok k v"
  shows "\<exists>v'. EmplaceBack k x v = Some v' \<and> cv_ok k v' \<and> cv_list v' = cv_list v @ [x]"
proof -
  have k: "0 < k" using assms by (simp add: cv_ok_def)
  from assms show ?thesis
  proof (cases rule: cv_ok_cases)
    case empty
    with k show ?thesis by (simp add: EmplaceBack_first cv_ok_mk cv_ok_init)
  next
    case (mk xss xs e)
    then show ?thesis
      using k by (cases "length xs = k") (simp_all add: EmplaceBack_full EmplaceBack_room cv_ok_mk)
  qed
qed

lemma find_prev_Suc: "i \<le> a \<Longrightarrow> Suc a < n \<Longrightarrow> find_prev n (Suc a) i = Some a"
proof (induction "a - i" arbitrary: i)
  case 0
  then show ?case by (subst find_prev.simps) simp
next
  case (Suc d)
  then show ?case by (subst find_prev.simps) simp
qed

lemma PopBack_last:
  "length xs < k \<Longrightarrow> PopBack (mk_cvec k xss (xs @ [x]) e) = Some (x, mk_cvec k xss xs e)"
  by (simp add: PopBack_def mk_cvec_def Let_def nth_append list_update_append mk_chunk_def
      Suc_diff_Suc flip: replicate_Suc)

lemma PopBack_prev:
  "k = Suc (length ys) \<Longrightarrow>
   PopBack (mk_cvec k (xss @ [ys @ [x]]) [] e) = Some (x, mk_cvec k xss ys (Suc e))"
  by (simp add: PopBack_def mk_cvec_def Let_def nth_append list_update_append mk_chunk_def
      find_prev_Suc)

lemma PopBack_ok:
  assumes "cv_ok k v" "cv_list v \<noteq> []"
  shows "\<exists>v'. PopBack v = Some (last (cv_list v), v') \<and> cv_ok k v' \<and> cv_list v' = butlast (cv_list v)"
proof -
  have k: "0 < k" using assms by (simp add: cv_ok_def)
  from assms(1) show ?thesis
  proof (cases rule: cv_ok_cases)
    case empty
    with assms show ?thesis by (simp add: cv_ok_init)
  next
    case (mk xss xs e)
    show ?thesis
    proof (cases xs rule: rev_cases)
      case (snoc zs z)
      with mk k show ?thesis by (simp add: PopBack_last cv_ok_mk butlast_append)
    next
      case Nil
      then have "xss \<noteq> []" using mk assms(2) by auto
      then obtain yss ys where yss: "xss = yss @ [ys]" by (metis rev_exhaust)
      then obtain zs z where zs: "ys = zs @ [z]" using mk(2) k by (cases ys rule: rev_cases) auto
      with mk yss have "k = Suc (length zs)" "list_all (\<lambda>xs. length xs = k) yss" by auto
      with Nil mk(1) yss zs k show ?thesis
        by (auto simp: PopBack_prev cv_ok_mk butlast_append)
    qed
  qed
qed

lemma PopBack_assert:
  assumes "cv_ok k v" "cv_list v = []"
  shows "PopBack v = None"
  using assms(1)
proof (cases rule: cv_ok_cases)
  case (mk xss xs e)
  with assms have "xs = []" "xss = []" by (cases xss; auto simp: cv_ok_def)+
  with mk show ?thesis by (simp add: PopBack_def mk_cvec_def)
qed (simp add: PopBack_def ChunkedVector_init_def)

lemma destroy_prefix_mk [simp]:
  "destroy_prefix (length xs) (map Live xs @ ys) = Some (replicate (length xs) Raw @ ys)"
  by (induction xs) auto

lemma clear_chunks_mk:
  "0 < k \<Longrightarrow> list_all (\<lambda>xs. length xs = k) xss \<Longrightarrow> length xs \<le> k \<Longrightarrow>
   clear_chunks (map (mk_chunk k) xss @ mk_chunk k xs # replicate e (mk_chunk k []))
     = Some (replicate (length xss + Suc e) (mk_chunk k []))"
proof (induction xss)
  case Nil
  have "clear_chunks (replicate e (mk_chunk k [])) = Some (replicate e (mk_chunk k []))"
    by (cases e) simp_all
  with Nil show ?case by (auto simp: mk_chunk_def simp flip: replicate_add)
next
  case (Cons ys xss)
  then show ?case using destroy_prefix_mk [of ys "[]"] by (auto simp: mk_chunk_def)
qed

lemma Clear_ok:
  assumes "cv_ok k v"
  shows "\<exists>v'. Clear v = Some v' \<and> cv_ok k v' \<and> cv_list v' = [] \<and> length (chunks v') = length (chunks v)"
proof -
  have k: "0 < k" using assms by (simp add: cv_ok_def)
  from assms show ?thesis
  proof (cases rule: cv_ok_cases)
    case empty
    with k show ?thesis by (simp add: Clear_def ChunkedVector_init_def cv_ok_def cv_list_def)
  next
    case (mk xss xs e)
    then have "Clear v = Some (mk_cvec k [] [] (length xss + e))"
      using clear_chunks_mk [OF k mk(2,3), of e] by (simp add: Clear_def mk_cvec_def)
    with k mk(1) show ?thesis by (auto simp: cv_ok_mk) (simp add: mk_cvec_def)
  qed
qed

lemma cv_size_ok:
  assumes "cv_ok k v"
  shows "cv_size v = length (cv_list v)"
  using assms
proof (cases rule: cv_ok_cases)
  case (mk xss xs e)
  then show ?thesis
    by (simp add: cv_size_def mk_cvec_def cv_list_def length_concat comp_def)
qed (simp_all add: cv_size_def ChunkedVector_init_def cv_list_def)

section \<open>Iteration\<close>

definition cv_rest :: "'a cvec \<Rightarrow> nat \<Rightarrow> nat \<Rightarrow> 'a list" where
  "cv_rest v c n = drop n (chunk_list (chunks v ! c)) @ concat (map chunk_list (drop (Suc c) (chunks v)))"

lemma length_chunk_list: "chunk_ok k c \<Longrightarrow> length (chunk_list c) = chunk_count c"
  by (metis chunk_ok_eq_mk mk_chunk_sel(1))

lemma iter_skip_cases:
  assumes ok: "list_all (chunk_ok k) (chunks v)"
  shows "c < length (chunks v) \<Longrightarrow> n \<le> chunk_count (chunks v ! c) \<Longrightarrow>
    (iter_skip v (Some c, n) = cv_end \<and> cv_rest v c n = []) \<or>
    (\<exists>c' n'. iter_skip v (Some c, n) = (Some c', n') \<and> c' < length (chunks v) \<and>
       n' < chunk_count (chunks v ! c') \<and> cv_rest v c' n' = cv_rest v c n)"
proof (induction "length (chunks v) - c" arbitrary: c n)
  case 0
  then show ?case by simp
next
  case (Suc d)
  have len: "length (chunk_list (chunks v ! c)) = chunk_count (chunks v ! c)"
    using ok Suc.prems(1) by (auto simp: list_all_iff intro!: length_chunk_list)
  show ?case
  proof (cases "n = chunk_count (chunks v ! c)")
    case False
    with Suc.prems show ?thesis by (simp add: iter_skip.simps(2))
  next
    case True
    show ?thesis
    proof (cases "Suc c < length (chunks v)")
      case False
      with True Suc.prems len show ?thesis
        by (simp add: iter_skip.simps(2) cv_end_def cv_rest_def)
    next
      case next_chunk: True
      have "cv_rest v (Suc c) 0 = cv_rest v c n"
        using True len next_chunk by (simp add: cv_rest_def Cons_nth_drop_Suc [symmetric])
      moreover have "iter_skip v (Some c, n) = iter_skip v (Some (Suc c), 0)"
        using True next_chunk by (subst iter_skip.simps(2)) simp
      ultimately show ?thesis using Suc.hyps(1) [of "Suc c" 0] Suc.hyps(2) next_chunk by simp
    qed
  qed
qed

lemma iterate_rest:
  assumes ok: "list_all (chunk_ok k) (chunks v)"
  shows "c < length (chunks v) \<Longrightarrow> n < chunk_count (chunks v ! c) \<Longrightarrow> length (cv_rest v c n) < f \<Longrightarrow>
    iterate f v (Some c, n) = Some (cv_rest v c n)"
proof (induction f arbitrary: c n)
  case 0
  then show ?case by simp
next
  case (Suc f)
  have cok: "chunk_ok k (chunks v ! c)" using ok Suc.prems(1) by (auto simp: list_all_iff)
  define xs where "xs = chunk_list (chunks v ! c)"
  have n: "n < length xs" using Suc.prems(2) length_chunk_list [OF cok] by (simp add: xs_def)
  have deref: "iter_deref v (Some c, n) = Some (xs ! n)"
    using Suc.prems(1) n chunk_ok_eq_mk [OF cok, folded xs_def]
    by (auto simp: iter_deref_def nth_append mk_chunk_def)
  have rest: "cv_rest v c n = xs ! n # cv_rest v c (Suc n)"
    using n by (simp add: cv_rest_def Cons_nth_drop_Suc [symmetric] flip: xs_def)
  have "f \<noteq> 0" using Suc.prems(3) rest by auto
  then obtain g where g: "f = Suc g" by (cases f) auto
  from iter_skip_cases [OF ok Suc.prems(1), of "Suc n"] Suc.prems(2)
  consider "iter_inc v (Some c, n) = cv_end" "cv_rest v c (Suc n) = []"
    | c' n' where "iter_inc v (Some c, n) = (Some c', n')" "c' < length (chunks v)"
        "n' < chunk_count (chunks v ! c')" "cv_rest v c' n' = cv_rest v c (Suc n)"
    by (auto simp: iter_inc_def)
  then have "iterate f v (iter_inc v (Some c, n)) = Some (cv_rest v c (Suc n))"
  proof cases
    case 1
    then show ?thesis by (simp add: g)
  next
    case (2 c' n')
    with Suc.IH [of c' n'] Suc.prems(3) rest show ?thesis by simp
  qed
  with deref rest show ?case by (simp add: cv_end_def)
qed

lemma iterate_ok:
  assumes "cv_ok k v" "length (cv_list v) < fuel"
  shows "iterate fuel v (cv_begin v) = Some (cv_list v)"
proof -
  obtain f where f: "fuel = Suc f" using assms(2) by (cases fuel) auto
  have ok: "list_all (chunk_ok k) (chunks v)" using assms(1) by (simp add: cv_ok_def)
  show ?thesis
  proof (cases "chunks v")
    case Nil
    then show ?thesis by (simp add: f cv_begin_def cv_end_def cv_list_def)
  next
    case (Cons c cs)
    show ?thesis
    proof (cases "chunk_count c = 0")
      case True
      have "cv_list v = []" using assms(1)
      proof (cases rule: cv_ok_cases)
        case (mk xss xs e)
        then show ?thesis using True Cons assms(1) by (cases xss) (auto simp: mk_cvec_def cv_ok_def cv_list_def)
      qed (simp add: cv_ok_init)
      with True Cons show ?thesis by (simp add: f cv_begin_def)
    next
      case False
      then have "cv_list v = cv_rest v 0 0" using Cons by (simp add: cv_rest_def cv_list_def)
      with iterate_rest [OF ok, of 0 0 fuel] False Cons assms(2) show ?thesis by (simp add: cv_begin_def)
    qed
  qed
qed

section \<open>The contract of a growable sequence\<close>

locale sequence =
  fixes push :: "'a \<Rightarrow> 's \<Rightarrow> 's option"
    and seq :: "'s \<Rightarrow> 'a list"
    and ok :: "'s \<Rightarrow> bool"
  assumes push_ok: "ok s \<Longrightarrow> \<exists>s'. push x s = Some s' \<and> ok s' \<and> seq s' = seq s @ [x]"
begin

lemma push_all: "ok s \<Longrightarrow> \<exists>s'. fold_opt push xs s = Some s' \<and> ok s' \<and> seq s' = seq s @ xs"
proof (induction xs arbitrary: s)
  case (Cons x xs)
  from push_ok [OF Cons.prems, of x] obtain s1 where "push x s = Some s1" "ok s1" "seq s1 = seq s @ [x]"
    by blast
  with Cons.IH [of s1] show ?case by auto
qed simp

end

text \<open>The class is a growable sequence for every chunk size.\<close>

lemma sequence_cvec: "sequence (EmplaceBack k) cv_list (cv_ok k)"
  by unfold_locales (rule EmplaceBack_ok)

interpretation cv: sequence "EmplaceBack k" cv_list "cv_ok k" for k
  by (rule sequence_cvec)

lemma copy_construct_ok:
  assumes "cv_ok k v" "length (cv_list v) < fuel"
  shows "\<exists>v'. copy_construct fuel k v = Some v' \<and> cv_ok k v' \<and> cv_list v' = cv_list v"
  using cv.push_all [OF cv_ok_init(1), of k "cv_list v"] assms iterate_ok [OF assms]
  by (auto simp: copy_construct_def cv_ok_init cv_ok_def)

lemma copy_assign_swap: "Swap (a, b) = (b, a)" "snd (move_construct v) = ChunkedVector_init"
  by (simp_all add: Swap_def move_construct_def ChunkedVector_init_def)

section \<open>Runs of a chunked vector\<close>

datatype 'a cv_op = CvEmplaceBack 'a | CvPopBack | CvClear | CvCopy nat

fun cv_step :: "nat \<Rightarrow> 'a cv_op \<Rightarrow> 'a cvec \<Rightarrow> 'a cvec option" where
  "cv_step k (CvEmplaceBack x) v = EmplaceBack k x v"
| "cv_step k CvPopBack v = map_option snd (PopBack v)"
| "cv_step k CvClear v = Clear v"
| "cv_step k (CvCopy fuel) v = copy_construct fuel k v"

fun list_step :: "'a cv_op \<Rightarrow> 'a list \<Rightarrow> 'a list" where
  "list_step (CvEmplaceBack x) xs = xs @ [x]"
| "list_step CvPopBack xs = butlast xs"
| "list_step CvClear xs = []"
| "list_step (CvCopy fuel) xs = xs"

fun cv_op_valid :: "'a cv_op \<Rightarrow> 'a list \<Rightarrow> bool" where
  "cv_op_valid CvPopBack xs \<longleftrightarrow> xs \<noteq> []"
| "cv_op_valid (CvCopy fuel) xs \<longleftrightarrow> length xs < fuel"
| "cv_op_valid _ xs \<longleftrightarrow> True"

lemma cv_step_ok:
  "cv_ok k v \<Longrightarrow> cv_op_valid x (cv_list v) \<Longrightarrow>
   \<exists>v'. cv_step k x v = Some v' \<and> cv_ok k v' \<and> cv_list v' = list_step x (cv_list v)"
  using EmplaceBack_ok [of k v] PopBack_ok [of k v] Clear_ok [of k v] copy_construct_ok [of k v]
  by (cases x) fastforce+

interpretation cvr: refinement "cv_step k" list_step cv_op_valid cv_list "cv_ok k" for k
  by unfold_locales (rule cv_step_ok)

text \<open>C17: Any sequence of \<open>EmplaceBack\<close>, \<open>PopBack\<close> (on a non-empty vector), \<open>Clear\<close> and copy construction, whatever the chunk size, runs
  without a failed assertion and leaves the elements of the corresponding list: \<open>size()\<close> is its length and
  iterating from \<open>begin()\<close> to \<open>end()\<close> yields it in order, in at most \<open>length + 1\<close> steps.\<close>

theorem chunked_vector_run_exact:
  assumes "0 < k" "valid_run cv_op_valid list_step ops []"
  shows "\<exists>v. fold_opt (cv_step k) ops ChunkedVector_init = Some v \<and>
    cv_size v = length (fold list_step ops []) \<and>
    iterate (Suc (length (fold list_step ops []))) v (cv_begin v) = Some (fold list_step ops [])"
proof -
  have "valid_run cv_op_valid list_step ops (cv_list ChunkedVector_init)"
    using assms(2) by (simp add: cv_ok_init)
  then obtain v where v: "fold_opt (cv_step k) ops ChunkedVector_init = Some v" "cv_ok k v"
      "cv_list v = fold list_step ops []"
    using cvr.run_ok [OF cv_ok_init(1) [OF assms(1)]] by (auto simp: cv_ok_init)
  then show ?thesis
    using cv_size_ok [OF v(2)] iterate_ok [OF v(2), of "Suc (length (cv_list v))"] by auto
qed

theorem chunked_vector_run_exact_witness:
  "\<exists>v. fold_opt (cv_step 2) [CvEmplaceBack (CHR ''a''), CvEmplaceBack (CHR ''b''), CvEmplaceBack (CHR ''c''), CvPopBack, CvPopBack] ChunkedVector_init
     = Some v \<and> iterate 2 v (cv_begin v) = Some [CHR ''a'']"
  using chunked_vector_run_exact [of 2 "[CvEmplaceBack (CHR ''a''), CvEmplaceBack (CHR ''b''), CvEmplaceBack (CHR ''c''),
      CvPopBack, CvPopBack]"]
  by (auto simp: numeral_2_eq_2 simp del: iterate.simps cv_step.simps fold_opt.simps)

end
