(* ===== verification/Avl.thy ===== *)
theory Avl
  imports Useful "HOL-Library.Monad_Syntax"
begin

text \<open>
  The immutable AVL tree of \<^verbatim>\<open>src/core/lib/avl/avl.cc\<close>.  A node is a datatype value, the null pointer is
  \<open>NullNode\<close>; reference counts only share storage between the versions of a tree and are not modelled, so \<open>ref_node\<close> is the
  identity and \<open>unref_node\<close> has no value.  The \<open>assert\<close>s of the debug build and the dereference of a null
  pointer are \<open>None\<close>.  The theorems: no operation on a balanced tree ever fails an assertion or follows a null
  pointer, the result is balanced and ordered, and the tree is a finite map.
\<close>

section \<open>Definitions\<close>

datatype ('k, 'v) avl_node =
  NullNode
| AvlNode (node_key: 'k) (node_value: 'v) (node_left: "('k, 'v) avl_node") (node_right: "('k, 'v) avl_node")
    (stored_height: int)

record ('k, 'v) avl_vtable =
  copy_key :: "'k \<Rightarrow> 'k"
  compare_keys :: "'k \<Rightarrow> 'k \<Rightarrow> int"
  copy_value :: "'v \<Rightarrow> 'v"

record ('k, 'v) grpc_avl =
  avl_vt :: "('k, 'v) avl_vtable"
  avl_root :: "('k, 'v) avl_node"

definition grpc_avl_create :: "('k, 'v) avl_vtable \<Rightarrow> ('k, 'v) grpc_avl" where
  "grpc_avl_create vtable = \<lparr>avl_vt = vtable, avl_root = NullNode\<rparr>"

fun node_height :: "('k, 'v) avl_node \<Rightarrow> int" where
  "node_height NullNode = 0"
| "node_height (AvlNode k v l r h) = h"

fun calculate_height :: "('k, 'v) avl_node \<Rightarrow> int" where
  "calculate_height NullNode = 0"
| "calculate_height (AvlNode k v l r h) = 1 + max (calculate_height l) (calculate_height r)"

fun invariants_hold :: "('k, 'v) avl_node \<Rightarrow> bool" where
  "invariants_hold NullNode = True"
| "invariants_hold (AvlNode k v l r h) \<longleftrightarrow>
     invariants_hold l \<and> invariants_hold r \<and>
     calculate_height (AvlNode k v l r h) = h \<and> \<bar>node_height l - node_height r\<bar> \<le> 1"

definition assert_invariants :: "('k, 'v) avl_node \<Rightarrow> ('k, 'v) avl_node crashable" where
  "assert_invariants n = (if invariants_hold n then Some n else None)"

definition new_node ::
    "'k \<Rightarrow> 'v \<Rightarrow> ('k, 'v) avl_node \<Rightarrow> ('k, 'v) avl_node \<Rightarrow> ('k, 'v) avl_node crashable" where
  "new_node key val left right =
     do {
       l \<leftarrow> assert_invariants left;
       r \<leftarrow> assert_invariants right;
       Some (AvlNode key val l r (1 + max (node_height left) (node_height right)))
     }"

fun avl_get_node :: "('k, 'v) avl_vtable \<Rightarrow> ('k, 'v) avl_node \<Rightarrow> 'k \<Rightarrow> ('k, 'v) avl_node" where
  "avl_get_node vt NullNode key = NullNode"
| "avl_get_node vt (AvlNode k v l r h) key =
     (let cmp = compare_keys vt k key in
      if cmp = 0 then AvlNode k v l r h
      else if cmp > 0 then avl_get_node vt l key
      else avl_get_node vt r key)"

definition grpc_avl_get :: "('k, 'v) grpc_avl \<Rightarrow> 'k \<Rightarrow> 'v option" where
  "grpc_avl_get avl key =
     (case avl_get_node (avl_vt avl) (avl_root avl) key of
        NullNode \<Rightarrow> None | AvlNode k v l r h \<Rightarrow> Some v)"

text \<open>The out-parameter \<open>*value\<close> is written only when the key is found.\<close>

definition grpc_avl_maybe_get :: "('k, 'v) grpc_avl \<Rightarrow> 'k \<Rightarrow> 'v \<Rightarrow> int \<times> 'v" where
  "grpc_avl_maybe_get avl key out =
     (case avl_get_node (avl_vt avl) (avl_root avl) key of
        NullNode \<Rightarrow> (0, out) | AvlNode k v l r h \<Rightarrow> (1, v))"

fun rotate_left where
  "rotate_left vt key val left (AvlNode rk rv rl rr rh) =
     do {
       n \<leftarrow> new_node key val left rl;
       new_node (copy_key vt rk) (copy_value vt rv) n rr
     }"
| "rotate_left vt key val left NullNode = None"

fun rotate_right where
  "rotate_right vt key val (AvlNode lk lv ll lr lh) right =
     do {
       n \<leftarrow> new_node key val lr right;
       new_node (copy_key vt lk) (copy_value vt lv) ll n
     }"
| "rotate_right vt key val NullNode right = None"

fun rotate_left_right where
  "rotate_left_right vt key val (AvlNode lk lv ll (AvlNode mk mv ml mr mh) lh) right =
     do {
       a \<leftarrow> new_node (copy_key vt lk) (copy_value vt lv) ll ml;
       b \<leftarrow> new_node key val mr right;
       new_node (copy_key vt mk) (copy_value vt mv) a b
     }"
| "rotate_left_right vt key val left right = None"

fun rotate_right_left where
  "rotate_right_left vt key val left (AvlNode rk rv (AvlNode mk mv ml mr mh) rr rh) =
     do {
       a \<leftarrow> new_node key val left ml;
       b \<leftarrow> new_node (copy_key vt rk) (copy_value vt rv) mr rr;
       new_node (copy_key vt mk) (copy_value vt mv) a b
     }"
| "rotate_right_left vt key val left right = None"

definition rebalance where
  "rebalance vt key val left right =
     (let d = node_height left - node_height right in
      if d = 2 then
        (case left of
           NullNode \<Rightarrow> None
         | AvlNode _ _ ll lr _ \<Rightarrow>
             Option.bind
               (if node_height ll - node_height lr = -1
                then rotate_left_right vt key val left right
                else rotate_right vt key val left right) assert_invariants)
      else if d = -2 then
        (case right of
           NullNode \<Rightarrow> None
         | AvlNode _ _ rl rr _ \<Rightarrow>
             Option.bind
               (if node_height rl - node_height rr = 1
                then rotate_right_left vt key val left right
                else rotate_left vt key val left right) assert_invariants)
      else Option.bind (new_node key val left right) assert_invariants)"

fun add_key :: "('k, 'v) avl_vtable \<Rightarrow> ('k, 'v) avl_node \<Rightarrow> 'k \<Rightarrow> 'v \<Rightarrow> ('k, 'v) avl_node crashable" where
  "add_key vt NullNode key val = new_node key val NullNode NullNode"
| "add_key vt (AvlNode k v l r h) key val =
     (let cmp = compare_keys vt k key in
      if cmp = 0 then new_node key val l r
      else if cmp > 0 then
        do { l' \<leftarrow> add_key vt l key val; rebalance vt (copy_key vt k) (copy_value vt v) l' r }
      else
        do { r' \<leftarrow> add_key vt r key val; rebalance vt (copy_key vt k) (copy_value vt v) l r' })"

definition grpc_avl_add :: "('k, 'v) grpc_avl \<Rightarrow> 'k \<Rightarrow> 'v \<Rightarrow> ('k, 'v) grpc_avl crashable" where
  "grpc_avl_add avl key val =
     do {
       root \<leftarrow> add_key (avl_vt avl) (avl_root avl) key val;
       root' \<leftarrow> assert_invariants root;
       Some (avl\<lparr>avl_root := root'\<rparr>)
     }"

fun in_order_head :: "('k, 'v) avl_node \<Rightarrow> ('k \<times> 'v) crashable" where
  "in_order_head NullNode = None"
| "in_order_head (AvlNode k v l r h) = (if l = NullNode then Some (k, v) else in_order_head l)"

fun in_order_tail :: "('k, 'v) avl_node \<Rightarrow> ('k \<times> 'v) crashable" where
  "in_order_tail NullNode = None"
| "in_order_tail (AvlNode k v l r h) = (if r = NullNode then Some (k, v) else in_order_tail r)"

fun remove_key :: "('k, 'v) avl_vtable \<Rightarrow> ('k, 'v) avl_node \<Rightarrow> 'k \<Rightarrow> ('k, 'v) avl_node crashable" where
  "remove_key vt NullNode key = Some NullNode"
| "remove_key vt (AvlNode k v l r h) key =
     (let cmp = compare_keys vt k key in
      if cmp = 0 then
        (if l = NullNode then Some r
         else if r = NullNode then Some l
         else if node_height l < node_height r then
           do {
             (hk, hv) \<leftarrow> in_order_head r;
             r' \<leftarrow> remove_key vt r hk;
             rebalance vt (copy_key vt hk) (copy_value vt hv) l r'
           }
         else
           do {
             (hk, hv) \<leftarrow> in_order_tail l;
             l' \<leftarrow> remove_key vt l hk;
             rebalance vt (copy_key vt hk) (copy_value vt hv) l' r
           })
      else if cmp > 0 then
        do { l' \<leftarrow> remove_key vt l key; rebalance vt (copy_key vt k) (copy_value vt v) l' r }
      else
        do { r' \<leftarrow> remove_key vt r key; rebalance vt (copy_key vt k) (copy_value vt v) l r' })"

definition grpc_avl_remove :: "('k, 'v) grpc_avl \<Rightarrow> 'k \<Rightarrow> ('k, 'v) grpc_avl crashable" where
  "grpc_avl_remove avl key =
     do {
       root \<leftarrow> remove_key (avl_vt avl) (avl_root avl) key;
       root' \<leftarrow> assert_invariants root;
       Some (avl\<lparr>avl_root := root'\<rparr>)
     }"

definition grpc_avl_is_empty :: "('k, 'v) grpc_avl \<Rightarrow> int" where
  "grpc_avl_is_empty avl = (if avl_root avl = NullNode then 1 else 0)"

section \<open>Sorted association lists as the specification\<close>

fun inorder :: "('k, 'v) avl_node \<Rightarrow> ('k \<times> 'v) list" where
  "inorder NullNode = []"
| "inorder (AvlNode k v l r h) = inorder l @ (k, v) # inorder r"

definition ordered :: "('k::linorder \<times> 'v) list \<Rightarrow> bool" where
  "ordered xs \<longleftrightarrow> sorted_wrt (<) (map fst xs)"

definition al_upd :: "'k::linorder \<Rightarrow> 'v \<Rightarrow> ('k \<times> 'v) list \<Rightarrow> ('k \<times> 'v) list" where
  "al_upd k v xs = filter (\<lambda>p. fst p < k) xs @ (k, v) # filter (\<lambda>p. k < fst p) xs"

definition al_del :: "'k::linorder \<Rightarrow> ('k \<times> 'v) list \<Rightarrow> ('k \<times> 'v) list" where
  "al_del k xs = filter (\<lambda>p. fst p \<noteq> k) xs"

lemma map_of_filter_key: "map_of (filter (\<lambda>p. P (fst p)) xs) x = (if P x then map_of xs x else None)"
  by (induction xs) auto

lemmas map_of_filter_keys =
  map_of_filter_key [where P = "\<lambda>x. x < k" for k] map_of_filter_key [where P = "\<lambda>x. k < x" for k]
  map_of_filter_key [where P = "\<lambda>x. x \<noteq> k" for k]

lemma map_of_al_upd: "map_of (al_upd k v xs) = (map_of xs)(k \<mapsto> v)"
  unfolding al_upd_def fun_eq_iff map_of_append map_add_def
  by (auto simp: map_of_filter_keys split: option.splits)

lemma map_of_al_del: "map_of (al_del k xs) = (map_of xs)(k := None)"
  unfolding al_del_def fun_eq_iff by (auto simp: map_of_filter_keys)

lemma ordered_append_Cons:
  "ordered (xs @ (k, v) # ys) \<longleftrightarrow>
   ordered xs \<and> ordered ys \<and> (\<forall>p \<in> set xs. fst p < k) \<and> (\<forall>p \<in> set ys. k < fst p)"
  by (auto simp: ordered_def sorted_wrt_append intro: less_trans)

lemma ordered_filter: "ordered xs \<Longrightarrow> ordered (filter P xs)"
  unfolding ordered_def by (induction xs) auto

lemma ordered_al_upd: "ordered xs \<Longrightarrow> ordered (al_upd k v xs)"
  by (auto simp: al_upd_def ordered_append_Cons ordered_filter)

lemma ordered_al_del: "ordered xs \<Longrightarrow> ordered (al_del k xs)"
  by (simp add: al_del_def ordered_filter)

lemma ordered_filters:
  fixes a k :: "'k::linorder"
  assumes "\<forall>p \<in> set xs. fst p < a"
  shows "a \<le> k \<Longrightarrow> filter (\<lambda>p. fst p < k) xs = xs"
    and "a \<le> k \<Longrightarrow> filter (\<lambda>p. k < fst p) xs = []"
    and "a \<le> k \<Longrightarrow> filter (\<lambda>p. fst p \<noteq> k) xs = xs"
proof -
  have *: "fst p < k" if "p \<in> set xs" "a \<le> k" for p using assms that by (meson less_le_trans)
  show "a \<le> k \<Longrightarrow> filter (\<lambda>p. fst p < k) xs = xs" "a \<le> k \<Longrightarrow> filter (\<lambda>p. k < fst p) xs = []"
    "a \<le> k \<Longrightarrow> filter (\<lambda>p. fst p \<noteq> k) xs = xs"
    using * by (auto simp: filter_id_conv filter_empty_conv dest: less_asym)
qed

lemma ordered_filters':
  fixes a k :: "'k::linorder"
  assumes "\<forall>p \<in> set xs. a < fst p"
  shows "k \<le> a \<Longrightarrow> filter (\<lambda>p. fst p < k) xs = []"
    and "k \<le> a \<Longrightarrow> filter (\<lambda>p. k < fst p) xs = xs"
    and "k \<le> a \<Longrightarrow> filter (\<lambda>p. fst p \<noteq> k) xs = xs"
proof -
  have *: "k < fst p" if "p \<in> set xs" "k \<le> a" for p using assms that by (meson le_less_trans)
  show "k \<le> a \<Longrightarrow> filter (\<lambda>p. fst p < k) xs = []" "k \<le> a \<Longrightarrow> filter (\<lambda>p. k < fst p) xs = xs"
    "k \<le> a \<Longrightarrow> filter (\<lambda>p. fst p \<noteq> k) xs = xs"
    using * by (auto simp: filter_id_conv filter_empty_conv dest: less_asym)
qed

lemma al_upd_split:
  assumes "ordered (xs @ (a, b) # ys)"
  shows "k = a \<Longrightarrow> al_upd k v (xs @ (a, b) # ys) = xs @ (k, v) # ys"
    and "k < a \<Longrightarrow> al_upd k v (xs @ (a, b) # ys) = al_upd k v xs @ (a, b) # ys"
    and "a < k \<Longrightarrow> al_upd k v (xs @ (a, b) # ys) = xs @ (a, b) # al_upd k v ys"
  using assms ordered_filters [of xs a k] ordered_filters' [of ys a k]
  unfolding al_upd_def ordered_append_Cons by auto

lemma al_del_split:
  assumes "ordered (xs @ (a, b) # ys)"
  shows "k = a \<Longrightarrow> al_del k (xs @ (a, b) # ys) = xs @ ys"
    and "k < a \<Longrightarrow> al_del k (xs @ (a, b) # ys) = al_del k xs @ (a, b) # ys"
    and "a < k \<Longrightarrow> al_del k (xs @ (a, b) # ys) = xs @ (a, b) # al_del k ys"
  using assms ordered_filters [of xs a k] ordered_filters' [of ys a k]
  unfolding al_del_def ordered_append_Cons by auto

section \<open>Rebalancing\<close>

lemma invariants_height: "invariants_hold t \<Longrightarrow> calculate_height t = node_height t"
  by (cases t) auto

lemma node_height_nonneg: "invariants_hold t \<Longrightarrow> 0 \<le> node_height t"
proof (induction t)
  case (AvlNode k v l r h)
  then show ?case by (auto simp: invariants_height)
qed simp

lemma node_height_pos: "invariants_hold t \<Longrightarrow> t \<noteq> NullNode \<Longrightarrow> 0 < node_height t"
  using node_height_nonneg by (cases t) (fastforce simp: invariants_height)+

lemma new_node_ok:
  "invariants_hold l \<Longrightarrow> invariants_hold r \<Longrightarrow>
   new_node k v l r = Some (AvlNode k v l r (1 + max (node_height l) (node_height r)))"
  by (simp add: new_node_def assert_invariants_def)

definition balanced_join :: "('k \<times> 'v) list \<Rightarrow> int \<Rightarrow> ('k, 'v) avl_node crashable \<Rightarrow> bool" where
  "balanced_join xs m res \<longleftrightarrow>
     (\<exists>t. res = Some t \<and> invariants_hold t \<and> inorder t = xs \<and> (node_height t = m \<or> node_height t = 1 + m))"

locale avl_laws =
  fixes vt :: "('k::linorder, 'v) avl_vtable"
  assumes compare_eq: "compare_keys vt a b = 0 \<longleftrightarrow> a = b"
    and compare_gt: "compare_keys vt a b > 0 \<longleftrightarrow> b < a"
    and copy_key_id: "copy_key vt a = a"
    and copy_value_id: "copy_value vt x = x"
begin

lemmas rotate_simps = new_node_ok assert_invariants_def copy_key_id copy_value_id invariants_height

lemma rebalance_left:
  assumes "invariants_hold l" "invariants_hold r" "node_height l = node_height r + 2"
  shows "balanced_join (inorder l @ (k, v) # inorder r) (node_height l) (rebalance vt k v l r)"
proof -
  obtain lk lv ll lr lh where l: "l = AvlNode lk lv ll lr lh"
    using assms node_height_nonneg [of r] by (cases l) auto
  show ?thesis
  proof (cases "node_height ll - node_height lr = -1")
    case True
    then obtain mk mv ml mr mh where "lr = AvlNode mk mv ml mr mh"
      using assms(1) l node_height_nonneg [of ll] by (cases lr) auto
    with True assms l show ?thesis
      by (auto simp: rebalance_def balanced_join_def rotate_simps abs_le_iff max_def split: if_splits)
  next
    case False
    with assms l show ?thesis
      by (auto simp: rebalance_def balanced_join_def rotate_simps abs_le_iff max_def split: if_splits)
  qed
qed

lemma rebalance_right:
  assumes "invariants_hold l" "invariants_hold r" "node_height r = node_height l + 2"
  shows "balanced_join (inorder l @ (k, v) # inorder r) (node_height r) (rebalance vt k v l r)"
proof -
  obtain rk rv rl rr rh where r: "r = AvlNode rk rv rl rr rh"
    using assms node_height_nonneg [of l] by (cases r) auto
  show ?thesis
  proof (cases "node_height rl - node_height rr = 1")
    case True
    then obtain mk mv ml mr mh where "rl = AvlNode mk mv ml mr mh"
      using assms(2) r node_height_nonneg [of rr] by (cases rl) auto
    with True assms r show ?thesis
      by (auto simp: rebalance_def balanced_join_def rotate_simps abs_le_iff max_def split: if_splits)
  next
    case False
    with assms r show ?thesis
      by (auto simp: rebalance_def balanced_join_def rotate_simps abs_le_iff max_def split: if_splits)
  qed
qed

lemma rebalance_none:
  assumes "invariants_hold l" "invariants_hold r" "\<bar>node_height l - node_height r\<bar> \<le> 1"
  shows "rebalance vt k v l r = Some (AvlNode k v l r (1 + max (node_height l) (node_height r)))"
proof -
  have "node_height l - node_height r \<noteq> 2" "node_height l - node_height r \<noteq> -2" using assms(3) by linarith+
  with assms show ?thesis by (simp add: rebalance_def rotate_simps)
qed

lemma rebalance_ok:
  assumes "invariants_hold l" "invariants_hold r" "\<bar>node_height l - node_height r\<bar> \<le> 2"
  obtains t where "rebalance vt k v l r = Some t" "invariants_hold t"
    "inorder t = inorder l @ (k, v) # inorder r"
    "\<bar>node_height l - node_height r\<bar> \<le> 1 \<Longrightarrow> node_height t = 1 + max (node_height l) (node_height r)"
    "node_height t = max (node_height l) (node_height r) \<or> node_height t = 1 + max (node_height l) (node_height r)"
proof -
  consider "\<bar>node_height l - node_height r\<bar> \<le> 1" | "node_height l = node_height r + 2" | "node_height r = node_height l + 2"
    using assms(3) by linarith
  then show thesis
  proof cases
    case 1
    with assms show thesis by (intro that [OF rebalance_none]) (auto simp: invariants_height)
  next
    case 2
    with rebalance_left [OF assms(1,2) 2, of k v] show thesis by (auto simp: balanced_join_def intro!: that)
  next
    case 3
    with rebalance_right [OF assms(1,2) 3, of k v] show thesis by (auto simp: balanced_join_def intro!: that)
  qed
qed

lemma add_key_ok:
  "invariants_hold t \<Longrightarrow> ordered (inorder t) \<Longrightarrow>
   \<exists>t'. add_key vt t key x = Some t' \<and> invariants_hold t' \<and> inorder t' = al_upd key x (inorder t) \<and>
     (node_height t' = node_height t \<or> node_height t' = node_height t + 1)"
proof (induction t)
  case NullNode
  then show ?case by (simp add: rotate_simps al_upd_def)
next
  case (AvlNode k v l r h)
  note ord = AvlNode.prems(2) [simplified]
  have sub: "invariants_hold l" "invariants_hold r" "ordered (inorder l)" "ordered (inorder r)"
      "h = 1 + max (node_height l) (node_height r)" "\<bar>node_height l - node_height r\<bar> \<le> 1"
    using AvlNode.prems by (auto simp: ordered_append_Cons invariants_height)
  consider "key = k" | "key < k" | "k < key" by fastforce
  then show ?case
  proof cases
    case 1
    with sub AvlNode.prems show ?thesis
      by (simp add: compare_eq rotate_simps al_upd_split(1) [OF ord])
  next
    case 2
    obtain l' where l': "add_key vt l key x = Some l'" "invariants_hold l'" "inorder l' = al_upd key x (inorder l)"
        "node_height l' = node_height l \<or> node_height l' = node_height l + 1"
      using AvlNode.IH(1) sub by blast
    then have "\<bar>node_height l' - node_height r\<bar> \<le> 2" using sub by linarith
    from rebalance_ok [OF l'(2) sub(2) this, of k v] obtain t where t:
        "rebalance vt k v l' r = Some t" "invariants_hold t" "inorder t = inorder l' @ (k, v) # inorder r"
        "\<bar>node_height l' - node_height r\<bar> \<le> 1 \<Longrightarrow> node_height t = 1 + max (node_height l') (node_height r)"
        "node_height t = max (node_height l') (node_height r) \<or> node_height t = 1 + max (node_height l') (node_height r)"
      by blast
    have "compare_keys vt k key \<noteq> 0" "compare_keys vt k key > 0"
      using 2 compare_eq compare_gt by auto
    moreover have "node_height t = h \<or> node_height t = h + 1" using t(4,5) l'(4) sub(5,6) by linarith
    ultimately show ?thesis
      using t(1-3) l' 2 by (simp add: copy_key_id copy_value_id al_upd_split(2) [OF ord])
  next
    case 3
    obtain r' where r': "add_key vt r key x = Some r'" "invariants_hold r'" "inorder r' = al_upd key x (inorder r)"
        "node_height r' = node_height r \<or> node_height r' = node_height r + 1"
      using AvlNode.IH(2) sub by blast
    then have "\<bar>node_height l - node_height r'\<bar> \<le> 2" using sub by linarith
    from rebalance_ok [OF sub(1) r'(2) this, of k v] obtain t where t:
        "rebalance vt k v l r' = Some t" "invariants_hold t" "inorder t = inorder l @ (k, v) # inorder r'"
        "\<bar>node_height l - node_height r'\<bar> \<le> 1 \<Longrightarrow> node_height t = 1 + max (node_height l) (node_height r')"
        "node_height t = max (node_height l) (node_height r') \<or> node_height t = 1 + max (node_height l) (node_height r')"
      by blast
    have "compare_keys vt k key \<noteq> 0" "\<not> compare_keys vt k key > 0"
      using 3 compare_eq compare_gt by auto
    moreover have "node_height t = h \<or> node_height t = h + 1" using t(4,5) r'(4) sub(5,6) by linarith
    ultimately show ?thesis
      using t(1-3) r' 3 by (simp add: copy_key_id copy_value_id al_upd_split(3) [OF ord])
  qed
qed

text \<open>Replacing one subtree by one whose height is the same or one less.\<close>

lemma rebalance_shrunk:
  assumes "invariants_hold l'" "invariants_hold r'"
    and "node_height l' = hl \<and> (node_height r' = hr \<or> node_height r' = hr - 1) \<or>
         (node_height l' = hl \<or> node_height l' = hl - 1) \<and> node_height r' = hr"
    and "\<bar>hl - hr\<bar> \<le> 1"
  shows "\<exists>t. rebalance vt k v l' r' = Some t \<and> invariants_hold t \<and> inorder t = inorder l' @ (k, v) # inorder r' \<and>
    (node_height t = 1 + max hl hr \<or> node_height t = max hl hr)"
proof -
  have "\<bar>node_height l' - node_height r'\<bar> \<le> 2" using assms(3,4) by linarith
  from rebalance_ok [OF assms(1,2) this, of k v] obtain t where t:
      "rebalance vt k v l' r' = Some t" "invariants_hold t" "inorder t = inorder l' @ (k, v) # inorder r'"
      "\<bar>node_height l' - node_height r'\<bar> \<le> 1 \<Longrightarrow> node_height t = 1 + max (node_height l') (node_height r')"
      "node_height t = max (node_height l') (node_height r') \<or> node_height t = 1 + max (node_height l') (node_height r')"
    by blast
  moreover have "node_height t = 1 + max hl hr \<or> node_height t = max hl hr"
    using t(4,5) assms(3,4) by linarith
  ultimately show ?thesis by blast
qed

end

lemma in_order_head_ok: "t \<noteq> NullNode \<Longrightarrow> \<exists>p ys. in_order_head t = Some p \<and> inorder t = p # ys"
  by (induction t) force+

lemma in_order_tail_ok: "t \<noteq> NullNode \<Longrightarrow> \<exists>p ys. in_order_tail t = Some p \<and> inorder t = ys @ [p]"
proof (induction t)
  case (AvlNode k v l r h)
  then show ?case by (cases "r = NullNode") force+
qed simp

lemma al_del_ends:
  "ordered (p # ys) \<Longrightarrow> al_del (fst p) (p # ys) = ys"
  "ordered (ys @ [p]) \<Longrightarrow> al_del (fst p) (ys @ [p]) = ys"
  using al_del_split(1) [of "[]" "fst p" "snd p" ys "fst p"] al_del_split(1) [of ys "fst p" "snd p" "[]" "fst p"]
  by simp_all

context avl_laws
begin

lemma remove_key_ok:
  "invariants_hold t \<Longrightarrow> ordered (inorder t) \<Longrightarrow>
   \<exists>t'. remove_key vt t key = Some t' \<and> invariants_hold t' \<and> inorder t' = al_del key (inorder t) \<and>
     (node_height t' = node_height t \<or> node_height t' = node_height t - 1)"
proof (induction t arbitrary: key)
  case NullNode
  then show ?case by (simp add: al_del_def)
next
  case (AvlNode k v l r h)
  note ord = AvlNode.prems(2) [simplified]
  have sub: "invariants_hold l" "invariants_hold r" "ordered (inorder l)" "ordered (inorder r)"
      "h = 1 + max (node_height l) (node_height r)" "\<bar>node_height l - node_height r\<bar> \<le> 1"
    using AvlNode.prems by (auto simp: ordered_append_Cons invariants_height)
  have nonneg: "0 \<le> node_height l" "0 \<le> node_height r"
    using sub node_height_nonneg by auto
  obtain l' where l': "remove_key vt l key = Some l'" "invariants_hold l'" "inorder l' = al_del key (inorder l)"
      "node_height l' = node_height l \<or> node_height l' = node_height l - 1"
    using AvlNode.IH(1) sub by blast
  obtain r' where r': "remove_key vt r key = Some r'" "invariants_hold r'" "inorder r' = al_del key (inorder r)"
      "node_height r' = node_height r \<or> node_height r' = node_height r - 1"
    using AvlNode.IH(2) sub by blast
  consider "key = k" "l = NullNode" | "key = k" "l \<noteq> NullNode" "r = NullNode"
    | "key = k" "l \<noteq> NullNode" "r \<noteq> NullNode" "node_height l < node_height r"
    | "key = k" "l \<noteq> NullNode" "r \<noteq> NullNode" "\<not> node_height l < node_height r"
    | "key < k" | "k < key" by fastforce
  then show ?case
  proof cases
    case 1
    with sub nonneg al_del_split(1) [OF ord, of k] show ?thesis by (auto simp: compare_eq)
  next
    case 2
    with sub nonneg al_del_split(1) [OF ord, of k] show ?thesis by (auto simp: compare_eq)
  next
    case 3
    obtain hk hv ys where head: "in_order_head r = Some (hk, hv)" "inorder r = (hk, hv) # ys"
      using in_order_head_ok [OF 3(3)] by fastforce
    obtain q where q: "remove_key vt r hk = Some q" "invariants_hold q" "inorder q = al_del hk (inorder r)"
        "node_height q = node_height r \<or> node_height q = node_height r - 1"
      using AvlNode.IH(2) sub by blast
    have "inorder q = ys" using q(3) head(2) sub(4) al_del_ends(1) [of "(hk, hv)" ys] by simp
    with rebalance_shrunk [OF sub(1) q(2) _ sub(6), of hk hv] q(1,4) head 3 sub(5)
      al_del_split(1) [OF ord, of k] show ?thesis
      by (auto simp: compare_eq copy_key_id copy_value_id)
  next
    case 4
    obtain hk hv ys where tail: "in_order_tail l = Some (hk, hv)" "inorder l = ys @ [(hk, hv)]"
      using in_order_tail_ok [OF 4(2)] by fastforce
    obtain q where q: "remove_key vt l hk = Some q" "invariants_hold q" "inorder q = al_del hk (inorder l)"
        "node_height q = node_height l \<or> node_height q = node_height l - 1"
      using AvlNode.IH(1) sub by blast
    have "inorder q = ys" using q(3) tail(2) sub(3) al_del_ends(2) [of ys "(hk, hv)"] by simp
    with rebalance_shrunk [OF q(2) sub(2) _ sub(6), of hk hv] q(1,4) tail 4 sub(5)
      al_del_split(1) [OF ord, of k] show ?thesis
      by (auto simp: compare_eq copy_key_id copy_value_id)
  next
    case 5
    then have "compare_keys vt k key \<noteq> 0" "compare_keys vt k key > 0"
      using compare_eq compare_gt by auto
    with rebalance_shrunk [OF l'(2) sub(2) _ sub(6), of k v] l' 5 sub(5) show ?thesis
      by (auto simp: al_del_split(2) [OF ord] copy_key_id copy_value_id)
  next
    case 6
    then have "compare_keys vt k key \<noteq> 0" "\<not> compare_keys vt k key > 0"
      using compare_eq compare_gt by auto
    with rebalance_shrunk [OF sub(1) r'(2) _ sub(6), of k v] r' 6 sub(5) show ?thesis
      by (auto simp: al_del_split(3) [OF ord] copy_key_id copy_value_id)
  qed
qed

lemma get_node_ok:
  "ordered (inorder t) \<Longrightarrow>
   (case avl_get_node vt t key of NullNode \<Rightarrow> None | AvlNode k v l r h \<Rightarrow> Some v) = map_of (inorder t) key"
proof (induction t)
  case (AvlNode k v l r h)
  note ord = AvlNode.prems [simplified]
  have notin: "\<not> key < k \<Longrightarrow> map_of (inorder l) key = None \<or> key < k" "\<not> k < key \<Longrightarrow> map_of (inorder r) key = None"
      "\<not> key < k \<Longrightarrow> map_of (inorder l) key = None"
    using ord by (auto simp: ordered_append_Cons map_of_eq_None_iff)
  consider "key = k" | "key < k" | "k < key" by fastforce
  then show ?case
  proof cases
    case 1
    with notin show ?thesis by (simp add: compare_eq map_add_def)
  next
    case 2
    then have "compare_keys vt k key \<noteq> 0" "compare_keys vt k key > 0"
      using compare_eq compare_gt by auto
    with 2 AvlNode.IH(1) ord notin show ?thesis
      by (auto simp: ordered_append_Cons map_add_def split: option.splits)
  next
    case 3
    then have "compare_keys vt k key \<noteq> 0" "\<not> compare_keys vt k key > 0"
      using compare_eq compare_gt by auto
    with 3 AvlNode.IH(2) ord notin show ?thesis
      by (auto simp: ordered_append_Cons map_add_def split: option.splits)
  qed
qed simp

end

section \<open>The tree as a finite map\<close>

text \<open>The vtable that a linearly ordered key type gives through \<open>QsortCompare\<close>.\<close>

definition ordered_vtable :: "('k::linorder, 'v) avl_vtable" where
  "ordered_vtable = \<lparr>copy_key = (\<lambda>k. k), compare_keys = QsortCompare, copy_value = (\<lambda>v. v)\<rparr>"

interpretation ov: avl_laws ordered_vtable
  by unfold_locales (simp_all add: ordered_vtable_def QsortCompare_sign)

definition avl_ok :: "('k::linorder, 'v) grpc_avl \<Rightarrow> bool" where
  "avl_ok avl \<longleftrightarrow> avl_vt avl = ordered_vtable \<and> invariants_hold (avl_root avl) \<and> ordered (inorder (avl_root avl))"

definition avl_map :: "('k, 'v) grpc_avl \<Rightarrow> 'k \<Rightarrow> 'v option" where
  "avl_map avl = map_of (inorder (avl_root avl))"

lemma avl_ok_create: "avl_ok (grpc_avl_create ordered_vtable)" "avl_map (grpc_avl_create vt) = Map.empty"
  by (simp_all add: avl_ok_def avl_map_def grpc_avl_create_def ordered_def)

lemma grpc_avl_add_map:
  assumes "avl_ok avl"
  shows "\<exists>avl'. grpc_avl_add avl k v = Some avl' \<and> avl_ok avl' \<and> avl_map avl' = (avl_map avl)(k \<mapsto> v)"
  using ov.add_key_ok [of "avl_root avl" k v] assms
  by (auto simp: grpc_avl_add_def avl_ok_def avl_map_def assert_invariants_def ordered_al_upd map_of_al_upd)

lemma grpc_avl_remove_map:
  assumes "avl_ok avl"
  shows "\<exists>avl'. grpc_avl_remove avl k = Some avl' \<and> avl_ok avl' \<and> avl_map avl' = (avl_map avl)(k := None)"
  using ov.remove_key_ok [of "avl_root avl" k] assms
  by (auto simp: grpc_avl_remove_def avl_ok_def avl_map_def assert_invariants_def ordered_al_del map_of_al_del)

lemma grpc_avl_get_map: "avl_ok avl \<Longrightarrow> grpc_avl_get avl k = avl_map avl k"
  using ov.get_node_ok [of "avl_root avl" k] by (simp add: grpc_avl_get_def avl_ok_def avl_map_def)

lemma grpc_avl_maybe_get_map:
  "avl_ok avl \<Longrightarrow> grpc_avl_maybe_get avl k out = (case avl_map avl k of None \<Rightarrow> (0, out) | Some v \<Rightarrow> (1, v))"
  using ov.get_node_ok [of "avl_root avl" k]
  by (cases "avl_get_node ordered_vtable (avl_root avl) k")
    (auto simp: grpc_avl_maybe_get_def avl_ok_def avl_map_def dest: sym)

lemma inorder_eq_Nil [simp]: "inorder t = [] \<longleftrightarrow> t = NullNode"
  by (cases t) auto

lemma grpc_avl_is_empty_map: "grpc_avl_is_empty avl = 1 \<longleftrightarrow> avl_map avl = Map.empty"
  by (auto simp: grpc_avl_is_empty_def avl_map_def)

section \<open>Logarithmic height\<close>

fun node_count :: "('k, 'v) avl_node \<Rightarrow> nat" where
  "node_count NullNode = 0"
| "node_count (AvlNode k v l r h) = node_count l + 1 + node_count r"

lemma node_count_inorder: "node_count t = length (inorder t)"
  by (induction t) auto

fun fib :: "nat \<Rightarrow> nat" where
  "fib 0 = 0"
| "fib (Suc 0) = 1"
| "fib (Suc (Suc n)) = fib n + fib (Suc n)"

lemma fib_mono_Suc: "fib n \<le> fib (Suc n)"
  by (cases n) auto

text \<open>A balanced tree of height \<open>h\<close> has at least \<open>fib (h + 2) - 1\<close> entries.\<close>

lemma node_count_fib: "invariants_hold t \<Longrightarrow> fib (nat (node_height t) + 2) \<le> node_count t + 1"
proof (induction t)
  case (AvlNode k v l r h)
  have ih: "fib (nat (node_height l) + 2) \<le> node_count l + 1" "fib (nat (node_height r) + 2) \<le> node_count r + 1"
    using AvlNode by auto
  have nn: "0 \<le> node_height l" "0 \<le> node_height r" using AvlNode.prems node_height_nonneg by auto
  define m where "m = min (nat (node_height l)) (nat (node_height r))"
  have h: "h = 1 + max (node_height l) (node_height r)" "\<bar>node_height l - node_height r\<bar> \<le> 1"
    using AvlNode.prems by (auto simp: invariants_height)
  then have nh: "nat h = Suc (max (nat (node_height l)) (nat (node_height r)))" using nn by auto
  have "max (nat (node_height l)) (nat (node_height r)) = m \<or> max (nat (node_height l)) (nat (node_height r)) = Suc m"
    using h(2) nn by (auto simp: m_def)
  moreover have "fib (m + 2) + fib (max (nat (node_height l)) (nat (node_height r)) + 2)
      = fib (nat (node_height l) + 2) + fib (nat (node_height r) + 2)"
    by (auto simp: m_def min_def max_def)
  ultimately show ?case
    using ih fib_mono_Suc [of "m + 1"] fib_mono_Suc [of "m + 2"] nh by (auto simp: numeral_eq_Suc)
qed simp

section \<open>Runs of an AVL tree\<close>

datatype ('k, 'v) avl_op = AvlAdd 'k 'v | AvlRemove 'k

fun avl_step :: "('k, 'v) avl_op \<Rightarrow> ('k, 'v) grpc_avl \<Rightarrow> ('k, 'v) grpc_avl option" where
  "avl_step (AvlAdd k v) avl = grpc_avl_add avl k v"
| "avl_step (AvlRemove k) avl = grpc_avl_remove avl k"

fun avl_spec :: "('k, 'v) avl_op \<Rightarrow> ('k \<rightharpoonup> 'v) \<Rightarrow> ('k \<rightharpoonup> 'v)" where
  "avl_spec (AvlAdd k v) m = m(k \<mapsto> v)"
| "avl_spec (AvlRemove k) m = m(k := None)"

lemma avl_step_ok:
  "avl_ok avl \<Longrightarrow> \<exists>avl'. avl_step x avl = Some avl' \<and> avl_ok avl' \<and> avl_map avl' = avl_spec x (avl_map avl)"
  using grpc_avl_add_map [of avl] grpc_avl_remove_map [of avl] by (cases x) auto

interpretation avlr: refinement avl_step avl_spec "\<lambda>_ _. True" avl_map avl_ok
  by unfold_locales (rule avl_step_ok)

lemma ordered_card: "ordered xs \<Longrightarrow> card (fst ` set xs) = length xs"
  by (metis distinct_card length_map list.set_map ordered_def strict_sorted_iff)

lemma valid_run_True: "valid_run (\<lambda>_ _. True) spec xs a"
  by (induction xs arbitrary: a) auto

text \<open>C18: Any sequence of \<open>grpc_avl_add\<close> and \<open>grpc_avl_remove\<close> on an empty tree succeeds (no debug assertion fails, no null
  pointer is followed), lookups in the result answer as the finite map built by the same updates, the tree
  is empty exactly when that map is, and it is balanced, so its height \<open>h\<close> obeys \<open>fib (h + 2) \<le> entries + 1\<close>.\<close>

theorem avl_run_exact:
  fixes ops :: "('k::linorder, 'v) avl_op list"
  shows "\<exists>avl. fold_opt avl_step ops (grpc_avl_create ordered_vtable) = Some avl \<and>
    (\<forall>k. grpc_avl_get avl k = fold avl_spec ops Map.empty k) \<and>
    (grpc_avl_is_empty avl = 1 \<longleftrightarrow> fold avl_spec ops Map.empty = Map.empty) \<and>
    invariants_hold (avl_root avl) \<and>
    fib (nat (node_height (avl_root avl)) + 2) \<le> card (dom (fold avl_spec ops Map.empty)) + 1"
proof -
  obtain avl where a: "fold_opt avl_step ops (grpc_avl_create ordered_vtable) = Some avl" "avl_ok avl"
      "avl_map avl = fold avl_spec ops Map.empty"
    using avlr.run_ok [OF avl_ok_create(1) valid_run_True] by (auto simp: avl_ok_create)
  then have "invariants_hold (avl_root avl)" "ordered (inorder (avl_root avl))" by (auto simp: avl_ok_def)
  moreover from this(2) have "card (dom (avl_map avl)) = node_count (avl_root avl)"
    by (simp add: avl_map_def dom_map_of_conv_image_fst node_count_inorder ordered_card)
  ultimately show ?thesis
    using a grpc_avl_get_map [OF a(2)] grpc_avl_is_empty_map [of avl] node_count_fib by (intro exI [of _ avl]) auto
qed

end
