(* ===== verification/Promise_Seq.thy ===== *)
theory Promise_Seq
  imports Table
begin

text \<open>
  Promises and their sequencing: \<^verbatim>\<open>src/core/lib/promise/poll.h\<close>, \<^verbatim>\<open>detail/promise_like.h\<close>, \<^verbatim>\<open>detail/promise_factory.h\<close>,
  \<^verbatim>\<open>detail/switch.h\<close>, \<^verbatim>\<open>detail/basic_seq.h\<close>, \<^verbatim>\<open>seq.h\<close> and \<^verbatim>\<open>try_seq.h\<close>.  A promise is a state of type \<open>'s\<close> with a polling function that
  may also change an environment of type \<open>'e\<close>; the promises of one combinator share a state type.  The storage of \<open>BasicSeq\<close> is
  managed by hand in the source (a promise and its predecessor state share a union), so the model keeps one \<open>cell\<close> per promise and per factory,
  and a construction over a live object, a destruction or a use of a dead one is a fault.
\<close>

section \<open>Polls, promises and factories\<close>

datatype 'a poll = Pending | Ready 'a

type_synonym ('s, 'e, 'a) promise_fn = "'s \<Rightarrow> 'e \<Rightarrow> 'a poll \<times> 's \<times> 'e"

text \<open>What a functor may return, and its wrapping as a poll.\<close>

datatype 'a poll_or_value = IsPoll "'a poll" | IsValue 'a

fun WrapInPoll :: "'a poll_or_value \<Rightarrow> 'a poll" where
  "WrapInPoll (IsPoll p) = p"
| "WrapInPoll (IsValue x) = Ready x"

text \<open>The callables that \<open>PromiseFactory\<close> accepts, by argument and by whether the result is itself a promise, and the promise it makes
  of each.\<close>

datatype ('a, 't, 'p) callable =
  ArgToValue "'a \<Rightarrow> 't poll_or_value" | VoidToValue "'t poll_or_value" | ArgToPromise "'a \<Rightarrow> 'p" | VoidToPromise 'p

datatype ('a, 't, 'p) made_promise = Curried "'a \<Rightarrow> 't poll_or_value" 'a | PromiseLike "'t poll_or_value" | MadePromise 'p

fun PromiseFactoryImpl :: "('a, 't, 'p) callable \<Rightarrow> 'a \<Rightarrow> ('a, 't, 'p) made_promise" where
  "PromiseFactoryImpl (ArgToValue f) arg = Curried f arg"
| "PromiseFactoryImpl (VoidToValue f) arg = PromiseLike f"
| "PromiseFactoryImpl (ArgToPromise f) arg = MadePromise (f arg)"
| "PromiseFactoryImpl (VoidToPromise p) arg = MadePromise p"

fun made_poll :: "('p, 'e, 't) promise_fn \<Rightarrow> (('a, 't, 'p) made_promise, 'e, 't) promise_fn" where
  "made_poll poll (Curried f arg) e = (WrapInPoll (f arg), Curried f arg, e)"
| "made_poll poll (PromiseLike f) e = (WrapInPoll f, PromiseLike f, e)"
| "made_poll poll (MadePromise p) e = (case poll p e of (r, p', e') \<Rightarrow> (r, MadePromise p', e'))"

text \<open>\<open>Switch\<close> dispatches on the index and aborts past the last case.\<close>

definition Switch :: "nat \<Rightarrow> (unit \<Rightarrow> 'r crashable) list \<Rightarrow> 'r crashable" where
  "Switch idx fs = (if idx < length fs then (fs ! idx) () else None)"

section \<open>BasicSeq\<close>

record ('s, 'f) seq =
  seq_state :: nat
  current_promise :: "'s cell list"
  next_factory :: "'f cell list"

text \<open>The traits of a sequence: whether a result escapes, what a factory makes of a result, and the final wrapping.\<close>

record ('s, 'f, 'e, 'v, 'r) seq_traits =
  seq_poll :: "('s, 'e, 'v) promise_fn"
  CheckResult :: "'v \<Rightarrow> 'r option"
  CallFactory :: "'f \<Rightarrow> 'v \<Rightarrow> 'e \<Rightarrow> 's \<times> 'e"
  seq_wrap :: "'v \<Rightarrow> 'r"

definition seq_N :: "('s, 'f) seq \<Rightarrow> nat" where
  "seq_N s = length (current_promise s)"

definition BasicSeq_init :: "'s \<Rightarrow> 'f list \<Rightarrow> ('s, 'f) seq" where
  "BasicSeq_init p fs =
     \<lparr>seq_state = 0, current_promise = Live p # replicate (length fs) Raw, next_factory = map Live fs\<rparr>"

text \<open>Destroying an element of a cell array, and constructing one in the union that overlays the state before it.\<close>

definition destruct_cell :: "nat \<Rightarrow> 'a cell list \<Rightarrow> 'a cell list crashable" where
  "destruct_cell i cs = (if i < length cs \<and> cs ! i \<noteq> Raw then Some (cs[i := Raw]) else None)"

definition construct_next :: "nat \<Rightarrow> 's \<Rightarrow> ('s, 'f) seq \<Rightarrow> ('s, 'f) seq crashable" where
  "construct_next i p s =
     (if Suc i < seq_N s \<and> current_promise s ! i = Raw \<and> next_factory s ! i = Raw \<and> current_promise s ! Suc i = Raw
      then Some (s\<lparr>current_promise := (current_promise s)[Suc i := Live p]\<rparr>) else None)"

definition seq_RunNext ::
    "('s, 'f, 'e, 'v, 'r) seq_traits \<Rightarrow> nat \<Rightarrow> 'v \<Rightarrow> ('s, 'f) seq \<Rightarrow> 'e \<Rightarrow> (('s, 'f) seq \<times> 'e) crashable" where
  "seq_RunNext tr i v s e =
     (case destruct_cell i (current_promise s) of
        None \<Rightarrow> None
      | Some cp \<Rightarrow>
          (case read_cell (next_factory s ! i) of
             None \<Rightarrow> None
           | Some f \<Rightarrow>
               let (n, e') = CallFactory tr f v e in
               (case destruct_cell i (next_factory s) of
                  None \<Rightarrow> None
                | Some nf \<Rightarrow>
                    (case construct_next i n (s\<lparr>current_promise := cp, next_factory := nf\<rparr>) of
                       None \<Rightarrow> None
                     | Some s' \<Rightarrow> Some (s'\<lparr>seq_state := Suc i\<rparr>, e')))))"

function seq_RunState ::
    "('s, 'f, 'e, 'v, 'r) seq_traits \<Rightarrow> nat \<Rightarrow> nat \<Rightarrow> ('s, 'f) seq \<Rightarrow> 'e \<Rightarrow> ('r poll \<times> ('s, 'f) seq \<times> 'e) crashable" where
  "seq_RunState tr N i s e =
     (if N \<le> i then None
      else case read_cell (current_promise s ! i) of
        None \<Rightarrow> None
      | Some p \<Rightarrow>
          let (r, p', e') = seq_poll tr p e; s1 = s\<lparr>current_promise := (current_promise s)[i := Live p']\<rparr> in
          (case r of
             Pending \<Rightarrow> Some (Pending, s1, e')
           | Ready v \<Rightarrow>
               if Suc i = N then Some (Ready (seq_wrap tr v), s1, e')
               else
                 (case CheckResult tr v of
                    Some res \<Rightarrow> Some (Ready res, s1, e')
                  | None \<Rightarrow>
                      (case seq_RunNext tr i v s1 e' of
                         None \<Rightarrow> None
                       | Some (s2, e2) \<Rightarrow> seq_RunState tr N (Suc i) s2 e2))))"
  by pat_completeness auto
termination by (relation "measure (\<lambda>(tr, N, i, s, e). N - i)") auto

declare seq_RunState.simps [simp del]

definition BasicSeq_poll :: "('s, 'f, 'e, 'v, 'r) seq_traits \<Rightarrow> ('s, 'f) seq \<Rightarrow> 'e \<Rightarrow> ('r poll \<times> ('s, 'f) seq \<times> 'e) crashable" where
  "BasicSeq_poll tr s e =
     Switch (seq_state s) (map (\<lambda>i _. seq_RunState tr (seq_N s) i s e) [0..<seq_N s])"

fun DestructSubsequentFactories :: "nat list \<Rightarrow> 'f cell list \<Rightarrow> 'f cell list crashable" where
  "DestructSubsequentFactories [] fs = Some fs"
| "DestructSubsequentFactories (i # is) fs =
     (case destruct_cell i fs of None \<Rightarrow> None | Some fs' \<Rightarrow> DestructSubsequentFactories is fs')"

definition BasicSeq_destruct :: "('s, 'f) seq \<Rightarrow> ('s, 'f) seq crashable" where
  "BasicSeq_destruct s =
     Switch (seq_state s) (map (\<lambda>i _.
       (case destruct_cell i (current_promise s) of
          None \<Rightarrow> None
        | Some cp \<Rightarrow>
            map_option (\<lambda>nf. s\<lparr>current_promise := cp, next_factory := nf\<rparr>)
              (DestructSubsequentFactories [i..<seq_N s - 1] (next_factory s)))) [0..<seq_N s])"

text \<open>Copying and moving are only allowed before the first poll; a fresh sequence is made of the same parts.\<close>

definition BasicSeq_move :: "('s, 'f) seq \<Rightarrow> ('s, 'f) seq crashable" where
  "BasicSeq_move other = (if seq_state other = 0 then Some other else None)"

section \<open>Seq and TrySeq\<close>

definition SeqTraits :: "('s, 'e, 'v) promise_fn \<Rightarrow> ('f \<Rightarrow> 'v \<Rightarrow> 'e \<Rightarrow> 's \<times> 'e) \<Rightarrow> ('s, 'f, 'e, 'v, 'v) seq_traits" where
  "SeqTraits poll once = \<lparr>seq_poll = poll, CheckResult = (\<lambda>_. None), CallFactory = once, seq_wrap = (\<lambda>v. v)\<rparr>"

text \<open>A \<open>StatusOr\<close> is a sum, an error on the left.  A factory only ever sees the value.\<close>

definition TrySeqTraits ::
    "('s, 'e, 'x + 'v) promise_fn \<Rightarrow> ('f \<Rightarrow> 'v \<Rightarrow> 'e \<Rightarrow> 's \<times> 'e) \<Rightarrow> ('s, 'f, 'e, 'x + 'v, 'x + 'v) seq_traits" where
  "TrySeqTraits poll once =
     \<lparr>seq_poll = poll,
      CheckResult = (\<lambda>v. case v of Inl err \<Rightarrow> Some (Inl err) | Inr _ \<Rightarrow> None),
      CallFactory = (\<lambda>f v e. case v of Inr x \<Rightarrow> once f x e | Inl _ \<Rightarrow> undefined),
      seq_wrap = (\<lambda>v. v)\<rparr>"

section \<open>Reference semantics\<close>

text \<open>A sequence without the storage: the current promise and the factories still to run.\<close>

fun seq_ref ::
    "('s, 'f, 'e, 'v, 'r) seq_traits \<Rightarrow> 's \<Rightarrow> 'f list \<Rightarrow> 'e \<Rightarrow> 'r poll \<times> ('s \<times> 'f list) \<times> 'e" where
  "seq_ref tr p [] e =
     (case seq_poll tr p e of
        (Pending, p', e') \<Rightarrow> (Pending, (p', []), e')
      | (Ready v, p', e') \<Rightarrow> (Ready (seq_wrap tr v), (p', []), e'))"
| "seq_ref tr p (f # fs) e =
     (case seq_poll tr p e of
        (Pending, p', e') \<Rightarrow> (Pending, (p', f # fs), e')
      | (Ready v, p', e') \<Rightarrow>
          (case CheckResult tr v of
             Some r \<Rightarrow> (Ready r, (p', f # fs), e')
           | None \<Rightarrow> (case CallFactory tr f v e' of (n, e2) \<Rightarrow> seq_ref tr n fs e2)))"

text \<open>The storage that represents a current promise and its remaining factories in a sequence of \<open>n\<close> steps.\<close>

definition mk_seq :: "nat \<Rightarrow> 's \<Rightarrow> 'f list \<Rightarrow> ('s, 'f) seq" where
  "mk_seq n p fs =
     (let i = n - 1 - length fs in
      \<lparr>seq_state = i, current_promise = (replicate n Raw)[i := Live p], next_factory = replicate i Raw @ map Live fs\<rparr>)"

lemma BasicSeq_init_mk: "BasicSeq_init p fs = mk_seq (Suc (length fs)) p fs"
  by (simp add: BasicSeq_init_def mk_seq_def)

lemma seq_N_mk [simp]: "seq_N (mk_seq n p fs) = n"
  by (simp add: seq_N_def mk_seq_def Let_def)

lemma cell_cycle: "i < n \<Longrightarrow> ((replicate n Raw)[i := Live p])[i := Raw] = replicate n Raw"
  by (metis list_update_overwrite list_update_same_conv length_replicate nth_replicate)

lemma factory_spent: "(replicate i Raw @ Live f # xs)[i := Raw] = replicate (Suc i) Raw @ xs"
  by (simp add: list_update_append replicate_append_same flip: replicate_append_same)

lemma seq_RunNext_mk:
  assumes "length fs + 2 \<le> n" "i = n - 2 - length fs" "CallFactory tr f v e = (q, e')"
  shows "seq_RunNext tr i v (mk_seq n p (f # fs)) e = Some (mk_seq n q fs, e')"
proof -
  have i: "n - 1 - length (f # fs) = i" "Suc i < n" "n - 1 - length fs = Suc i" using assms by auto
  note cells = cell_cycle [OF Suc_lessD [OF i(2)], of p] factory_spent [of i f "map Live fs"]
  have spent: "(Raw # replicate i Raw @ map Live fs) ! i = Raw"
    using nth_append [of "replicate (Suc i) Raw" "map Live fs" i] nth_replicate [of i "Suc i" Raw] by simp
  show ?thesis
    using i assms(3) cells spent
    by (simp add: seq_RunNext_def destruct_cell_def construct_next_def mk_seq_def seq_N_def nth_append Let_def del: list_update_overwrite)
qed

lemma seq_RunState_mk:
  "length fs < n \<Longrightarrow> i = n - 1 - length fs \<Longrightarrow>
   seq_RunState tr n i (mk_seq n p fs) e =
     (case seq_ref tr p fs e of (r, (p', fs'), e') \<Rightarrow> Some (r, mk_seq n p' fs', e'))"
proof (induction fs arbitrary: p e i)
  case Nil
  then show ?case
    by (subst seq_RunState.simps) (auto simp: mk_seq_def Let_def split: poll.splits prod.splits)
next
  case (Cons f fs)
  then have i: "i < n" "Suc i \<noteq> n" "i = n - 2 - length fs" "n - 1 - length (f # fs) = i" by auto
  obtain r p' e' where p: "seq_poll tr p e = (r, p', e')" by (metis prod.exhaust)
  have cur: "current_promise (mk_seq n p (f # fs)) ! i = Live p" using i by (simp add: mk_seq_def Let_def)
  have s1: "(mk_seq n p (f # fs))\<lparr>current_promise := (current_promise (mk_seq n p (f # fs)))[i := Live p']\<rparr> = mk_seq n p' (f # fs)"
    using i(4) by (simp add: mk_seq_def Let_def)
  show ?case
  proof (cases r)
    case Pending
    then show ?thesis using i p cur s1 by (subst seq_RunState.simps) simp
  next
    case (Ready v)
    show ?thesis
    proof (cases "CheckResult tr v")
      case (Some res)
      then show ?thesis using i p cur s1 Ready by (subst seq_RunState.simps) simp
    next
      case None
      obtain q e2 where q: "CallFactory tr f v e' = (q, e2)" by fastforce
      have "seq_RunNext tr i v (mk_seq n p' (f # fs)) e' = Some (mk_seq n q fs, e2)"
        by (rule seq_RunNext_mk) (use Cons.prems i q in auto)
      moreover have "seq_RunState tr n (Suc i) (mk_seq n q fs) e2 =
          (case seq_ref tr q fs e2 of (r, (p', fs'), e') \<Rightarrow> Some (r, mk_seq n p' fs', e'))"
        by (rule Cons.IH) (use Cons.prems in auto)
      ultimately show ?thesis using i p cur s1 Ready None q by (subst seq_RunState.simps) simp
    qed
  qed
qed

lemma Switch_upt: "i < n \<Longrightarrow> Switch i (map (\<lambda>i _. f i) [0..<n]) = f i"
  by (simp add: Switch_def)

lemma BasicSeq_poll_mk:
  assumes "length fs < n"
  shows "BasicSeq_poll tr (mk_seq n p fs) e =
    (case seq_ref tr p fs e of (r, (p', fs'), e') \<Rightarrow> Some (r, mk_seq n p' fs', e'))"
proof -
  have "seq_state (mk_seq n p fs) = n - 1 - length fs" "n - 1 - length fs < n"
    using assms by (auto simp: mk_seq_def Let_def)
  then show ?thesis
    using seq_RunState_mk [OF assms refl, of tr p e] by (simp add: BasicSeq_poll_def Switch_upt)
qed

lemma seq_ref_suffix: "seq_ref tr p fs e = (r, (p', fs'), e') \<Longrightarrow> \<exists>gs. fs = gs @ fs'"
proof (induction fs arbitrary: p e)
  case (Cons f fs)
  then show ?case by (fastforce split: prod.splits poll.splits option.splits)
qed (auto split: prod.splits poll.splits)

lemma DestructSubsequentFactories_ok:
  "DestructSubsequentFactories [i..<i + length fs] (replicate i Raw @ map Live fs) = Some (replicate (i + length fs) Raw)"
proof (induction fs arbitrary: i)
  case (Cons f fs)
  have "[i..<i + length (f # fs)] = i # [Suc i..<Suc i + length fs]" by (simp add: upt_rec)
  then show ?case
    using Cons.IH [of "Suc i"] factory_spent [of i f "map Live fs"] by (simp add: destruct_cell_def nth_append)
qed simp

lemma BasicSeq_destruct_mk:
  assumes "length fs < n"
  shows "\<exists>s. BasicSeq_destruct (mk_seq n p fs) = Some s \<and> current_promise s = replicate n Raw \<and> next_factory s = replicate (n - 1) Raw"
proof -
  define i where "i = n - 1 - length fs"
  have i: "i < n" "n - 1 = i + length fs" using assms by (auto simp: i_def)
  have "((replicate n Raw)[i := Live p])[i := Raw] = replicate n Raw" by (rule cell_cycle [OF i(1)])
  then have "destruct_cell i (current_promise (mk_seq n p fs)) = Some (replicate n Raw)"
    using i by (simp add: destruct_cell_def mk_seq_def Let_def i_def [symmetric] del: list_update_overwrite)
  moreover have "DestructSubsequentFactories [i..<n - 1] (next_factory (mk_seq n p fs)) = Some (replicate (n - 1) Raw)"
    using DestructSubsequentFactories_ok [of i fs] i(2) by (simp add: mk_seq_def Let_def i_def [symmetric])
  moreover have "seq_state (mk_seq n p fs) = i" by (simp add: mk_seq_def Let_def i_def)
  ultimately show ?thesis using i(1) by (simp add: BasicSeq_destruct_def Switch_upt)
qed

section \<open>Properties\<close>

text \<open>A sequence as its owner may use it: constructed, then polled as long as it stays pending, in any environments; beside it the reference.\<close>

inductive seq_reach ::
    "('s, 'f, 'e, 'v, 'r) seq_traits \<Rightarrow> 's \<Rightarrow> 'f list \<Rightarrow> ('s, 'f) seq \<Rightarrow> 's \<Rightarrow> 'f list \<Rightarrow> bool" for tr p0 fs0 where
  seq_start: "seq_reach tr p0 fs0 (BasicSeq_init p0 fs0) p0 fs0"
| seq_again: "seq_reach tr p0 fs0 s p fs \<Longrightarrow> BasicSeq_poll tr s e = Some (Pending, s', e') \<Longrightarrow>
    seq_ref tr p fs e = (Pending, (p', fs'), e'') \<Longrightarrow> seq_reach tr p0 fs0 s' p' fs'"

lemma seq_reach_mk:
  "seq_reach tr p0 fs0 s p fs \<Longrightarrow> s = mk_seq (Suc (length fs0)) p fs \<and> length fs < Suc (length fs0)"
proof (induction rule: seq_reach.induct)
  case seq_start
  then show ?case by (simp add: BasicSeq_init_mk)
next
  case (seq_again s p fs e s' e' p' fs' e'')
  obtain gs where gs: "fs = gs @ fs'" using seq_ref_suffix [OF seq_again.hyps(3)] by blast
  have s: "s = mk_seq (Suc (length fs0)) p fs" and l: "length fs < Suc (length fs0)" using seq_again.IH by simp_all
  have "s' = mk_seq (Suc (length fs0)) p' fs'"
    using BasicSeq_poll_mk [OF l, of tr p e] seq_again.hyps(2,3) unfolding s by simp
  with gs l show ?case by simp
qed

text \<open>C24: \<open>BasicSeq\<close> implements sequencing and manages its storage correctly.  Whenever an unfinished sequence is polled, no promise or factory is
  used, constructed or destroyed out of its lifetime, the result, the environment and the remaining steps are those of the reference
  semantics (poll the current promise, escape or pass its result to the next factory, go on while ready), and destroying the
  sequence afterwards, finished or not, destroys every promise and factory that is still alive exactly once.\<close>

theorem basic_seq_correct:
  assumes "seq_reach tr p0 fs0 s p fs"
  shows "case seq_ref tr p fs e of (r, (p', fs'), e') \<Rightarrow>
    (\<exists>s' d. BasicSeq_poll tr s e = Some (r, s', e') \<and> BasicSeq_destruct s' = Some d \<and>
       current_promise d = replicate (Suc (length fs0)) Raw \<and> next_factory d = replicate (length fs0) Raw)"
proof -
  obtain r p' fs' e' where ref: "seq_ref tr p fs e = (r, (p', fs'), e')" by (metis prod.exhaust)
  note m = seq_reach_mk [OF assms]
  obtain gs where "fs = gs @ fs'" using seq_ref_suffix [OF ref] by blast
  with m have "length fs' < Suc (length fs0)" by simp
  from BasicSeq_destruct_mk [OF this, of p'] m BasicSeq_poll_mk [of fs "Suc (length fs0)" tr p e] ref show ?thesis by auto
qed

text \<open>Promises that complete at once, for evaluation: the state is the value.\<close>

definition immediate_poll :: "('v, 'e, 'v) promise_fn" where
  "immediate_poll v e = (Ready v, v, e)"

theorem basic_seq_correct_witness:
  "\<exists>s' d. BasicSeq_poll (SeqTraits immediate_poll (\<lambda>f v e. (f v, e))) (BasicSeq_init (1 :: int) [\<lambda>x. x + 1, \<lambda>x. x * 10]) () =
     Some (Ready 20, s', ()) \<and> BasicSeq_destruct s' = Some d \<and> next_factory d = [Raw, Raw]"
  using basic_seq_correct [OF seq_start, of "SeqTraits immediate_poll (\<lambda>f v e. (f v, e))" "1 :: int" "[\<lambda>x. x + 1, \<lambda>x. x * 10]" "()"]
  by (auto simp: SeqTraits_def immediate_poll_def numeral_2_eq_2)

lemma try_seq_ref_bind:
  "fst (seq_ref (TrySeqTraits immediate_poll (\<lambda>f x log. (f x, log @ [x]))) v fs log) =
     Ready (foldl (\<lambda>acc f. case acc of Inl err \<Rightarrow> Inl err | Inr x \<Rightarrow> f x) v fs) \<and>
   snd (snd (seq_ref (TrySeqTraits immediate_poll (\<lambda>f x log. (f x, log @ [x]))) v fs log)) =
     log @ List.map_filter (\<lambda>r. case r of Inl _ \<Rightarrow> None | Inr x \<Rightarrow> Some x)
       (map (\<lambda>k. foldl (\<lambda>acc f. case acc of Inl err \<Rightarrow> Inl err | Inr x \<Rightarrow> f x) v (take k fs)) [0..<length fs])"
proof (induction fs arbitrary: v log)
  case Nil
  then show ?case by (simp add: TrySeqTraits_def immediate_poll_def)
next
  case (Cons f fs)
  let ?bind = "\<lambda>acc f. case acc of Inl err \<Rightarrow> Inl err | Inr x \<Rightarrow> f x"
  have upt: "[0..<Suc (length fs)] = 0 # map Suc [0..<length fs]" by (simp add: upt_conv_Cons map_Suc_upt del: upt_Suc)
  have inl: "foldl ?bind (Inl err) gs = Inl err" for err :: 'a and gs :: "('b \<Rightarrow> 'a + 'b) list" by (induction gs) auto
  show ?case
  proof (cases v)
    case (Inl err)
    then show ?thesis
      by (simp add: TrySeqTraits_def immediate_poll_def inl upt map_filter_def comp_def del: upt_Suc)
  next
    case (Inr x)
    have "seq_ref (TrySeqTraits immediate_poll (\<lambda>f x log. (f x, log @ [x]))) v (f # fs) log =
        seq_ref (TrySeqTraits immediate_poll (\<lambda>f x log. (f x, log @ [x]))) (f x) fs (log @ [x])"
      using Inr by (simp add: TrySeqTraits_def immediate_poll_def)
    with Cons.IH [of "f x" "log @ [x]"] Inr show ?thesis
      by (simp add: upt map_filter_def comp_def del: upt_Suc seq_ref.simps)
  qed
qed

text \<open>C25: \<open>TrySeq\<close> over steps that complete at once is the composition of the steps in the error monad: the first error is the result and no later
  factory is called, otherwise every factory is called once, in order, with the value of the step before.\<close>

theorem try_seq_is_bind:
  "\<exists>s'. BasicSeq_poll (TrySeqTraits immediate_poll (\<lambda>f x log. (f x, log @ [x]))) (BasicSeq_init v fs) log =
     Some (Ready (foldl (\<lambda>acc f. case acc of Inl err \<Rightarrow> Inl err | Inr x \<Rightarrow> f x) v fs), s',
       log @ List.map_filter (\<lambda>r. case r of Inl _ \<Rightarrow> None | Inr x \<Rightarrow> Some x)
         (map (\<lambda>k. foldl (\<lambda>acc f. case acc of Inl err \<Rightarrow> Inl err | Inr x \<Rightarrow> f x) v (take k fs)) [0..<length fs]))"
  using BasicSeq_poll_mk [of fs "Suc (length fs)" "TrySeqTraits immediate_poll (\<lambda>f x log. (f x, log @ [x]))" v log]
    try_seq_ref_bind [of v fs log]
  by (auto simp: BasicSeq_init_mk split: prod.splits)

end
