(* ===== verification/Promise_Join.thy ===== *)
theory Promise_Join
  imports Promise_Seq
begin

text \<open>
  Joining promises: \<^verbatim>\<open>src/core/lib/promise/detail/basic_join.h\<close>, \<^verbatim>\<open>join.h\<close>, \<^verbatim>\<open>try_join.h\<close>.  A joint is a union of a promise and
  its result; which of the two is alive is remembered in a \<open>BitSet\<close> (theory \<open>Bit_Set\<close>), and the accesses go by those bits.
  Reading the member of the union that is not alive, or constructing over a live one, is a fault.
\<close>

section \<open>Definitions\<close>

datatype ('s, 'v) fused = Empty | InPromise 's | InResult 'v

record ('u, 's, 'v) join =
  join_state :: "'u bitset"
  joints :: "('s, 'v) fused list"

text \<open>The traits of a join: what a ready value is stored as, or the value the whole join escapes with; and the final wrapping.\<close>

record ('p, 'v, 'r) join_traits =
  OnResult :: "'p \<Rightarrow> 'r + 'v"
  join_wrap :: "'v list \<Rightarrow> 'r"

definition BasicJoin_init :: "'s list \<Rightarrow> ('w::len word, 's, 'v) join" where
  "BasicJoin_init ps = \<lparr>join_state = BitSet_init (length ps), joints = map InPromise ps\<rparr>"

fun get_promise :: "('s, 'v) fused \<Rightarrow> 's crashable" where
  "get_promise (InPromise p) = Some p" | "get_promise _ = None"

fun get_result :: "('s, 'v) fused \<Rightarrow> 'v crashable" where
  "get_result (InResult v) = Some v" | "get_result _ = None"

text \<open>The joints are polled in the order of their index; the end of the recursion is \<open>finally\<close>.\<close>

fun joint_Run ::
    "('s, 'e, 'p) promise_fn \<Rightarrow> ('p, 'v, 'r) join_traits \<Rightarrow>
     (('w::len word, 's, 'v) join \<Rightarrow> 'e \<Rightarrow> ('r poll \<times> ('w word, 's, 'v) join \<times> 'e) crashable) \<Rightarrow>
     nat list \<Rightarrow> ('w word, 's, 'v) join \<Rightarrow> 'e \<Rightarrow> ('r poll \<times> ('w word, 's, 'v) join \<times> 'e) crashable" where
  "joint_Run poll tr finally_fn [] j e = finally_fn j e"
| "joint_Run poll tr finally_fn (k # ks) j e =
     (if \<not> BitSet_is_set (join_state j) k
      then (case get_promise (joints j ! k) of
              None \<Rightarrow> None
            | Some p \<Rightarrow>
                (case poll p e of
                   (Ready v, p', e') \<Rightarrow>
                     (case OnResult tr v of
                        Inl r \<Rightarrow> Some (Ready r, j\<lparr>joints := (joints j)[k := InPromise p']\<rparr>, e')
                      | Inr res \<Rightarrow>
                          joint_Run poll tr finally_fn ks
                            (j\<lparr>join_state := BitSet_set k (join_state j), joints := (joints j)[k := InResult res]\<rparr>) e')
                 | (Pending, p', e') \<Rightarrow>
                     joint_Run poll tr finally_fn ks (j\<lparr>joints := (joints j)[k := InPromise p']\<rparr>) e'))
      else joint_Run poll tr finally_fn ks j e)"

fun gather :: "('s, 'v) fused list \<Rightarrow> 'v list crashable" where
  "gather [] = Some []"
| "gather (x # xs) =
     (case get_result x of None \<Rightarrow> None | Some v \<Rightarrow> map_option (Cons v) (gather xs))"

definition join_finally ::
    "('p, 'v, 'r) join_traits \<Rightarrow> ('w::len word, 's, 'v) join \<Rightarrow> 'e \<Rightarrow> ('r poll \<times> ('w word, 's, 'v) join \<times> 'e) crashable" where
  "join_finally tr j e =
     (if BitSet_all (length (joints j)) (join_state j)
      then map_option (\<lambda>vs. (Ready (join_wrap tr vs), j, e)) (gather (joints j))
      else Some (Pending, j, e))"

definition BasicJoin_poll ::
    "('s, 'e, 'p) promise_fn \<Rightarrow> ('p, 'v, 'r) join_traits \<Rightarrow> ('w::len word, 's, 'v) join \<Rightarrow> 'e
      \<Rightarrow> ('r poll \<times> ('w word, 's, 'v) join \<times> 'e) crashable" where
  "BasicJoin_poll poll tr j e = joint_Run poll tr (join_finally tr) [0..<length (joints j)] j e"

fun DestructAll :: "'w::len word bitset \<Rightarrow> nat list \<Rightarrow> ('s, 'v) fused list \<Rightarrow> ('s, 'v) fused list crashable" where
  "DestructAll bits [] xs = Some xs"
| "DestructAll bits (k # ks) xs =
     (if \<not> BitSet_is_set bits k
      then (case get_promise (xs ! k) of None \<Rightarrow> None | Some _ \<Rightarrow> DestructAll bits ks (xs[k := Empty]))
      else (case get_result (xs ! k) of None \<Rightarrow> None | Some _ \<Rightarrow> DestructAll bits ks (xs[k := Empty])))"

definition BasicJoin_destruct :: "('w::len word, 's, 'v) join \<Rightarrow> ('s, 'v) fused list crashable" where
  "BasicJoin_destruct j = DestructAll (join_state j) [0..<length (joints j)] (joints j)"

definition BasicJoin_move :: "('w::len word, 's, 'v) join \<Rightarrow> ('w word, 's, 'v) join crashable" where
  "BasicJoin_move other = (if BitSet_none (length (joints other)) (join_state other) then Some other else None)"

definition JoinTraits :: "('v, 'v, 'v list) join_traits" where
  "JoinTraits = \<lparr>OnResult = Inr, join_wrap = (\<lambda>vs. vs)\<rparr>"

definition TryJoinTraits :: "('x + 'v, 'v, 'x + 'v list) join_traits" where
  "TryJoinTraits = \<lparr>OnResult = (\<lambda>v. case v of Inl err \<Rightarrow> Inl (Inl err) | Inr x \<Rightarrow> Inr x), join_wrap = Inr\<rparr>"

section \<open>Reference semantics\<close>

text \<open>A list of unfinished promises and results, polled from left to right.\<close>

fun join_ref ::
    "('s, 'e, 'p) promise_fn \<Rightarrow> ('p, 'v, 'r) join_traits \<Rightarrow> ('s + 'v) list \<Rightarrow> 'e \<Rightarrow> 'r option \<times> ('s + 'v) list \<times> 'e" where
  "join_ref poll tr [] e = (None, [], e)"
| "join_ref poll tr (Inr v # xs) e = (case join_ref poll tr xs e of (o', xs', e') \<Rightarrow> (o', Inr v # xs', e'))"
| "join_ref poll tr (Inl p # xs) e =
     (case poll p e of
        (Pending, p', e') \<Rightarrow> (case join_ref poll tr xs e' of (o', xs', e2) \<Rightarrow> (o', Inl p' # xs', e2))
      | (Ready v, p', e') \<Rightarrow>
          (case OnResult tr v of
             Inl r \<Rightarrow> (Some r, Inl p' # xs, e')
           | Inr res \<Rightarrow> (case join_ref poll tr xs e' of (o', xs', e2) \<Rightarrow> (o', Inr res # xs', e2))))"

definition join_ref_result :: "('p, 'v, 'r) join_traits \<Rightarrow> 'r option \<Rightarrow> ('s + 'v) list \<Rightarrow> 'r poll" where
  "join_ref_result tr esc xs =
     (case esc of Some r \<Rightarrow> Ready r
      | None \<Rightarrow> if list_all (\<lambda>x. \<not> isl x) xs then Ready (join_wrap tr (map projr xs)) else Pending)"

section \<open>Correctness\<close>

definition as_fused :: "'s + 'v \<Rightarrow> ('s, 'v) fused" where
  "as_fused x = (case x of Inl p \<Rightarrow> InPromise p | Inr v \<Rightarrow> InResult v)"

lemma as_fused_simps [simp]: "as_fused (Inl p) = InPromise p" "as_fused (Inr v) = InResult v"
  by (simp_all add: as_fused_def)

definition join_rep :: "('s + 'v) list \<Rightarrow> ('w::len word, 's, 'v) join \<Rightarrow> bool" where
  "join_rep xs j \<longleftrightarrow> joints j = map as_fused xs \<and> bitset_ok (length xs) (join_state j) \<and>
     (\<forall>k < length xs. BitSet_is_set (join_state j) k \<longleftrightarrow> \<not> isl (xs ! k))"

lemma join_repD:
  assumes "join_rep xs j" "k < length xs"
  shows "joints j ! k = as_fused (xs ! k)" "BitSet_is_set (join_state j) k \<longleftrightarrow> \<not> isl (xs ! k)" "length (joints j) = length xs"
  using assms by (auto simp: join_rep_def)

lemma join_rep_init:
  assumes "supported_unit TYPE('w::len)" "length ps < 2 ^ 32"
  shows "join_rep (map Inl ps) (BasicJoin_init ps :: ('w word, 's, 'v) join)"
  using bitset_ok_init [OF assms] is_set_init by (auto simp: join_rep_def BasicJoin_init_def as_fused_def comp_def)

lemma join_rep_promise:
  assumes "join_rep xs j" "k < length xs" "isl (xs ! k)"
  shows "join_rep (xs[k := Inl p]) (j\<lparr>joints := (joints j)[k := InPromise p]\<rparr>)"
  using assms by (auto simp: join_rep_def map_update as_fused_def nth_list_update)

lemma join_rep_result:
  assumes "join_rep xs j" "k < length xs"
  shows "join_rep (xs[k := Inr v]) (j\<lparr>join_state := BitSet_set k (join_state j), joints := (joints j)[k := InResult v]\<rparr>)"
proof -
  have b: "bitset_ok (length xs) (join_state j)" using assms(1) by (simp add: join_rep_def)
  have s: "BitSet_set k (join_state j) = BitSet_set_to k True (join_state j)" by (simp add: BitSet_set_to_def)
  show ?thesis
    using assms bs.ok_put [OF b assms(2)] bs.test_put [OF b assms(2)] unfolding s
    by (auto simp: join_rep_def map_update as_fused_def nth_list_update)
qed

text \<open>The joints from index \<open>n\<close> on, given that those before are done with for this poll.\<close>

lemma joint_Run_ref:
  assumes "join_rep (ys @ xs) j"
  shows "\<exists>j'. joint_Run poll tr (join_finally tr) [length ys..<length (ys @ xs)] j e =
      (case join_ref poll tr xs e of (o', xs', e') \<Rightarrow>
         Some (join_ref_result tr o' (ys @ xs'), j', e')) \<and>
      join_rep (ys @ fst (snd (join_ref poll tr xs e))) j'"
  using assms
proof (induction xs arbitrary: ys j e)
  case Nil
  have "BitSet_all (length ys) (join_state j) \<longleftrightarrow> list_all (\<lambda>x. \<not> isl x) ys"
    using Nil BitSet_all_iff [of "length ys" "join_state j"] by (auto simp: join_rep_def list_all_nth_iff)
  moreover have "list_all (\<lambda>x. \<not> isl x) ys \<Longrightarrow> gather (map as_fused ys) = Some (map projr ys)"
    by (induction ys) (auto simp: as_fused_def split: sum.splits)
  ultimately show ?case using Nil by (auto simp: join_finally_def join_ref_result_def join_rep_def)
next
  case (Cons x xs)
  let ?k = "length ys"
  have k: "?k < length (ys @ x # xs)" by simp
  have upt: "[?k..<length (ys @ x # xs)] = ?k # [length (ys @ [y])..<length ((ys @ [y]) @ xs)]" for y :: "'a + 'b"
    using upt_conv_Cons [OF k] by simp
  note d = join_repD [OF Cons.prems k]
  show ?case
  proof (cases x)
    case (Inr v)
    with Cons.IH [of "ys @ [x]" j e] Cons.prems d show ?thesis
      unfolding upt [of x] by (auto split: prod.splits)
  next
    case (Inl p)
    obtain r p' e' where p: "poll p e = (r, p', e')" by (metis prod.exhaust)
    have pr: "join_rep ((ys @ [Inl p']) @ xs) (j\<lparr>joints := (joints j)[?k := InPromise p']\<rparr>)"
      using join_rep_promise [OF Cons.prems k, of p'] Inl by (simp add: list_update_append)
    show ?thesis
    proof (cases r)
      case Pending
      with Cons.IH [OF pr, of e'] d Inl p show ?thesis
        unfolding upt [of "Inl p'"] by (auto simp: as_fused_def split: prod.splits)
    next
      case (Ready v)
      show ?thesis
      proof (cases "OnResult tr v")
        case (Inl rr)
        then show ?thesis
          using d \<open>x = Inl p\<close> p Ready pr unfolding upt [of "Inl p'"]
          by (auto simp: as_fused_def join_ref_result_def)
      next
        case (Inr res)
        have "join_rep ((ys @ [Inr res]) @ xs)
            (j\<lparr>join_state := BitSet_set ?k (join_state j), joints := (joints j)[?k := InResult res]\<rparr>)"
          using join_rep_result [OF Cons.prems k, of res] by (simp add: list_update_append)
        from Cons.IH [OF this, of e'] Inr d \<open>x = Inl p\<close> p Ready show ?thesis
          unfolding upt [of "Inr res"] by (auto simp: as_fused_def split: prod.splits)
      qed
    qed
  qed
qed

lemma BasicJoin_poll_ref:
  assumes "join_rep xs j" "join_ref poll tr xs e = (o', xs', e')"
  shows "\<exists>j'. BasicJoin_poll poll tr j e = Some (join_ref_result tr o' xs', j', e') \<and> join_rep xs' j'"
  using joint_Run_ref [of "[]" xs j poll tr e] assms by (auto simp: BasicJoin_poll_def join_rep_def)

lemma DestructAll_ok:
  assumes "join_rep (ys @ xs) j" "length zs = length ys"
  shows "DestructAll (join_state j) [length ys..<length (ys @ xs)] (zs @ map as_fused xs) =
    Some (zs @ replicate (length xs) Empty)"
  using assms
proof (induction xs arbitrary: ys zs)
  case (Cons x xs)
  have k: "length ys < length (ys @ x # xs)" by simp
  have upt: "[length ys..<length (ys @ x # xs)] = length ys # [length (ys @ [x])..<length ((ys @ [x]) @ xs)]"
    using upt_conv_Cons [OF k] by simp
  have "DestructAll (join_state j) [length (ys @ [x])..<length ((ys @ [x]) @ xs)] ((zs @ [Empty]) @ map as_fused xs) =
      Some ((zs @ [Empty]) @ replicate (length xs) Empty)"
    by (rule Cons.IH) (use Cons.prems in auto)
  then show ?case
    using join_repD(2) [OF Cons.prems(1) k] Cons.prems(2) unfolding upt
    by (cases x) (auto simp: nth_append list_update_append)
qed simp

section \<open>Properties\<close>

inductive join_reach ::
    "('s, 'e, 'p) promise_fn \<Rightarrow> ('p, 'v, 'r) join_traits \<Rightarrow> 's list \<Rightarrow> ('w::len word, 's, 'v) join \<Rightarrow> ('s + 'v) list \<Rightarrow> bool"
  for poll tr ps where
  join_start: "join_reach poll tr ps (BasicJoin_init ps) (map Inl ps)"
| join_again: "join_reach poll tr ps j xs \<Longrightarrow> BasicJoin_poll poll tr j e = Some (Pending, j', e') \<Longrightarrow>
    join_ref poll tr xs e = (o', xs', e'') \<Longrightarrow> join_reach poll tr ps j' xs'"

lemma join_reach_rep:
  assumes "supported_unit TYPE('w::len)" "length ps < 2 ^ 32"
    and "join_reach poll tr ps (j :: ('w word, 's, 'v) join) xs"
  shows "join_rep xs j"
  using assms(3)
proof (induction rule: join_reach.induct)
  case join_start
  then show ?case using join_rep_init [OF assms(1,2)] .
next
  case (join_again j xs e j' e' o' xs' e'')
  from BasicJoin_poll_ref [OF join_again.IH join_again.hyps(3)] join_again.hyps(2) show ?case by auto
qed

text \<open>C26: \<open>BasicJoin\<close> implements joining and manages its unions correctly.  Whenever an unfinished join is polled, each joint's bit says which member of its
  union is alive, so no dead member is read; every promise without a result is polled once, in order, none with a result is polled again; the join
  is ready with all results in order exactly when the last one is in, or at once with the escape value of the traits; and destroying it in any
  state destroys exactly the live members.\<close>

theorem basic_join_correct:
  assumes "supported_unit TYPE('w::len)" "length ps < 2 ^ 32"
    and "join_reach poll tr ps (j :: ('w word, 's, 'v) join) xs"
    and "join_ref poll tr xs e = (o', xs', e')"
  shows "\<exists>j'. BasicJoin_poll poll tr j e = Some (join_ref_result tr o' xs', j', e') \<and>
    BasicJoin_destruct j' = Some (replicate (length (joints j')) Empty)"
proof -
  from BasicJoin_poll_ref [OF join_reach_rep [OF assms(1-3)] assms(4)] obtain j' where
    j: "BasicJoin_poll poll tr j e = Some (join_ref_result tr o' xs', j', e')" "join_rep xs' j'" by blast
  have "BasicJoin_destruct j' = Some (replicate (length (joints j')) Empty)"
    using DestructAll_ok [of "[]" xs' j' "[]"] j(2) by (simp add: BasicJoin_destruct_def join_rep_def)
  with j(1) show ?thesis by blast
qed

theorem basic_join_correct_witness:
  "\<exists>j'. BasicJoin_poll immediate_poll TryJoinTraits (BasicJoin_init [Inr 1, Inr 2] :: (8 word, string + int, int) join) () =
     Some (Ready (Inr [1, 2]), j', ()) \<and> BasicJoin_destruct j' = Some (replicate (length (joints j')) Empty)"
  using basic_join_correct [where 'w = 8 and poll = immediate_poll and tr = TryJoinTraits and ps = "[Inr 1, Inr 2 :: string + int]",
      OF _ _ join_start, of "()"]
  by (simp add: supported_unit_def TryJoinTraits_def immediate_poll_def join_ref_result_def)

end
