(* ===== verification/Hpack_Tables.thy ===== *)
theory Hpack_Tables
  imports Prelude
begin

text \<open>
  The dynamic tables of HPACK: \<^verbatim>\<open>src/core/ext/transport/chttp2/transport/hpack_constants.h\<close>, \<^verbatim>\<open>hpack_parser_table.h/.cc\<close> (the decoder's ring of
  entries) and \<^verbatim>\<open>hpack_encoder_table.h/.cc\<close> (the encoder's ring of entry sizes, which mirrors the table of the peer).  The 32-bit fields are
  natural numbers, with the wrap-around of every addition, subtraction and increment written out.  An eviction loop is a
  partial function; not returning, a failed assertion and an access out of bounds are all \<open>None\<close>.
\<close>

section \<open>Thirty-two bit arithmetic on natural numbers\<close>

definition add32 :: "nat \<Rightarrow> nat \<Rightarrow> nat" where
  "add32 a b = (a + b) mod 2 ^ 32"

definition sub32 :: "nat \<Rightarrow> nat \<Rightarrow> nat" where
  "sub32 a b = (a + (2 ^ 32 - b mod 2 ^ 32)) mod 2 ^ 32"

section \<open>Definitions\<close>

definition kEntryOverhead :: nat where "kEntryOverhead = 32"
definition kInitialTableSize :: nat where "kInitialTableSize = 4096"
definition kLastStaticEntry :: nat where "kLastStaticEntry = 61"

definition EntriesForBytes :: "nat \<Rightarrow> nat" where
  "EntriesForBytes bytes = sub32 (add32 bytes kEntryOverhead) 1 div kEntryOverhead"

definition kInitialTableEntries :: nat where
  "kInitialTableEntries = EntriesForBytes kInitialTableSize"

subsection \<open>The decoder's table\<close>

text \<open>A memento is an entry with its size; one that was moved from keeps the size and has no value.\<close>

record 'm memento =
  mem_value :: "'m option"
  transport_size :: nat

definition empty_memento :: "'m memento" where
  "empty_memento = \<lparr>mem_value = None, transport_size = 0\<rparr>"

definition moved_from :: "'m memento \<Rightarrow> 'm memento" where
  "moved_from m = m\<lparr>mem_value := None\<rparr>"

record 'm hpack_table =
  first_entry :: nat
  num_entries :: nat
  mem_used :: nat
  max_bytes :: nat
  current_table_bytes :: nat
  max_entries :: nat
  entries :: "'m memento list"
  static_metadata :: "'m memento list"

definition HPackTable_init :: "'m memento list \<Rightarrow> 'm hpack_table" where
  "HPackTable_init st =
     \<lparr>first_entry = 0, num_entries = 0, mem_used = 0, max_bytes = kInitialTableSize, current_table_bytes = kInitialTableSize,
      max_entries = kInitialTableEntries, entries = replicate kInitialTableEntries empty_memento, static_metadata = st\<rparr>"

definition HPackTable_EvictOne :: "'m hpack_table \<Rightarrow> 'm hpack_table crashable" where
  "HPackTable_EvictOne t =
     (if length (entries t) \<le> first_entry t then None
      else
        let e = entries t ! first_entry t in
        if mem_used t < transport_size e then None
        else Some (t\<lparr>entries := (entries t)[first_entry t := moved_from e],
                     mem_used := mem_used t - transport_size e,
                     first_entry := add32 (first_entry t) 1 mod length (entries t),
                     num_entries := sub32 (num_entries t) 1\<rparr>))"

partial_function (option) evict_while :: "('m hpack_table \<Rightarrow> bool) \<Rightarrow> 'm hpack_table \<Rightarrow> 'm hpack_table option" where
  "evict_while P t =
     (if P t then (case HPackTable_EvictOne t of None \<Rightarrow> None | Some t' \<Rightarrow> evict_while P t') else Some t)"

text \<open>The loop moves the entries in order into a fresh vector.\<close>

definition HPackTable_Rebuild :: "nat \<Rightarrow> 'm hpack_table \<Rightarrow> 'm hpack_table crashable" where
  "HPackTable_Rebuild new_cap t =
     map_option (\<lambda>es. t\<lparr>first_entry := 0, entries := es\<rparr>)
       (fold_opt (\<lambda>i es. if i < length es \<and> 0 < length (entries t)
                        then Some (es[i := entries t ! ((first_entry t + i) mod length (entries t))]) else None)
          [0..<num_entries t] (replicate new_cap empty_memento))"

definition HPackTable_SetMaxBytes :: "nat \<Rightarrow> 'm hpack_table \<Rightarrow> 'm hpack_table crashable" where
  "HPackTable_SetMaxBytes n t =
     (if max_bytes t = n then Some t
      else map_option (\<lambda>t'. t'\<lparr>max_bytes := n\<rparr>) (evict_while (\<lambda>t. n < mem_used t) t))"

text \<open>An error leaves the table unchanged and is the value \<open>Inl\<close>.\<close>

datatype table_error = SizeAboveMax nat nat | ReducedNotReflected nat nat

definition HPackTable_SetCurrentTableSize :: "nat \<Rightarrow> 'm hpack_table \<Rightarrow> (table_error + 'm hpack_table) crashable" where
  "HPackTable_SetCurrentTableSize bytes t =
     (if current_table_bytes t = bytes then Some (Inr t)
      else if max_bytes t < bytes then Some (Inl (SizeAboveMax bytes (max_bytes t)))
      else
        (case evict_while (\<lambda>t. bytes < mem_used t) t of
           None \<Rightarrow> None
         | Some t1 \<Rightarrow>
             let t2 = t1\<lparr>current_table_bytes := bytes, max_entries := EntriesForBytes bytes\<rparr> in
             if length (entries t2) < max_entries t2 then map_option Inr (HPackTable_Rebuild (max_entries t2) t2)
             else if max_entries t2 < length (entries t2) div 3 then
               let new_cap = max (max_entries t2) kInitialTableEntries in
               if new_cap \<noteq> length (entries t2) then map_option Inr (HPackTable_Rebuild new_cap t2) else Some (Inr t2)
             else Some (Inr t2)))"

definition HPackTable_Add :: "'m memento \<Rightarrow> 'm hpack_table \<Rightarrow> (table_error + 'm hpack_table) crashable" where
  "HPackTable_Add md t =
     (if max_bytes t < current_table_bytes t then Some (Inl (ReducedNotReflected (max_bytes t) (current_table_bytes t)))
      else if current_table_bytes t < transport_size md then map_option Inr (evict_while (\<lambda>t. num_entries t \<noteq> 0) t)
      else
        (case evict_while (\<lambda>t. (current_table_bytes t + 2 ^ 64 - mem_used t) mod 2 ^ 64 < transport_size md) t of
           None \<Rightarrow> None
         | Some t1 \<Rightarrow>
             if entries t1 = [] then None
             else Some (Inr (t1\<lparr>mem_used := add32 (mem_used t1) (transport_size md),
                                entries := (entries t1)[add32 (first_entry t1) (num_entries t1) mod length (entries t1) := md],
                                num_entries := add32 (num_entries t1) 1\<rparr>))))"

text \<open>A lookup gives a pointer, null for an index that is not in use; the static entry before the first is out of bounds.\<close>

definition HPackTable_LookupDynamic :: "nat \<Rightarrow> 'm hpack_table \<Rightarrow> 'm memento option crashable" where
  "HPackTable_LookupDynamic index t =
     (let tbl_index = sub32 index (kLastStaticEntry + 1) in
      if tbl_index < num_entries t
      then (if entries t = [] then None
            else Some (Some (entries t !
              (add32 (sub32 (sub32 (num_entries t) 1) tbl_index) (first_entry t) mod length (entries t)))))
      else Some None)"

definition HPackTable_Lookup :: "nat \<Rightarrow> 'm hpack_table \<Rightarrow> 'm memento option crashable" where
  "HPackTable_Lookup index t =
     (if index \<le> kLastStaticEntry
      then (if index = 0 \<or> length (static_metadata t) < index then None else Some (Some (static_metadata t ! (index - 1))))
      else HPackTable_LookupDynamic index t)"

subsection \<open>The encoder's table\<close>

record encoder_table =
  tail_remote_index :: nat
  max_table_size :: nat
  table_elems :: nat
  table_size :: nat
  elem_size :: "nat list"

definition HPackEncoderTable_init :: encoder_table where
  "HPackEncoderTable_init =
     \<lparr>tail_remote_index = 0, max_table_size = kInitialTableSize, table_elems = 0, table_size = 0,
      elem_size = replicate kInitialTableEntries 0\<rparr>"

definition EncoderTable_EvictOne :: "encoder_table \<Rightarrow> encoder_table crashable" where
  "EncoderTable_EvictOne t =
     (let tl' = add32 (tail_remote_index t) 1 in
      if tl' = 0 \<or> table_elems t = 0 \<or> elem_size t = [] then None
      else
        let removing = elem_size t ! (tl' mod length (elem_size t)) in
        if table_size t < removing then None
        else Some (t\<lparr>tail_remote_index := tl', table_size := table_size t - removing, table_elems := table_elems t - 1\<rparr>))"

partial_function (option) enc_evict_while :: "(encoder_table \<Rightarrow> bool) \<Rightarrow> encoder_table \<Rightarrow> encoder_table option" where
  "enc_evict_while P t =
     (if P t then (case EncoderTable_EvictOne t of None \<Rightarrow> None | Some t' \<Rightarrow> enc_evict_while P t') else Some t)"

definition EncoderTable_Rebuild :: "nat \<Rightarrow> encoder_table \<Rightarrow> encoder_table crashable" where
  "EncoderTable_Rebuild capacity t =
     (if capacity < table_elems t then None
      else map_option (\<lambda>es. t\<lparr>elem_size := es\<rparr>)
        (fold_opt (\<lambda>i es. let ofs = add32 (add32 (tail_remote_index t) i) 1 in
                         if 0 < length es \<and> 0 < length (elem_size t)
                         then Some (es[ofs mod capacity := elem_size t ! (ofs mod length (elem_size t))]) else None)
           [0..<table_elems t] (replicate capacity 0)))"

definition AllocateIndex :: "nat \<Rightarrow> encoder_table \<Rightarrow> (nat \<times> encoder_table) crashable" where
  "AllocateIndex element_size t =
     (let new_index = add32 (add32 (tail_remote_index t) (table_elems t)) 1 in
      if max_table_size t < element_size
      then map_option (\<lambda>t'. (0, t')) (enc_evict_while (\<lambda>t. 0 < table_size t) t)
      else
        (case enc_evict_while (\<lambda>t. max_table_size t < table_size t + element_size) t of
           None \<Rightarrow> None
         | Some t1 \<Rightarrow>
             if \<not> table_elems t1 < length (elem_size t1) then None
             else Some (new_index,
               t1\<lparr>elem_size := (elem_size t1)[new_index mod length (elem_size t1) := element_size mod 2 ^ 16],
                  table_size := add32 (table_size t1) element_size,
                  table_elems := add32 (table_elems t1) 1\<rparr>)))"

definition SetMaxSize :: "nat \<Rightarrow> encoder_table \<Rightarrow> (bool \<times> encoder_table) crashable" where
  "SetMaxSize n t =
     (if n = max_table_size t then Some (False, t)
      else
        (case enc_evict_while (\<lambda>t. 0 < table_size t \<and> n < table_size t) t of
           None \<Rightarrow> None
         | Some t1 \<Rightarrow>
             let t2 = t1\<lparr>max_table_size := n\<rparr>; max_table_elems = EntriesForBytes n in
             if length (elem_size t2) < max_table_elems
             then map_option (Pair True) (EncoderTable_Rebuild (max max_table_elems (2 * length (elem_size t2)) mod 2 ^ 32) t2)
             else Some (True, t2)))"

definition DynamicIndex :: "nat \<Rightarrow> encoder_table \<Rightarrow> nat" where
  "DynamicIndex index t =
     sub32 (add32 (add32 (1 + kLastStaticEntry) (tail_remote_index t)) (table_elems t)) index"

definition ConvertableToDynamicIndex :: "nat \<Rightarrow> encoder_table \<Rightarrow> bool" where
  "ConvertableToDynamicIndex index t \<longleftrightarrow> tail_remote_index t < index"

section \<open>Rings\<close>

text \<open>The \<open>k\<close> elements of a ring from position \<open>a\<close> on.\<close>

definition ring :: "'a list \<Rightarrow> nat \<Rightarrow> nat \<Rightarrow> 'a list" where
  "ring xs a k = map (\<lambda>i. xs ! ((a + i) mod length xs)) [0..<k]"

lemma length_ring [simp]: "length (ring xs a k) = k"
  by (simp add: ring_def)

lemma ring_0 [simp]: "ring xs a 0 = []"
  by (simp add: ring_def)

lemma ring_nth: "i < k \<Longrightarrow> ring xs a k ! i = xs ! ((a + i) mod length xs)"
  by (simp add: ring_def)

lemma ring_mod [simp]: "ring xs (a mod length xs) k = ring xs a k"
  by (simp add: ring_def mod_add_left_eq)

lemma ring_pop: "ring xs a (Suc k) = xs ! (a mod length xs) # ring xs (Suc a) k"
  by (simp add: ring_def upt_conv_Cons map_Suc_upt [symmetric] comp_def del: upt_Suc)

lemma mod_shift_eq_iff:
  assumes "i < n" "j < n"
  shows "(a + i) mod n = (a + j) mod n \<longleftrightarrow> i = (j :: nat)"
proof -
  have "i = j" if "i \<le> j" "i < n" "j < n" "(a + j) mod n = (a + i) mod n" for i j
  proof -
    have "n dvd j - i" using that mod_eq_dvd_iff_nat [of "a + i" "a + j" n] by simp
    then show ?thesis using that by (metis dvd_imp_le diff_is_0_eq le_antisym less_imp_diff_less not_gr_zero not_le)
  qed
  from this [of i j] this [of j i] show ?thesis using assms by (metis nat_le_linear)
qed

lemma ring_update_other:
  assumes "k \<le> j" "j < length xs"
  shows "ring (xs[(a + j) mod length xs := v]) a k = ring xs a k"
proof (rule nth_equalityI)
  fix i assume "i < length (ring (xs[(a + j) mod length xs := v]) a k)"
  then have i: "i < k" "i < length xs" "i \<noteq> j" using assms by auto
  then have "(a + i) mod length xs \<noteq> (a + j) mod length xs" using mod_shift_eq_iff [of i "length xs" j a] assms by simp
  then show "ring (xs[(a + j) mod length xs := v]) a k ! i = ring xs a k ! i" using i by (simp add: ring_nth)
qed simp

lemma ring_push:
  assumes "k < length xs"
  shows "ring (xs[(a + k) mod length xs := v]) a (Suc k) = ring xs a k @ [v]"
proof -
  have "ring (xs[(a + k) mod length xs := v]) a (Suc k) =
      ring (xs[(a + k) mod length xs := v]) a k @ [(xs[(a + k) mod length xs := v]) ! ((a + k) mod length xs)]"
    by (simp add: ring_def)
  moreover have "(a + k) mod length xs < length xs" using assms by (intro mod_less_divisor) auto
  ultimately show ?thesis using ring_update_other [of k k xs a v] assms by simp
qed

section \<open>Eviction, abstractly\<close>

text \<open>A table is the list of its entries, the oldest first; eviction drops the oldest until the total size is within a limit.\<close>

definition total_size :: "('a \<Rightarrow> nat) \<Rightarrow> 'a list \<Rightarrow> nat" where
  "total_size sz xs = sum_list (map sz xs)"

fun evict :: "('a \<Rightarrow> nat) \<Rightarrow> nat \<Rightarrow> 'a list \<Rightarrow> 'a list" where
  "evict sz lim [] = []"
| "evict sz lim (x # xs) = (if lim < total_size sz (x # xs) then evict sz lim xs else x # xs)"

lemma total_simps [simp]: "total_size sz [] = 0" "total_size sz (x # xs) = sz x + total_size sz xs" "total_size sz (xs @ ys) = total_size sz xs + total_size sz ys"
  by (simp_all add: total_size_def)

lemma evict_id: "total_size sz xs \<le> lim \<Longrightarrow> evict sz lim xs = xs"
  by (cases xs) auto

lemma evict_total: "total_size sz (evict sz lim xs) \<le> lim"
  by (induction xs) auto

lemma evict_drop: "\<exists>n \<le> length xs. evict sz lim xs = drop n xs"
proof (induction xs)
  case (Cons x xs)
  then obtain n where "n \<le> length xs" "evict sz lim xs = drop n xs" by blast
  then show ?case by (cases "lim < total_size sz (x # xs)") (auto intro: exI [of _ "Suc n"] exI [of _ 0])
qed simp

lemma set_evict: "set (evict sz lim xs) \<subseteq> set xs"
  using evict_drop [of xs sz lim] set_drop_subset by metis

text \<open>Eviction keeps the longest suffix that fits.\<close>

lemma evict_longest: "total_size sz ys \<le> lim \<Longrightarrow> \<exists>pre. evict sz lim (xs @ ys) = pre @ ys"
  by (induction xs) (auto simp: evict_id)

lemma total_lower: "\<forall>x \<in> set xs. c \<le> sz x \<Longrightarrow> c * length xs \<le> total_size sz xs"
  by (induction xs) auto

lemma total_mono: "\<forall>x \<in> set xs. sz x \<le> sz' x \<Longrightarrow> total_size sz xs \<le> total_size sz' xs"
  by (induction xs) (auto intro: add_mono)

lemma total_map: "total_size sz (map f xs) = total_size (\<lambda>x. sz (f x)) xs"
  by (simp add: total_size_def comp_def)

section \<open>The decoder's table refines the list\<close>

definition dec_abs :: "'m hpack_table \<Rightarrow> 'm memento list" where
  "dec_abs t = ring (entries t) (first_entry t) (num_entries t)"

definition dec_ok :: "'m hpack_table \<Rightarrow> bool" where
  "dec_ok t \<longleftrightarrow> kInitialTableEntries \<le> length (entries t) \<and> length (entries t) \<le> 2 ^ 27 \<and> first_entry t < length (entries t) \<and>
     num_entries t \<le> length (entries t) \<and> mem_used t = total_size transport_size (dec_abs t) \<and> mem_used t \<le> current_table_bytes t \<and>
     current_table_bytes t \<le> 2 ^ 32 - 32 \<and> EntriesForBytes (current_table_bytes t) \<le> length (entries t) \<and>
     (\<forall>m \<in> set (dec_abs t). 32 \<le> transport_size m)"

definition same_config :: "'m hpack_table \<Rightarrow> 'm hpack_table \<Rightarrow> bool" where
  "same_config t u \<longleftrightarrow> max_bytes u = max_bytes t \<and> current_table_bytes u = current_table_bytes t \<and> max_entries u = max_entries t \<and>
     length (entries u) = length (entries t) \<and> static_metadata u = static_metadata t"

lemma sub32_eq: "b \<le> a \<Longrightarrow> a < 2 ^ 32 \<Longrightarrow> sub32 a b = a - b"
proof -
  assume a: "b \<le> a" "a < 2 ^ 32"
  then have "a + (2 ^ 32 - b mod 2 ^ 32) = (a - b) + 2 ^ 32" by simp
  then have "sub32 a b = ((a - b) + 2 ^ 32) mod 2 ^ 32" unfolding sub32_def by (rule arg_cong)
  also have "\<dots> = a - b" using a by (metis less_imp_diff_less mod_add_self2 mod_less)
  finally show "sub32 a b = a - b" .
qed

lemma add32_eq: "a + b < 2 ^ 32 \<Longrightarrow> add32 a b = a + b"
  by (simp add: add32_def)

lemma EntriesForBytes_eq: "bytes \<le> 2 ^ 32 - 32 \<Longrightarrow> EntriesForBytes bytes = (bytes + 31) div 32"
proof -
  assume a: "bytes \<le> 2 ^ 32 - 32"
  have "sub32 (add32 bytes 32) 1 = bytes + 31"
  proof (cases "bytes = 2 ^ 32 - 32")
    case True
    then show ?thesis by (simp add: add32_def sub32_def)
  next
    case False
    with a show ?thesis by (simp add: add32_eq sub32_eq)
  qed
  then show ?thesis by (simp add: EntriesForBytes_def kEntryOverhead_def)
qed

lemma kInitialTableEntries_eq: "kInitialTableEntries = 128"
  by (simp add: kInitialTableEntries_def EntriesForBytes_eq kInitialTableSize_def)

lemma EvictOne_ok:
  assumes "dec_ok t" "num_entries t \<noteq> 0"
  shows "\<exists>u. HPackTable_EvictOne t = Some u \<and> dec_ok u \<and> dec_abs u = tl (dec_abs t) \<and> same_config t u \<and>
    num_entries u = num_entries t - 1"
proof -
  let ?n = "length (entries t)" and ?a = "first_entry t"
  obtain k where k: "num_entries t = Suc k" using assms(2) by (metis not0_implies_Suc)
  have n: "?a < ?n" "Suc k \<le> ?n" "?n \<le> 2 ^ 27" using assms(1) k by (auto simp: dec_ok_def)
  let ?e = "entries t ! ?a"
  have abs: "dec_abs t = ?e # ring (entries t) (Suc ?a) k" using k n by (simp add: dec_abs_def ring_pop)
  define u where "u = t\<lparr>entries := (entries t)[?a := moved_from ?e], mem_used := mem_used t - transport_size ?e,
      first_entry := add32 ?a 1 mod ?n, num_entries := sub32 (num_entries t) 1\<rparr>"
  have le: "transport_size ?e \<le> mem_used t" using assms(1) abs by (simp add: dec_ok_def)
  have a1: "add32 ?a 1 = Suc ?a" "sub32 (num_entries t) 1 = k" using n k by (simp_all add: add32_eq sub32_eq)
  have "ring ((entries t)[?a := moved_from ?e]) (Suc ?a) k = ring (entries t) (Suc ?a) k"
  proof -
    have "Suc ?a + (?n - 1) = ?a + ?n" using n by simp
    then have "(Suc ?a + (?n - 1)) mod ?n = ?a" using n by simp
    with ring_update_other [of k "?n - 1" "entries t" "Suc ?a" "moved_from ?e"] n show ?thesis by simp
  qed
  then have absu: "dec_abs u = tl (dec_abs t)"
    using ring_mod [of "(entries t)[?a := moved_from ?e]" "Suc ?a" k] abs a1 by (simp add: u_def dec_abs_def)
  have "HPackTable_EvictOne t = Some u" using n le by (simp add: HPackTable_EvictOne_def u_def Let_def)
  moreover have lt: "Suc ?a mod ?n < ?n" using n by (intro mod_less_divisor) auto
  then have "dec_ok u"
    using assms(1) absu abs a1 n lt unfolding dec_ok_def by (auto simp: u_def)
  moreover have "same_config t u" "num_entries u = num_entries t - 1" using a1 k by (simp_all add: same_config_def u_def)
  ultimately show ?thesis using absu by blast
qed

lemma same_config_refl [simp]: "same_config t t"
  by (simp add: same_config_def)

lemma same_config_trans: "same_config t u \<Longrightarrow> same_config u v \<Longrightarrow> same_config t v"
  by (simp add: same_config_def)

text \<open>Each eviction loop is an abstract eviction: its condition is a bound on the memory in use.\<close>

lemma evict_while_ok:
  assumes "dec_ok t" and "\<And>u. dec_ok u \<Longrightarrow> same_config t u \<Longrightarrow> P u \<longleftrightarrow> lim < mem_used u"
  shows "\<exists>u. evict_while P t = Some u \<and> dec_ok u \<and> dec_abs u = evict transport_size lim (dec_abs t) \<and> same_config t u"
  using assms
proof (induction "num_entries t" arbitrary: t)
  case 0
  then have "dec_abs t = []" "mem_used t = 0" by (simp_all add: dec_abs_def dec_ok_def)
  moreover from this 0 have "\<not> P t" by simp
  ultimately show ?case using 0 by (subst evict_while.simps) simp
next
  case (Suc k)
  show ?case
  proof (cases "P t")
    case False
    then have "mem_used t \<le> lim" using Suc.prems by simp
    then have "evict transport_size lim (dec_abs t) = dec_abs t" using Suc.prems(1) by (simp add: dec_ok_def evict_id)
    with False Suc.prems(1) show ?thesis by (subst evict_while.simps) simp
  next
    case True
    obtain u where u: "HPackTable_EvictOne t = Some u" "dec_ok u" "dec_abs u = tl (dec_abs t)" "same_config t u" "num_entries u = k"
      using EvictOne_ok [OF Suc.prems(1)] Suc.hyps(2) by auto
    obtain v where v: "evict_while P u = Some v" "dec_ok v" "dec_abs v = evict transport_size lim (dec_abs u)" "same_config u v"
      using Suc.hyps(1) [of u] u Suc.prems(2) same_config_trans [OF u(4)] by blast
    have "lim < mem_used t" using True Suc.prems by simp
    moreover have "dec_abs t \<noteq> []" using Suc.hyps(2) by (metis dec_abs_def length_ring list.size(3) nat.distinct(1))
    ultimately have "evict transport_size lim (dec_abs t) = evict transport_size lim (tl (dec_abs t))"
      using Suc.prems(1) by (cases "dec_abs t") (auto simp: dec_ok_def)
    with True u v same_config_trans [OF u(4) v(4)] show ?thesis by (subst evict_while.simps) simp
  qed
qed

lemma Rebuild_ok:
  assumes "num_entries t \<le> cap" "0 < length (entries t)"
  shows "\<exists>es. HPackTable_Rebuild cap t = Some (t\<lparr>first_entry := 0, entries := es\<rparr>) \<and> length es = cap \<and>
    ring es 0 (num_entries t) = dec_abs t"
proof -
  let ?I = "\<lambda>k es. length es = cap \<and> (\<forall>j < k. es ! j = dec_abs t ! j)"
  have "\<exists>es. fold_opt (\<lambda>i es. if i < length es \<and> 0 < length (entries t)
        then Some (es[i := entries t ! ((first_entry t + i) mod length (entries t))]) else None)
      [0..<num_entries t] (replicate cap empty_memento) = Some es \<and> ?I (num_entries t) es"
    by (rule fold_opt_upt) (use assms in \<open>auto simp: dec_abs_def ring_nth less_Suc_eq nth_list_update\<close>)
  then obtain es where es: "HPackTable_Rebuild cap t = Some (t\<lparr>first_entry := 0, entries := es\<rparr>)" "?I (num_entries t) es"
    by (auto simp: HPackTable_Rebuild_def)
  have "ring es 0 (num_entries t) = dec_abs t"
    using es(2) assms(1) by (intro nth_equalityI) (auto simp: ring_nth dec_abs_def)
  with es show ?thesis by blast
qed

lemma num_entries_le: "dec_ok t \<Longrightarrow> 32 * num_entries t \<le> mem_used t"
  using total_lower [of "dec_abs t" 32 transport_size] by (simp add: dec_ok_def dec_abs_def)

lemma SetMaxBytes_ok:
  assumes "dec_ok t"
  shows "\<exists>u. HPackTable_SetMaxBytes n t = Some u \<and> dec_ok u \<and> max_bytes u = n \<and>
    dec_abs u = (if n = max_bytes t then dec_abs t else evict transport_size n (dec_abs t)) \<and>
    current_table_bytes u = current_table_bytes t \<and> static_metadata u = static_metadata t"
proof (cases "max_bytes t = n")
  case True
  then show ?thesis using assms by (simp add: HPackTable_SetMaxBytes_def)
next
  case False
  from evict_while_ok [OF assms, of "\<lambda>t. n < mem_used t" n] obtain u where
    "evict_while (\<lambda>t. n < mem_used t) t = Some u" "dec_ok u" "dec_abs u = evict transport_size n (dec_abs t)" "same_config t u"
    by auto
  with False show ?thesis by (auto simp: HPackTable_SetMaxBytes_def dec_ok_def dec_abs_def same_config_def)
qed

text \<open>Replacing the vector by a rebuilt one that is large enough keeps the invariant.\<close>

lemma dec_ok_rebuilt:
  assumes "dec_ok t" "mem_used t \<le> bytes" "bytes \<le> 2 ^ 32 - 32" "EntriesForBytes bytes \<le> cap" "128 \<le> cap" "cap \<le> 2 ^ 27"
  shows "\<exists>u. HPackTable_Rebuild cap (t\<lparr>current_table_bytes := bytes, max_entries := EntriesForBytes bytes\<rparr>) = Some u \<and>
    dec_ok u \<and> dec_abs u = dec_abs t \<and> max_bytes u = max_bytes t \<and> current_table_bytes u = bytes \<and> static_metadata u = static_metadata t"
proof -
  let ?t = "t\<lparr>current_table_bytes := bytes, max_entries := EntriesForBytes bytes\<rparr>"
  have "32 * num_entries t \<le> bytes" using num_entries_le [OF assms(1)] assms(2) by simp
  then have num: "num_entries t \<le> cap" using assms(3,4) by (simp add: EntriesForBytes_eq)
  have abs: "dec_abs ?t = dec_abs t" by (simp add: dec_abs_def)
  have "0 < length (entries t)" using assms(1) by (auto simp: dec_ok_def)
  with Rebuild_ok [of ?t cap] num obtain es where
    es: "HPackTable_Rebuild cap ?t = Some (?t\<lparr>first_entry := 0, entries := es\<rparr>)" "length es = cap" "ring es 0 (num_entries t) = dec_abs t"
    unfolding abs by auto
  have "dec_abs (?t\<lparr>first_entry := 0, entries := es\<rparr>) = dec_abs t" using es(3) by (simp add: dec_abs_def)
  with es assms num show ?thesis
    by (intro exI [of _ "?t\<lparr>first_entry := 0, entries := es\<rparr>"]) (simp add: dec_ok_def kInitialTableEntries_eq)
qed

lemma SetCurrentTableSize_ok:
  assumes "dec_ok t" "bytes \<le> max_bytes t" "bytes \<le> 2 ^ 32 - 32"
  shows "\<exists>u. HPackTable_SetCurrentTableSize bytes t = Some (Inr u) \<and> dec_ok u \<and> max_bytes u = max_bytes t \<and>
    current_table_bytes u = bytes \<and> static_metadata u = static_metadata t \<and> dec_abs u = evict transport_size bytes (dec_abs t)"
proof (cases "current_table_bytes t = bytes")
  case True
  then have "evict transport_size bytes (dec_abs t) = dec_abs t" using assms(1) by (intro evict_id) (simp add: dec_ok_def)
  with True show ?thesis using assms by (simp add: HPackTable_SetCurrentTableSize_def)
next
  case False
  from evict_while_ok [OF assms(1), of "\<lambda>t. bytes < mem_used t" bytes] obtain v where
    v: "evict_while (\<lambda>t. bytes < mem_used t) t = Some v" "dec_ok v" "dec_abs v = evict transport_size bytes (dec_abs t)" "same_config t v"
    by auto
  have mem: "mem_used v \<le> bytes" using v(2,3) evict_total [of transport_size bytes "dec_abs t"] by (simp add: dec_ok_def)
  let ?cap = "EntriesForBytes bytes" and ?v = "v\<lparr>current_table_bytes := bytes, max_entries := EntriesForBytes bytes\<rparr>"
  have cap: "?cap \<le> 2 ^ 27" "EntriesForBytes bytes = ?cap" using assms(3) by (simp_all add: EntriesForBytes_eq)
  have len: "128 \<le> length (entries v)" using v(2) by (simp add: dec_ok_def kInitialTableEntries_eq)
  have start: "HPackTable_SetCurrentTableSize bytes t =
     (if length (entries v) < ?cap then map_option Inr (HPackTable_Rebuild ?cap ?v)
      else if ?cap < length (entries v) div 3 \<and> max ?cap kInitialTableEntries \<noteq> length (entries v)
      then map_option Inr (HPackTable_Rebuild (max ?cap kInitialTableEntries) ?v) else Some (Inr ?v))"
    using False assms(2) v(1) by (simp add: HPackTable_SetCurrentTableSize_def Let_def)
  note rebuilt = dec_ok_rebuilt [OF v(2) mem assms(3)]
  consider "length (entries v) < ?cap"
    | "\<not> length (entries v) < ?cap" "?cap < length (entries v) div 3 \<and> max ?cap kInitialTableEntries \<noteq> length (entries v)"
    | "\<not> length (entries v) < ?cap" "\<not> (?cap < length (entries v) div 3 \<and> max ?cap kInitialTableEntries \<noteq> length (entries v))"
    by blast
  then show ?thesis
  proof cases
    case 1
    then show ?thesis using rebuilt [of ?cap] cap len v(3,4) start by (auto simp: same_config_def)
  next
    case 2
    then show ?thesis using rebuilt [of "max ?cap kInitialTableEntries"] cap v(3,4) start
      by (auto simp: same_config_def kInitialTableEntries_eq)
  next
    case 3
    have "dec_ok ?v" using v(2) mem assms(3) 3 by (simp add: dec_ok_def dec_abs_def)
    moreover have "HPackTable_SetCurrentTableSize bytes t = Some (Inr ?v)" using start 3 by simp
    ultimately show ?thesis using v(3,4) by (simp add: same_config_def dec_abs_def)
  qed
qed

lemma Add_ok:
  assumes "dec_ok t" "current_table_bytes t \<le> max_bytes t" "32 \<le> transport_size md"
  shows "\<exists>u. HPackTable_Add md t = Some (Inr u) \<and> dec_ok u \<and> max_bytes u = max_bytes t \<and>
    current_table_bytes u = current_table_bytes t \<and> static_metadata u = static_metadata t \<and>
    dec_abs u = (if current_table_bytes t < transport_size md then []
                 else evict transport_size (current_table_bytes t - transport_size md) (dec_abs t) @ [md])"
proof (cases "current_table_bytes t < transport_size md")
  case True
  have "num_entries u \<noteq> 0 \<longleftrightarrow> 0 < mem_used u" if "dec_ok u" for u :: "'a hpack_table"
    using num_entries_le [OF that] that by (cases "num_entries u") (auto simp: dec_ok_def dec_abs_def)
  with evict_while_ok [OF assms(1), of "\<lambda>t. num_entries t \<noteq> 0" 0] obtain u where
    u: "evict_while (\<lambda>t. num_entries t \<noteq> 0) t = Some u" "dec_ok u" "dec_abs u = evict transport_size 0 (dec_abs t)" "same_config t u"
    by auto
  have "total_size transport_size (dec_abs u) = 0" using evict_total [of transport_size 0 "dec_abs t"] u(3) by simp
  then have "dec_abs u = []" using u(2) by (cases "dec_abs u") (auto simp: dec_ok_def)
  with u True assms show ?thesis by (simp add: HPackTable_Add_def same_config_def)
next
  case False
  let ?lim = "current_table_bytes t - transport_size md"
  let ?P = "\<lambda>t. (current_table_bytes t + 2 ^ 64 - mem_used t) mod 2 ^ 64 < transport_size md"
  have P: "?P u \<longleftrightarrow> ?lim < mem_used u" if "dec_ok u" "same_config t u" for u
  proof -
    have le: "mem_used u \<le> current_table_bytes t" "current_table_bytes t < 2 ^ 32" using that by (auto simp: dec_ok_def same_config_def)
    then have "current_table_bytes t + 2 ^ 64 - mem_used u = (current_table_bytes t - mem_used u) + 2 ^ 64" by simp
    moreover have "((current_table_bytes t - mem_used u) + 2 ^ 64) mod 2 ^ 64 = current_table_bytes t - mem_used u"
      unfolding mod_add_self2 using le by (intro mod_less) simp
    ultimately have "(current_table_bytes t + 2 ^ 64 - mem_used u) mod 2 ^ 64 = current_table_bytes t - mem_used u" by argo
    with False le that(2) show ?thesis unfolding same_config_def by auto
  qed
  from evict_while_ok [OF assms(1), of ?P ?lim] P obtain v where
    v: "evict_while ?P t = Some v" "dec_ok v" "dec_abs v = evict transport_size ?lim (dec_abs t)" "same_config t v"
    by blast
  let ?n = "length (entries v)"
  have n: "0 < ?n" "first_entry v < ?n" "num_entries v \<le> ?n" "?n \<le> 2 ^ 27" using v(2) by (auto simp: dec_ok_def)
  have mem: "mem_used v + transport_size md \<le> current_table_bytes t" "current_table_bytes t \<le> 2 ^ 32 - 32"
    using v(2,3) evict_total [of transport_size ?lim "dec_abs t"] False assms(1) by (auto simp: dec_ok_def)
  have "32 * Suc (num_entries v) \<le> current_table_bytes t" using num_entries_le [OF v(2)] mem(1) assms(3) by simp
  moreover have "EntriesForBytes (current_table_bytes t) \<le> ?n" using v(2,4) by (simp add: dec_ok_def same_config_def)
  ultimately have lt: "num_entries v < ?n" using mem(2) by (simp add: EntriesForBytes_eq)
  have a: "add32 (mem_used v) (transport_size md) = mem_used v + transport_size md" "add32 (num_entries v) 1 = Suc (num_entries v)"
    "add32 (first_entry v) (num_entries v) = first_entry v + num_entries v"
    using mem n by (simp_all add: add32_eq)
  define u where "u = v\<lparr>mem_used := add32 (mem_used v) (transport_size md),
      entries := (entries v)[add32 (first_entry v) (num_entries v) mod ?n := md], num_entries := add32 (num_entries v) 1\<rparr>"
  have abs: "dec_abs u = dec_abs v @ [md]"
    using ring_push [OF lt, of "first_entry v" md] a by (simp add: u_def dec_abs_def)
  have "HPackTable_Add md t = Some (Inr u)" using False assms(2) v(1) n(1) by (simp add: HPackTable_Add_def u_def)
  moreover have "dec_ok u"
    using v(2,4) abs a mem lt assms(3) unfolding dec_ok_def same_config_def by (auto simp: u_def)
  ultimately show ?thesis using abs v(3,4) False by (simp add: u_def same_config_def)
qed

text \<open>The dynamic index counts from the newest entry.\<close>

lemma Lookup_dynamic:
  assumes "dec_ok t" "k < num_entries t"
  shows "HPackTable_Lookup (62 + k) t = Some (Some (dec_abs t ! (num_entries t - 1 - k)))"
proof -
  have n: "num_entries t \<le> length (entries t)" "length (entries t) \<le> 2 ^ 27" "first_entry t < length (entries t)"
    using assms(1) by (auto simp: dec_ok_def)
  have i: "sub32 (62 + k) 62 = k" "sub32 (num_entries t) 1 = num_entries t - 1" "sub32 (num_entries t - 1) k = num_entries t - 1 - k"
    "add32 (num_entries t - 1 - k) (first_entry t) = first_entry t + (num_entries t - 1 - k)"
    using n assms(2) by (simp_all add: sub32_eq add32_eq)
  show ?thesis
    using i n assms(2) by (auto simp: HPackTable_Lookup_def HPackTable_LookupDynamic_def kLastStaticEntry_def dec_abs_def ring_nth)
qed

lemma Lookup_invalid:
  assumes "dec_ok t" "num_entries t \<le> k" "k < 2 ^ 32 - 62"
  shows "HPackTable_Lookup (62 + k) t = Some None"
proof -
  have "sub32 (62 + k) 62 = k" using assms by (simp add: sub32_eq)
  then show ?thesis using assms by (simp add: HPackTable_Lookup_def HPackTable_LookupDynamic_def kLastStaticEntry_def)
qed

section \<open>The encoder's table refines the list of sizes\<close>

definition enc_abs :: "encoder_table \<Rightarrow> nat list" where
  "enc_abs t = ring (elem_size t) (Suc (tail_remote_index t)) (table_elems t)"

text \<open>The index of the newest element that was ever allocated.\<close>

definition enc_last :: "encoder_table \<Rightarrow> nat" where
  "enc_last t = tail_remote_index t + table_elems t"

definition enc_ok :: "encoder_table \<Rightarrow> bool" where
  "enc_ok t \<longleftrightarrow> kInitialTableEntries \<le> length (elem_size t) \<and> length (elem_size t) \<le> 2 ^ 28 \<and> table_elems t \<le> length (elem_size t) \<and>
     table_size t = total_size (\<lambda>x. x) (enc_abs t) \<and> table_size t \<le> max_table_size t \<and> max_table_size t \<le> 2 ^ 32 - 32 \<and>
     EntriesForBytes (max_table_size t) \<le> length (elem_size t) \<and> (\<forall>s \<in> set (enc_abs t). 32 \<le> s) \<and> enc_last t < 2 ^ 32 - 63"

definition enc_same :: "encoder_table \<Rightarrow> encoder_table \<Rightarrow> bool" where
  "enc_same t u \<longleftrightarrow> max_table_size u = max_table_size t \<and> elem_size u = elem_size t \<and> enc_last u = enc_last t"

lemma enc_same_trans: "enc_same t u \<Longrightarrow> enc_same u v \<Longrightarrow> enc_same t v"
  by (simp add: enc_same_def)

lemma enc_EvictOne_ok:
  assumes "enc_ok t" "table_elems t \<noteq> 0"
  shows "\<exists>u. EncoderTable_EvictOne t = Some u \<and> enc_ok u \<and> enc_abs u = tl (enc_abs t) \<and> enc_same t u \<and> table_elems u = table_elems t - 1"
proof -
  obtain k where k: "table_elems t = Suc k" using assms(2) by (cases "table_elems t") simp_all
  let ?a = "Suc (tail_remote_index t)" and ?n = "length (elem_size t)"
  have last_lt: "?a + k < 2 ^ 32 - 63" using assms(1) k by (simp add: enc_ok_def enc_last_def)
  have n: "0 < ?n" using assms(1) k by (auto simp: enc_ok_def)
  from last_lt have a: "add32 (tail_remote_index t) 1 = ?a" by (simp add: add32_eq)
  have abs: "enc_abs t = elem_size t ! (?a mod ?n) # ring (elem_size t) (Suc ?a) k" using k by (simp add: enc_abs_def ring_pop)
  define u where "u = t\<lparr>tail_remote_index := ?a, table_size := table_size t - elem_size t ! (?a mod ?n), table_elems := k\<rparr>"
  have absu: "enc_abs u = tl (enc_abs t)" using abs by (simp add: u_def enc_abs_def)
  have "EncoderTable_EvictOne t = Some u"
    using a abs k assms(1) n by (auto simp: EncoderTable_EvictOne_def u_def enc_ok_def Let_def)
  moreover have "enc_ok u" using assms(1) abs absu k unfolding enc_ok_def by (auto simp: u_def enc_last_def)
  moreover have "enc_same t u" "table_elems u = table_elems t - 1" using k by (simp_all add: enc_same_def u_def enc_last_def)
  ultimately show ?thesis using absu by blast
qed

lemma enc_evict_while_ok:
  assumes "enc_ok t" and "\<And>u. enc_ok u \<Longrightarrow> enc_same t u \<Longrightarrow> P u \<longleftrightarrow> lim < table_size u"
  shows "\<exists>u. enc_evict_while P t = Some u \<and> enc_ok u \<and> enc_abs u = evict (\<lambda>x. x) lim (enc_abs t) \<and> enc_same t u"
  using assms
proof (induction "table_elems t" arbitrary: t)
  case 0
  then have e: "enc_abs t = []" "table_size t = 0" by (simp_all add: enc_abs_def enc_ok_def)
  moreover from e 0(3) [of t] 0(2) have "\<not> P t" by (simp add: enc_same_def)
  ultimately show ?case using 0 by (subst enc_evict_while.simps) (simp add: enc_same_def)
next
  case (Suc k)
  have refl: "enc_same t t" by (simp add: enc_same_def)
  show ?case
  proof (cases "P t")
    case False
    then have "table_size t \<le> lim" using Suc.prems(2) [OF Suc.prems(1) refl] by simp
    then have "evict (\<lambda>x. x) lim (enc_abs t) = enc_abs t" using Suc.prems(1) by (simp add: enc_ok_def evict_id)
    with False Suc.prems(1) refl show ?thesis by (subst enc_evict_while.simps) simp
  next
    case True
    obtain u where u: "EncoderTable_EvictOne t = Some u" "enc_ok u" "enc_abs u = tl (enc_abs t)" "enc_same t u" "table_elems u = k"
      using enc_EvictOne_ok [OF Suc.prems(1)] Suc.hyps(2) by auto
    obtain v where v: "enc_evict_while P u = Some v" "enc_ok v" "enc_abs v = evict (\<lambda>x. x) lim (enc_abs u)" "enc_same u v"
      using Suc.hyps(1) [of u] u Suc.prems(2) enc_same_trans [OF u(4)] by (metis (no_types, lifting))
    have "lim < table_size t" using True Suc.prems(2) [OF Suc.prems(1) refl] by simp
    moreover have "enc_abs t \<noteq> []" using Suc.hyps(2) by (metis enc_abs_def length_ring list.size(3) nat.distinct(1))
    ultimately have "evict (\<lambda>x. x) lim (enc_abs t) = evict (\<lambda>x. x) lim (tl (enc_abs t))"
      using Suc.prems(1) by (cases "enc_abs t") (auto simp: enc_ok_def)
    with True u v enc_same_trans [OF u(4) v(4)] show ?thesis by (subst enc_evict_while.simps) simp
  qed
qed

lemma enc_elems_le: "enc_ok t \<Longrightarrow> 32 * table_elems t \<le> table_size t"
  using total_lower [of "enc_abs t" 32 "\<lambda>x. x"] by (simp add: enc_ok_def enc_abs_def)

lemma AllocateIndex_ok:
  assumes "enc_ok t" "32 \<le> sz" "sz < 2 ^ 16" "enc_last t < 2 ^ 32 - 64"
  shows "\<exists>u. AllocateIndex sz t = Some (if max_table_size t < sz then 0 else Suc (enc_last t), u) \<and> enc_ok u \<and>
    max_table_size u = max_table_size t \<and> enc_last u = enc_last t + of_bool (sz \<le> max_table_size t) \<and>
    enc_abs u = (if max_table_size t < sz then [] else evict (\<lambda>x. x) (max_table_size t - sz) (enc_abs t) @ [sz])"
proof -
  have new: "add32 (add32 (tail_remote_index t) (table_elems t)) 1 = Suc (enc_last t)"
    using assms(1,4) by (simp add: add32_eq enc_last_def)
  show ?thesis
  proof (cases "max_table_size t < sz")
    case True
    from enc_evict_while_ok [OF assms(1), of "\<lambda>t. 0 < table_size t" 0] obtain u where
      u: "enc_evict_while (\<lambda>t. 0 < table_size t) t = Some u" "enc_ok u" "enc_abs u = evict (\<lambda>x. x) 0 (enc_abs t)" "enc_same t u"
      by auto
    have "total_size (\<lambda>x. x) (enc_abs u) = 0" using evict_total [of "\<lambda>x. x" 0 "enc_abs t"] u(3) by simp
    then have "enc_abs u = []" using u(2) by (cases "enc_abs u") (auto simp: enc_ok_def)
    with u True show ?thesis by (simp add: AllocateIndex_def enc_same_def Let_def)
  next
    case False
    let ?lim = "max_table_size t - sz" and ?P = "\<lambda>t. max_table_size t < table_size t + sz"
    have "?P u \<longleftrightarrow> ?lim < table_size u" if "enc_same t u" for u using that False by (auto simp: enc_same_def)
    with enc_evict_while_ok [OF assms(1), of ?P ?lim] obtain v where
      v: "enc_evict_while ?P t = Some v" "enc_ok v" "enc_abs v = evict (\<lambda>x. x) ?lim (enc_abs t)" "enc_same t v"
      by auto
    have mem: "table_size v + sz \<le> max_table_size t" "max_table_size t \<le> 2 ^ 32 - 32"
      using v(2,3) evict_total [of "\<lambda>x. x" ?lim "enc_abs t"] False assms(1) by (auto simp: enc_ok_def)
    have "32 * Suc (table_elems v) \<le> max_table_size t" using enc_elems_le [OF v(2)] mem(1) assms(2) by simp
    moreover have "EntriesForBytes (max_table_size t) \<le> length (elem_size v)" using v(2,4) by (simp add: enc_ok_def enc_same_def)
    ultimately have lt: "table_elems v < length (elem_size v)" using mem(2) by (simp add: EntriesForBytes_eq)
    define i where "i = Suc (enc_last t)"
    have i: "i = Suc (tail_remote_index v) + table_elems v" using v(4) by (simp add: i_def enc_same_def enc_last_def)
    have n28: "length (elem_size v) \<le> 2 ^ 28" using v(2) by (simp add: enc_ok_def)
    have a: "add32 (table_size v) sz = table_size v + sz" "add32 (table_elems v) 1 = Suc (table_elems v)" "sz mod 2 ^ 16 = sz"
      using mem lt n28 assms(3) by (simp_all add: add32_eq)
    define u where "u = v\<lparr>elem_size := (elem_size v)[i mod length (elem_size v) := sz mod 2 ^ 16],
        table_size := add32 (table_size v) sz, table_elems := add32 (table_elems v) 1\<rparr>"
    have abs: "enc_abs u = enc_abs v @ [sz]"
      using ring_push [OF lt, of "Suc (tail_remote_index v)" sz] a i by (simp add: u_def enc_abs_def)
    have "AllocateIndex sz t = Some (Suc (enc_last t), u)"
      using False v(1) lt new by (simp add: AllocateIndex_def u_def i_def Let_def)
    moreover have "enc_ok u"
      using v(2,4) abs a mem lt assms(2,4) unfolding enc_ok_def enc_same_def by (auto simp: u_def enc_last_def)
    ultimately show ?thesis using abs v(3,4) False a by (simp add: u_def enc_same_def enc_last_def)
  qed
qed

lemma enc_Rebuild_ok:
  assumes "table_elems t \<le> cap" "0 < length (elem_size t)" "0 < cap" "enc_last t < 2 ^ 32 - 63"
  shows "\<exists>es. EncoderTable_Rebuild cap t = Some (t\<lparr>elem_size := es\<rparr>) \<and> length es = cap \<and>
    ring es (Suc (tail_remote_index t)) (table_elems t) = enc_abs t"
proof -
  let ?a = "Suc (tail_remote_index t)"
  let ?step = "\<lambda>i es. let ofs = add32 (add32 (tail_remote_index t) i) 1 in
    if 0 < length es \<and> 0 < length (elem_size t)
    then Some (es[ofs mod cap := elem_size t ! (ofs mod length (elem_size t))]) else None"
  let ?I = "\<lambda>k es. length es = cap \<and> ring es ?a k = take k (enc_abs t)"
  have "\<exists>es. fold_opt ?step [0..<table_elems t] (replicate cap 0) = Some es \<and> ?I (table_elems t) es"
  proof (rule fold_opt_upt)
    fix i es assume i: "i < table_elems t" and I: "?I i es"
    have ofs: "add32 (add32 (tail_remote_index t) i) 1 = ?a + i" using i assms(4) by (simp add: add32_eq enc_last_def)
    have "take (Suc i) (enc_abs t) = take i (enc_abs t) @ [elem_size t ! ((?a + i) mod length (elem_size t))]"
      using i by (simp add: take_Suc_conv_app_nth enc_abs_def ring_nth)
    then show "\<exists>es'. ?step i es = Some es' \<and> ?I (Suc i) es'"
      using ring_push [of i es ?a "elem_size t ! ((?a + i) mod length (elem_size t))"] I i assms ofs by (simp add: Let_def)
  qed simp
  then obtain es where "EncoderTable_Rebuild cap t = Some (t\<lparr>elem_size := es\<rparr>)" "?I (table_elems t) es"
    using assms(1) by (auto simp: EncoderTable_Rebuild_def)
  then show ?thesis by (auto simp: enc_abs_def)
qed

lemma SetMaxSize_ok:
  assumes "enc_ok t" "n \<le> 2 ^ 32 - 32"
  shows "\<exists>u. SetMaxSize n t = Some (n \<noteq> max_table_size t, u) \<and> enc_ok u \<and> max_table_size u = n \<and> enc_last u = enc_last t \<and>
    enc_abs u = evict (\<lambda>x. x) n (enc_abs t)"
proof (cases "n = max_table_size t")
  case True
  then have "evict (\<lambda>x. x) n (enc_abs t) = enc_abs t" using assms(1) by (intro evict_id) (simp add: enc_ok_def)
  with True assms show ?thesis by (simp add: SetMaxSize_def)
next
  case False
  have "(0 < table_size u \<and> n < table_size u) \<longleftrightarrow> n < table_size u" for u :: encoder_table by auto
  with enc_evict_while_ok [OF assms(1), of "\<lambda>t. 0 < table_size t \<and> n < table_size t" n] obtain v where
    v: "enc_evict_while (\<lambda>t. 0 < table_size t \<and> n < table_size t) t = Some v" "enc_ok v"
      "enc_abs v = evict (\<lambda>x. x) n (enc_abs t)" "enc_same t v"
    by auto
  let ?v = "v\<lparr>max_table_size := n\<rparr>" and ?cap = "max (EntriesForBytes n) (2 * length (elem_size v))"
  have ts: "table_size v \<le> n" using v(2,3) evict_total [of "\<lambda>x. x" n "enc_abs t"] by (simp add: enc_ok_def)
  have len: "128 \<le> length (elem_size v)" "length (elem_size v) \<le> 2 ^ 28" using v(2) by (simp_all add: enc_ok_def kInitialTableEntries_eq)
  have absv: "enc_abs ?v = enc_abs v" "enc_last ?v = enc_last v" by (simp_all add: enc_abs_def enc_last_def)
  show ?thesis
  proof (cases "length (elem_size v) < EntriesForBytes n")
    case False2: False
    then have "enc_ok ?v" using v(2) ts assms(2) absv by (simp add: enc_ok_def)
    moreover have "SetMaxSize n t = Some (True, ?v)" using False False2 v(1) by (simp add: SetMaxSize_def Let_def)
    ultimately show ?thesis using False v(3,4) absv by (simp add: enc_same_def)
  next
    case True
    have e: "EntriesForBytes n \<le> 2 ^ 27" using assms(2) by (simp add: EntriesForBytes_eq)
    then have cap: "?cap \<le> 2 ^ 28" "?cap mod 2 ^ 32 = ?cap" "0 < ?cap" using True len by auto
    have "table_elems ?v \<le> ?cap" "0 < length (elem_size ?v)" "enc_last ?v < 2 ^ 32 - 63"
      using v(2) len absv by (auto simp: enc_ok_def)
    from enc_Rebuild_ok [OF this(1,2) cap(3) this(3)] obtain es where
      es: "EncoderTable_Rebuild ?cap ?v = Some (?v\<lparr>elem_size := es\<rparr>)" "length es = ?cap"
        "ring es (Suc (tail_remote_index ?v)) (table_elems ?v) = enc_abs ?v"
      by blast
    let ?u = "?v\<lparr>elem_size := es\<rparr>"
    have abs: "enc_abs ?u = enc_abs v" "enc_last ?u = enc_last v" using es(3) absv by (simp_all add: enc_abs_def enc_last_def)
    have "enc_ok ?u" using v(2) ts assms(2) abs es(2) cap len \<open>table_elems ?v \<le> ?cap\<close>
      by (simp add: enc_ok_def kInitialTableEntries_eq)
    moreover have "SetMaxSize n t = Some (True, ?u)"
      using False True v(1) es(1) cap(2) by (simp add: SetMaxSize_def Let_def)
    ultimately show ?thesis using False v(3,4) abs by (simp add: enc_same_def)
  qed
qed

lemma DynamicIndex_eq:
  assumes "enc_ok t" "0 < i" "i \<le> enc_last t"
  shows "DynamicIndex i t = 62 + (enc_last t - i)"
proof -
  have "enc_last t < 2 ^ 32 - 63" using assms(1) by (simp add: enc_ok_def)
  then have "add32 (add32 62 (tail_remote_index t)) (table_elems t) = 62 + enc_last t" by (simp add: enc_last_def add32_eq)
  then show ?thesis using assms \<open>enc_last t < 2 ^ 32 - 63\<close> by (simp add: DynamicIndex_def kLastStaticEntry_def sub32_eq)
qed

section \<open>The two ends of a connection\<close>

text \<open>An encoder and the decoder of its peer, with a ghost log of the entries in the order of their allocation and the sizes that
  the encoder reserved for them.\<close>

record 'm peers =
  enc :: encoder_table
  dec :: "'m hpack_table"
  log :: "('m memento \<times> nat) list"

datatype 'm peer_op = DecoderLimit nat | Resize nat | Insert "'m memento" nat

definition peers_init :: "'m memento list \<Rightarrow> 'm peers" where
  "peers_init st = \<lparr>enc = HPackEncoderTable_init, dec = HPackTable_init st, log = []\<rparr>"

fun peer_step :: "'m peer_op \<Rightarrow> 'm peers \<Rightarrow> 'm peers option" where
  "peer_step (DecoderLimit n) p = map_option (\<lambda>d. p\<lparr>dec := d\<rparr>) (HPackTable_SetMaxBytes n (dec p))"
| "peer_step (Resize n) p =
     (case SetMaxSize n (enc p) of
        None \<Rightarrow> None
      | Some (_, e) \<Rightarrow>
          (case HPackTable_SetCurrentTableSize n (dec p) of Some (Inr d) \<Rightarrow> Some (p\<lparr>enc := e, dec := d\<rparr>) | _ \<Rightarrow> None))"
| "peer_step (Insert md sz) p =
     (case AllocateIndex sz (enc p) of
        None \<Rightarrow> None
      | Some (i, e) \<Rightarrow>
          (case HPackTable_Add md (dec p) of
             Some (Inr d) \<Rightarrow> Some (p\<lparr>enc := e, dec := d, log := log p @ (if i = 0 then [] else [(md, sz)])\<rparr>)
           | _ \<Rightarrow> None))"

text \<open>What the two ends have to agree on: the decoder's bound is raised before the encoder uses more, and the encoder reserves at least the size of
  the decoder's entry (it counts a binary value in its encoded form), below 64 KiB, as long as the 32-bit indices last.\<close>

fun peer_valid :: "'m peer_op \<Rightarrow> nat \<times> nat \<times> nat \<Rightarrow> bool" where
  "peer_valid (DecoderLimit n) (lim, mb, k) \<longleftrightarrow> lim \<le> n"
| "peer_valid (Resize n) (lim, mb, k) \<longleftrightarrow> n \<le> mb \<and> n \<le> 2 ^ 32 - 32"
| "peer_valid (Insert md sz) (lim, mb, k) \<longleftrightarrow>
     32 \<le> transport_size md \<and> transport_size md \<le> sz \<and> sz < 2 ^ 16 \<and> k < 2 ^ 32 - 64"

fun peer_spec :: "'m peer_op \<Rightarrow> nat \<times> nat \<times> nat \<Rightarrow> nat \<times> nat \<times> nat" where
  "peer_spec (DecoderLimit n) (lim, mb, k) = (lim, n, k)"
| "peer_spec (Resize n) (lim, mb, k) = (n, mb, k)"
| "peer_spec (Insert md sz) (lim, mb, k) = (lim, mb, k + of_bool (sz \<le> lim))"

definition peer_abs :: "'m peers \<Rightarrow> nat \<times> nat \<times> nat" where
  "peer_abs p = (max_table_size (enc p), max_bytes (dec p), length (log p))"

definition live :: "'m peers \<Rightarrow> ('m memento \<times> nat) list" where
  "live p = drop (tail_remote_index (enc p)) (log p)"

text \<open>The coupling of the two tables: the live entries of the encoder are the newest ones of the decoder.  A change of the encoder's limit that the decoder
  has not seen yet leaves the tables matched; they are coupled when the encoder uses no more than what the decoder currently holds.\<close>

definition matched :: "'m peers \<Rightarrow> bool" where
  "matched p \<longleftrightarrow> dec_ok (dec p) \<and> enc_ok (enc p) \<and> max_table_size (enc p) \<le> max_bytes (dec p) \<and>
     current_table_bytes (dec p) \<le> max_bytes (dec p) \<and> enc_last (enc p) = length (log p) \<and> enc_abs (enc p) = map snd (live p) \<and>
     (\<exists>pre. dec_abs (dec p) = pre @ map fst (live p)) \<and> (\<forall>(md, sz) \<in> set (log p). transport_size md \<le> sz)"

definition coupled :: "'m peers \<Rightarrow> bool" where
  "coupled p \<longleftrightarrow> dec_ok (dec p) \<and> enc_ok (enc p) \<and> max_table_size (enc p) \<le> current_table_bytes (dec p) \<and>
     current_table_bytes (dec p) \<le> max_bytes (dec p) \<and> enc_last (enc p) = length (log p) \<and> enc_abs (enc p) = map snd (live p) \<and>
     (\<exists>pre. dec_abs (dec p) = pre @ map fst (live p)) \<and> (\<forall>(md, sz) \<in> set (log p). transport_size md \<le> sz)"

lemma coupled_iff: "coupled p \<longleftrightarrow> matched p \<and> max_table_size (enc p) \<le> current_table_bytes (dec p)"
  by (auto simp: coupled_def matched_def)

definition peer_ok :: "'m peers \<Rightarrow> bool" where
  "peer_ok p \<longleftrightarrow> coupled p \<and> current_table_bytes (dec p) = max_table_size (enc p)"

lemma peer_ok_init: "peer_ok (peers_init st)"
  by (simp add: peer_ok_def coupled_def peers_init_def dec_ok_def enc_ok_def HPackTable_init_def HPackEncoderTable_init_def live_def dec_abs_def
      enc_abs_def enc_last_def kInitialTableEntries_eq kInitialTableSize_def EntriesForBytes_eq)

text \<open>The decoder, whose entries count for less, keeps at least what the encoder keeps.\<close>

lemma evict_coherent:
  assumes "\<forall>(md, sz) \<in> set ys. f md \<le> sz" "lim \<le> lim'"
  shows "\<exists>n \<le> length ys. evict (\<lambda>x. x) lim (map snd ys) = map snd (drop n ys) \<and>
    (\<exists>pre'. evict f lim' (pre @ map fst ys) = pre' @ map fst (drop n ys))"
proof -
  obtain n where n: "n \<le> length ys" "evict (\<lambda>x. x) lim (map snd ys) = drop n (map snd ys)"
    using evict_drop [of "map snd ys" "\<lambda>x. x" lim] by auto
  have "total_size f (map fst (drop n ys)) \<le> total_size (\<lambda>x. x) (map snd (drop n ys))"
    unfolding total_map by (rule total_mono) (use assms(1) in_set_dropD in fastforce)
  also have "\<dots> \<le> lim'" using evict_total [of "\<lambda>x. x" lim "map snd ys"] n(2) assms(2) by (simp add: drop_map)
  finally have "\<exists>pre'. evict f lim' ((pre @ map fst (take n ys)) @ map fst (drop n ys)) = pre' @ map fst (drop n ys)"
    by (rule evict_longest)
  moreover have "pre @ map fst ys = (pre @ map fst (take n ys)) @ map fst (drop n ys)"
    by (metis append_assoc append_take_drop_id map_append)
  ultimately show ?thesis using n by (auto simp: drop_map)
qed

lemma live_suffix:
  assumes "enc_last e = length l" "enc_abs e = map snd (drop n (live p)) @ map snd zs" "l = log p @ zs" "n \<le> length (live p)"
    "enc_last (enc p) = length (log p)" "enc_ok (enc p)"
  shows "drop (tail_remote_index e) l = drop n (live p) @ zs"
proof -
  have "table_elems e = length (live p) - n + length zs" using arg_cong [OF assms(2), of length] by (simp add: enc_abs_def)
  moreover have "tail_remote_index (enc p) \<le> length (log p)" using assms(5) by (simp add: enc_last_def)
  ultimately have "tail_remote_index e = tail_remote_index (enc p) + n"
    using assms(1,3,4) by (simp add: enc_last_def live_def)
  moreover have "tail_remote_index (enc p) + n \<le> length (log p)" using assms(4,5) by (simp add: live_def enc_last_def)
  ultimately show ?thesis using assms(3) by (simp add: live_def add.commute)
qed

lemma live_sizes: "coupled p \<Longrightarrow> \<forall>(md, sz) \<in> set (live p). transport_size md \<le> sz"
  using in_set_dropD unfolding live_def coupled_def by fastforce

lemma peer_limit_ok:
  assumes "peer_ok p" "max_table_size (enc p) \<le> n"
  shows "\<exists>p'. peer_step (DecoderLimit n) p = Some p' \<and> peer_ok p' \<and> peer_abs p' = peer_spec (DecoderLimit n) (peer_abs p)"
proof -
  note ok = assms(1) [unfolded peer_ok_def coupled_def]
  have "evict transport_size n (dec_abs (dec p)) = dec_abs (dec p)"
    using ok assms(2) by (intro evict_id) (auto simp: dec_ok_def)
  with SetMaxBytes_ok [of "dec p" n] ok obtain d where "HPackTable_SetMaxBytes n (dec p) = Some d" "dec_ok d" "max_bytes d = n"
    "dec_abs d = dec_abs (dec p)" "current_table_bytes d = current_table_bytes (dec p)" by (auto split: if_splits)
  with assms(2) ok show ?thesis by (auto simp: peer_ok_def coupled_def live_def peer_abs_def)
qed

lemma peer_resize_ok:
  assumes "peer_ok p" "n \<le> max_bytes (dec p)" "n \<le> 2 ^ 32 - 32"
  shows "\<exists>p'. peer_step (Resize n) p = Some p' \<and> peer_ok p' \<and> peer_abs p' = peer_spec (Resize n) (peer_abs p)"
proof -
  note ok = assms(1) [unfolded peer_ok_def coupled_def]
  have c: "coupled p" using assms(1) by (simp add: peer_ok_def)
  obtain pre where pre: "dec_abs (dec p) = pre @ map fst (live p)" using ok by blast
  obtain e where e: "SetMaxSize n (enc p) = Some (n \<noteq> max_table_size (enc p), e)" "enc_ok e" "max_table_size e = n"
    "enc_last e = enc_last (enc p)" "enc_abs e = evict (\<lambda>x. x) n (enc_abs (enc p))"
    using SetMaxSize_ok [of "enc p" n] ok assms(3) by auto
  obtain d where d: "HPackTable_SetCurrentTableSize n (dec p) = Some (Inr d)" "dec_ok d" "max_bytes d = max_bytes (dec p)"
    "current_table_bytes d = n" "dec_abs d = evict transport_size n (dec_abs (dec p))"
    using SetCurrentTableSize_ok [of "dec p" n] ok assms(2,3) by auto
  obtain m pre' where m: "m \<le> length (live p)" "enc_abs e = map snd (drop m (live p))" "dec_abs d = pre' @ map fst (drop m (live p))"
    using evict_coherent [OF live_sizes [OF c] order_refl [of n], of pre] e(5) d(5) pre ok by auto
  let ?p = "p\<lparr>enc := e, dec := d\<rparr>"
  have "live ?p = drop m (live p)"
    using live_suffix [of e "log p" m p "[]"] m e ok by (simp add: live_def)
  then have "peer_ok ?p" using e(2-4) d(2-4) m assms(2) ok unfolding peer_ok_def coupled_def by auto
  with e d show ?thesis by (simp add: peer_abs_def)
qed

lemma coupled_insert:
  assumes "coupled p" "32 \<le> transport_size md" "transport_size md \<le> sz" "sz < 2 ^ 16" "length (log p) < 2 ^ 32 - 64"
  shows "\<exists>e d. AllocateIndex sz (enc p) = Some (if max_table_size (enc p) < sz then 0 else Suc (length (log p)), e) \<and>
    HPackTable_Add md (dec p) = Some (Inr d) \<and>
    coupled (p\<lparr>enc := e, dec := d, log := log p @ (if max_table_size (enc p) < sz then [] else [(md, sz)])\<rparr>) \<and>
    max_table_size e = max_table_size (enc p) \<and> max_bytes d = max_bytes (dec p) \<and> current_table_bytes d = current_table_bytes (dec p) \<and>
    static_metadata d = static_metadata (dec p)"
proof -
  note ok = assms(1) [unfolded coupled_def]
  obtain pre where pre: "dec_abs (dec p) = pre @ map fst (live p)" using ok by blast
  let ?L = "max_table_size (enc p)" and ?C = "current_table_bytes (dec p)"
  obtain e where e: "AllocateIndex sz (enc p) = Some (if ?L < sz then 0 else Suc (enc_last (enc p)), e)" "enc_ok e"
    "max_table_size e = ?L" "enc_last e = enc_last (enc p) + of_bool (sz \<le> ?L)"
    "enc_abs e = (if ?L < sz then [] else evict (\<lambda>x. x) (?L - sz) (enc_abs (enc p)) @ [sz])"
    using AllocateIndex_ok [of "enc p" sz] ok assms by auto
  obtain d where d: "HPackTable_Add md (dec p) = Some (Inr d)" "dec_ok d" "max_bytes d = max_bytes (dec p)" "current_table_bytes d = ?C"
    "dec_abs d = (if ?C < transport_size md then [] else evict transport_size (?C - transport_size md) (dec_abs (dec p)) @ [md])"
    "static_metadata d = static_metadata (dec p)"
    using Add_ok [of "dec p" md] ok assms by auto
  let ?p = "p\<lparr>enc := e, dec := d, log := log p @ (if ?L < sz then [] else [(md, sz)])\<rparr>"
  have "enc_abs (enc ?p) = map snd (live ?p) \<and> (\<exists>pre. dec_abs (dec ?p) = pre @ map fst (live ?p))"
  proof (cases "?L < sz")
    case True
    then show ?thesis using live_suffix [of e "log p" "length (live p)" p "[]"] e ok by (simp add: live_def)
  next
    case False
    have "?L \<le> ?C" using ok by blast
    then have "?L - sz \<le> ?C - transport_size md" using assms(3) by (rule diff_le_mono [THEN order_trans, OF _ diff_le_mono2])
    then obtain m pre' where "m \<le> length (live p)" "evict (\<lambda>x. x) (?L - sz) (enc_abs (enc p)) = map snd (drop m (live p))"
      "evict transport_size (?C - transport_size md) (dec_abs (dec p)) = pre' @ map fst (drop m (live p))"
      using evict_coherent [OF live_sizes [OF assms(1)], of "?L - sz" "?C - transport_size md" pre] pre ok by auto
    moreover have "\<not> ?C < transport_size md" using False ok assms(3) by linarith
    ultimately show ?thesis using live_suffix [of e "log p @ [(md, sz)]" m p "[(md, sz)]"] False e d assms ok by (simp add: live_def)
  qed
  then have "coupled ?p" using e(2-4) d(2-4) ok assms unfolding coupled_def by auto
  then show ?thesis using e d ok by auto
qed

lemma peer_insert_ok:
  assumes "peer_ok p" "32 \<le> transport_size md" "transport_size md \<le> sz" "sz < 2 ^ 16" "length (log p) < 2 ^ 32 - 64"
  shows "\<exists>p'. peer_step (Insert md sz) p = Some p' \<and> peer_ok p' \<and> peer_abs p' = peer_spec (Insert md sz) (peer_abs p)"
proof -
  have "coupled p" using assms(1) by (simp add: peer_ok_def)
  from coupled_insert [OF this assms(2-5)] assms(1) show ?thesis by (auto simp: peer_ok_def peer_abs_def)
qed

text \<open>The encoder alone may evict, and the decoder follows it later.\<close>

lemma matched_sizes: "matched p \<Longrightarrow> \<forall>(md, sz) \<in> set (live p). transport_size md \<le> sz"
  using in_set_dropD unfolding live_def matched_def by fastforce

lemma matched_resize:
  assumes "matched p" "n \<le> max_bytes (dec p)" "n \<le> 2 ^ 32 - 32"
  shows "\<exists>e. SetMaxSize n (enc p) = Some (n \<noteq> max_table_size (enc p), e) \<and> matched (p\<lparr>enc := e\<rparr>) \<and> max_table_size e = n"
proof -
  note ok = assms(1) [unfolded matched_def]
  obtain pre where pre: "dec_abs (dec p) = pre @ map fst (live p)" using ok by blast
  obtain e where e: "SetMaxSize n (enc p) = Some (n \<noteq> max_table_size (enc p), e)" "enc_ok e" "max_table_size e = n"
    "enc_last e = enc_last (enc p)" "enc_abs e = evict (\<lambda>x. x) n (enc_abs (enc p))"
    using SetMaxSize_ok [of "enc p" n] ok assms(3) by auto
  obtain m where m: "m \<le> length (live p)" "enc_abs e = map snd (drop m (live p))"
    using evict_drop [of "enc_abs (enc p)" "\<lambda>x. x" n] e(5) ok by (auto simp: drop_map)
  have lv: "live (p\<lparr>enc := e\<rparr>) = drop m (live p)"
    using live_suffix [of e "log p" m p "[]"] m e ok by (simp_all add: live_def)
  have "dec_abs (dec p) = (pre @ map fst (take m (live p))) @ map fst (drop m (live p))"
    unfolding pre by (metis append_assoc append_take_drop_id map_append)
  then have "matched (p\<lparr>enc := e\<rparr>)" using e ok lv m(2) assms(2) unfolding matched_def by auto
  with e show ?thesis by blast
qed

lemma matched_announce:
  assumes "matched p"
  shows "\<exists>d. HPackTable_SetCurrentTableSize (max_table_size (enc p)) (dec p) = Some (Inr d) \<and> coupled (p\<lparr>dec := d\<rparr>) \<and>
    max_bytes d = max_bytes (dec p) \<and> static_metadata d = static_metadata (dec p)"
proof -
  note ok = assms [unfolded matched_def]
  let ?n = "max_table_size (enc p)"
  obtain pre where pre: "dec_abs (dec p) = pre @ map fst (live p)" using ok by blast
  have "?n \<le> 2 ^ 32 - 32" using ok by (simp add: enc_ok_def)
  then obtain d where d: "HPackTable_SetCurrentTableSize ?n (dec p) = Some (Inr d)" "dec_ok d" "max_bytes d = max_bytes (dec p)"
    "current_table_bytes d = ?n" "dec_abs d = evict transport_size ?n (dec_abs (dec p))" "static_metadata d = static_metadata (dec p)"
    using SetCurrentTableSize_ok [of "dec p" ?n] ok by auto
  have "total_size (\<lambda>x. x) (map snd (live p)) \<le> ?n" using ok unfolding enc_ok_def by metis
  then have "evict (\<lambda>x. x) ?n (map snd (live p)) = map snd (live p)" by (rule evict_id)
  then obtain m pre' where m: "m \<le> length (live p)" "map snd (live p) = map snd (drop m (live p))"
    "evict transport_size ?n (dec_abs (dec p)) = pre' @ map fst (drop m (live p))"
    using evict_coherent [OF matched_sizes [OF assms] order_refl [of ?n], of pre] pre by auto
  have "length (map snd (live p)) = length (map snd (drop m (live p)))" using m(2) by (rule arg_cong)
  then have "m = 0 \<or> live p = []" using m(1) by auto
  with m(3) d(5) have "\<exists>pre. dec_abs d = pre @ map fst (live p)" by auto
  then have "coupled (p\<lparr>dec := d\<rparr>)" using d ok by (simp add: coupled_def live_def)
  with d show ?thesis by blast
qed

interpretation hpack_peers: refinement peer_step peer_spec peer_valid peer_abs peer_ok
proof
  fix p :: "'a peers" and x :: "'a peer_op"
  assume ok: "peer_ok p" and v: "peer_valid x (peer_abs p)"
  show "\<exists>p'. peer_step x p = Some p' \<and> peer_ok p' \<and> peer_abs p' = peer_spec x (peer_abs p)"
  proof (cases x)
    case (DecoderLimit n)
    show ?thesis unfolding DecoderLimit by (rule peer_limit_ok [OF ok]) (use v DecoderLimit in \<open>simp add: peer_abs_def\<close>)
  next
    case (Resize n)
    show ?thesis unfolding Resize by (rule peer_resize_ok [OF ok]) (use v Resize in \<open>simp_all add: peer_abs_def\<close>)
  next
    case (Insert md sz)
    show ?thesis unfolding Insert by (rule peer_insert_ok [OF ok]) (use v Insert in \<open>simp_all add: peer_abs_def\<close>)
  qed
qed

lemma peer_lookup:
  assumes "coupled p" "0 < i" "i \<le> length (log p)" "ConvertableToDynamicIndex i (enc p)"
  shows "HPackTable_Lookup (DynamicIndex i (enc p)) (dec p) = Some (Some (fst (log p ! (i - 1))))"
proof -
  note ok = assms(1) [unfolded coupled_def]
  obtain pre where pre: "dec_abs (dec p) = pre @ map fst (live p)" using ok by blast
  let ?tl = "tail_remote_index (enc p)" and ?k = "length (log p) - i"
  have tl': "?tl < i" using assms(4) by (simp add: ConvertableToDynamicIndex_def)
  have len: "num_entries (dec p) = length pre + (length (log p) - ?tl)"
    using arg_cong [OF pre, of length] by (simp add: dec_abs_def live_def)
  have k: "?k < num_entries (dec p)" using len tl' assms(3) by simp
  have "num_entries (dec p) - 1 - ?k = length pre + (i - 1 - ?tl)" using len tl' assms(3) by simp
  then have "dec_abs (dec p) ! (num_entries (dec p) - 1 - ?k) = fst (live p ! (i - 1 - ?tl))"
    using pre tl' assms(3) by (simp add: nth_append live_def)
  also have "live p ! (i - 1 - ?tl) = log p ! (i - 1)" using tl' assms(3) by (simp add: live_def)
  finally show ?thesis
    using Lookup_dynamic [of "dec p" ?k] k ok DynamicIndex_eq [of "enc p" i] assms(2,3) by simp
qed

lemma newest_convertable:
  assumes "peer_ok p" "peer_valid (Insert md sz) (peer_abs p)" "sz \<le> max_table_size (enc p)" "peer_step (Insert md sz) p = Some p'"
  shows "log p' = log p @ [(md, sz)] \<and> ConvertableToDynamicIndex (length (log p')) (enc p')"
proof -
  obtain e where e: "AllocateIndex sz (enc p) = Some (Suc (enc_last (enc p)), e)" "enc_ok e" "enc_last e = Suc (enc_last (enc p))"
    "enc_abs e = evict (\<lambda>x. x) (max_table_size (enc p) - sz) (enc_abs (enc p)) @ [sz]"
    using AllocateIndex_ok [of "enc p" sz] assms by (auto simp: peer_ok_def coupled_def peer_abs_def)
  have "table_elems e \<noteq> 0" using arg_cong [OF e(4), of length] by (simp add: enc_abs_def)
  with e assms show ?thesis
    by (auto simp: ConvertableToDynamicIndex_def enc_last_def peer_ok_def coupled_def split: option.splits sum.splits)
qed

section \<open>Properties\<close>

text \<open>C28: The encoder's and the decoder's dynamic tables stay coherent.  After any sequence of size changes and insertions that both ends see
  (the encoder counting each entry for at least as much as the decoder), neither end fails an assertion, reads out of bounds or loops,
  and every entry the encoder still considers indexable is found by the decoder's lookup at the dynamic index that the encoder
  emits for it; an entry that fits is indexable right after its insertion.\<close>

theorem hpack_tables_coherent:
  assumes "valid_run peer_valid peer_spec (ops @ [Insert md sz]) (4096, 4096, 0)"
  shows "\<exists>p q. fold_opt peer_step ops (peers_init st) = Some p \<and> peer_step (Insert md sz) p = Some q \<and>
    (sz \<le> max_table_size (enc p) \<longrightarrow> log q = log p @ [(md, sz)] \<and> ConvertableToDynamicIndex (length (log q)) (enc q)) \<and>
    (\<forall>i \<in> {1..length (log q)}. ConvertableToDynamicIndex i (enc q) \<longrightarrow>
       HPackTable_Lookup (DynamicIndex i (enc q)) (dec q) = Some (Some (fst (log q ! (i - 1)))))"
proof -
  have split: "valid_run peer_valid peer_spec ops a \<and> peer_valid (Insert md sz) (fold peer_spec ops a)"
    if "valid_run peer_valid peer_spec (ops @ [Insert md sz]) a" for a
    using that by (induction ops arbitrary: a) auto
  have init: "peer_abs (peers_init st) = (4096, 4096, 0)"
    by (simp add: peer_abs_def peers_init_def HPackEncoderTable_init_def HPackTable_init_def kInitialTableSize_def)
  obtain p where p: "fold_opt peer_step ops (peers_init st) = Some p" "peer_ok p" "peer_abs p = fold peer_spec ops (4096, 4096, 0)"
    using hpack_peers.run_ok [OF peer_ok_init [of st], of ops] split [OF assms] init by auto
  have v: "peer_valid (Insert md sz) (peer_abs p)" using split [OF assms] p(3) by simp
  obtain q where q: "peer_step (Insert md sz) p = Some q" "peer_ok q" using hpack_peers.step_ok [OF p(2) v] by blast
  have c: "coupled q" using q(2) by (simp add: peer_ok_def)
  show ?thesis
    using p(1) q(1) newest_convertable [OF p(2) v _ q(1)] peer_lookup [OF c] by (intro exI [of _ p] exI [of _ q]) auto
qed

theorem hpack_tables_coherent_witness:
  "let ops = [Resize 100, Insert \<lparr>mem_value = Some ''a'', transport_size = 40\<rparr> 40, Insert \<lparr>mem_value = Some ''b'', transport_size = 40\<rparr> 41] in
   \<exists>p q. fold_opt peer_step ops (peers_init []) = Some p \<and>
     peer_step (Insert \<lparr>mem_value = Some ''c'', transport_size = 40\<rparr> 40) p = Some q \<and>
     (\<forall>i \<in> {1..length (log q)}. ConvertableToDynamicIndex i (enc q) \<longrightarrow>
       HPackTable_Lookup (DynamicIndex i (enc q)) (dec q) = Some (Some (fst (log q ! (i - 1)))))"
  using hpack_tables_coherent [of "[Resize 100, Insert \<lparr>mem_value = Some ''a'', transport_size = 40\<rparr> 40,
      Insert \<lparr>mem_value = Some ''b'', transport_size = 40\<rparr> 41]" "\<lparr>mem_value = Some ''c'', transport_size = 40\<rparr>" 40 "[]"]
  by (auto simp: Let_def)

end
