(* ===== verification/Hpack_Input.thy ===== *)
theory Hpack_Input
  imports Prelude
begin

text \<open>
  The byte level of the HPACK codec: the variable-length integers of \<^verbatim>\<open>src/core/ext/transport/chttp2/transport/varint.h/.cc\<close> and the input
  reader \<open>HPackParser::Input\<close> of \<^verbatim>\<open>hpack_parser.cc\<close>.  An input is the list of bytes from the current position to the end and the list from
  the frontier; a parsing function takes an input and returns an optional value and the input after it, as the methods of the source do.
\<close>

section \<open>Definitions\<close>

type_synonym bytes = "u8 list"

datatype hpack_error =
    VarintOutOfRange u32 u8
  | IllegalOpCode
  | InvalidIndex nat nat
  | IllegalBase64
  | TooManyTableSizeChanges
  | MetadataSizeLimit
  | TableSizeAboveMax nat nat
  | TableReducedNotReflected nat nat
  | SetFailed
  | IncompleteHeader

subsection \<open>Input\<close>

record input =
  in_rest :: bytes
  in_frontier :: bytes
  in_error :: "hpack_error option"
  in_eof :: bool

type_synonym 'a reader = "input \<Rightarrow> 'a option \<times> input"

definition Input_init :: "bytes \<Rightarrow> input" where
  "Input_init bs = \<lparr>in_rest = bs, in_frontier = bs, in_error = None, in_eof = False\<rparr>"

definition end_of_stream :: "input \<Rightarrow> bool" where
  "end_of_stream i \<longleftrightarrow> in_rest i = []"

definition remaining :: "input \<Rightarrow> nat" where
  "remaining i = length (in_rest i)"

definition Advance :: "nat \<Rightarrow> input \<Rightarrow> input" where
  "Advance n i = i\<lparr>in_rest := drop n (in_rest i)\<rparr>"

definition peek :: "input \<Rightarrow> u8 option" where
  "peek i = (case in_rest i of [] \<Rightarrow> None | b # _ \<Rightarrow> Some b)"

definition UnexpectedEOF :: "input \<Rightarrow> input" where
  "UnexpectedEOF i = (if in_error i \<noteq> None then i else i\<lparr>in_eof := True\<rparr>)"

definition SetError :: "hpack_error \<Rightarrow> input \<Rightarrow> input" where
  "SetError err i = (if in_error i \<noteq> None \<or> in_eof i then i else i\<lparr>in_error := Some err, in_rest := []\<rparr>)"

definition UpdateFrontier :: "input \<Rightarrow> input" where
  "UpdateFrontier i = i\<lparr>in_frontier := in_rest i\<rparr>"

definition TakeError :: "input \<Rightarrow> hpack_error option \<times> input" where
  "TakeError i = (in_error i, i\<lparr>in_error := None\<rparr>)"

definition Next :: "u8 reader" where
  "Next i = (case in_rest i of [] \<Rightarrow> (None, UnexpectedEOF i) | b # bs \<Rightarrow> (Some b, i\<lparr>in_rest := bs\<rparr>))"

text \<open>Sequencing: a failure is passed on as it is.\<close>

definition read_then :: "'a reader \<Rightarrow> ('a \<Rightarrow> 'b reader) \<Rightarrow> 'b reader" where
  "read_then m f i = (case m i of (None, i') \<Rightarrow> (None, i') | (Some x, i') \<Rightarrow> f x i')"

definition ParseVarintOutOfRange :: "u32 \<Rightarrow> u8 \<Rightarrow> u32 reader" where
  "ParseVarintOutOfRange v last_byte i = (None, SetError (VarintOutOfRange v last_byte) i)"

text \<open>The loop over trailing \<open>0x80\<close> bytes runs at most once per byte of input.\<close>

fun varint_padding :: "bytes \<Rightarrow> input \<Rightarrow> u8 option \<times> input" where
  "varint_padding [] i = (None, UnexpectedEOF (i\<lparr>in_rest := []\<rparr>))"
| "varint_padding (c # cs) i = (if c = 0x80 then varint_padding cs i else (Some c, i\<lparr>in_rest := cs\<rparr>))"

definition varint_last :: "u32 \<Rightarrow> u32 reader" where
  "varint_last v i =
     (case varint_padding (in_rest i) i of
        (None, i') \<Rightarrow> (None, i')
      | (Some c, i') \<Rightarrow> if c = 0 then (Some v, i') else ParseVarintOutOfRange v c i')"

definition varint_fifth :: "u32 \<Rightarrow> u32 reader" where
  "varint_fifth v = read_then Next (\<lambda>cur.
     let c = ucast cur AND 0x7f :: u32; added = push_bit 28 c in
     if 0xf < c then ParseVarintOutOfRange v cur
     else if 0xffffffff - v < added then ParseVarintOutOfRange v cur
     else if cur AND 0x80 = 0 then (\<lambda>i. (Some (v + added), i))
     else varint_last (v + added))"

definition varint_more :: "nat \<Rightarrow> (u32 \<Rightarrow> u32 reader) \<Rightarrow> u32 \<Rightarrow> u32 reader" where
  "varint_more shift k v = read_then Next (\<lambda>cur.
     let v' = v + push_bit shift (ucast cur AND 0x7f) in
     if cur AND 0x80 = 0 then (\<lambda>i. (Some v', i)) else k v')"

definition ParseVarint :: "u32 \<Rightarrow> u32 reader" where
  "ParseVarint = varint_more 0 (varint_more 7 (varint_more 14 (varint_more 21 varint_fifth)))"

record string_prefix =
  sp_length :: u32
  sp_huff :: bool

definition ParseStringPrefix :: "string_prefix reader" where
  "ParseStringPrefix = read_then Next (\<lambda>cur.
     let huff = (cur AND 0x80 \<noteq> 0); len = ucast cur AND 0x7f in
     if len = 0x7f then read_then (ParseVarint 0x7f) (\<lambda>v i. (Some \<lparr>sp_length = v, sp_huff = huff\<rparr>, i))
     else (\<lambda>i. (Some \<lparr>sp_length = len, sp_huff = huff\<rparr>, i)))"

subsection \<open>Writing integers\<close>

definition MaxInVarintPrefix :: "nat \<Rightarrow> u32" where
  "MaxInVarintPrefix prefix_bits = push_bit (8 - prefix_bits) 1 - 1"

definition VarintLength :: "u32 \<Rightarrow> nat" where
  "VarintLength tail_value =
     (if tail_value < push_bit 7 1 then 2
      else if tail_value < push_bit 14 1 then 3
      else if tail_value < push_bit 21 1 then 4
      else if tail_value < push_bit 28 1 then 5
      else 6)"

text \<open>The bytes that the fall-through switch writes, and the reset of the top bit of the last one.\<close>

definition VarintWriteTail :: "u32 \<Rightarrow> nat \<Rightarrow> bytes" where
  "VarintWriteTail tail_value tail_length =
     (let target = map (\<lambda>k. ucast (drop_bit (7 * k) tail_value) OR 0x80 :: u8) [0..<tail_length] in
      target[tail_length - 1 := target ! (tail_length - 1) AND 0x7f])"

record varint_writer =
  vw_prefix_bits :: nat
  vw_value :: u32
  vw_length :: nat

definition VarintWriter :: "nat \<Rightarrow> u32 \<Rightarrow> varint_writer" where
  "VarintWriter k v =
     \<lparr>vw_prefix_bits = k, vw_value = v,
      vw_length = (if v < MaxInVarintPrefix k then 1 else VarintLength (v - MaxInVarintPrefix k))\<rparr>"

definition VarintWriter_Write :: "u8 \<Rightarrow> varint_writer \<Rightarrow> bytes" where
  "VarintWriter_Write prefix w =
     (if vw_length w = 1 then [ucast (ucast prefix OR vw_value w)]
      else (prefix OR ucast (MaxInVarintPrefix (vw_prefix_bits w))) #
        VarintWriteTail (vw_value w - MaxInVarintPrefix (vw_prefix_bits w)) (vw_length w - 1))"

section \<open>Reading integers is exact\<close>

text \<open>The groups of seven bits of an encoding, the least significant first, as a natural number; and whether the bytes are one whole encoding.\<close>

fun varint_value :: "bytes \<Rightarrow> nat" where
  "varint_value [] = 0"
| "varint_value (b # bs) = unat (b AND 0x7f) + 128 * varint_value bs"

fun whole_varint :: "bytes \<Rightarrow> bool" where
  "whole_varint [] \<longleftrightarrow> False"
| "whole_varint (b # bs) \<longleftrightarrow> (if b AND 0x80 = 0 then bs = [] else whole_varint bs)"

definition clean :: "input \<Rightarrow> bool" where
  "clean i \<longleftrightarrow> in_error i = None \<and> \<not> in_eof i"

definition reads_varint :: "nat \<Rightarrow> bytes \<Rightarrow> input \<Rightarrow> u32 option \<times> input \<Rightarrow> bool" where
  "reads_varint n rest i r \<longleftrightarrow>
     (if n < 2 ^ 32 then r = (Some (of_nat n), i\<lparr>in_rest := rest\<rparr>)
      else \<exists>v c. r = (None, i\<lparr>in_error := Some (VarintOutOfRange v c), in_rest := []\<rparr>))"

lemma clean_update [simp]: "clean (i\<lparr>in_rest := bs\<rparr>) = clean i"
  by (simp add: clean_def)

lemma reads_varint_moved: "reads_varint n rest (i\<lparr>in_rest := bs\<rparr>) r = reads_varint n rest i r"
  by (simp add: reads_varint_def)

lemma word_of_unat: "unat w = n \<Longrightarrow> of_nat n = w"
  by auto

lemma low7_less: "unat (b AND 0x7f) < 128" for b :: u8
proof -
  have "b AND 0x7f \<le> 0x7f" by (rule word_and_le1)
  then show ?thesis by (simp add: word_le_nat_alt)
qed

lemma low7_ucast: "unat (ucast b AND 0x7f :: u32) = unat (b AND 0x7f)" for b :: u8
proof -
  have "ucast b AND 0x7f = (ucast (b AND 0x7f) :: u32)" unfolding word_eq_all_bits by (auto simp: bit_simps dest: bit_imp_le_length)
  then show ?thesis using low7_less [of b] by (simp add: unsigned_ucast_eq take_bit_nat_eq_self)
qed

lemma low7_shift:
  fixes b :: u8 and v :: u32
  assumes "s \<le> 21" "unat v < 2 ^ 30"
  shows "unat (v + push_bit s (ucast b AND 0x7f)) = unat v + 2 ^ s * unat (b AND 0x7f)"
proof -
  have p: "2 ^ s \<le> (2 ^ 21 :: nat)" using assms(1) by (rule power_increasing) simp
  have "2 ^ s * unat (b AND 0x7f) \<le> 2 ^ 21 * 127" using low7_less [of b] p by (intro mult_mono) auto
  then have lt: "2 ^ s * unat (b AND 0x7f) < 2 ^ 28" by simp
  have "unat (push_bit s (ucast b AND 0x7f :: u32)) = 2 ^ s * unat (b AND 0x7f)"
    using lt unfolding unsigned_push_bit_eq by (simp add: push_bit_eq_mult take_bit_nat_eq_self low7_ucast mult.commute)
  then show ?thesis using lt assms(2) by (simp add: unat_word_ariths)
qed

lemma byte_split: "(b AND 0x7f) OR (b AND 0x80) = b" for b :: u8
proof -
  have "(0x7f OR 0x80 :: u8) = - 1" by simp
  then show ?thesis by (metis bit.conj_disj_distrib and.right_neutral)
qed

lemma and_exp_if: "n < LENGTH('a) \<Longrightarrow> b AND 2 ^ n = (if bit b n then 2 ^ n else 0)" for b :: "'a::len word"
  by (rule bit_word_eqI) (auto simp: bit_simps)

lemma byte_top: "b AND 0x80 = (if bit b 7 then 0x80 else 0)" for b :: u8
  using and_exp_if [of 7 b] by simp

lemma byte_0x80: "b AND 0x80 \<noteq> 0 \<Longrightarrow> b AND 0x7f = 0 \<longleftrightarrow> b = 0x80" for b :: u8
  using byte_split [of b] byte_top [of b] by (auto split: if_splits)

lemma byte_low: "b AND 0x80 = 0 \<Longrightarrow> b AND 0x7f = b" for b :: u8
  using byte_split [of b] by simp

lemma padding_whole:
  assumes "whole_varint bs"
  shows "if varint_value bs = 0 then varint_padding (bs @ rest) i = (Some 0, i\<lparr>in_rest := rest\<rparr>)
    else \<exists>c cs. varint_padding (bs @ rest) i = (Some c, i\<lparr>in_rest := cs\<rparr>) \<and> c \<noteq> 0"
  using assms
proof (induction bs)
  case (Cons b bs)
  show ?case
  proof (cases "b AND 0x80 = 0")
    case True
    then have "b \<noteq> 0x80" by auto
    with True Cons.prems byte_low [OF True] show ?thesis by (auto simp: unat_eq_zero)
  next
    case False
    show ?thesis
    proof (cases "b = 0x80")
      case True
      with Cons False show ?thesis by auto
    next
      case nb: False
      then have "unat (b AND 0x7f) \<noteq> 0" using byte_0x80 [OF False] by (simp add: unat_eq_zero)
      moreover have "b \<noteq> 0" using False by auto
      ultimately show ?thesis using nb by auto
    qed
  qed
qed simp

lemma varint_last_exact:
  assumes "whole_varint bs" "clean i" "in_rest i = bs @ rest"
  shows "reads_varint (unat v + 2 ^ 35 * varint_value bs) rest i (varint_last v i)"
proof (cases "varint_value bs = 0")
  case True
  then show ?thesis
    using padding_whole [OF assms(1), of rest i] assms(3) unsigned_less [of v] by (simp add: varint_last_def reads_varint_def)
next
  case False
  then obtain c cs where "varint_padding (bs @ rest) i = (Some c, i\<lparr>in_rest := cs\<rparr>)" "c \<noteq> 0"
    using padding_whole [OF assms(1), of rest i] by auto
  with False assms show ?thesis
    by (auto simp: varint_last_def reads_varint_def ParseVarintOutOfRange_def SetError_def clean_def)
qed

lemma read_then_Next: "in_rest i = b # bs \<Longrightarrow> read_then Next f i = f b (i\<lparr>in_rest := bs\<rparr>)"
  by (simp add: read_then_def Next_def)

lemma varint_fifth_exact:
  assumes "whole_varint bs" "clean i" "in_rest i = bs @ rest" "unat v < 2 ^ 30"
  shows "reads_varint (unat v + 2 ^ 28 * varint_value bs) rest i (varint_fifth v i)"
proof -
  obtain b cs where bs: "bs = b # cs" using assms(1) by (cases bs) auto
  let ?i = "i\<lparr>in_rest := cs @ rest\<rparr>" and ?c = "ucast b AND 0x7f :: u32"
  define a where "a = push_bit 28 ?c"
  have start: "varint_fifth v i =
     (if 0xf < ?c then ParseVarintOutOfRange v b ?i
      else if 0xffffffff - v < a then ParseVarintOutOfRange v b ?i
      else if b AND 0x80 = 0 then (Some (v + a), ?i) else varint_last (v + a) ?i)"
    using assms(3) bs by (simp add: varint_fifth_def read_then_Next Let_def a_def)
  have err: "reads_varint (unat v + 2 ^ 28 * varint_value bs) rest i (ParseVarintOutOfRange v b ?i)"
    if "2 ^ 32 \<le> unat v + 2 ^ 28 * unat (b AND 0x7f)"
  proof -
    have "2 ^ 32 \<le> unat v + 2 ^ 28 * varint_value bs" using that bs by simp
    then show ?thesis using assms(2) by (auto simp: reads_varint_def ParseVarintOutOfRange_def SetError_def clean_def)
  qed
  show ?thesis
  proof (cases "0xf < ?c")
    case True
    then have "16 \<le> unat (b AND 0x7f)" by (simp add: word_less_nat_alt low7_ucast)
    then show ?thesis using start True err by simp
  next
    case False
    then have le: "unat (b AND 0x7f) \<le> 15" by (simp add: word_less_nat_alt low7_ucast)
    have add': "unat (a) = 2 ^ 28 * unat (b AND 0x7f)"
      using le unfolding a_def unsigned_push_bit_eq by (simp add: push_bit_eq_mult take_bit_nat_eq_self low7_ucast mult.commute)
    have "v \<le> 0xffffffff" using assms(4) by (simp add: word_le_nat_alt)
    then have sub: "unat (0xffffffff - v) = 2 ^ 32 - 1 - unat v" using unat_sub [of v "0xffffffff"] by simp
    show ?thesis
    proof (cases "0xffffffff - v < a")
      case True
      then have "2 ^ 32 \<le> unat v + 2 ^ 28 * unat (b AND 0x7f)" using sub add' assms(4) unfolding word_less_nat_alt by simp
      with True show ?thesis using start err by simp
    next
      case small: False
      then have lt: "unat v + 2 ^ 28 * unat (b AND 0x7f) < 2 ^ 32" using sub add' assms(4) unfolding word_less_nat_alt by simp
      then have sum: "unat (v + a) = unat v + 2 ^ 28 * unat (b AND 0x7f)" using add' by (simp add: unat_word_ariths)
      show ?thesis
      proof (cases "b AND 0x80 = 0")
        case True
        have "of_nat (unat v + 2 ^ 28 * unat (b AND 0x7f)) = v + a" by (rule word_of_unat [OF sum])
        then show ?thesis using start \<open>\<not> 0xf < ?c\<close> small True assms(1) lt bs by (simp add: reads_varint_def)
      next
        case nonlast: False
        then have "whole_varint cs" using assms(1) bs by simp
        from varint_last_exact [OF this, of ?i rest "v + a"] assms(2)
        have "reads_varint (unat (v + a) + 2 ^ 35 * varint_value cs) rest i (varint_last (v + a) ?i)" by (simp add: reads_varint_moved)
        moreover have "unat (v + a) + 2 ^ 35 * varint_value cs = unat v + 2 ^ 28 * varint_value bs" using sum bs by simp
        ultimately show ?thesis using start \<open>\<not> 0xf < ?c\<close> small nonlast by simp
      qed
    qed
  qed
qed

text \<open>One of the first four bytes, followed by a reader of the rest that is exact for larger numbers.\<close>

lemma varint_more_exact:
  assumes "whole_varint bs" "clean i" "in_rest i = bs @ rest" "s \<le> 21" "unat v < 2 ^ 8 + 2 ^ s"
    and "\<And>cs i v. whole_varint cs \<Longrightarrow> clean i \<Longrightarrow> in_rest i = cs @ rest \<Longrightarrow> unat v < 2 ^ 8 + 2 ^ (s + 7) \<Longrightarrow>
      reads_varint (unat v + 2 ^ (s + 7) * varint_value cs) rest i (k v i)"
  shows "reads_varint (unat v + 2 ^ s * varint_value bs) rest i (varint_more s k v i)"
proof -
  obtain b cs where bs: "bs = b # cs" using assms(1) by (cases bs) auto
  define w where "w = v + push_bit s (ucast b AND 0x7f)"
  have pow: "2 ^ s \<le> (2 ^ 21 :: nat)" using assms(4) by (rule power_increasing) simp
  have w: "unat w = unat v + 2 ^ s * unat (b AND 0x7f)"
    unfolding w_def using assms(5) pow by (intro low7_shift [OF assms(4)]) simp
  have "unat (b AND 0x7f) + 1 \<le> 128" using low7_less [of b] by simp
  from mult_le_mono2 [OF this, of "2 ^ s"] have lt: "2 ^ s * unat (b AND 0x7f) + 2 ^ s \<le> 2 ^ (s + 7)"
    by (simp add: algebra_simps power_add)
  have start: "varint_more s k v i =
      (if b AND 0x80 = 0 then (Some w, i\<lparr>in_rest := cs @ rest\<rparr>) else k w (i\<lparr>in_rest := cs @ rest\<rparr>))"
    using assms(3) bs by (simp add: varint_more_def read_then_Next Let_def w_def)
  show ?thesis
  proof (cases "b AND 0x80 = 0")
    case True
    have "of_nat (unat v + 2 ^ s * unat (b AND 0x7f)) = w" by (rule word_of_unat [OF w])
    moreover have "unat w < 2 ^ LENGTH(32)" by (rule unsigned_less)
    then have "unat v + 2 ^ s * unat (b AND 0x7f) < 2 ^ 32" using w by simp
    ultimately show ?thesis using start True assms(1) bs by (simp add: reads_varint_def)
  next
    case False
    then have "whole_varint cs" "unat w < 2 ^ 8 + 2 ^ (s + 7)" using assms(1,5) bs w lt by simp_all
    from assms(6) [OF this(1) _ _ this(2), of "i\<lparr>in_rest := cs @ rest\<rparr>"] assms(2)
    have "reads_varint (unat w + 2 ^ (s + 7) * varint_value cs) rest i (k w (i\<lparr>in_rest := cs @ rest\<rparr>))"
      by (simp add: reads_varint_moved)
    moreover have "unat w + 2 ^ (s + 7) * varint_value cs = unat v + 2 ^ s * varint_value bs"
      using w bs by (simp add: algebra_simps power_add)
    ultimately show ?thesis using start False by simp
  qed
qed

lemma ParseVarint_exact:
  assumes "whole_varint bs" "clean i" "in_rest i = bs @ rest" "unat v \<le> 255"
  shows "reads_varint (unat v + varint_value bs) rest i (ParseVarint v i)"
proof -
  have five: "reads_varint (unat v + 2 ^ (21 + 7) * varint_value cs) rest i (varint_fifth v i)"
    if "whole_varint cs" "clean i" "in_rest i = cs @ rest" "unat v < 2 ^ 8 + 2 ^ (21 + 7)" for cs i v
    using varint_fifth_exact [OF that(1-3)] that(4) by simp
  have four: "reads_varint (unat v + 2 ^ (14 + 7) * varint_value cs) rest i (varint_more 21 varint_fifth v i)"
    if "whole_varint cs" "clean i" "in_rest i = cs @ rest" "unat v < 2 ^ 8 + 2 ^ (14 + 7)" for cs i v
    using varint_more_exact [OF that(1-3), of 21 v varint_fifth] five that(4) by simp
  have three: "reads_varint (unat v + 2 ^ (7 + 7) * varint_value cs) rest i (varint_more 14 (varint_more 21 varint_fifth) v i)"
    if "whole_varint cs" "clean i" "in_rest i = cs @ rest" "unat v < 2 ^ 8 + 2 ^ (7 + 7)" for cs i v
    using varint_more_exact [OF that(1-3), of 14 v "varint_more 21 varint_fifth"] four that(4) by simp
  have two: "reads_varint (unat v + 2 ^ (0 + 7) * varint_value cs) rest i
      (varint_more 7 (varint_more 14 (varint_more 21 varint_fifth)) v i)"
    if "whole_varint cs" "clean i" "in_rest i = cs @ rest" "unat v < 2 ^ 8 + 2 ^ (0 + 7)" for cs i v
    using varint_more_exact [OF that(1-3), of 7 v "varint_more 14 (varint_more 21 varint_fifth)"] three that(4) by simp
  show ?thesis
    using varint_more_exact [OF assms(1-3), of 0 v "varint_more 7 (varint_more 14 (varint_more 21 varint_fifth))"] two assms(4)
    by (simp add: ParseVarint_def)
qed

section \<open>Writing integers\<close>

lemma VarintWriteTail_1: "VarintWriteTail v (Suc 0) = [(ucast v OR 0x80) AND 0x7f]"
  by (simp add: VarintWriteTail_def)

lemma VarintWriteTail_Suc: "VarintWriteTail v (Suc (Suc n)) = (ucast v OR 0x80) # VarintWriteTail (drop_bit 7 v) (Suc n)"
proof -
  have "[0..<Suc (Suc n)] = 0 # map Suc [0..<Suc n]" by (simp add: upt_conv_Cons map_Suc_upt del: upt_Suc)
  then show ?thesis by (simp add: VarintWriteTail_def Let_def comp_def add.commute del: upt_Suc)
qed

lemma low7_word: "unat ((ucast v OR 0x80 :: u8) AND 0x7f) = unat v mod 128" for v :: u32
proof -
  have "(ucast v OR 0x80 :: u8) AND 0x7f = ucast (take_bit 7 v)"
    unfolding word_eq_all_bits by (auto simp: bit_simps less_Suc_eq numeral_eq_Suc)
  then have "unat ((ucast v OR 0x80 :: u8) AND 0x7f) = take_bit 8 (take_bit 7 (unat v))"
    by (simp add: unsigned_ucast_eq unsigned_take_bit_eq)
  then show ?thesis by (simp add: take_bit_eq_mod)
qed

lemma VarintWriteTail_ok:
  "unat v < 2 ^ (7 * Suc n) \<Longrightarrow> whole_varint (VarintWriteTail v (Suc n)) \<and> varint_value (VarintWriteTail v (Suc n)) = unat v"
proof (induction n arbitrary: v)
  case 0
  have "((ucast v OR 0x80 :: u8) AND 0x7f) AND 0x80 = 0" by (simp add: and.assoc)
  with 0 show ?case by (simp add: VarintWriteTail_1 low7_word and.assoc)
next
  case (Suc n)
  have top: "(ucast v OR 0x80 :: u8) AND 0x80 \<noteq> 0" by (simp add: bit.conj_disj_distrib2)
  have d: "unat (drop_bit 7 v) = unat v div 128"
  proof -
    have "unat v < 2 ^ LENGTH(32)" by (rule unsigned_less)
    then show ?thesis unfolding unsigned_drop_bit_eq by (simp add: drop_bit_eq_div take_bit_nat_eq_self)
  qed
  have "unat (drop_bit 7 v) < 2 ^ (7 * Suc n)" using Suc.prems unfolding d by (simp add: power_add less_mult_imp_div_less)
  from Suc.IH [OF this] top show ?case by (simp add: VarintWriteTail_Suc low7_word d)
qed

lemma VarintLength_tail:
  "\<exists>n. VarintLength v = Suc (Suc n) \<and> n \<le> 4 \<and> unat v < 2 ^ (7 * Suc n)"
proof -
  have top: "unat v < 2 ^ LENGTH(32)" by (rule unsigned_less)
  consider "unat v < 2 ^ 7" | "2 ^ 7 \<le> unat v" "unat v < 2 ^ 14" | "2 ^ 14 \<le> unat v" "unat v < 2 ^ 21"
    | "2 ^ 21 \<le> unat v" "unat v < 2 ^ 28" | "2 ^ 28 \<le> unat v" by linarith
  then show ?thesis
  proof cases
    case 1 then show ?thesis by (intro exI [of _ 0]) (simp add: VarintLength_def word_less_nat_alt)
  next
    case 2 then show ?thesis by (intro exI [of _ 1]) (simp add: VarintLength_def word_less_nat_alt)
  next
    case 3 then show ?thesis by (intro exI [of _ 2]) (simp add: VarintLength_def word_less_nat_alt)
  next
    case 4 then show ?thesis by (intro exI [of _ 3]) (simp add: VarintLength_def word_less_nat_alt)
  next
    case 5 then show ?thesis using top by (intro exI [of _ 4]) (simp add: VarintLength_def word_less_nat_alt)
  qed
qed

lemma MaxInVarintPrefix_unat: "1 \<le> k \<Longrightarrow> k \<le> 7 \<Longrightarrow> unat (MaxInVarintPrefix k) = 2 ^ (8 - k) - 1"
proof -
  assume k: "1 \<le> k" "k \<le> 7"
  then have "k \<in> {1, 2, 3, 4, 5, 6, 7}" by auto
  then show ?thesis by (auto simp: MaxInVarintPrefix_def push_bit_eq_mult)
qed

lemma prefix_mask:
  assumes "1 \<le> k" "k \<le> 7"
  shows "MaxInVarintPrefix k = mask (8 - k)" "ucast (MaxInVarintPrefix k) = (mask (8 - k) :: u8)"
proof -
  show m: "MaxInVarintPrefix k = mask (8 - k)" by (simp add: MaxInVarintPrefix_def mask_eq_exp_minus_1 push_bit_eq_mult)
  show "ucast (MaxInVarintPrefix k) = (mask (8 - k) :: u8)" unfolding m word_eq_all_bits by (auto simp: bit_simps)
qed

text \<open>The first byte carries the prefix above the mask and the number, or all ones, within it.\<close>

lemma first_byte_inline:
  assumes "1 \<le> k" "k \<le> 7" "prefix AND mask (8 - k) = 0" "v < MaxInVarintPrefix k"
  shows "(ucast (ucast prefix OR v) :: u8) AND mask (8 - k) = ucast v" "(ucast (ucast prefix OR v) :: u8) AND NOT (mask (8 - k)) = prefix"
proof -
  have "unat v < 2 ^ (8 - k)" using assms(4) MaxInVarintPrefix_unat [OF assms(1,2)] by (simp add: word_less_nat_alt)
  then have v: "bit v n \<Longrightarrow> n < 8 - k" for n using bit_nat_less [of "unat v" "8 - k" n] by (simp add: bit_unsigned_iff)
  have p: "bit prefix n \<Longrightarrow> n < 8 - k \<Longrightarrow> False" for n
    using arg_cong [OF assms(3), of "\<lambda>w. bit w n"] by (auto simp: bit_simps dest: bit_imp_le_length)
  show "(ucast (ucast prefix OR v) :: u8) AND mask (8 - k) = ucast v"
    unfolding word_eq_all_bits using p v by (auto simp: bit_simps dest: v)
  show "(ucast (ucast prefix OR v) :: u8) AND NOT (mask (8 - k)) = prefix"
    unfolding word_eq_all_bits using p v by (auto simp: bit_simps dest: v)
qed

lemma VarintWriter_exact:
  assumes "1 \<le> k" "k \<le> 7" "prefix AND mask (8 - k) = 0" "in_error i = None" "\<not> in_eof i"
  shows "\<exists>b bs. VarintWriter_Write prefix (VarintWriter k v) = b # bs \<and> length (b # bs) = vw_length (VarintWriter k v) \<and>
    b AND NOT (mask (8 - k)) = prefix \<and>
    (if v < MaxInVarintPrefix k then bs = [] \<and> b AND mask (8 - k) = ucast v
     else b AND mask (8 - k) = mask (8 - k) \<and>
       ParseVarint (MaxInVarintPrefix k) (i\<lparr>in_rest := bs @ rest\<rparr>) = (Some v, i\<lparr>in_rest := rest\<rparr>))"
proof (cases "v < MaxInVarintPrefix k")
  case True
  then show ?thesis using first_byte_inline [OF assms(1-3) True] by (simp add: VarintWriter_Write_def VarintWriter_def)
next
  case False
  let ?m = "MaxInVarintPrefix k"
  obtain n where n: "VarintLength (v - ?m) = Suc (Suc n)" "unat (v - ?m) < 2 ^ (7 * Suc n)" using VarintLength_tail [of "v - ?m"] by blast
  note tail = VarintWriteTail_ok [OF n(2)]
  let ?b = "prefix OR mask (8 - k)"
  have len: "length (VarintWriteTail (v - ?m) (Suc n)) = Suc n" by (simp add: VarintWriteTail_def Let_def)
  have out: "VarintWriter_Write prefix (VarintWriter k v) = ?b # VarintWriteTail (v - ?m) (Suc n)"
    using False n(1) by (simp add: VarintWriter_Write_def VarintWriter_def prefix_mask(2) [OF assms(1,2)])
  have p: "bit prefix m \<Longrightarrow> m < 8 - k \<Longrightarrow> False" for m
    using arg_cong [OF assms(3), of "\<lambda>w. bit w m"] by (auto simp: bit_simps dest: bit_imp_le_length)
  have b: "?b AND NOT (mask (8 - k)) = prefix" "?b AND mask (8 - k) = mask (8 - k)"
    unfolding word_eq_all_bits using p by (auto simp: bit_simps)
  have le: "?m \<le> v" using False by simp
  have "8 - k \<le> 7" using assms(1) by simp
  then have m: "unat ?m \<le> 255" using MaxInVarintPrefix_unat [OF assms(1,2)] power_increasing [of "8 - k" 7 "2 :: nat"] by simp
  have sum: "unat ?m + unat (v - ?m) = unat v" using unat_sub [OF le] le by (simp add: word_le_nat_alt)
  have "unat v < 2 ^ LENGTH(32)" by (rule unsigned_less)
  then have "ParseVarint ?m (i\<lparr>in_rest := VarintWriteTail (v - ?m) (Suc n) @ rest\<rparr>) = (Some v, i\<lparr>in_rest := rest\<rparr>)"
    using ParseVarint_exact [of "VarintWriteTail (v - ?m) (Suc n)" "i\<lparr>in_rest := VarintWriteTail (v - ?m) (Suc n) @ rest\<rparr>" rest ?m]
      tail assms(4,5) m sum by (simp add: reads_varint_moved) (simp add: reads_varint_def clean_def)
  with out b len False n(1) show ?thesis by (simp add: VarintWriter_def)
qed

text \<open>So the prefix of a string is read back as its length and the Huffman flag.\<close>

lemma ParseStringPrefix_exact:
  assumes "clean i" "in_rest i = VarintWriter_Write (if huff then 0x80 else 0) (VarintWriter 1 v) @ rest"
  shows "ParseStringPrefix i = (Some \<lparr>sp_length = v, sp_huff = huff\<rparr>, i\<lparr>in_rest := rest\<rparr>)"
proof -
  let ?p = "if huff then 0x80 else 0 :: u8"
  have m: "(0x7f :: u8) = mask 7" "MaxInVarintPrefix 1 = 0x7f" by (simp_all add: mask_eq_exp_minus_1 MaxInVarintPrefix_def)
  have seven: "8 - 1 = (7 :: nat)" and one_le_7: "1 \<le> (7 :: nat)" by simp_all
  have z: "?p AND mask (8 - 1) = 0" by (simp add: mask_eq_exp_minus_1)
  have c: "in_error i = None" "\<not> in_eof i" using assms(1) by (simp_all add: clean_def)
  obtain b bs where w: "VarintWriter_Write ?p (VarintWriter 1 v) = b # bs" "b AND NOT (mask 7) = ?p"
    "if v < 0x7f then bs = [] \<and> b AND mask 7 = ucast v
     else b AND mask 7 = mask 7 \<and> ParseVarint 0x7f (i\<lparr>in_rest := bs @ rest\<rparr>) = (Some v, i\<lparr>in_rest := rest\<rparr>)"
    using VarintWriter_exact [OF order_refl one_le_7 z c, of v rest] unfolding m(2) seven by blast
  have top: "b AND 0x80 = b AND NOT (mask 7)"
  proof (rule bit_word_eqI)
    fix n
    assume "n < LENGTH(8)"
    then have "n < 7 \<or> n = 7" by (simp, arith)
    then show "bit (b AND 0x80) n = bit (b AND NOT (mask 7)) n" unfolding byte_top by (auto simp: bit_simps bit_exp_iff [of 7, simplified])
  qed
  have huff: "(b AND 0x80 \<noteq> 0) = huff" using w(2) top by (simp split: if_splits)
  have len: "(ucast b AND 0x7f :: u32) = ucast (b AND mask 7)" unfolding word_eq_all_bits m(1) [symmetric] by (auto simp: bit_simps dest: bit_imp_le_length)
  have rest: "in_rest i = b # bs @ rest" using assms(2) w(1) by simp
  show ?thesis
  proof (cases "v < 0x7f")
    case True
    have "unat v < 2 ^ 8" using True by (simp add: word_less_nat_alt)
    then have "unat (take_bit 8 v) = unat v" by (simp only: unsigned_take_bit_eq take_bit_nat_eq_self)
    then have "take_bit 8 v = v" by (rule unsigned_word_eqI)
    then have "(ucast (ucast v :: u8) :: u32) = v" by (simp add: unsigned_ucast_eq)
    then have "(ucast b AND 0x7f :: u32) = v" using len w(3) True by simp
    moreover have "v \<noteq> 0x7f" using True by auto
    ultimately show ?thesis using rest w(3) True huff unfolding ParseStringPrefix_def by (simp add: read_then_Next Let_def)
  next
    case False
    have "(ucast (mask 7 :: u8) :: u32) = 0x7f" by (simp add: mask_eq_exp_minus_1)
    then have "(ucast b AND 0x7f :: u32) = 0x7f" using len w(3) False by simp
    then show ?thesis using rest w(3) False huff unfolding ParseStringPrefix_def by (simp add: read_then_Next Let_def) (simp add: read_then_def)
  qed
qed

section \<open>Properties\<close>

text \<open>C29: Reading an HPACK integer is exact.  On a whole encoding, with any number of padding groups, \<open>ParseVarint\<close> returns the offset plus the
  number that the groups spell out exactly when that sum is below \<open>2 ^ 32\<close>, and consumes exactly the encoding; otherwise it reports
  an overflow and never a wrapped value.\<close>

theorem varint_decode_exact:
  assumes "whole_varint bs" "in_error i = None" "\<not> in_eof i" "in_rest i = bs @ rest" "v \<le> 0xff"
  shows "if unat v + varint_value bs < 2 ^ 32
    then ParseVarint v i = (Some (of_nat (unat v + varint_value bs)), i\<lparr>in_rest := rest\<rparr>)
    else \<exists>w c. ParseVarint v i = (None, i\<lparr>in_error := Some (VarintOutOfRange w c), in_rest := []\<rparr>)"
  using ParseVarint_exact [OF assms(1) _ assms(4), of v] assms(2,3,5) by (simp add: clean_def reads_varint_def word_le_nat_alt)

theorem varint_decode_exact_witness:
  "ParseVarint 0x1f (Input_init [0x9a, 0x8a, 0x80, 0x00, 0x55]) = (Some 1337, (Input_init [0x9a, 0x8a, 0x80, 0x00, 0x55])\<lparr>in_rest := [0x55]\<rparr>)"
  using varint_decode_exact [of "[0x9a, 0x8a, 0x80, 0x00]" "Input_init [0x9a, 0x8a, 0x80, 0x00, 0x55]" "[0x55]" "0x1f"]
  by (simp add: Input_init_def)

text \<open>HPACK integers round-trip.  The bytes that \<open>VarintWriter\<close> writes under a prefix are as many as it announced; the first one carries the
  prefix above the mask and, within it, either the number itself or all ones, in which case \<open>ParseVarint\<close> recovers the
  number from the following bytes and stops right behind them.\<close>

theorem varint_roundtrip:
  assumes "1 \<le> k" "k \<le> 7" "prefix AND mask (8 - k) = 0" "in_error i = None" "\<not> in_eof i"
  shows "\<exists>b bs. VarintWriter_Write prefix (VarintWriter k v) = b # bs \<and> length (b # bs) = vw_length (VarintWriter k v) \<and>
    b AND NOT (mask (8 - k)) = prefix \<and>
    (if v < MaxInVarintPrefix k then bs = [] \<and> b AND mask (8 - k) = ucast v
     else b AND mask (8 - k) = mask (8 - k) \<and>
       ParseVarint (MaxInVarintPrefix k) (i\<lparr>in_rest := bs @ rest\<rparr>) = (Some v, i\<lparr>in_rest := rest\<rparr>))"
  by (rule VarintWriter_exact [OF assms])

theorem varint_roundtrip_witness:
  "ParseVarint (MaxInVarintPrefix 3) ((Input_init [])\<lparr>in_rest := tl (VarintWriter_Write 0x20 (VarintWriter 3 5000000)) @ [7]\<rparr>) =
     (Some 5000000, (Input_init [])\<lparr>in_rest := [7]\<rparr>)"
proof -
  have "\<not> 5000000 < MaxInVarintPrefix 3" "(0x20 :: u8) AND mask (8 - 3) = 0"
    by (simp_all add: MaxInVarintPrefix_def mask_eq_exp_minus_1)
  then show ?thesis using varint_roundtrip [of 3 "0x20" "Input_init []" 5000000 "[7]"] by (auto simp: Input_init_def)
qed

end
