(* ===== verification/Hpack_String.thy ===== *)
theory Hpack_String
  imports Hpack_Input Huffman_Tables
begin

text \<open>
  The strings of HPACK: the class \<open>HPackParser::String\<close> of \<^verbatim>\<open>src/core/ext/transport/chttp2/transport/hpack_parser.cc\<close> (uncompressed, Huffman-coded
  and base64 values) and the encoders of \<^verbatim>\<open>bin_encoder.cc\<close>.  How a string's memory is managed (slice, span or vector) is not
  modelled: a string is its bytes.
\<close>

section \<open>Decoding\<close>

text \<open>One nibble of Huffman-coded input: the emitted symbol goes to the output function, the automaton moves on.  The end-of-string symbol
  is dropped (its assertion is compiled out of release builds).\<close>

definition huff_nibble :: "('o \<Rightarrow> u8 \<Rightarrow> 'o) \<Rightarrow> nat \<times> 'o \<Rightarrow> nat \<Rightarrow> nat \<times> 'o" where
  "huff_nibble output so nibble =
     (let state = fst so; emit = emit_sub_tbl ! (16 * emit_tbl ! state + nibble); next = next_sub_tbl ! (16 * next_tbl ! state + nibble) in
      (next, if emit \<noteq> - 1 \<and> 0 \<le> emit \<and> emit < 256 then output (snd so) (of_int emit) else snd so))"

definition huff_byte :: "('o \<Rightarrow> u8 \<Rightarrow> 'o) \<Rightarrow> nat \<times> 'o \<Rightarrow> u8 \<Rightarrow> nat \<times> 'o" where
  "huff_byte output so b = huff_nibble output (huff_nibble output so (unat (drop_bit 4 b))) (unat (b AND 0xf))"

definition ParseHuff :: "u32 \<Rightarrow> ('o \<Rightarrow> u8 \<Rightarrow> 'o) \<Rightarrow> 'o \<Rightarrow> 'o reader" where
  "ParseHuff len output acc i =
     (if remaining i < unat len then (None, UnexpectedEOF i)
      else (Some (snd (foldl (huff_byte output) (0, acc) (take (unat len) (in_rest i)))), Advance (unat len) i))"

definition ParseUncompressed :: "u32 \<Rightarrow> bytes reader" where
  "ParseUncompressed len i =
     (if remaining i < unat len then (None, UnexpectedEOF i)
      else (Some (take (unat len) (in_rest i)), Advance (unat len) i))"

definition String_Parse :: "bytes reader" where
  "String_Parse = read_then ParseStringPrefix (\<lambda>pfx.
     if sp_huff pfx then ParseHuff (sp_length pfx) (\<lambda>out c. out @ [c]) [] else ParseUncompressed (sp_length pfx))"

subsection \<open>Base64\<close>

definition kBase64Alphabet :: string where
  "kBase64Alphabet = ''ABCDEFGHIJKLMNOPQRSTUVWXYZabcdefghijklmnopqrstuvwxyz0123456789+/=''"

definition kBase64InverseTable :: "nat list" where
  "kBase64InverseTable =
     foldl (\<lambda>table (ofs, c). table[of_char c := ofs mod 256]) (replicate 256 255) (List.enumerate 0 kBase64Alphabet)"

definition base64_bits :: "u8 \<Rightarrow> u32" where
  "base64_bits c = of_nat (kBase64InverseTable ! unat c)"

fun unbase64_quads :: "bytes \<Rightarrow> bytes \<Rightarrow> bytes option" where
  "unbase64_quads out (a # b # c # d # cur) =
     (if 63 < base64_bits a \<or> 63 < base64_bits b \<or> 63 < base64_bits c \<or> 63 < base64_bits d then None
      else
        let buffer = push_bit 18 (base64_bits a) OR push_bit 12 (base64_bits b) OR push_bit 6 (base64_bits c) OR base64_bits d in
        unbase64_quads (out @ [ucast (drop_bit 16 buffer), ucast (drop_bit 8 buffer), ucast buffer]) cur)"
| "unbase64_quads out [] = Some out"
| "unbase64_quads out [a] = None"
| "unbase64_quads out [a, b] =
     (if 63 < base64_bits a \<or> 63 < base64_bits b then None
      else
        let buffer = push_bit 18 (base64_bits a) OR push_bit 12 (base64_bits b) in
        if buffer AND 0xffff \<noteq> 0 then None else Some (out @ [ucast (drop_bit 16 buffer)]))"
| "unbase64_quads out [a, b, c] =
     (if 63 < base64_bits a \<or> 63 < base64_bits b \<or> 63 < base64_bits c then None
      else
        let buffer = push_bit 18 (base64_bits a) OR push_bit 12 (base64_bits b) OR push_bit 6 (base64_bits c) in
        if buffer AND 0xff \<noteq> 0 then None else Some (out @ [ucast (drop_bit 16 buffer), ucast (drop_bit 8 buffer)]))"

text \<open>Trailing \<open>=\<close> signs (61) are stripped first.\<close>

definition Unbase64Loop :: "bytes \<Rightarrow> bytes option" where
  "Unbase64Loop bs = unbase64_quads [] (rev (dropWhile (\<lambda>b. b = 61) (rev bs)))"

definition Unbase64 :: "bytes \<Rightarrow> bytes reader" where
  "Unbase64 s i = (case Unbase64Loop s of None \<Rightarrow> (None, SetError IllegalBase64 i) | Some v \<Rightarrow> (Some v, i))"

datatype bin_state = kUnsure | kBinary | kBase64

definition bin_output :: "bin_state \<times> bytes \<Rightarrow> u8 \<Rightarrow> bin_state \<times> bytes" where
  "bin_output so c =
     (case so of (st, out) \<Rightarrow>
        if st = kUnsure then (if c = 0 then (kBinary, out) else (kBase64, out @ [c])) else (st, out @ [c]))"

definition String_ParseBinary :: "bytes reader" where
  "String_ParseBinary = read_then ParseStringPrefix (\<lambda>pfx.
     if \<not> sp_huff pfx then
       (\<lambda>i. if 0 < sp_length pfx \<and> peek i = Some 0
            then ParseUncompressed (sp_length pfx - 1) (Advance 1 i)
            else read_then (ParseUncompressed (sp_length pfx)) Unbase64 i)
     else
       read_then (ParseHuff (sp_length pfx) bin_output (kUnsure, [])) (\<lambda>so.
         (case so of (st, out) \<Rightarrow>
            (case st of kUnsure \<Rightarrow> (\<lambda>i. (Some [], i)) | kBinary \<Rightarrow> (\<lambda>i. (Some out, i)) | kBase64 \<Rightarrow> Unbase64 out))))"

section \<open>Encoding\<close>

definition alphabet :: string where
  "alphabet = ''ABCDEFGHIJKLMNOPQRSTUVWXYZabcdefghijklmnopqrstuvwxyz0123456789+/''"

definition b64_char :: "u8 \<Rightarrow> u8" where
  "b64_char k = of_char (alphabet ! unat k)"

definition tail_xtra :: "nat list" where
  "tail_xtra = [0, 2, 3]"

text \<open>The sextets of the input, as both base64 encoders compute them.\<close>

fun sextets :: "bytes \<Rightarrow> u8 list" where
  "sextets (a # b # c # rest) =
     drop_bit 2 a # (push_bit 4 (a AND 0x3) OR drop_bit 4 b) # (push_bit 2 (b AND 0xf) OR drop_bit 6 c) # (c AND 0x3f) # sextets rest"
| "sextets [] = []"
| "sextets [a] = [drop_bit 2 a, push_bit 4 (a AND 0x3)]"
| "sextets [a, b] = [drop_bit 2 a, push_bit 4 (a AND 0x3) OR drop_bit 4 b, push_bit 2 (b AND 0xf)]"

definition grpc_chttp2_base64_encode :: "bytes \<Rightarrow> bytes crashable" where
  "grpc_chttp2_base64_encode xs =
     (let out = map b64_char (sextets xs); n = length xs in
      if length out = n div 3 * 4 + tail_xtra ! (n mod 3) then Some out else None)"

text \<open>The bit accumulator of the Huffman encoders: up to eight bits are held back.\<close>

record huff_out =
  ho_temp :: u32
  ho_temp_length :: nat
  ho_out :: bytes

function enc_flush_some :: "huff_out \<Rightarrow> huff_out" where
  "enc_flush_some h =
     (if 8 < ho_temp_length h
      then enc_flush_some (h\<lparr>ho_temp_length := ho_temp_length h - 8,
        ho_out := ho_out h @ [ucast (drop_bit (ho_temp_length h - 8) (ho_temp h))]\<rparr>)
      else h)"
  by pat_completeness auto
termination by (relation "measure ho_temp_length") auto

declare enc_flush_some.simps [simp del]

definition enc_add1 :: "huff_out \<Rightarrow> u8 \<Rightarrow> huff_out" where
  "enc_add1 h a =
     (let sa = huff_alphabet ! unat a in
      enc_flush_some (h\<lparr>ho_temp := push_bit (snd sa) (ho_temp h) OR of_nat (fst sa), ho_temp_length := ho_temp_length h + snd sa\<rparr>))"

definition enc_add2 :: "huff_out \<Rightarrow> u8 \<Rightarrow> u8 \<Rightarrow> huff_out" where
  "enc_add2 h a b =
     (let sa = huff_alphabet ! unat a; sb = huff_alphabet ! unat b in
      enc_flush_some (h\<lparr>ho_temp := push_bit (snd sa + snd sb) (ho_temp h) OR push_bit (snd sb) (of_nat (fst sa)) OR of_nat (fst sb),
        ho_temp_length := ho_temp_length h + (snd sa + snd sb)\<rparr>))"

definition enc_finish :: "huff_out \<Rightarrow> bytes" where
  "enc_finish h =
     (if ho_temp_length h \<noteq> 0
      then ho_out h @ [ucast (push_bit (8 - ho_temp_length h) (ho_temp h)) OR ucast (drop_bit (ho_temp_length h) (0xff :: u32))]
      else ho_out h)"

fun enc_sextets :: "huff_out \<Rightarrow> bytes \<Rightarrow> huff_out" where
  "enc_sextets h (a # b # c # rest) =
     enc_sextets
       (enc_add2 (enc_add2 h (drop_bit 2 a) (push_bit 4 (a AND 0x3) OR drop_bit 4 b))
         (push_bit 2 (b AND 0xf) OR drop_bit 6 c) (c AND 0x3f)) rest"
| "enc_sextets h [] = h"
| "enc_sextets h [a] = enc_add2 h (drop_bit 2 a) (push_bit 4 (a AND 0x3))"
| "enc_sextets h [a, b] =
     enc_add1 (enc_add2 h (drop_bit 2 a) (push_bit 4 (a AND 0x3) OR drop_bit 4 b)) (push_bit 2 (b AND 0xf))"

definition grpc_chttp2_base64_encode_and_huffman_compress :: "bytes \<Rightarrow> bytes crashable" where
  "grpc_chttp2_base64_encode_and_huffman_compress xs =
     (let n = length xs; max_output_bits = 11 * (n div 3 * 4 + tail_xtra ! (n mod 3));
          max_output_length = max_output_bits div 8 + of_bool (max_output_bits mod 8 \<noteq> 0);
          out = enc_finish (enc_sextets \<lparr>ho_temp = 0, ho_temp_length = 0, ho_out = []\<rparr> xs) in
      if length out \<le> max_output_length then Some out else None)"

definition huff_add :: "huff_out \<Rightarrow> u8 \<Rightarrow> huff_out" where
  "huff_add h c =
     (let sym = grpc_chttp2_huffsyms ! unat c in
      enc_flush_some (h\<lparr>ho_temp := push_bit (snd sym) (ho_temp h) OR of_nat (fst sym), ho_temp_length := ho_temp_length h + snd sym\<rparr>))"

definition grpc_chttp2_huffman_compress :: "bytes \<Rightarrow> bytes crashable" where
  "grpc_chttp2_huffman_compress xs =
     (let nbits = sum_list (map (\<lambda>c. snd (grpc_chttp2_huffsyms ! unat c)) xs);
          out = enc_finish (foldl huff_add \<lparr>ho_temp = 0, ho_temp_length = 0, ho_out = []\<rparr> xs) in
      if length out = nbits div 8 + of_bool (nbits mod 8 \<noteq> 0) then Some out else None)"

end
