(* ===== verification/Http2_Settings.thy ===== *)
theory Http2_Settings
  imports Useful
begin

text \<open>
  The HTTP/2 settings of \<^verbatim>\<open>src/core/ext/transport/chttp2/transport/http2_settings.{h,cc}\<close>, the error codes of
  \<^verbatim>\<open>src/core/lib/transport/http2_errors.h\<close> and the four settings sets of \<^verbatim>\<open>internal.h\<close>.  Values are 32-bit words;
  the wire id arithmetic wraps as in the source.  The theorems: the wire id table and its inverse agree on every 32-bit id,
  and the default of every setting lies in its own range.
\<close>

section \<open>Definitions\<close>

datatype setting_id =
  GRPC_CHTTP2_SETTINGS_HEADER_TABLE_SIZE
| GRPC_CHTTP2_SETTINGS_ENABLE_PUSH
| GRPC_CHTTP2_SETTINGS_MAX_CONCURRENT_STREAMS
| GRPC_CHTTP2_SETTINGS_INITIAL_WINDOW_SIZE
| GRPC_CHTTP2_SETTINGS_MAX_FRAME_SIZE
| GRPC_CHTTP2_SETTINGS_MAX_HEADER_LIST_SIZE
| GRPC_CHTTP2_SETTINGS_GRPC_ALLOW_TRUE_BINARY_METADATA

definition GRPC_CHTTP2_NUM_SETTINGS :: nat where
  "GRPC_CHTTP2_NUM_SETTINGS = 7"

text \<open>The enumerators in the order of their values 0 to 6.\<close>

definition setting_ids :: "setting_id list" where
  "setting_ids =
     [GRPC_CHTTP2_SETTINGS_HEADER_TABLE_SIZE, GRPC_CHTTP2_SETTINGS_ENABLE_PUSH,
      GRPC_CHTTP2_SETTINGS_MAX_CONCURRENT_STREAMS, GRPC_CHTTP2_SETTINGS_INITIAL_WINDOW_SIZE,
      GRPC_CHTTP2_SETTINGS_MAX_FRAME_SIZE, GRPC_CHTTP2_SETTINGS_MAX_HEADER_LIST_SIZE,
      GRPC_CHTTP2_SETTINGS_GRPC_ALLOW_TRUE_BINARY_METADATA]"

fun setting_index :: "setting_id \<Rightarrow> nat" where
  "setting_index GRPC_CHTTP2_SETTINGS_HEADER_TABLE_SIZE = 0"
| "setting_index GRPC_CHTTP2_SETTINGS_ENABLE_PUSH = 1"
| "setting_index GRPC_CHTTP2_SETTINGS_MAX_CONCURRENT_STREAMS = 2"
| "setting_index GRPC_CHTTP2_SETTINGS_INITIAL_WINDOW_SIZE = 3"
| "setting_index GRPC_CHTTP2_SETTINGS_MAX_FRAME_SIZE = 4"
| "setting_index GRPC_CHTTP2_SETTINGS_MAX_HEADER_LIST_SIZE = 5"
| "setting_index GRPC_CHTTP2_SETTINGS_GRPC_ALLOW_TRUE_BINARY_METADATA = 6"

definition grpc_setting_id_to_wire_id :: "u16 list" where
  "grpc_setting_id_to_wire_id = [1, 2, 3, 4, 5, 6, 65027]"

text \<open>The result is the returned flag and the out-parameter.\<close>

definition grpc_wire_id_to_setting_id :: "u32 \<Rightarrow> bool \<times> u32" where
  "grpc_wire_id_to_setting_id wire_id =
     (let i = wire_id - 1; x = i mod 256; y = i div 256; h = (if y = 254 then x + 4 else x) in
      (unat h < length grpc_setting_id_to_wire_id \<and>
         ucast (grpc_setting_id_to_wire_id ! unat h) = wire_id, h))"

datatype invalid_value_behavior = GRPC_CHTTP2_CLAMP_INVALID_VALUE | GRPC_CHTTP2_DISCONNECT_ON_INVALID_VALUE

datatype http2_error_code =
  GRPC_HTTP2_NO_ERROR | GRPC_HTTP2_PROTOCOL_ERROR | GRPC_HTTP2_INTERNAL_ERROR
| GRPC_HTTP2_FLOW_CONTROL_ERROR | GRPC_HTTP2_SETTINGS_TIMEOUT | GRPC_HTTP2_STREAM_CLOSED
| GRPC_HTTP2_FRAME_SIZE_ERROR | GRPC_HTTP2_REFUSED_STREAM | GRPC_HTTP2_CANCEL
| GRPC_HTTP2_COMPRESSION_ERROR | GRPC_HTTP2_CONNECT_ERROR | GRPC_HTTP2_ENHANCE_YOUR_CALM
| GRPC_HTTP2_INADEQUATE_SECURITY

fun http2_error_value :: "http2_error_code \<Rightarrow> u32" where
  "http2_error_value GRPC_HTTP2_NO_ERROR = 0x0"
| "http2_error_value GRPC_HTTP2_PROTOCOL_ERROR = 0x1"
| "http2_error_value GRPC_HTTP2_INTERNAL_ERROR = 0x2"
| "http2_error_value GRPC_HTTP2_FLOW_CONTROL_ERROR = 0x3"
| "http2_error_value GRPC_HTTP2_SETTINGS_TIMEOUT = 0x4"
| "http2_error_value GRPC_HTTP2_STREAM_CLOSED = 0x5"
| "http2_error_value GRPC_HTTP2_FRAME_SIZE_ERROR = 0x6"
| "http2_error_value GRPC_HTTP2_REFUSED_STREAM = 0x7"
| "http2_error_value GRPC_HTTP2_CANCEL = 0x8"
| "http2_error_value GRPC_HTTP2_COMPRESSION_ERROR = 0x9"
| "http2_error_value GRPC_HTTP2_CONNECT_ERROR = 0xa"
| "http2_error_value GRPC_HTTP2_ENHANCE_YOUR_CALM = 0xb"
| "http2_error_value GRPC_HTTP2_INADEQUATE_SECURITY = 0xc"

record setting_parameters =
  sp_name :: string
  default_value :: u32
  min_value :: u32
  max_value :: u32
  invalid_behavior :: invalid_value_behavior
  error_value :: u32

definition mk_setting_parameters ::
    "string \<Rightarrow> u32 \<Rightarrow> u32 \<Rightarrow> u32 \<Rightarrow> invalid_value_behavior \<Rightarrow> http2_error_code \<Rightarrow> setting_parameters" where
  "mk_setting_parameters n d lo hi b e =
     \<lparr>sp_name = n, default_value = d, min_value = lo, max_value = hi, invalid_behavior = b,
      error_value = http2_error_value e\<rparr>"

definition grpc_chttp2_settings_parameters :: "setting_parameters list" where
  "grpc_chttp2_settings_parameters =
     [mk_setting_parameters ''HEADER_TABLE_SIZE'' 4096 0 4294967295
        GRPC_CHTTP2_CLAMP_INVALID_VALUE GRPC_HTTP2_PROTOCOL_ERROR,
      mk_setting_parameters ''ENABLE_PUSH'' 1 0 1
        GRPC_CHTTP2_DISCONNECT_ON_INVALID_VALUE GRPC_HTTP2_PROTOCOL_ERROR,
      mk_setting_parameters ''MAX_CONCURRENT_STREAMS'' 4294967295 0 4294967295
        GRPC_CHTTP2_DISCONNECT_ON_INVALID_VALUE GRPC_HTTP2_PROTOCOL_ERROR,
      mk_setting_parameters ''INITIAL_WINDOW_SIZE'' 65535 0 2147483647
        GRPC_CHTTP2_DISCONNECT_ON_INVALID_VALUE GRPC_HTTP2_FLOW_CONTROL_ERROR,
      mk_setting_parameters ''MAX_FRAME_SIZE'' 16384 16384 16777215
        GRPC_CHTTP2_DISCONNECT_ON_INVALID_VALUE GRPC_HTTP2_PROTOCOL_ERROR,
      mk_setting_parameters ''MAX_HEADER_LIST_SIZE'' 16777216 0 16777216
        GRPC_CHTTP2_CLAMP_INVALID_VALUE GRPC_HTTP2_PROTOCOL_ERROR,
      mk_setting_parameters ''GRPC_ALLOW_TRUE_BINARY_METADATA'' 0 0 1
        GRPC_CHTTP2_CLAMP_INVALID_VALUE GRPC_HTTP2_PROTOCOL_ERROR]"

datatype setting_set =
  GRPC_PEER_SETTINGS | GRPC_LOCAL_SETTINGS | GRPC_SENT_SETTINGS | GRPC_ACKED_SETTINGS

type_synonym settings_table = "setting_set \<Rightarrow> setting_id \<Rightarrow> u32"

section \<open>Wire ids\<close>

lemma setting_index_ids: "setting_ids ! setting_index i = i" "setting_index i < GRPC_CHTTP2_NUM_SETTINGS"
  by (cases i; simp add: setting_ids_def GRPC_CHTTP2_NUM_SETTINGS_def)+

lemma wire_id_lengths:
  "length grpc_setting_id_to_wire_id = GRPC_CHTTP2_NUM_SETTINGS"
  "length grpc_chttp2_settings_parameters = GRPC_CHTTP2_NUM_SETTINGS"
  by (simp_all add: grpc_setting_id_to_wire_id_def grpc_chttp2_settings_parameters_def GRPC_CHTTP2_NUM_SETTINGS_def)

lemma wire_id_roundtrip_index:
  "i < GRPC_CHTTP2_NUM_SETTINGS \<Longrightarrow>
   grpc_wire_id_to_setting_id (ucast (grpc_setting_id_to_wire_id ! i)) = (True, of_nat i)"
proof -
  assume "i < GRPC_CHTTP2_NUM_SETTINGS"
  then have "i \<in> {0, 1, 2, 3, 4, 5, 6}" by (auto simp: GRPC_CHTTP2_NUM_SETTINGS_def)
  then show ?thesis
    by (elim insertE emptyE)
      (simp_all add: grpc_wire_id_to_setting_id_def grpc_setting_id_to_wire_id_def Let_def)
qed

lemma wire_id_sound:
  "grpc_wire_id_to_setting_id w = (True, h) \<Longrightarrow>
   unat h < GRPC_CHTTP2_NUM_SETTINGS \<and> ucast (grpc_setting_id_to_wire_id ! unat h) = w"
  by (auto simp: grpc_wire_id_to_setting_id_def wire_id_lengths Let_def)

lemma wire_id_complete:
  "fst (grpc_wire_id_to_setting_id w) \<longleftrightarrow> w \<in> ucast ` set grpc_setting_id_to_wire_id"
proof
  assume "fst (grpc_wire_id_to_setting_id w)"
  then obtain h where "grpc_wire_id_to_setting_id w = (True, h)"
    by (cases "grpc_wire_id_to_setting_id w") auto
  from wire_id_sound [OF this] show "w \<in> ucast ` set grpc_setting_id_to_wire_id"
    by (metis imageI nth_mem wire_id_lengths(1))
next
  assume "w \<in> ucast ` set grpc_setting_id_to_wire_id"
  then obtain i where "i < GRPC_CHTTP2_NUM_SETTINGS" "w = ucast (grpc_setting_id_to_wire_id ! i)"
    by (metis imageE in_set_conv_nth wire_id_lengths(1))
  then show "fst (grpc_wire_id_to_setting_id w)" by (simp add: wire_id_roundtrip_index)
qed

section \<open>Parameters\<close>

lemma settings_defaults_in_range:
  "list_all (\<lambda>sp. min_value sp \<le> default_value sp \<and> default_value sp \<le> max_value sp) grpc_chttp2_settings_parameters"
  by (simp add: grpc_chttp2_settings_parameters_def mk_setting_parameters_def)

section \<open>Property\<close>

text \<open>On every 32-bit wire id the arithmetic lookup \<open>grpc_wire_id_to_setting_id\<close> agrees with a search of the wire id table: it
  succeeds exactly on the ids of the table, and then its result is the index of that id in the table.\<close>

theorem wire_id_lookup_exact:
  "grpc_wire_id_to_setting_id w = (True, h) \<longleftrightarrow>
     unat h < GRPC_CHTTP2_NUM_SETTINGS \<and> w = ucast (grpc_setting_id_to_wire_id ! unat h)"
  using wire_id_sound [of w h] wire_id_roundtrip_index [of "unat h"] by auto

end
