(* ===== verification/Bdp_Pid.thy ===== *)
theory Bdp_Pid
  imports Useful Complex_Main
begin

text \<open>
  The two estimators behind window sizing: the PID controller of \<^verbatim>\<open>src/core/lib/transport/pid_controller.{h,cc}\<close> and the
  bandwidth-delay-product estimator of \<^verbatim>\<open>src/core/lib/transport/bdp_estimator.{h,cc}\<close>.  A \<open>double\<close> is
  idealised as a real number (rounding, infinities and NaN are not modelled), an \<open>int64_t\<close> is an integer with
  its range proved.  The clock, \<open>rand()\<close> and \<open>ExecCtx::Now()\<close> are arguments.  A failed \<open>GPR_ASSERT\<close> of the ping state machine is
  \<open>None\<close>.
\<close>

section \<open>PID controller\<close>

record pid_args =
  gain_p :: real
  gain_i :: real
  gain_d :: real
  initial_control_value :: real
  min_control_value :: real
  max_control_value :: real
  integral_range :: real

record pid =
  last_error :: real
  error_integral :: real
  last_control_value :: real
  last_dc_dt :: real
  pid_args_of :: pid_args

definition PidController_init :: "pid_args \<Rightarrow> pid" where
  "PidController_init args =
     \<lparr>last_error = 0, error_integral = 0, last_control_value = initial_control_value args, last_dc_dt = 0,
      pid_args_of = args\<rparr>"

definition PidController_Reset :: "pid \<Rightarrow> pid" where
  "PidController_Reset p = p\<lparr>last_error := 0, last_dc_dt := 0, error_integral := 0\<rparr>"

definition PidController_Update :: "real \<Rightarrow> real \<Rightarrow> pid \<Rightarrow> real \<times> pid" where
  "PidController_Update err dt p =
     (if dt \<le> 0 then (last_control_value p, p)
      else
        let a = pid_args_of p;
            ei = Clamp (error_integral p + dt * (last_error p + err) * 0.5) (- integral_range a) (integral_range a);
            diff_error = (err - last_error p) / dt;
            dc_dt = gain_p a * err + gain_i a * ei + gain_d a * diff_error;
            ncv = Clamp (last_control_value p + dt * (last_dc_dt p + dc_dt) * 0.5)
                    (min_control_value a) (max_control_value a)
        in (ncv, p\<lparr>error_integral := ei, last_error := err, last_dc_dt := dc_dt, last_control_value := ncv\<rparr>))"

definition pid_ok :: "pid \<Rightarrow> bool" where
  "pid_ok p \<longleftrightarrow> (let a = pid_args_of p in
     0 \<le> integral_range a \<and> \<bar>error_integral p\<bar> \<le> integral_range a \<and>
     min_control_value a \<le> last_control_value p \<and> last_control_value p \<le> max_control_value a)"

lemma pid_ok_Reset [inv_intros]: "pid_ok p \<Longrightarrow> pid_ok (PidController_Reset p)"
  by (auto simp: pid_ok_def PidController_Reset_def Let_def)

lemma PidController_Update_ok:
  assumes "pid_ok p"
  shows "pid_ok (snd (PidController_Update err dt p))"
    and "fst (PidController_Update err dt p) = last_control_value (snd (PidController_Update err dt p))"
    and "pid_args_of (snd (PidController_Update err dt p)) = pid_args_of p"
  using assms by (auto simp: pid_ok_def PidController_Update_def Let_def Clamp_def)

text \<open>The trapezoidal step agrees with the unclamped recurrence while both clamps are inactive.\<close>

lemma PidController_Update_interior:
  assumes "0 < dt" "a = pid_args_of p"
    and "ei = error_integral p + dt * (last_error p + err) * 0.5" "\<bar>ei\<bar> \<le> integral_range a"
    and "dc = gain_p a * err + gain_i a * ei + gain_d a * ((err - last_error p) / dt)"
    and "cv = last_control_value p + dt * (last_dc_dt p + dc) * 0.5" "min_control_value a \<le> cv" "cv \<le> max_control_value a"
  shows "fst (PidController_Update err dt p) = cv"
proof -
  have "Clamp ei (- integral_range a) (integral_range a) = ei" "Clamp cv (min_control_value a) (max_control_value a) = cv"
    using assms by (auto simp: Clamp_def)
  with assms show ?thesis by (simp add: PidController_Update_def Let_def)
qed

section \<open>BDP estimator\<close>

datatype ping_state = UNSCHEDULED | SCHEDULED | STARTED

record bdp =
  ping_state_of :: ping_state
  accumulator :: int
  bdp_estimate :: int
  ping_start_time :: real
  inter_ping_delay :: int
  stable_estimate_count :: int
  bw_est :: real

definition BdpEstimator_init :: bdp where
  "BdpEstimator_init =
     \<lparr>ping_state_of = UNSCHEDULED, accumulator = 0, bdp_estimate = 65536, ping_start_time = 0, inter_ping_delay = 100,
      stable_estimate_count = 0, bw_est = 0\<rparr>"

definition AddIncomingBytes :: "int \<Rightarrow> bdp \<Rightarrow> bdp" where
  "AddIncomingBytes n b = b\<lparr>accumulator := accumulator b + n\<rparr>"

definition SchedulePing :: "bdp \<Rightarrow> bdp crashable" where
  "SchedulePing b =
     (if ping_state_of b = UNSCHEDULED then Some (b\<lparr>ping_state_of := SCHEDULED, accumulator := 0\<rparr>) else None)"

definition StartPing :: "real \<Rightarrow> bdp \<Rightarrow> bdp crashable" where
  "StartPing now b =
     (if ping_state_of b = SCHEDULED then Some (b\<lparr>ping_state_of := STARTED, ping_start_time := now\<rparr>) else None)"

definition RAND_MAX :: int where
  "RAND_MAX = 2147483647"

text \<open>\<open>now\<close> is the monotonic clock in seconds, \<open>millis\<close> the value of \<open>ExecCtx::Now()\<close> and \<open>rnd\<close> the value of \<open>rand()\<close>.\<close>

definition CompletePing :: "real \<Rightarrow> int \<Rightarrow> int \<Rightarrow> bdp \<Rightarrow> (int \<times> bdp) crashable" where
  "CompletePing now millis rnd b =
     (let dt = now - ping_start_time b;
          bw = (if dt > 0 then of_int (accumulator b) / dt else 0) in
      if ping_state_of b \<noteq> STARTED then None
      else
        let b1 = (if accumulator b > 2 * bdp_estimate b div 3 \<and> bw > bw_est b
                  then b\<lparr>bdp_estimate := max (accumulator b) (bdp_estimate b * 2), bw_est := bw,
                         inter_ping_delay := inter_ping_delay b div 2\<rparr>
                  else if inter_ping_delay b < 10000
                  then let c = stable_estimate_count b + 1 in
                       b\<lparr>stable_estimate_count := c,
                         inter_ping_delay :=
                           (if c \<ge> 2 then inter_ping_delay b + (100 + rnd * 100 div RAND_MAX) else inter_ping_delay b)\<rparr>
                  else b);
            b2 = (if inter_ping_delay b \<noteq> inter_ping_delay b1 then b1\<lparr>stable_estimate_count := 0\<rparr> else b1)
        in Some (millis + inter_ping_delay b2, b2\<lparr>ping_state_of := UNSCHEDULED, accumulator := 0\<rparr>))"

text \<open>The life of an estimator whose owner follows the ping protocol.  \<open>m\<close> bounds the bytes counted during any one ping.\<close>

inductive bdp_reach :: "int \<Rightarrow> bdp \<Rightarrow> bool" for m where
  bdp_start: "bdp_reach m BdpEstimator_init"
| bdp_bytes: "bdp_reach m b \<Longrightarrow> 0 \<le> n \<Longrightarrow> accumulator b + n \<le> m \<Longrightarrow> bdp_reach m (AddIncomingBytes n b)"
| bdp_schedule: "bdp_reach m b \<Longrightarrow> SchedulePing b = Some b' \<Longrightarrow> bdp_reach m b'"
| bdp_ping: "bdp_reach m b \<Longrightarrow> StartPing now b = Some b' \<Longrightarrow> bdp_reach m b'"
| bdp_complete: "bdp_reach m b \<Longrightarrow> 0 \<le> rnd \<Longrightarrow> rnd \<le> RAND_MAX \<Longrightarrow> CompletePing now millis rnd b = Some (t, b') \<Longrightarrow>
    bdp_reach m b'"

definition bdp_ok :: "int \<Rightarrow> bdp \<Rightarrow> bool" where
  "bdp_ok m b \<longleftrightarrow> 0 \<le> accumulator b \<and> accumulator b \<le> m \<and> 65536 \<le> bdp_estimate b \<and>
     bdp_estimate b \<le> max 65536 (3 * m) \<and> 0 \<le> inter_ping_delay b \<and> inter_ping_delay b < 10200 \<and>
     0 \<le> stable_estimate_count b \<and> 0 \<le> bw_est b"

lemma rand_jitter: "0 \<le> rnd \<Longrightarrow> rnd \<le> RAND_MAX \<Longrightarrow> 0 \<le> rnd * 100 div RAND_MAX \<and> rnd * 100 div RAND_MAX \<le> 100"
proof -
  assume "0 \<le> rnd" "rnd \<le> RAND_MAX"
  then have "rnd * 100 div RAND_MAX \<le> RAND_MAX * 100 div RAND_MAX"
    by (intro zdiv_mono1) (auto simp: RAND_MAX_def)
  with \<open>0 \<le> rnd\<close> show ?thesis by (simp add: RAND_MAX_def pos_imp_zdiv_nonneg_iff)
qed

lemma CompletePing_ok:
  assumes "bdp_ok m b" "0 \<le> rnd" "rnd \<le> RAND_MAX" "CompletePing now millis rnd b = Some (t, b')"
  shows "bdp_ok m b'"
  using assms rand_jitter [OF assms(2,3)]
  by (auto simp: bdp_ok_def CompletePing_def Let_def max_def split: if_splits)

lemma bdp_reach_ok: "bdp_reach m b \<Longrightarrow> 0 \<le> m \<Longrightarrow> bdp_ok m b"
proof (induction rule: bdp_reach.induct)
  case bdp_start then show ?case by (auto simp: bdp_ok_def BdpEstimator_init_def)
next
  case bdp_bytes then show ?case by (auto simp: bdp_ok_def AddIncomingBytes_def)
next
  case bdp_schedule then show ?case by (auto simp: bdp_ok_def SchedulePing_def split: if_splits)
next
  case bdp_ping then show ?case by (auto simp: bdp_ok_def StartPing_def split: if_splits)
next
  case bdp_complete then show ?case using CompletePing_ok by blast
qed



end
