(* ===== verification/Flow_Control.thy ===== *)
theory Flow_Control
  imports Http2_Settings Bdp_Pid
begin

text \<open>
  HTTP/2 flow control: \<^verbatim>\<open>src/core/ext/transport/chttp2/transport/flow_control.{h,cc}\<close>.  The \<open>int64_t\<close> windows are integers
  (the invariants bound them far inside 64 bits), the casts to \<open>uint32_t\<close> are written as \<open>mod 2 ^ 32\<close>, the settings are the
  \<open>u32\<close> values of \<open>Http2_Settings\<close>.  An error handle is \<open>Some\<close> message value.  What a stream object contributes (a pending read, the
  buffered length, whether it is closed for reading) is the record \<open>stream_ctx\<close>.  \<open>GPR_DEBUG_ASSERT\<close>
  conditions are separate predicates.  The transport and its streams form a transition system; its invariants are the accounting
  identities that keep both ends of a connection agreed on the windows.
\<close>

section \<open>Constants and actions\<close>

definition kDefaultWindow :: int where "kDefaultWindow = 65535"
definition kMaxWindow :: int where "kMaxWindow = 2 ^ 31 - 1"
definition kFrameSize :: int where "kFrameSize = 1024 * 1024"
definition kMinInitialWindowSize :: int where "kMinInitialWindowSize = 128"
definition kMaxInitialWindowSize :: int where "kMaxInitialWindowSize = 2 ^ 30"
definition kMaxWindowDelta :: int where "kMaxWindowDelta = 2 ^ 20"
definition kMaxWindowUpdateSize :: int where "kMaxWindowUpdateSize = 2 ^ 31 - 1"
definition GRPC_HEADER_SIZE_IN_BYTES :: int where "GRPC_HEADER_SIZE_IN_BYTES = 5"

lemmas fc_consts = kDefaultWindow_def kMaxWindow_def kFrameSize_def kMinInitialWindowSize_def
  kMaxInitialWindowSize_def kMaxWindowDelta_def kMaxWindowUpdateSize_def GRPC_HEADER_SIZE_IN_BYTES_def

definition cast_u32 :: "int \<Rightarrow> int" where
  "cast_u32 x = x mod 2 ^ 32"

datatype urgency = NO_ACTION_NEEDED | UPDATE_IMMEDIATELY | QUEUE_UPDATE

fun UrgencyString :: "urgency \<Rightarrow> string" where
  "UrgencyString NO_ACTION_NEEDED = ''no action''"
| "UrgencyString UPDATE_IMMEDIATELY = ''update immediately''"
| "UrgencyString QUEUE_UPDATE = ''queue update''"

record fc_action =
  send_stream_update :: urgency
  send_transport_update :: urgency
  send_initial_window_update :: urgency
  send_max_frame_size_update :: urgency
  initial_window_size :: int
  max_frame_size :: int

definition FlowControlAction_init :: fc_action where
  "FlowControlAction_init =
     \<lparr>send_stream_update = NO_ACTION_NEEDED, send_transport_update = NO_ACTION_NEEDED,
      send_initial_window_update = NO_ACTION_NEEDED, send_max_frame_size_update = NO_ACTION_NEEDED,
      initial_window_size = 0, max_frame_size = 0\<rparr>"

definition set_send_initial_window_update :: "urgency \<Rightarrow> int \<Rightarrow> fc_action \<Rightarrow> fc_action" where
  "set_send_initial_window_update u update a = a\<lparr>send_initial_window_update := u, initial_window_size := update\<rparr>"

definition set_send_max_frame_size_update :: "urgency \<Rightarrow> int \<Rightarrow> fc_action \<Rightarrow> fc_action" where
  "set_send_max_frame_size_update u update a = a\<lparr>send_max_frame_size_update := u, max_frame_size := update\<rparr>"

datatype fc_error = OverflowsLocalWindow (frame_size: int) (local_window: int)

definition init_window :: "settings_table \<Rightarrow> setting_set \<Rightarrow> int" where
  "init_window st which = uint (st which GRPC_CHTTP2_SETTINGS_INITIAL_WINDOW_SIZE)"

section \<open>Transport flow control\<close>

record tfc =
  remote_window :: int
  target_initial_window_size :: int
  announced_window :: int
  stream_total_over :: int
  enable_bdp_probe :: bool
  bdp_est :: bdp
  pid_ctl :: pid
  last_pid_update :: int

definition AdjustForMemoryPressure :: "real \<Rightarrow> real \<Rightarrow> real" where
  "AdjustForMemoryPressure memory_pressure target =
     (if memory_pressure < 0.1 \<and> target < 22
      then (target - 22) * memory_pressure / 0.1 + 22
      else if memory_pressure > 0.8
      then target * (1 - min 1 ((memory_pressure - 0.8) / (0.9 - 0.8)))
      else target)"

definition TargetLogBdp :: "real \<Rightarrow> bdp \<Rightarrow> real" where
  "TargetLogBdp memory_pressure b = AdjustForMemoryPressure memory_pressure (1 + log 2 (of_int (bdp_estimate b)))"

definition TransportFlowControl_init :: "bool \<Rightarrow> real \<Rightarrow> int \<Rightarrow> tfc" where
  "TransportFlowControl_init probe memory_pressure now =
     \<lparr>remote_window = kDefaultWindow, target_initial_window_size = kDefaultWindow, announced_window = kDefaultWindow,
      stream_total_over = 0, enable_bdp_probe = probe, bdp_est = BdpEstimator_init,
      pid_ctl = PidController_init
        \<lparr>gain_p = 4, gain_i = 8, gain_d = 0, initial_control_value = TargetLogBdp memory_pressure BdpEstimator_init,
         min_control_value = -1, max_control_value = 25, integral_range = 10\<rparr>,
      last_pid_update = now\<rparr>"

definition target_window :: "tfc \<Rightarrow> int" where
  "target_window t = cast_u32 (min (2 ^ 31 - 1) (stream_total_over t + target_initial_window_size t))"

definition tfc_MaybeSendUpdate :: "bool \<Rightarrow> tfc \<Rightarrow> int \<times> tfc" where
  "tfc_MaybeSendUpdate writing_anyway t =
     (let target = cast_u32 (target_window t) in
      if (writing_anyway \<or> announced_window t \<le> target div 2) \<and> announced_window t \<noteq> target
      then let announce = cast_u32 (Clamp (target - announced_window t) 0 kMaxWindowUpdateSize)
           in (announce, t\<lparr>announced_window := announced_window t + announce\<rparr>)
      else (0, t))"

definition StreamSentData :: "int \<Rightarrow> tfc \<Rightarrow> tfc" where
  "StreamSentData sz t = t\<lparr>remote_window := remote_window t - sz\<rparr>"

definition ValidateRecvData :: "int \<Rightarrow> tfc \<Rightarrow> fc_error option" where
  "ValidateRecvData incoming t =
     (if incoming > announced_window t then Some (OverflowsLocalWindow incoming (announced_window t)) else None)"

definition CommitRecvData :: "int \<Rightarrow> tfc \<Rightarrow> tfc" where
  "CommitRecvData incoming t = t\<lparr>announced_window := announced_window t - incoming\<rparr>"

definition tfc_RecvData :: "int \<Rightarrow> tfc \<Rightarrow> fc_error option \<times> tfc" where
  "tfc_RecvData incoming t =
     (case ValidateRecvData incoming t of Some e \<Rightarrow> (Some e, t) | None \<Rightarrow> (None, CommitRecvData incoming t))"

definition tfc_RecvUpdate :: "u32 \<Rightarrow> tfc \<Rightarrow> tfc" where
  "tfc_RecvUpdate sz t = t\<lparr>remote_window := remote_window t + uint sz\<rparr>"

definition PreUpdateAnnouncedWindowOverIncomingWindow :: "int \<Rightarrow> tfc \<Rightarrow> tfc" where
  "PreUpdateAnnouncedWindowOverIncomingWindow delta t =
     (if delta > 0 then t\<lparr>stream_total_over := stream_total_over t - delta\<rparr> else t)"

definition PostUpdateAnnouncedWindowOverIncomingWindow :: "int \<Rightarrow> tfc \<Rightarrow> tfc" where
  "PostUpdateAnnouncedWindowOverIncomingWindow delta t =
     (if delta > 0 then t\<lparr>stream_total_over := stream_total_over t + delta\<rparr> else t)"

definition tfc_TestOnlyForceHugeWindow :: "tfc \<Rightarrow> tfc" where
  "tfc_TestOnlyForceHugeWindow t = t\<lparr>announced_window := 1024 * 1024 * 1024, remote_window := 1024 * 1024 * 1024\<rparr>"

definition tfc_UpdateAction :: "fc_action \<Rightarrow> tfc \<Rightarrow> fc_action" where
  "tfc_UpdateAction a t =
     (if announced_window t < target_window t div 2 then a\<lparr>send_transport_update := UPDATE_IMMEDIATELY\<rparr> else a)"

definition tfc_MakeAction :: "tfc \<Rightarrow> fc_action" where
  "tfc_MakeAction t = tfc_UpdateAction FlowControlAction_init t"

definition SmoothLogBdp :: "int \<Rightarrow> real \<Rightarrow> tfc \<Rightarrow> real \<times> tfc" where
  "SmoothLogBdp now val t =
     (let bdp_error = val - last_control_value (pid_ctl t);
          dt = of_int (now - last_pid_update t) * 0.001;
          (r, p) = PidController_Update bdp_error (if dt > 0.1 then 0.1 else dt) (pid_ctl t)
      in (r, t\<lparr>last_pid_update := now, pid_ctl := p\<rparr>))"

text \<open>Division of C truncates towards zero: \<open>-value / 5\<close> is \<open>-(value / 5)\<close>, and \<open>value\<close> is positive at both calls.\<close>

definition c_div :: "int \<Rightarrow> int \<Rightarrow> int" where
  "c_div a b = sgn a * sgn b * (\<bar>a\<bar> div \<bar>b\<bar>)"

definition DeltaUrgency :: "settings_table \<Rightarrow> int \<Rightarrow> setting_id \<Rightarrow> urgency" where
  "DeltaUrgency st val sid =
     (let delta = val - uint (st GRPC_LOCAL_SETTINGS sid) in
      if delta \<noteq> 0 \<and> (delta \<le> c_div (- val) 5 \<or> delta \<ge> c_div val 5) then QUEUE_UPDATE else NO_ACTION_NEEDED)"

text \<open>\<open>mocker\<close> is the test hook (\<open>None\<close> outside tests), given the current target.\<close>

definition PeriodicUpdate ::
    "settings_table \<Rightarrow> real \<Rightarrow> int \<Rightarrow> (int \<Rightarrow> real) option \<Rightarrow> tfc \<Rightarrow> fc_action \<times> tfc" where
  "PeriodicUpdate st memory_pressure now mocker t =
     (if enable_bdp_probe t then
        let (smooth, t1) = SmoothLogBdp now (TargetLogBdp memory_pressure (bdp_est t)) t;
            target = (case mocker of None \<Rightarrow> 2 powr smooth | Some f \<Rightarrow> f (target_initial_window_size t1));
            w = \<lfloor>Clamp target (of_int kMinInitialWindowSize) (of_int kMaxInitialWindowSize)\<rfloor>;
            t2 = t1\<lparr>target_initial_window_size := w\<rparr>;
            a1 = set_send_initial_window_update
                   (DeltaUrgency st w GRPC_CHTTP2_SETTINGS_INITIAL_WINDOW_SIZE) (cast_u32 w) FlowControlAction_init;
            bw = \<lfloor>Clamp (bw_est (bdp_est t2)) 0 2147483647\<rfloor> div 1000;
            fsz = Clamp (max bw w) 16384 16777215;
            a2 = set_send_max_frame_size_update (DeltaUrgency st fsz GRPC_CHTTP2_SETTINGS_MAX_FRAME_SIZE) (cast_u32 fsz) a1
        in (tfc_UpdateAction a2 t2, t2)
      else (tfc_UpdateAction FlowControlAction_init t, t))"

section \<open>Stream flow control\<close>

record sfc =
  remote_window_delta :: int
  local_window_delta :: int
  announced_window_delta :: int

record stream_ctx =
  on_next :: bool
  recv_message :: bool
  pending_byte_stream :: bool
  frame_storage_length :: nat
  read_closed :: bool

definition StreamFlowControl_init :: sfc where
  "StreamFlowControl_init = \<lparr>remote_window_delta = 0, local_window_delta = 0, announced_window_delta = 0\<rparr>"

definition StreamFlowControl_destroy :: "sfc \<Rightarrow> tfc \<Rightarrow> tfc" where
  "StreamFlowControl_destroy s t = PreUpdateAnnouncedWindowOverIncomingWindow (announced_window_delta s) t"

definition UpdateAnnouncedWindowDelta :: "int \<Rightarrow> sfc \<times> tfc \<Rightarrow> sfc \<times> tfc" where
  "UpdateAnnouncedWindowDelta change st =
     (case st of (s, t) \<Rightarrow>
        let t1 = PreUpdateAnnouncedWindowOverIncomingWindow (announced_window_delta s) t;
            s1 = s\<lparr>announced_window_delta := announced_window_delta s + change\<rparr>
        in (s1, PostUpdateAnnouncedWindowOverIncomingWindow (announced_window_delta s1) t1))"

definition SentData :: "int \<Rightarrow> sfc \<times> tfc \<Rightarrow> sfc \<times> tfc" where
  "SentData outgoing st =
     (case st of (s, t) \<Rightarrow> (s\<lparr>remote_window_delta := remote_window_delta s - outgoing\<rparr>, StreamSentData outgoing t))"

definition sfc_RecvUpdate :: "u32 \<Rightarrow> sfc \<Rightarrow> sfc" where
  "sfc_RecvUpdate sz s = s\<lparr>remote_window_delta := remote_window_delta s + uint sz\<rparr>"

definition sfc_RecvData :: "settings_table \<Rightarrow> int \<Rightarrow> sfc \<times> tfc \<Rightarrow> fc_error option \<times> sfc \<times> tfc" where
  "sfc_RecvData st incoming p =
     (case p of (s, t) \<Rightarrow>
        (case ValidateRecvData incoming t of
           Some e \<Rightarrow> (Some e, s, t)
         | None \<Rightarrow>
             let acked = announced_window_delta s + init_window st GRPC_ACKED_SETTINGS;
                 sent = announced_window_delta s + init_window st GRPC_SENT_SETTINGS in
             if incoming > acked \<and> \<not> incoming \<le> sent then (Some (OverflowsLocalWindow incoming acked), s, t)
             else
               let (s1, t1) = UpdateAnnouncedWindowDelta (- incoming) (s, t) in
               (None, s1\<lparr>local_window_delta := local_window_delta s1 - incoming\<rparr>, CommitRecvData incoming t1)))"

text \<open>\<open>max_recv_bytes\<close> after the clamp and the subtraction of \<open>have_already\<close>; the debug assertion on it; the update.\<close>

definition max_recv_bytes :: "nat \<Rightarrow> nat \<Rightarrow> int" where
  "max_recv_bytes max_size_hint have_already =
     (let m = (if int max_size_hint \<ge> kMaxWindowDelta then kMaxWindowDelta else cast_u32 (int max_size_hint)) in
      if m \<ge> int have_already then m - cast_u32 (int have_already) else 0)"

definition IncomingByteStreamUpdate_assert :: "settings_table \<Rightarrow> nat \<Rightarrow> nat \<Rightarrow> bool" where
  "IncomingByteStreamUpdate_assert st max_size_hint have_already \<longleftrightarrow>
     max_recv_bytes max_size_hint have_already \<le> kMaxWindowUpdateSize - init_window st GRPC_SENT_SETTINGS"

definition IncomingByteStreamUpdate :: "nat \<Rightarrow> nat \<Rightarrow> sfc \<Rightarrow> sfc" where
  "IncomingByteStreamUpdate max_size_hint have_already s =
     (let m = max_recv_bytes max_size_hint have_already in
      if local_window_delta s < m
      then s\<lparr>local_window_delta := local_window_delta s + cast_u32 (m - local_window_delta s)\<rparr>
      else s)"

text \<open>The first half of \<open>MaybeSendUpdate\<close>: a stream with an outstanding read always has room for a message header.\<close>

definition keep_header_window :: "stream_ctx \<Rightarrow> sfc \<Rightarrow> sfc" where
  "keep_header_window c s =
     (if local_window_delta s < GRPC_HEADER_SIZE_IN_BYTES
      then if on_next c then IncomingByteStreamUpdate (nat GRPC_HEADER_SIZE_IN_BYTES) 0 s
           else if recv_message c
           then IncomingByteStreamUpdate (nat GRPC_HEADER_SIZE_IN_BYTES) (frame_storage_length c) s
           else s
      else s)"

definition sfc_MaybeSendUpdate :: "stream_ctx \<Rightarrow> sfc \<times> tfc \<Rightarrow> int \<times> sfc \<times> tfc" where
  "sfc_MaybeSendUpdate c p =
     (case p of (s, t) \<Rightarrow>
        let s1 = keep_header_window c s in
        if local_window_delta s1 > announced_window_delta s1
        then let announce = cast_u32 (Clamp (local_window_delta s1 - announced_window_delta s1) 0 kMaxWindowUpdateSize)
             in (announce, UpdateAnnouncedWindowDelta announce (s1, t))
        else (0, s1, t))"

definition sfc_UpdateAction :: "settings_table \<Rightarrow> stream_ctx \<Rightarrow> fc_action \<Rightarrow> sfc \<Rightarrow> fc_action" where
  "sfc_UpdateAction st c a s =
     (if \<not> read_closed c
      then let sent = init_window st GRPC_SENT_SETTINGS in
           if local_window_delta s > announced_window_delta s \<and> announced_window_delta s + sent \<le> sent div 2
           then a\<lparr>send_stream_update := UPDATE_IMMEDIATELY\<rparr>
           else if local_window_delta s > announced_window_delta s
           then a\<lparr>send_stream_update := QUEUE_UPDATE\<rparr>
           else a
      else a)"

definition sfc_MakeAction :: "settings_table \<Rightarrow> stream_ctx \<Rightarrow> sfc \<times> tfc \<Rightarrow> fc_action" where
  "sfc_MakeAction st c p = sfc_UpdateAction st c (tfc_MakeAction (snd p)) (fst p)"

definition sfc_TestOnlyForceHugeWindow :: "sfc \<Rightarrow> sfc" where
  "sfc_TestOnlyForceHugeWindow s =
     s\<lparr>announced_window_delta := 1024 * 1024 * 1024, local_window_delta := 1024 * 1024 * 1024,
       remote_window_delta := 1024 * 1024 * 1024\<rparr>"

section \<open>Disabled flow control\<close>

text \<open>The disabled implementation maxes out the windows and the settings and then ignores every event.\<close>

record disabled_tfc =
  d_remote_window :: int
  d_target_initial_window_size :: int
  d_announced_window :: int

definition TransportFlowControlDisabled_init :: "settings_table \<Rightarrow> disabled_tfc \<times> settings_table" where
  "TransportFlowControlDisabled_init st =
     (\<lparr>d_remote_window = kMaxWindow, d_target_initial_window_size = kMaxWindow, d_announced_window = kMaxWindow\<rparr>,
      (\<lambda>which sid.
         if which \<in> {GRPC_PEER_SETTINGS, GRPC_SENT_SETTINGS, GRPC_ACKED_SETTINGS}
         then if sid = GRPC_CHTTP2_SETTINGS_MAX_FRAME_SIZE then of_int kFrameSize
              else if sid = GRPC_CHTTP2_SETTINGS_INITIAL_WINDOW_SIZE then of_int kMaxWindow
              else st which sid
         else st which sid))"

definition disabled_MaybeSendUpdate :: "bool \<Rightarrow> disabled_tfc \<Rightarrow> int \<times> disabled_tfc" where
  "disabled_MaybeSendUpdate writing_anyway t = (0, t)"

definition disabled_RecvData :: "int \<Rightarrow> disabled_tfc \<Rightarrow> fc_error option \<times> disabled_tfc" where
  "disabled_RecvData incoming t = (None, t)"

section \<open>The transport with its streams\<close>

record fc_sys =
  fc_settings :: settings_table
  fc_transport :: tfc
  fc_streams :: "nat \<rightharpoonup> sfc"

text \<open>What a step does on the wire.\<close>

datatype fc_event =
  EvData int | EvRefused fc_error | EvTransportUpdate int | EvStreamUpdate int | EvInternal

definition settings_in_range :: "settings_table \<Rightarrow> bool" where
  "settings_in_range st \<longleftrightarrow> init_window st GRPC_SENT_SETTINGS \<le> 2 ^ 31 - 1 \<and> init_window st GRPC_ACKED_SETTINGS \<le> 2 ^ 31 - 1"

inductive fc_step :: "fc_sys \<Rightarrow> fc_event \<Rightarrow> fc_sys \<Rightarrow> bool" where
  fc_settings_change: "settings_in_range st \<Longrightarrow> fc_step s EvInternal (s\<lparr>fc_settings := st\<rparr>)"
| fc_create: "fc_streams s i = None \<Longrightarrow>
    fc_step s EvInternal (s\<lparr>fc_streams := (fc_streams s)(i \<mapsto> StreamFlowControl_init)\<rparr>)"
| fc_destroy: "fc_streams s i = Some x \<Longrightarrow>
    fc_step s EvInternal (s\<lparr>fc_streams := (fc_streams s)(i := None),
                            fc_transport := StreamFlowControl_destroy x (fc_transport s)\<rparr>)"
| fc_recv: "fc_streams s i = Some x \<Longrightarrow> 0 \<le> n \<Longrightarrow>
    sfc_RecvData (fc_settings s) n (x, fc_transport s) = (None, x', t') \<Longrightarrow>
    fc_step s (EvData n) (s\<lparr>fc_streams := (fc_streams s)(i \<mapsto> x'), fc_transport := t'\<rparr>)"
| fc_recv_refused: "fc_streams s i = Some x \<Longrightarrow> 0 \<le> n \<Longrightarrow>
    sfc_RecvData (fc_settings s) n (x, fc_transport s) = (Some e, x', t') \<Longrightarrow>
    fc_step s (EvRefused e) (s\<lparr>fc_streams := (fc_streams s)(i \<mapsto> x'), fc_transport := t'\<rparr>)"
| fc_recv_orphan: "0 \<le> n \<Longrightarrow> tfc_RecvData n (fc_transport s) = (None, t') \<Longrightarrow>
    fc_step s (EvData n) (s\<lparr>fc_transport := t'\<rparr>)"
| fc_transport_update: "tfc_MaybeSendUpdate w (fc_transport s) = (n, t') \<Longrightarrow>
    fc_step s (EvTransportUpdate n) (s\<lparr>fc_transport := t'\<rparr>)"
| fc_stream_update: "fc_streams s i = Some x \<Longrightarrow> sfc_MaybeSendUpdate c (x, fc_transport s) = (n, x', t') \<Longrightarrow>
    fc_step s (EvStreamUpdate n) (s\<lparr>fc_streams := (fc_streams s)(i \<mapsto> x'), fc_transport := t'\<rparr>)"
| fc_pull: "fc_streams s i = Some x \<Longrightarrow>
    fc_step s EvInternal (s\<lparr>fc_streams := (fc_streams s)(i \<mapsto> IncomingByteStreamUpdate hint hv x)\<rparr>)"
| fc_sent: "fc_streams s i = Some x \<Longrightarrow> SentData n (x, fc_transport s) = (x', t') \<Longrightarrow>
    fc_step s EvInternal (s\<lparr>fc_streams := (fc_streams s)(i \<mapsto> x'), fc_transport := t'\<rparr>)"
| fc_peer_update: "fc_step s EvInternal (s\<lparr>fc_transport := tfc_RecvUpdate k (fc_transport s)\<rparr>)"
| fc_peer_stream_update: "fc_streams s i = Some x \<Longrightarrow>
    fc_step s EvInternal (s\<lparr>fc_streams := (fc_streams s)(i \<mapsto> sfc_RecvUpdate k x)\<rparr>)"
| fc_periodic: "PeriodicUpdate (fc_settings s) mp now mocker (fc_transport s) = (a, t') \<Longrightarrow>
    fc_step s EvInternal (s\<lparr>fc_transport := t'\<rparr>)"

inductive_cases fc_stepE: "fc_step s e s'"

inductive fc_reach :: "fc_event list \<Rightarrow> fc_sys \<Rightarrow> bool" where
  fc_init: "settings_in_range st \<Longrightarrow>
    fc_reach [] \<lparr>fc_settings = st, fc_transport = TransportFlowControl_init probe mp now, fc_streams = Map.empty\<rparr>"
| fc_more: "fc_reach es s \<Longrightarrow> fc_step s e s' \<Longrightarrow> fc_reach (es @ [e]) s'"

section \<open>Invariant\<close>

definition over :: "sfc option \<Rightarrow> int" where
  "over x = (case x of None \<Rightarrow> 0 | Some s \<Rightarrow> max 0 (announced_window_delta s))"

definition total_over :: "(nat \<rightharpoonup> sfc) \<Rightarrow> int" where
  "total_over m = (\<Sum>i \<in> dom m. over (m i))"

definition sfc_ok :: "sfc \<Rightarrow> bool" where
  "sfc_ok s \<longleftrightarrow> - (2 ^ 31 - 1) \<le> announced_window_delta s \<and> announced_window_delta s \<le> local_window_delta s \<and>
     local_window_delta s \<le> kMaxWindowDelta"

definition tfc_ok :: "tfc \<Rightarrow> bool" where
  "tfc_ok t \<longleftrightarrow> 0 \<le> announced_window t \<and> announced_window t \<le> 2 ^ 31 - 1 \<and> 0 \<le> stream_total_over t \<and>
     kMinInitialWindowSize \<le> target_initial_window_size t \<and> target_initial_window_size t \<le> kMaxInitialWindowSize"

definition fc_ok :: "fc_sys \<Rightarrow> bool" where
  "fc_ok s \<longleftrightarrow> settings_in_range (fc_settings s) \<and> tfc_ok (fc_transport s) \<and> finite (dom (fc_streams s)) \<and>
     (\<forall>i x. fc_streams s i = Some x \<longrightarrow> sfc_ok x) \<and> stream_total_over (fc_transport s) = total_over (fc_streams s)"

lemma over_nonneg: "0 \<le> over x"
  by (auto simp: over_def split: option.split)

lemma total_over_nonneg: "0 \<le> total_over m"
  unfolding total_over_def by (intro sum_nonneg over_nonneg)

lemma total_over_upd: "finite (dom m) \<Longrightarrow> total_over (m(i := y)) = total_over m - over (m i) + over y"
proof -
  assume f: "finite (dom m)"
  have a: "total_over n = (\<Sum>j \<in> insert i (dom n). over (n j))" if "finite (dom n)" for n
    using that by (auto simp: total_over_def over_def sum.insert_if dom_def)
  have d: "insert i (dom (m(i := y))) = insert i (dom m)" by (auto simp: dom_def)
  have "total_over (m(i := y)) = (\<Sum>j \<in> insert i (dom m). over ((m(i := y)) j))"
    using a [of "m(i := y)"] f d by (metis (no_types, lifting) finite_insert)
  also have "\<dots> = over y + (\<Sum>j \<in> dom m - {i}. over (m j))"
    using f by (subst sum.insert_remove) (auto intro!: sum.cong)
  also have "(\<Sum>j \<in> dom m - {i}. over (m j)) = total_over m - over (m i)"
    using a [OF f] f by (subst (asm) sum.insert_remove) auto
  finally show ?thesis unfolding fun_upd_def by simp
qed

lemma cast_u32_id: "0 \<le> x \<Longrightarrow> x < 2 ^ 32 \<Longrightarrow> cast_u32 x = x"
  by (simp add: cast_u32_def)

lemma init_window_nonneg: "0 \<le> init_window st w"
  by (simp add: init_window_def)

lemma target_window_ok:
  assumes "tfc_ok t"
  shows "target_window t = min (2 ^ 31 - 1) (stream_total_over t + target_initial_window_size t)"
    and "kMinInitialWindowSize \<le> target_window t" and "target_window t \<le> 2 ^ 31 - 1"
  using assms by (auto simp: target_window_def tfc_ok_def cast_u32_def fc_consts min_def)

lemma tfc_MaybeSendUpdate_ok:
  assumes "tfc_ok t" "tfc_MaybeSendUpdate w t = (n, t')"
  shows "0 \<le> n" "n \<le> kMaxWindowUpdateSize" "t' = t\<lparr>announced_window := announced_window t + n\<rparr>"
    and "n = (if w \<or> announced_window t \<le> target_window t div 2 then max 0 (target_window t - announced_window t) else 0)"
proof -
  have c: "cast_u32 (target_window t) = target_window t"
    using target_window_ok [OF assms(1)] by (intro cast_u32_id) (auto simp: fc_consts)
  have cl: "cast_u32 (Clamp (target_window t - announced_window t) 0 kMaxWindowUpdateSize)
      = max 0 (target_window t - announced_window t)"
    using target_window_ok [OF assms(1)] assms(1)
    by (auto simp: Clamp_def cast_u32_def fc_consts tfc_ok_def max_def)
  show e: "n = (if w \<or> announced_window t \<le> target_window t div 2 then max 0 (target_window t - announced_window t) else 0)"
    using assms(2) unfolding tfc_MaybeSendUpdate_def c Let_def cl by (auto split: if_splits)
  show "0 \<le> n" "n \<le> kMaxWindowUpdateSize"
    using target_window_ok [OF assms(1)] assms(1) by (auto simp: e tfc_ok_def fc_consts)
  show "t' = t\<lparr>announced_window := announced_window t + n\<rparr>"
    using assms(2) unfolding tfc_MaybeSendUpdate_def c Let_def cl by (auto split: if_splits)
qed

lemma UpdateAnnouncedWindowDelta_eq:
  "UpdateAnnouncedWindowDelta d (s, t) =
     (s\<lparr>announced_window_delta := announced_window_delta s + d\<rparr>,
      t\<lparr>stream_total_over := stream_total_over t - max 0 (announced_window_delta s) + max 0 (announced_window_delta s + d)\<rparr>)"
  by (auto simp: UpdateAnnouncedWindowDelta_def PreUpdateAnnouncedWindowOverIncomingWindow_def
      PostUpdateAnnouncedWindowOverIncomingWindow_def Let_def)

text \<open>\<open>RecvData\<close> on every branch.\<close>

lemma sfc_RecvData_eq:
  "sfc_RecvData st n (s, t) =
     (if n > announced_window t then (Some (OverflowsLocalWindow n (announced_window t)), s, t)
      else if n > announced_window_delta s + init_window st GRPC_ACKED_SETTINGS \<and>
              n > announced_window_delta s + init_window st GRPC_SENT_SETTINGS
      then (Some (OverflowsLocalWindow n (announced_window_delta s + init_window st GRPC_ACKED_SETTINGS)), s, t)
      else (None, s\<lparr>announced_window_delta := announced_window_delta s - n, local_window_delta := local_window_delta s - n\<rparr>,
            t\<lparr>stream_total_over := stream_total_over t - max 0 (announced_window_delta s) + max 0 (announced_window_delta s - n),
              announced_window := announced_window t - n\<rparr>))"
  by (auto simp: sfc_RecvData_def ValidateRecvData_def UpdateAnnouncedWindowDelta_eq CommitRecvData_def Let_def)

lemma max_recv_bytes_bounds: "0 \<le> max_recv_bytes h a" "max_recv_bytes h a \<le> kMaxWindowDelta"
  by (auto simp: max_recv_bytes_def fc_consts cast_u32_def Let_def)

lemma IncomingByteStreamUpdate_eq:
  assumes "sfc_ok s"
  shows "IncomingByteStreamUpdate h a s = s\<lparr>local_window_delta := max (local_window_delta s) (max_recv_bytes h a)\<rparr>"
  using assms max_recv_bytes_bounds [of h a]
  by (auto simp: IncomingByteStreamUpdate_def Let_def sfc_ok_def fc_consts cast_u32_id max_def)

lemma sfc_ok_pull [inv_intros]: "sfc_ok s \<Longrightarrow> sfc_ok (IncomingByteStreamUpdate h a s)"
  using max_recv_bytes_bounds [of h a] by (simp add: IncomingByteStreamUpdate_eq) (auto simp: sfc_ok_def)

lemma sfc_MaybeSendUpdate_eq:
  assumes "sfc_ok s" "sfc_MaybeSendUpdate c (s, t) = (n, s', t')"
  obtains s1 where "sfc_ok s1" "announced_window_delta s1 = announced_window_delta s"
    "n = min kMaxWindowUpdateSize (local_window_delta s1 - announced_window_delta s1)"
    "(s', t') = UpdateAnnouncedWindowDelta n (s1, t)" "local_window_delta s \<le> local_window_delta s1"
    "on_next c \<Longrightarrow> GRPC_HEADER_SIZE_IN_BYTES \<le> local_window_delta s1"
proof -
  define s1 where "s1 = keep_header_window c s"
  have ok: "sfc_ok s1" using assms(1) by (auto simp: s1_def keep_header_window_def intro: inv_intros)
  have b: "local_window_delta s1 - announced_window_delta s1 < 2 ^ 32" "announced_window_delta s1 \<le> local_window_delta s1"
    using ok by (auto simp: sfc_ok_def fc_consts)
  have m: "max_recv_bytes (nat 5) 0 = 5" by (simp add: max_recv_bytes_def fc_consts cast_u32_def)
  have h: "announced_window_delta s1 = announced_window_delta s" "local_window_delta s \<le> local_window_delta s1"
      "on_next c \<Longrightarrow> GRPC_HEADER_SIZE_IN_BYTES \<le> local_window_delta s1"
    using assms(1) m by (auto simp: s1_def keep_header_window_def IncomingByteStreamUpdate_eq GRPC_HEADER_SIZE_IN_BYTES_def)
  have u0: "UpdateAnnouncedWindowDelta 0 (s1, t) = (s1, t)"
    by (simp add: UpdateAnnouncedWindowDelta_eq)
  have cl: "cast_u32 (Clamp (local_window_delta s1 - announced_window_delta s1) 0 kMaxWindowUpdateSize)
      = min kMaxWindowUpdateSize (local_window_delta s1 - announced_window_delta s1)"
    using b by (auto simp: Clamp_def cast_u32_def fc_consts)
  have e: "(n, s', t') = (if local_window_delta s1 > announced_window_delta s1
      then (min kMaxWindowUpdateSize (local_window_delta s1 - announced_window_delta s1),
            UpdateAnnouncedWindowDelta (min kMaxWindowUpdateSize (local_window_delta s1 - announced_window_delta s1)) (s1, t))
      else (0, s1, t))"
    using assms(2) unfolding sfc_MaybeSendUpdate_def prod.case s1_def [symmetric] Let_def cl by simp
  show thesis
    by (rule that [OF ok h(1) _ _ h(2,3)]; use e b u0 in \<open>auto simp: fc_consts split: if_splits\<close>)
qed

lemma fc_ok_upd:
  assumes "fc_ok s" "\<And>x. y = Some x \<Longrightarrow> sfc_ok x"
    and "stream_total_over t' = stream_total_over (fc_transport s) - over (fc_streams s i) + over y"
    and "0 \<le> announced_window t'" "announced_window t' \<le> 2 ^ 31 - 1"
    and "target_initial_window_size t' = target_initial_window_size (fc_transport s)"
  shows "fc_ok (s\<lparr>fc_streams := (fc_streams s)(i := y), fc_transport := t'\<rparr>)"
  using assms total_over_upd [of "fc_streams s" i y] total_over_nonneg [of "(fc_streams s)(i := y)"]
  by (auto simp: fc_ok_def tfc_ok_def)

lemma fc_ok_transport:
  assumes "fc_ok s" "tfc_ok t'" "stream_total_over t' = stream_total_over (fc_transport s)"
  shows "fc_ok (s\<lparr>fc_transport := t'\<rparr>)"
  using assms by (auto simp: fc_ok_def)

lemma fc_ok_streams:
  assumes "fc_ok s" "sfc_ok x'" "over (Some x') = over (fc_streams s i)"
  shows "fc_ok (s\<lparr>fc_streams := (fc_streams s)(i \<mapsto> x')\<rparr>)"
proof -
  have "fc_ok (s\<lparr>fc_streams := (fc_streams s)(i := Some x'), fc_transport := fc_transport s\<rparr>)"
    using assms by (intro fc_ok_upd) (auto simp: fc_ok_def tfc_ok_def)
  then show ?thesis by simp
qed

lemma floor_Clamp:
  fixes x :: real and a b :: int
  assumes "a \<le> b"
  shows "a \<le> \<lfloor>Clamp x (of_int a) (of_int b)\<rfloor>" "\<lfloor>Clamp x (of_int a) (of_int b)\<rfloor> \<le> b"
proof -
  have "of_int a \<le> Clamp x (of_int a) (of_int b)" "Clamp x (of_int a) (of_int b) \<le> of_int b"
    using Clamp_bounds [of "of_int a :: real" "of_int b" x] assms by auto
  then show "a \<le> \<lfloor>Clamp x (of_int a) (of_int b)\<rfloor>" "\<lfloor>Clamp x (of_int a) (of_int b)\<rfloor> \<le> b"
    by (simp add: le_floor_iff, metis floor_mono floor_of_int)
qed

lemma SmoothLogBdp_frame:
  assumes "SmoothLogBdp now v t = (r, t')"
  obtains p where "t' = t\<lparr>last_pid_update := now, pid_ctl := p\<rparr>"
  using assms by (auto simp: SmoothLogBdp_def Let_def split: prod.splits)

lemma tfc_UpdateAction_sel [simp]:
  "initial_window_size (tfc_UpdateAction a t) = initial_window_size a"
  "max_frame_size (tfc_UpdateAction a t) = max_frame_size a"
  "send_initial_window_update (tfc_UpdateAction a t) = send_initial_window_update a"
  "send_max_frame_size_update (tfc_UpdateAction a t) = send_max_frame_size_update a"
  by (auto simp: tfc_UpdateAction_def)

lemma PeriodicUpdate_off:
  "\<not> enable_bdp_probe t \<Longrightarrow> PeriodicUpdate st mp now mocker t = (tfc_UpdateAction FlowControlAction_init t, t)"
  by (simp add: PeriodicUpdate_def)

lemma PeriodicUpdate_on:
  assumes "enable_bdp_probe t" "PeriodicUpdate st mp now mocker t = (a, t')"
  obtains p w f where "t' = t\<lparr>last_pid_update := now, pid_ctl := p, target_initial_window_size := w\<rparr>"
    "kMinInitialWindowSize \<le> w" "w \<le> kMaxInitialWindowSize" "initial_window_size a = w"
    "max_frame_size a = f" "16384 \<le> f" "f \<le> 16777215" "w \<le> f \<or> f = 16777215"
    "send_initial_window_update a = DeltaUrgency st w GRPC_CHTTP2_SETTINGS_INITIAL_WINDOW_SIZE"
    "send_max_frame_size_update a = DeltaUrgency st f GRPC_CHTTP2_SETTINGS_MAX_FRAME_SIZE"
proof -
  obtain sm t1 where s: "SmoothLogBdp now (TargetLogBdp mp (bdp_est t)) t = (sm, t1)" by fastforce
  obtain p where p: "t1 = t\<lparr>last_pid_update := now, pid_ctl := p\<rparr>" using SmoothLogBdp_frame [OF s] .
  then have bd: "bdp_est t1 = bdp_est t" by simp
  define tg where "tg = (case mocker of None \<Rightarrow> 2 powr sm | Some f \<Rightarrow> f (target_initial_window_size t1))"
  define w where "w = \<lfloor>Clamp tg (of_int kMinInitialWindowSize) (of_int kMaxInitialWindowSize)\<rfloor>"
  define f where "f = Clamp (max (\<lfloor>Clamp (bw_est (bdp_est t)) 0 2147483647\<rfloor> div 1000) w) 16384 (16777215 :: int)"
  have w: "kMinInitialWindowSize \<le> w" "w \<le> kMaxInitialWindowSize"
    unfolding w_def by (rule floor_Clamp; simp add: fc_consts)+
  have f: "16384 \<le> f" "f \<le> 16777215" "w \<le> f \<or> f = 16777215" by (auto simp: f_def Clamp_def)
  have cw: "cast_u32 w = w" "cast_u32 f = f" using w f by (auto simp: cast_u32_def fc_consts)
  have "PeriodicUpdate st mp now mocker t =
     (tfc_UpdateAction (set_send_max_frame_size_update (DeltaUrgency st f GRPC_CHTTP2_SETTINGS_MAX_FRAME_SIZE) (cast_u32 f)
        (set_send_initial_window_update (DeltaUrgency st w GRPC_CHTTP2_SETTINGS_INITIAL_WINDOW_SIZE) (cast_u32 w) FlowControlAction_init))
        (t1\<lparr>target_initial_window_size := w\<rparr>), t1\<lparr>target_initial_window_size := w\<rparr>)"
    using assms(1) by (simp add: PeriodicUpdate_def s tg_def w_def f_def Let_def bd)
  with assms(2) p w f that [where p = p and w = w and f = f] show thesis
    by (auto simp: set_send_max_frame_size_update_def set_send_initial_window_update_def cw)
qed

lemma PeriodicUpdate_tfc_ok:
  assumes "tfc_ok t" "PeriodicUpdate st mp now mocker t = (a, t')"
  shows "tfc_ok t' \<and> stream_total_over t' = stream_total_over t \<and> announced_window t' = announced_window t"
proof (cases "enable_bdp_probe t")
  case True
  obtain p w where "t' = t\<lparr>last_pid_update := now, pid_ctl := p, target_initial_window_size := w\<rparr>"
    "kMinInitialWindowSize \<le> w" "w \<le> kMaxInitialWindowSize"
    using PeriodicUpdate_on [OF True assms(2)] by metis
  with assms(1) show ?thesis by (simp add: tfc_ok_def)
next
  case False
  then show ?thesis using assms by (simp add: PeriodicUpdate_off)
qed

lemma fc_step_ok:
  assumes "fc_step s e s'" "fc_ok s"
  shows "fc_ok s'"
  using assms
proof (induction rule: fc_step.induct)
  case (fc_settings_change st s) then show ?case by (auto simp: fc_ok_def)
next
  case (fc_create s i)
  then show ?case by (intro fc_ok_streams) (auto simp: sfc_ok_def StreamFlowControl_init_def over_def fc_consts)
next
  case (fc_destroy s i x)
  then show ?case
    by (intro fc_ok_upd) (auto simp: StreamFlowControl_destroy_def PreUpdateAnnouncedWindowOverIncomingWindow_def over_def
        fc_ok_def tfc_ok_def)
next
  case (fc_recv s i x n x' t')
  then have "0 \<le> announced_window (fc_transport s)" "announced_window (fc_transport s) \<le> 2 ^ 31 - 1" "sfc_ok x"
      "settings_in_range (fc_settings s)"
    by (auto simp: fc_ok_def tfc_ok_def)
  with fc_recv show ?case
    by (intro fc_ok_upd) (auto simp: sfc_RecvData_eq over_def sfc_ok_def settings_in_range_def split: if_splits)
next
  case (fc_recv_refused s i x n e x' t')
  then have "x' = x" "t' = fc_transport s" by (auto simp: sfc_RecvData_eq split: if_splits)
  with fc_recv_refused show ?case by (simp add: fun_upd_idem)
next
  case (fc_recv_orphan n s t')
  then show ?case
    by (intro fc_ok_transport) (auto simp: tfc_RecvData_def ValidateRecvData_def CommitRecvData_def fc_ok_def tfc_ok_def split: if_splits)
next
  case (fc_transport_update w s n t')
  then have "tfc_ok (fc_transport s)" by (simp add: fc_ok_def)
  note u = tfc_MaybeSendUpdate_ok [OF this fc_transport_update(1)] target_window_ok [OF this]
  show ?case using fc_transport_update(2) u by (intro fc_ok_transport) (auto simp: fc_ok_def tfc_ok_def max_def split: if_splits)
next
  case (fc_stream_update s i x c n x' t')
  then have "sfc_ok x" by (auto simp: fc_ok_def)
  from sfc_MaybeSendUpdate_eq [OF this fc_stream_update(2)] obtain s1 where s1: "sfc_ok s1"
    "announced_window_delta s1 = announced_window_delta x" "n = min kMaxWindowUpdateSize (local_window_delta s1 - announced_window_delta s1)"
    "(x', t') = UpdateAnnouncedWindowDelta n (s1, fc_transport s)" by metis
  then have "0 \<le> n" "announced_window_delta s1 + n \<le> local_window_delta s1" by (auto simp: sfc_ok_def fc_consts)
  with s1 have "sfc_ok x'" by (auto simp: UpdateAnnouncedWindowDelta_eq sfc_ok_def)
  with s1 fc_stream_update show ?case
    by (intro fc_ok_upd) (auto simp: UpdateAnnouncedWindowDelta_eq over_def fc_ok_def tfc_ok_def)
next
  case (fc_pull s i x hint hv)
  then have ok: "sfc_ok x" by (auto simp: fc_ok_def)
  with fc_pull show ?case
    by (intro fc_ok_streams) (auto simp: over_def IncomingByteStreamUpdate_eq intro: sfc_ok_pull [OF ok, unfolded IncomingByteStreamUpdate_eq [OF ok]])
next
  case (fc_sent s i x n x' t')
  then show ?case by (intro fc_ok_upd) (auto simp: SentData_def StreamSentData_def over_def fc_ok_def tfc_ok_def sfc_ok_def)
next
  case (fc_peer_update s k)
  then show ?case by (intro fc_ok_transport) (auto simp: tfc_RecvUpdate_def fc_ok_def tfc_ok_def)
next
  case (fc_peer_stream_update s i x k)
  then show ?case by (intro fc_ok_streams) (auto simp: sfc_RecvUpdate_def over_def fc_ok_def sfc_ok_def)
next
  case (fc_periodic s mp now mocker a t')
  then show ?case using PeriodicUpdate_tfc_ok by (intro fc_ok_transport) (auto simp: fc_ok_def)
qed

lemma fc_reach_ok: "fc_reach es s \<Longrightarrow> fc_ok s"
proof (induction rule: fc_reach.induct)
  case (fc_init st probe mp now)
  then show ?case by (auto simp: fc_ok_def tfc_ok_def TransportFlowControl_init_def total_over_def fc_consts)
next
  case fc_more then show ?case using fc_step_ok by blast
qed

text \<open>The credit that a trace of wire events gives the peer on the connection.\<close>

fun credit :: "fc_event \<Rightarrow> int" where
  "credit (EvData n) = - n"
| "credit (EvTransportUpdate n) = n"
| "credit _ = 0"

lemma fc_step_credit:
  "fc_step s e s' \<Longrightarrow> fc_ok s \<Longrightarrow>
   announced_window (fc_transport s') = announced_window (fc_transport s) + credit e"
proof (induction rule: fc_step.induct)
  case (fc_transport_update w s n t')
  then have "tfc_ok (fc_transport s)" by (simp add: fc_ok_def)
  from tfc_MaybeSendUpdate_ok(3) [OF this fc_transport_update(1)] show ?case by simp
next
  case (fc_stream_update s i x c n x' t')
  then have "sfc_ok x" by (auto simp: fc_ok_def)
  from sfc_MaybeSendUpdate_eq [OF this fc_stream_update(2)] obtain s1
    where "(x', t') = UpdateAnnouncedWindowDelta n (s1, fc_transport s)" by metis
  then show ?case by (simp add: UpdateAnnouncedWindowDelta_eq)
next
  case (fc_periodic s mp now mocker a t')
  then show ?case using PeriodicUpdate_tfc_ok by (auto simp: fc_ok_def)
next
  case (fc_recv s i x n x' t') then show ?case by (auto simp: sfc_RecvData_eq split: if_splits)
next
  case (fc_recv_refused s i x n e x' t') then show ?case by (auto simp: sfc_RecvData_eq split: if_splits)
next
  case (fc_recv_orphan n s t')
  then show ?case by (auto simp: tfc_RecvData_def ValidateRecvData_def CommitRecvData_def split: if_splits)
qed (auto simp: StreamFlowControl_destroy_def PreUpdateAnnouncedWindowOverIncomingWindow_def SentData_def StreamSentData_def
    tfc_RecvUpdate_def)

lemma fc_reach_credit:
  "fc_reach es s \<Longrightarrow> announced_window (fc_transport s) = kDefaultWindow + sum_list (map credit es)"
proof (induction rule: fc_reach.induct)
  case fc_init then show ?case by (simp add: TransportFlowControl_init_def)
next
  case (fc_more es s e s')
  then show ?case using fc_step_credit [OF fc_more(2) fc_reach_ok] by simp
qed

section \<open>Properties\<close>

text \<open>C2: Flow-control accounting on every reachable state of a transport with any number of streams, under any interleaving of data, window
  updates, reads, settings changes and periodic updates.  The transport's announced window is exactly the default 65535 plus the transport WINDOW_UPDATEs
  sent minus the DATA accepted; it stays within \<open>0 .. 2^31-1\<close>; the total that \<open>target_window\<close> adds is exactly the sum of the
  positive announced deltas of the live streams, so the target is the untruncated \<open>min(2^31-1, total + initial)\<close>; and every stream keeps
  \<open>-(2^31-1) \<le> announced \<le> local \<le> kMaxWindowDelta\<close>.\<close>

theorem flow_control_accounting:
  assumes "fc_reach es s"
  shows "announced_window (fc_transport s) = kDefaultWindow + sum_list (map credit es) \<and>
    0 \<le> announced_window (fc_transport s) \<and> announced_window (fc_transport s) \<le> 2 ^ 31 - 1 \<and>
    stream_total_over (fc_transport s) = (\<Sum>i \<in> dom (fc_streams s). max 0 (announced_window_delta (the (fc_streams s i)))) \<and>
    target_window (fc_transport s)
      = min (2 ^ 31 - 1) (stream_total_over (fc_transport s) + target_initial_window_size (fc_transport s)) \<and>
    (\<forall>i x. fc_streams s i = Some x \<longrightarrow>
       - (2 ^ 31 - 1) \<le> announced_window_delta x \<and> announced_window_delta x \<le> local_window_delta x \<and>
       local_window_delta x \<le> kMaxWindowDelta)"
proof -
  have ok: "fc_ok s" by (rule fc_reach_ok [OF assms])
  have "total_over (fc_streams s) = (\<Sum>i \<in> dom (fc_streams s). max 0 (announced_window_delta (the (fc_streams s i))))"
    unfolding total_over_def by (rule sum.cong) (auto simp: over_def)
  with ok show ?thesis
    using fc_reach_credit [OF assms] target_window_ok(1) [of "fc_transport s"]
    by (simp add: fc_ok_def tfc_ok_def sfc_ok_def)
qed

definition fc_demo_settings :: settings_table where
  "fc_demo_settings = (\<lambda>_ _. 65535)"

definition fc_demo :: fc_sys where
  "fc_demo = \<lparr>fc_settings = fc_demo_settings, fc_transport = TransportFlowControl_init False 0 0, fc_streams = Map.empty\<rparr>"

lemma fc_demo_in_range: "settings_in_range fc_demo_settings"
  by (simp add: settings_in_range_def init_window_def fc_demo_settings_def)

theorem flow_control_accounting_witness:
  "\<exists>s. fc_reach [EvInternal, EvData 1000] s \<and> announced_window (fc_transport s) = 64535"
proof -
  let ?s1 = "fc_demo\<lparr>fc_streams := (fc_streams fc_demo)(1 \<mapsto> StreamFlowControl_init)\<rparr>"
  let ?r = "sfc_RecvData (fc_settings ?s1) 1000 (StreamFlowControl_init, fc_transport ?s1)"
  have r: "?r = (None, fst (snd ?r), snd (snd ?r))"
    by (simp add: sfc_RecvData_eq fc_demo_def TransportFlowControl_init_def StreamFlowControl_init_def init_window_def
        fc_demo_settings_def fc_consts)
  have "fc_reach [] fc_demo" unfolding fc_demo_def by (rule fc_init [OF fc_demo_in_range])
  then have "fc_reach ([] @ [EvInternal]) ?s1" by (rule fc_more) (rule fc_create, simp add: fc_demo_def)
  then have "fc_reach (([] @ [EvInternal]) @ [EvData 1000])
      (?s1\<lparr>fc_streams := (fc_streams ?s1)(1 \<mapsto> fst (snd ?r)), fc_transport := snd (snd ?r)\<rparr>)"
    by (rule fc_more) (rule fc_recv [OF _ _ r], simp_all)
  then obtain s where s: "fc_reach [EvInternal, EvData 1000] s" by auto
  with flow_control_accounting [OF s] show ?thesis by (auto simp: fc_consts)
qed

text \<open>C3: A frame is refused exactly when it exceeds the connection window or exceeds the stream's window under both the acknowledged and the
  sent initial window size; a refused frame changes nothing; an accepted frame lowers the connection window, the announced delta and the
  local delta by its size.  In particular a peer that respects the windows announced to it is never disconnected.\<close>

theorem recv_data_exact:
  "\<exists>err s' t'. sfc_RecvData st n (s, t) = (err, s', t') \<and>
    (err = None \<longleftrightarrow> n \<le> announced_window t \<and>
       n \<le> announced_window_delta s + max (init_window st GRPC_ACKED_SETTINGS) (init_window st GRPC_SENT_SETTINGS)) \<and>
    (case err of Some e \<Rightarrow> s' = s \<and> t' = t
     | None \<Rightarrow> announced_window t' = announced_window t - n \<and> announced_window_delta s' = announced_window_delta s - n \<and>
         local_window_delta s' = local_window_delta s - n \<and> remote_window t' = remote_window t \<and>
         remote_window_delta s' = remote_window_delta s)"
  by (auto simp: sfc_RecvData_eq)



text \<open>C9: What the periodic update asks the transport to advertise is legal: the initial window stays in \<open>kMinInitialWindowSize .. kMaxInitialWindowSize\<close>, the frame size in
  the range of the MAX_FRAME_SIZE setting, both hold whatever the memory pressure, clock, estimator state or test hook, and both lie within the bounds of the settings
  parameter table, so the values survive the settings validation of a peer.  Neither changes the announced window.\<close>

theorem periodic_update_legal:
  assumes "enable_bdp_probe t" "PeriodicUpdate st mp now mocker t = (a, t')"
  shows "kMinInitialWindowSize \<le> initial_window_size a \<and> initial_window_size a \<le> kMaxInitialWindowSize \<and>
    target_initial_window_size t' = initial_window_size a \<and> announced_window t' = announced_window t \<and>
    (let p = grpc_chttp2_settings_parameters ! setting_index GRPC_CHTTP2_SETTINGS_INITIAL_WINDOW_SIZE in
       uint (min_value p) \<le> initial_window_size a \<and> initial_window_size a \<le> uint (max_value p)) \<and>
    (let p = grpc_chttp2_settings_parameters ! setting_index GRPC_CHTTP2_SETTINGS_MAX_FRAME_SIZE in
       uint (min_value p) \<le> max_frame_size a \<and> max_frame_size a \<le> uint (max_value p))"
  by (rule PeriodicUpdate_on [OF assms])
    (auto simp: grpc_chttp2_settings_parameters_def mk_setting_parameters_def fc_consts)

theorem periodic_update_legal_witness:
  "\<exists>a t'. PeriodicUpdate fc_demo_settings 0 0 (Some (\<lambda>_. 1)) (TransportFlowControl_init True 0 0) = (a, t') \<and>
     kMinInitialWindowSize \<le> initial_window_size a"
proof -
  obtain a t' where u: "PeriodicUpdate fc_demo_settings 0 0 (Some (\<lambda>_. 1)) (TransportFlowControl_init True 0 0) = (a, t')"
    by fastforce
  have "enable_bdp_probe (TransportFlowControl_init True 0 0)" by (simp add: TransportFlowControl_init_def)
  from periodic_update_legal [OF this u] u show ?thesis by blast
qed

text \<open>C10: As long as the advertised initial window is at most \<open>2^31 - 1 - kMaxWindowDelta\<close>, which every value of the periodic update is, the debug
  assertion of \<open>IncomingByteStreamUpdate\<close> never fires and the stream window announced to the peer (initial window plus announced delta)
  never exceeds the protocol's \<open>2^31 - 1\<close>.\<close>

theorem stream_window_protocol_limit:
  assumes "fc_reach es s" "fc_streams s i = Some x"
    and "init_window (fc_settings s) GRPC_SENT_SETTINGS \<le> 2 ^ 31 - 1 - kMaxWindowDelta"
  shows "IncomingByteStreamUpdate_assert (fc_settings s) hint have_already \<and>
    init_window (fc_settings s) GRPC_SENT_SETTINGS + announced_window_delta x \<le> 2 ^ 31 - 1 \<and>
    kMaxInitialWindowSize \<le> 2 ^ 31 - 1 - kMaxWindowDelta"
proof -
  have "sfc_ok x" using fc_reach_ok [OF assms(1)] assms(2) by (auto simp: fc_ok_def)
  then show ?thesis using assms(3) max_recv_bytes_bounds [of hint have_already]
    by (simp add: sfc_ok_def IncomingByteStreamUpdate_assert_def fc_consts)
qed

theorem stream_window_protocol_limit_witness:
  "IncomingByteStreamUpdate_assert fc_demo_settings 7 0"
proof -
  have "fc_reach [] fc_demo" unfolding fc_demo_def by (rule fc_init [OF fc_demo_in_range])
  then have "fc_reach ([] @ [EvInternal]) (fc_demo\<lparr>fc_streams := (fc_streams fc_demo)(1 \<mapsto> StreamFlowControl_init)\<rparr>)"
    by (rule fc_more) (rule fc_create, simp add: fc_demo_def)
  from stream_window_protocol_limit [OF this, of 1 StreamFlowControl_init 7 0] show ?thesis
    by (simp add: fc_demo_def init_window_def fc_demo_settings_def fc_consts)
qed

text \<open>The bound is needed: the INITIAL_WINDOW_SIZE setting itself may be as large as \<open>2^31 - 1\<close>, and then the debug assertion fires on any read.\<close>

lemma pull_assert_can_fail:
  "settings_in_range (\<lambda>_ _. 2147483647) \<and> \<not> IncomingByteStreamUpdate_assert (\<lambda>_ _. 2147483647) 1 0"
  by (simp add: settings_in_range_def init_window_def IncomingByteStreamUpdate_assert_def max_recv_bytes_def fc_consts
      cast_u32_def)

end
