(* ===== verification/Frame_Codec.thy ===== *)
theory Frame_Codec
  imports Flow_Control
begin

text \<open>
  What the HTTP/2 frame parsers of \<^verbatim>\<open>src/core/ext/transport/chttp2/transport/\<close> share: the frame type and flag constants of
  \<^verbatim>\<open>frame.h\<close>, big-endian reading and writing of words, the part of \<open>grpc_chttp2_transport\<close> and \<open>grpc_chttp2_stream\<close> that the
  control-frame parsers touch, and the delivery of a frame in slices.  A call into a part of the transport that is not modelled is
  recorded, in order, in the field \<open>t_calls\<close>.  The locale \<open>resumable\<close> states that a parser can be suspended at any byte; under it
  the way a frame is cut into slices does not matter.
\<close>

section \<open>Frame constants and byte order\<close>

definition GRPC_CHTTP2_FRAME_DATA :: u8 where "GRPC_CHTTP2_FRAME_DATA = 0"
definition GRPC_CHTTP2_FRAME_HEADER :: u8 where "GRPC_CHTTP2_FRAME_HEADER = 1"
definition GRPC_CHTTP2_FRAME_CONTINUATION :: u8 where "GRPC_CHTTP2_FRAME_CONTINUATION = 9"
definition GRPC_CHTTP2_FRAME_RST_STREAM :: u8 where "GRPC_CHTTP2_FRAME_RST_STREAM = 3"
definition GRPC_CHTTP2_FRAME_SETTINGS :: u8 where "GRPC_CHTTP2_FRAME_SETTINGS = 4"
definition GRPC_CHTTP2_FRAME_PING :: u8 where "GRPC_CHTTP2_FRAME_PING = 6"
definition GRPC_CHTTP2_FRAME_GOAWAY :: u8 where "GRPC_CHTTP2_FRAME_GOAWAY = 7"
definition GRPC_CHTTP2_FRAME_WINDOW_UPDATE :: u8 where "GRPC_CHTTP2_FRAME_WINDOW_UPDATE = 8"
definition GRPC_CHTTP2_DATA_FLAG_END_STREAM :: u8 where "GRPC_CHTTP2_DATA_FLAG_END_STREAM = 1"
definition GRPC_CHTTP2_FLAG_ACK :: u8 where "GRPC_CHTTP2_FLAG_ACK = 1"
definition GRPC_CHTTP2_DATA_FLAG_END_HEADERS :: u8 where "GRPC_CHTTP2_DATA_FLAG_END_HEADERS = 4"
definition GRPC_CHTTP2_DATA_FLAG_PADDED :: u8 where "GRPC_CHTTP2_DATA_FLAG_PADDED = 8"
definition GRPC_CHTTP2_FLAG_HAS_PRIORITY :: u8 where "GRPC_CHTTP2_FLAG_HAS_PRIORITY = 0x20"

lemmas frame_consts = GRPC_CHTTP2_FRAME_DATA_def GRPC_CHTTP2_FRAME_HEADER_def GRPC_CHTTP2_FRAME_CONTINUATION_def
  GRPC_CHTTP2_FRAME_RST_STREAM_def GRPC_CHTTP2_FRAME_SETTINGS_def GRPC_CHTTP2_FRAME_PING_def GRPC_CHTTP2_FRAME_GOAWAY_def
  GRPC_CHTTP2_FRAME_WINDOW_UPDATE_def GRPC_CHTTP2_DATA_FLAG_END_STREAM_def GRPC_CHTTP2_FLAG_ACK_def
  GRPC_CHTTP2_DATA_FLAG_END_HEADERS_def GRPC_CHTTP2_DATA_FLAG_PADDED_def GRPC_CHTTP2_FLAG_HAS_PRIORITY_def

definition be16 :: "u16 \<Rightarrow> u8 list" where
  "be16 w = [ucast (drop_bit 8 w), ucast w]"

definition be24 :: "u32 \<Rightarrow> u8 list" where
  "be24 w = [ucast (drop_bit 16 w), ucast (drop_bit 8 w), ucast w]"

definition be32 :: "u32 \<Rightarrow> u8 list" where
  "be32 w = [ucast (drop_bit 24 w), ucast (drop_bit 16 w), ucast (drop_bit 8 w), ucast w]"

definition be64 :: "u64 \<Rightarrow> u8 list" where
  "be64 w = [ucast (drop_bit 56 w), ucast (drop_bit 48 w), ucast (drop_bit 40 w), ucast (drop_bit 32 w),
             ucast (drop_bit 24 w), ucast (drop_bit 16 w), ucast (drop_bit 8 w), ucast w]"

definition rd32 :: "u8 \<Rightarrow> u8 \<Rightarrow> u8 \<Rightarrow> u8 \<Rightarrow> u32" where
  "rd32 a b c d = push_bit 24 (ucast a) OR push_bit 16 (ucast b) OR push_bit 8 (ucast c) OR ucast d"

lemma length_be [simp]: "length (be16 v) = 2" "length (be24 w) = 3" "length (be32 w) = 4" "length (be64 x) = 8"
  by (simp_all add: be16_def be24_def be32_def be64_def)

lemma bit_u8_imp: "bit (b :: u8) n \<Longrightarrow> n < 8"
  using bit_imp_le_length [of b n] by simp

lemma bit_word_beyond [simp]: "LENGTH('a) \<le> n \<Longrightarrow> bit (w :: 'a::len word) n = False"
  by (meson bit_imp_le_length not_le)

text \<open>Byte \<open>k div 8\<close> of a word, put back in its place.\<close>

lemma bit_shifted_byte:
  "bit (push_bit k (ucast (ucast (drop_bit k w) :: u8)) :: 'a::len word) n \<longleftrightarrow> k \<le> n \<and> n < k + 8 \<and> bit w n"
  for w :: "'a::len word"
  by (cases "n < LENGTH('a)") (auto simp: bit_push_bit_iff bit_ucast_iff bit_drop_bit_eq)

lemma bit_low_byte: "bit (ucast (ucast w :: u8) :: 'a::len word) n \<longleftrightarrow> n < 8 \<and> bit w n"
  for w :: "'a::len word"
  using bit_shifted_byte [of 0 w n] by simp

lemmas byte_simps = bit_or_iff bit_shifted_byte bit_low_byte

lemma rd32_be32: "rd32 (ucast (drop_bit 24 w)) (ucast (drop_bit 16 w)) (ucast (drop_bit 8 w)) (ucast w) = w"
  by (rule bit_word_eqI) (auto simp: rd32_def byte_simps)

lemma rd64_be64:
  "push_bit 56 (ucast (ucast (drop_bit 56 w) :: u8)) OR (push_bit 48 (ucast (ucast (drop_bit 48 w) :: u8)) OR
   (push_bit 40 (ucast (ucast (drop_bit 40 w) :: u8)) OR (push_bit 32 (ucast (ucast (drop_bit 32 w) :: u8)) OR
   (push_bit 24 (ucast (ucast (drop_bit 24 w) :: u8)) OR (push_bit 16 (ucast (ucast (drop_bit 16 w) :: u8)) OR
   (push_bit 8 (ucast (ucast (drop_bit 8 w) :: u8)) OR ucast (ucast w :: u8))))))) = (w :: u64)"
  by (rule bit_word_eqI) (auto simp: byte_simps)

section \<open>Transport and stream state of the control frames\<close>

datatype t_call =
  InitiateWrite string
| RunInflightPings
| SendGoaway http2_error_code string
| CloseTransport string
| MarkStreamClosed "u32 option"
| AddIncomingGoaway u32 u32 "u8 list"
| NotifyOnReceiveSettings
| RemoveStalledByStream

record chttp2_stream =
  s_fc :: sfc
  s_framing_bytes :: nat
  s_trailing_metadata_empty :: bool
  s_stalled_by_stream :: bool

record chttp2_transport =
  is_client :: bool
  t_settings :: settings_table
  t_fc :: tfc
  flow_control_enabled :: bool
  incoming_stream_id :: u32
  incoming_stream :: "chttp2_stream option"
  stream_map_size :: nat
  stream_remote_deltas :: "int list"
  keepalive_permit_without_calls :: int
  last_ping_recv_time :: int
  ping_strikes :: int
  max_ping_strikes :: int
  min_recv_ping_interval_without_data :: int
  inflight_id :: u64
  next_pings_empty :: bool
  disable_ping_ack :: bool
  ping_acks :: "u64 list"
  ping_ack_capacity :: nat
  num_pending_induced_frames :: nat
  last_new_stream_id :: u32
  initial_window_update :: int
  window_check :: bool
  notify_on_receive_settings :: bool
  qbuf :: "u8 list list"
  t_calls :: "t_call list"

definition t_call_out :: "t_call \<Rightarrow> chttp2_transport \<Rightarrow> chttp2_transport" where
  "t_call_out c t = t\<lparr>t_calls := t_calls t @ [c]\<rparr>"

text \<open>A server transport with no streams, for concrete evaluations.\<close>

definition demo_transport :: chttp2_transport where
  "demo_transport =
     \<lparr>is_client = False, t_settings = fc_demo_settings, t_fc = TransportFlowControl_init False 0 0, flow_control_enabled = True,
      incoming_stream_id = 0, incoming_stream = None, stream_map_size = 0, stream_remote_deltas = [],
      keepalive_permit_without_calls = 0, last_ping_recv_time = 0, ping_strikes = 0, max_ping_strikes = 2,
      min_recv_ping_interval_without_data = 300000, inflight_id = 0, next_pings_empty = True, disable_ping_ack = False,
      ping_acks = [], ping_ack_capacity = 0, num_pending_induced_frames = 0, last_new_stream_id = 0,
      initial_window_update = 0, window_check = False, notify_on_receive_settings = False, qbuf = [], t_calls = []\<rparr>"

section \<open>Delivery in slices\<close>

text \<open>A parser takes a slice and the \<open>is_last\<close> flag; it may fail an assertion (\<open>None\<close>) or report an error.\<close>

type_synonym ('e, 's) parse_fn = "u8 list \<Rightarrow> bool \<Rightarrow> 's \<Rightarrow> ('e option \<times> 's) crashable"

fun feed_slices :: "('e, 's) parse_fn \<Rightarrow> u8 list list \<Rightarrow> 's \<Rightarrow> ('e option \<times> 's) crashable" where
  "feed_slices parse [] s = Some (None, s)"
| "feed_slices parse (x # xs) s =
     (case parse x (xs = []) s of
        None \<Rightarrow> None
      | Some (Some e, s') \<Rightarrow> Some (Some e, s')
      | Some (None, s') \<Rightarrow> feed_slices parse xs s')"

locale resumable =
  fixes parse :: "('e, 's) parse_fn"
    and fits :: "nat \<Rightarrow> 's \<Rightarrow> bool"
  assumes parse_split: "xs \<noteq> [] \<Longrightarrow> ys \<noteq> [] \<Longrightarrow> fits (length xs + length ys) s \<Longrightarrow>
      parse (xs @ ys) True s =
        (case parse xs False s of
           None \<Rightarrow> None | Some (Some e, s') \<Rightarrow> Some (Some e, s') | Some (None, s') \<Rightarrow> parse ys True s')"
    and fits_after: "xs \<noteq> [] \<Longrightarrow> 0 < m \<Longrightarrow> fits (length xs + m) s \<Longrightarrow> parse xs False s = Some (None, s') \<Longrightarrow> fits m s'"
begin

text \<open>With \<open>fits n s\<close> saying that \<open>n\<close> bytes of the frame are still to come, delivery in slices is delivery at once.\<close>

lemma feed_concat:
  "xss \<noteq> [] \<Longrightarrow> list_all (\<lambda>x. x \<noteq> []) xss \<Longrightarrow> fits (length (concat xss)) s \<Longrightarrow>
   feed_slices parse xss s = parse (concat xss) True s"
proof (induction xss arbitrary: s)
  case (Cons x xss)
  show ?case
  proof (cases "xss = []")
    case True
    then show ?thesis by (auto split: option.split)
  next
    case False
    then obtain y ys where "xss = y # ys" by (cases xss) auto
    with Cons.prems have ne: "x \<noteq> []" "concat xss \<noteq> []" by auto
    have len: "fits (length x + length (concat xss)) s" using Cons.prems by simp
    note sp = parse_split [OF ne len]
    have "feed_slices parse xss s' = parse (concat xss) True s'" if "parse x False s = Some (None, s')" for s'
      using Cons.IH [OF False] Cons.prems(2) fits_after [OF ne(1) _ len that] ne(2) by simp
    then show ?thesis using sp False by (auto split: option.split)
  qed
qed simp

end

section \<open>Fixed-size payloads\<close>

text \<open>The loop \<open>while (p->byte != N && cur != end)\<close> of the fixed-size frames: it absorbs bytes until \<open>full\<close> and
  returns what is left of the slice.\<close>

fun absorb_loop :: "('s \<Rightarrow> bool) \<Rightarrow> (u8 \<Rightarrow> 's \<Rightarrow> 's) \<Rightarrow> u8 list \<Rightarrow> 's \<Rightarrow> 's \<times> u8 list" where
  "absorb_loop full absorb [] p = (p, [])"
| "absorb_loop full absorb (b # bs) p = (if full p then (p, b # bs) else absorb_loop full absorb bs (absorb b p))"

lemma absorb_loop_count:
  assumes "\<And>b p. byte (absorb b p) = Suc (byte p)"
  shows "byte p + length xs \<le> n \<Longrightarrow>
    absorb_loop (\<lambda>p. byte p = n) absorb xs p = (fold absorb xs p, []) \<and> byte (fold absorb xs p) = byte p + length xs"
  using assms by (induction xs arbitrary: p) auto

text \<open>A fixed-size frame parser absorbs its payload and finishes when it has \<open>n\<close> bytes; every such parser is resumable.\<close>

locale counted_frame =
  fixes n :: nat
    and byte :: "'p \<Rightarrow> nat"
    and absorb :: "u8 \<Rightarrow> 'p \<Rightarrow> 'p"
    and parse :: "('e, 'p \<times> 't) parse_fn"
    and finish :: "bool \<Rightarrow> 'p \<Rightarrow> 't \<Rightarrow> ('e option \<times> 'p \<times> 't) crashable"
  assumes byte_absorb: "byte (absorb b p) = Suc (byte p)"
    and parse_eq: "byte p + length xs \<le> n \<Longrightarrow>
      parse xs lst (p, t) =
        (if byte p + length xs = n then finish lst (fold absorb xs p) t else Some (None, fold absorb xs p, t))"
begin

lemma byte_fold: "byte (fold absorb xs p) = byte p + length xs"
  using byte_absorb by (induction xs arbitrary: p) auto

lemma parse_whole: "byte p = 0 \<Longrightarrow> length xs = n \<Longrightarrow> parse xs True (p, t) = finish True (fold absorb xs p) t"
  using parse_eq [of p xs] by simp

end

sublocale counted_frame \<subseteq> resumable parse "\<lambda>k s. byte (fst s) + k = n"
proof
  fix xs ys :: "u8 list" and s :: "'p \<times> 't"
  assume a: "xs \<noteq> []" "ys \<noteq> []" "byte (fst s) + (length xs + length ys) = n"
  obtain p t where s: "s = (p, t)" by fastforce
  have "0 < length ys" using a by simp
  then have b: "byte p + length xs \<le> n" "byte p + length xs \<noteq> n" using a s by auto
  then have "parse xs False s = Some (None, fold absorb xs p, t)" using parse_eq [of p xs False t] s by simp
  moreover have "parse ys True (fold absorb xs p, t) = finish True (fold absorb ys (fold absorb xs p)) t"
    using parse_eq [of "fold absorb xs p" ys] a s byte_fold by simp
  moreover have "parse (xs @ ys) True s = finish True (fold absorb ys (fold absorb xs p)) t"
    using parse_eq [of p "xs @ ys"] a s by simp
  ultimately show "parse (xs @ ys) True s =
      (case parse xs False s of None \<Rightarrow> None | Some (Some e, s') \<Rightarrow> Some (Some e, s') | Some (None, s') \<Rightarrow> parse ys True s')"
    by simp
next
  fix xs :: "u8 list" and m and s s' :: "'p \<times> 't"
  assume a: "xs \<noteq> []" "0 < m" "byte (fst s) + (length xs + m) = n" "parse xs False s = Some (None, s')"
  obtain p t where s: "s = (p, t)" by fastforce
  with a parse_eq [of p xs False t] have "s' = (fold absorb xs p, t)" by simp
  with s a byte_fold show "byte (fst s') + m = n" by simp
qed

end
