(* ===== verification/Hpack_Parser.thy ===== *)
theory Hpack_Parser
  imports Hpack_Tables Hpack_String Frame_Codec
begin

text \<open>
  The HPACK header parser: the classes \<open>HPackParser::Parser\<close> and \<open>HPackParser\<close> of
  \<^verbatim>\<open>src/core/ext/transport/chttp2/transport/hpack_parser.h/.cc\<close>.  A header is its key and its value; a memento of it has the size that HPACK assigns.
  The metadata batch that receives the headers is the type \<open>'b\<close>, and its \<open>Set\<close> the parameter \<open>set_md\<close>, which says whether the header
  was accepted.  A crash (a lookup out of bounds, a failed assertion of the table) is \<open>None\<close>; a parse error is a value.
\<close>

section \<open>Definitions\<close>

type_synonym md = "bytes \<times> bytes"

definition grpc_key_is_binary_header :: "bytes \<Rightarrow> bool" where
  "grpc_key_is_binary_header buf \<longleftrightarrow> \<not> length buf < 5 \<and> drop (length buf - 4) buf = map of_char ''-bin''"

definition TransportSize :: "nat \<Rightarrow> nat \<Rightarrow> nat" where
  "TransportSize key_size value_size = (key_size + value_size + 32) mod 2 ^ 32"

definition mk_memento :: "bytes \<Rightarrow> bytes \<Rightarrow> md memento" where
  "mk_memento k v = \<lparr>mem_value = Some (k, v), transport_size = TransportSize (length k) (length v)\<rparr>"

definition is_binary_header :: "md memento \<Rightarrow> bool" where
  "is_binary_header m = (case mem_value m of None \<Rightarrow> False | Some (k, _) \<Rightarrow> grpc_key_is_binary_header k)"

definition WithNewValue :: "md memento \<Rightarrow> bytes \<Rightarrow> md memento" where
  "WithNewValue m v = (case mem_value m of None \<Rightarrow> empty_memento | Some (k, _) \<Rightarrow> mk_memento k v)"

datatype boundary = BoundaryNone | EndOfHeaders | EndOfStream
datatype priority = PriorityNone | Included

record 'b hpack_parser =
  metadata_buffer :: "'b option"
  unparsed_bytes :: bytes
  hp_boundary :: boundary
  hp_priority :: priority
  dynamic_table_updates_allowed :: nat
  frame_length :: nat
  metadata_size_limit :: nat
  hp_table :: "md hpack_table"

subsection \<open>One header\<close>

definition ParseValueString :: "bool \<Rightarrow> bytes reader" where
  "ParseValueString is_binary = (if is_binary then String_ParseBinary else String_Parse)"

definition ParseLiteralKey :: "md memento reader" where
  "ParseLiteralKey = read_then String_Parse (\<lambda>key.
     read_then (ParseValueString (grpc_key_is_binary_header key)) (\<lambda>v i. (Some (mk_memento key v), i)))"

definition ParseIdxKey :: "md hpack_table \<Rightarrow> u32 \<Rightarrow> input \<Rightarrow> (md memento option \<times> input) crashable" where
  "ParseIdxKey t index i =
     (case HPackTable_Lookup (unat index) t of
        None \<Rightarrow> None
      | Some None \<Rightarrow> Some (None, SetError (InvalidIndex (unat index) (num_entries t)) i)
      | Some (Some elem) \<Rightarrow>
          Some (read_then (ParseValueString (is_binary_header elem)) (\<lambda>v i. (Some (WithNewValue elem v), i)) i))"

definition ParseVarIdxKey :: "md hpack_table \<Rightarrow> u32 \<Rightarrow> input \<Rightarrow> (md memento option \<times> input) crashable" where
  "ParseVarIdxKey t offset i =
     (case ParseVarint offset i of (None, i') \<Rightarrow> Some (None, i') | (Some index, i') \<Rightarrow> ParseIdxKey t index i')"

type_synonym 'b parse_result = "(bool \<times> 'b hpack_parser \<times> input) crashable"

definition EmitHeader :: "(md memento \<Rightarrow> 'b \<Rightarrow> bool \<times> 'b) \<Rightarrow> md memento \<Rightarrow> 'b hpack_parser \<Rightarrow> input \<Rightarrow> bool \<times> 'b hpack_parser \<times> input" where
  "EmitHeader set_md m p i =
     (case metadata_buffer p of
        None \<Rightarrow> (True, p, i)
      | Some buf \<Rightarrow>
          let p1 = p\<lparr>frame_length := add32 (frame_length p) (transport_size m)\<rparr> in
          if metadata_size_limit p < frame_length p1 then (False, p1, SetError MetadataSizeLimit i)
          else
            (case set_md m buf of
               (ok, buf') \<Rightarrow>
                 if ok then (True, p1\<lparr>metadata_buffer := Some buf'\<rparr>, i)
                 else (False, p1\<lparr>metadata_buffer := Some buf'\<rparr>, SetError SetFailed i)))"

definition table_error_of :: "table_error \<Rightarrow> hpack_error" where
  "table_error_of e = (case e of SizeAboveMax a b \<Rightarrow> TableSizeAboveMax a b | ReducedNotReflected a b \<Rightarrow> TableReducedNotReflected a b)"

definition FinishHeaderAndAddToTable ::
    "(md memento \<Rightarrow> 'b \<Rightarrow> bool \<times> 'b) \<Rightarrow> 'b hpack_parser \<Rightarrow> (md memento option \<times> input) crashable \<Rightarrow> 'b parse_result" where
  "FinishHeaderAndAddToTable set_md p r =
     (case r of
        None \<Rightarrow> None
      | Some (None, i) \<Rightarrow> Some (False, p, i)
      | Some (Some m, i) \<Rightarrow>
          (case EmitHeader set_md m p i of
             (ok, p1, i1) \<Rightarrow>
               (case HPackTable_Add m (hp_table p1) of
                  None \<Rightarrow> None
                | Some (Inl e) \<Rightarrow> Some (False, p1, SetError (table_error_of e) i1)
                | Some (Inr t) \<Rightarrow> Some (ok, p1\<lparr>hp_table := t\<rparr>, i1))))"

definition FinishHeaderOmitFromTable ::
    "(md memento \<Rightarrow> 'b \<Rightarrow> bool \<times> 'b) \<Rightarrow> 'b hpack_parser \<Rightarrow> (md memento option \<times> input) crashable \<Rightarrow> 'b parse_result" where
  "FinishHeaderOmitFromTable set_md p r =
     (case r of
        None \<Rightarrow> None
      | Some (None, i) \<Rightarrow> Some (False, p, i)
      | Some (Some m, i) \<Rightarrow> Some (EmitHeader set_md m p i))"

definition FinishIndexed ::
    "(md memento \<Rightarrow> 'b \<Rightarrow> bool \<times> 'b) \<Rightarrow> 'b hpack_parser \<Rightarrow> u32 option \<times> input \<Rightarrow> 'b parse_result" where
  "FinishIndexed set_md p r =
     (let p1 = p\<lparr>dynamic_table_updates_allowed := 0\<rparr> in
      (case r of
         (None, i) \<Rightarrow> Some (False, p1, i)
       | (Some index, i) \<Rightarrow>
           (case HPackTable_Lookup (unat index) (hp_table p1) of
              None \<Rightarrow> None
            | Some None \<Rightarrow> Some (False, p1, SetError (InvalidIndex (unat index) (num_entries (hp_table p1))) i)
            | Some (Some elem) \<Rightarrow> FinishHeaderOmitFromTable set_md p1 (Some (Some elem, i)))))"

definition FinishMaxTableSize :: "'b hpack_parser \<Rightarrow> u32 option \<times> input \<Rightarrow> 'b parse_result" where
  "FinishMaxTableSize p r =
     (case r of
        (None, i) \<Rightarrow> Some (False, p, i)
      | (Some sz, i) \<Rightarrow>
          if dynamic_table_updates_allowed p = 0 then Some (False, p, SetError TooManyTableSizeChanges i)
          else
            let p1 = p\<lparr>dynamic_table_updates_allowed := dynamic_table_updates_allowed p - 1\<rparr> in
            (case HPackTable_SetCurrentTableSize (unat sz) (hp_table p1) of
               None \<Rightarrow> None
             | Some (Inl e) \<Rightarrow> Some (False, p1, SetError (table_error_of e) i)
             | Some (Inr t) \<Rightarrow> Some (True, p1\<lparr>hp_table := t\<rparr>, i)))"

text \<open>The dispatch on the first byte; the arms are the cases of the switch on its high nibble.\<close>

definition Parser_dispatch :: "(md memento \<Rightarrow> 'b \<Rightarrow> bool \<times> 'b) \<Rightarrow> 'b hpack_parser \<Rightarrow> u8 \<Rightarrow> input \<Rightarrow> 'b parse_result" where
  "Parser_dispatch set_md p cur i =
     (let hi = drop_bit 4 cur; t = hp_table p in
      if hi = 0 \<or> hi = 1 then
        (if cur AND 0xf = 0 then FinishHeaderOmitFromTable set_md p (Some (ParseLiteralKey i))
         else if cur AND 0xf = 0xf then FinishHeaderOmitFromTable set_md p (ParseVarIdxKey t 0xf i)
         else FinishHeaderOmitFromTable set_md p (ParseIdxKey t (ucast (cur AND 0xf)) i))
      else if hi = 2 then FinishMaxTableSize p (Some (ucast (cur AND 0x1f)), i)
      else if hi = 3 then
        (if cur = 0x3f then FinishMaxTableSize p (ParseVarint 0x1f i) else FinishMaxTableSize p (Some (ucast (cur AND 0x1f)), i))
      else if hi = 4 \<and> cur = 0x40 then FinishHeaderAndAddToTable set_md p (Some (ParseLiteralKey i))
      else if hi = 4 \<or> hi = 5 \<or> hi = 6 then FinishHeaderAndAddToTable set_md p (ParseIdxKey t (ucast (cur AND 0x3f)) i)
      else if hi = 7 then
        (if cur = 0x7f then FinishHeaderAndAddToTable set_md p (ParseVarIdxKey t 0x3f i)
         else FinishHeaderAndAddToTable set_md p (ParseIdxKey t (ucast (cur AND 0x3f)) i))
      else if cur = 0x80 then Some (False, p, SetError IllegalOpCode i)
      else if hi \<noteq> 15 then FinishIndexed set_md p (Some (ucast (cur AND 0x7f)), i)
      else if cur = 0xff then FinishIndexed set_md p (ParseVarint 0x7f i)
      else FinishIndexed set_md p (Some (ucast (cur AND 0x7f)), i))"

definition Parser_Parse :: "(md memento \<Rightarrow> 'b \<Rightarrow> bool \<times> 'b) \<Rightarrow> 'b hpack_parser \<Rightarrow> input \<Rightarrow> 'b parse_result" where
  "Parser_Parse set_md p i = (case Next i of (None, _) \<Rightarrow> None | (Some cur, i1) \<Rightarrow> Parser_dispatch set_md p cur i1)"

subsection \<open>The parser\<close>

definition HPackParser_init :: "md memento list \<Rightarrow> 'b hpack_parser" where
  "HPackParser_init st =
     \<lparr>metadata_buffer = None, unparsed_bytes = [], hp_boundary = BoundaryNone, hp_priority = PriorityNone,
      dynamic_table_updates_allowed = 0, frame_length = 0, metadata_size_limit = 0, hp_table = HPackTable_init st\<rparr>"

definition HPackParser_BeginFrame :: "'b option \<Rightarrow> nat \<Rightarrow> boundary \<Rightarrow> priority \<Rightarrow> 'b hpack_parser \<Rightarrow> 'b hpack_parser" where
  "HPackParser_BeginFrame buf limit bd pr p =
     p\<lparr>metadata_buffer := buf, hp_boundary := bd, hp_priority := pr, dynamic_table_updates_allowed := 2,
       frame_length := 0, metadata_size_limit := limit\<rparr>"

definition StopBufferingFrame :: "'b hpack_parser \<Rightarrow> 'b hpack_parser" where
  "StopBufferingFrame p = p\<lparr>metadata_buffer := None\<rparr>"

definition HPackParser_FinishFrame :: "'b hpack_parser \<Rightarrow> 'b hpack_parser" where
  "HPackParser_FinishFrame p = p\<lparr>metadata_buffer := None\<rparr>"

partial_function (option) parse_loop ::
    "(md memento \<Rightarrow> 'b \<Rightarrow> bool \<times> 'b) \<Rightarrow> 'b hpack_parser \<Rightarrow> input \<Rightarrow> (bool \<times> 'b hpack_parser \<times> input) option" where
  "parse_loop set_md p i =
     (if end_of_stream i then Some (True, p, i)
      else
        (case Parser_Parse set_md p i of
           None \<Rightarrow> None
         | Some (ok, p', i') \<Rightarrow> if \<not> ok then Some (False, p', i') else parse_loop set_md p' (UpdateFrontier i')))"

definition ParseInputInner :: "(md memento \<Rightarrow> 'b \<Rightarrow> bool \<times> 'b) \<Rightarrow> 'b hpack_parser \<Rightarrow> input \<Rightarrow> 'b parse_result" where
  "ParseInputInner set_md p i =
     (case hp_priority p of
        PriorityNone \<Rightarrow> parse_loop set_md p i
      | Included \<Rightarrow>
          if remaining i < 5 then Some (False, p, UnexpectedEOF i)
          else parse_loop set_md (p\<lparr>hp_priority := PriorityNone\<rparr>) (UpdateFrontier (Advance 5 i)))"

definition ParseInput :: "(md memento \<Rightarrow> 'b \<Rightarrow> bool \<times> 'b) \<Rightarrow> input \<Rightarrow> bool \<Rightarrow> 'b hpack_parser \<Rightarrow> (hpack_error option \<times> 'b hpack_parser) crashable" where
  "ParseInput set_md i is_last p =
     (case ParseInputInner set_md p i of
        None \<Rightarrow> None
      | Some (True, p', i') \<Rightarrow> Some (None, p')
      | Some (False, p', i') \<Rightarrow>
          if in_eof i' then
            (if is_last \<and> hp_boundary p' \<noteq> BoundaryNone then Some (Some IncompleteHeader, p')
             else Some (None, p'\<lparr>unparsed_bytes := in_frontier i'\<rparr>))
          else Some (fst (TakeError i'), p'))"

definition HPackParser_Parse :: "(md memento \<Rightarrow> 'b \<Rightarrow> bool \<times> 'b) \<Rightarrow> bytes \<Rightarrow> bool \<Rightarrow> 'b hpack_parser \<Rightarrow> (hpack_error option \<times> 'b hpack_parser) crashable" where
  "HPackParser_Parse set_md bs is_last p =
     (if unparsed_bytes p \<noteq> []
      then ParseInput set_md (Input_init (unparsed_bytes p @ bs)) is_last (p\<lparr>unparsed_bytes := []\<rparr>)
      else ParseInput set_md (Input_init bs) is_last p)"

section \<open>Reading a prefix of the input\<close>

text \<open>More input behind the end of what is there.\<close>

definition ext :: "bytes \<Rightarrow> input \<Rightarrow> input" where
  "ext ys i = i\<lparr>in_rest := in_rest i @ ys, in_frontier := in_frontier i @ ys\<rparr>"

text \<open>What a reader made of a prefix stands when there is more input, unless it ran out of bytes.\<close>

fun extends :: "bytes \<Rightarrow> input \<Rightarrow> 'a option \<times> input \<Rightarrow> 'a option \<times> input \<Rightarrow> bool" where
  "extends ys i (Some x, i') r \<longleftrightarrow>
     clean i' \<and> in_frontier i' = in_frontier i \<and> length (in_rest i') \<le> length (in_rest i) \<and> r = (Some x, ext ys i')"
| "extends ys i (None, i') r \<longleftrightarrow>
     in_frontier i' = in_frontier i \<and>
     (in_eof i' \<or> \<not> in_eof i' \<and> in_error i' \<noteq> None \<and> (\<exists>i2. r = (None, i2) \<and> in_error i2 = in_error i' \<and> \<not> in_eof i2))"

definition prefix_stable :: "'a reader \<Rightarrow> bool" where
  "prefix_stable m \<longleftrightarrow> (\<forall>i ys. clean i \<longrightarrow> extends ys i (m i) (m (ext ys i)))"

named_theorems stable_intros \<open>readers that are stable\<close>

lemma stableI: "(\<And>i ys. clean i \<Longrightarrow> extends ys i (m i) (m (ext ys i))) \<Longrightarrow> prefix_stable m"
  by (simp add: prefix_stable_def)

lemma clean_ext [simp]: "clean (ext ys i) = clean i"
  by (simp add: clean_def ext_def)

lemma stable_return [stable_intros]: "prefix_stable (\<lambda>i. (Some x, i))"
  by (simp add: prefix_stable_def)

lemma stable_error [stable_intros]: "prefix_stable (\<lambda>i. (None, SetError e i))"
  by (rule stableI) (auto simp: clean_def SetError_def ext_def)

lemma stable_Next [stable_intros]: "prefix_stable Next"
proof (rule stableI)
  fix i :: input and ys assume "clean i"
  then show "extends ys i (Next i) (Next (ext ys i))"
    by (cases "in_rest i") (auto simp: Next_def ext_def clean_def UnexpectedEOF_def)
qed

lemma stable_read_then [stable_intros]:
  assumes "prefix_stable m" "\<And>x. prefix_stable (f x)"
  shows "prefix_stable (read_then m f)"
proof (rule stableI)
  fix i :: input and ys assume c: "clean i"
  from assms(1) c have m: "extends ys i (m i) (m (ext ys i))" by (simp add: prefix_stable_def)
  obtain r i' where r: "m i = (r, i')" by fastforce
  show "extends ys i (read_then m f i) (read_then m f (ext ys i))"
  proof (cases r)
    case None
    then show ?thesis using m r by (auto simp: read_then_def split: prod.splits)
  next
    case (Some x)
    with m r have i': "clean i'" "in_frontier i' = in_frontier i" "length (in_rest i') \<le> length (in_rest i)"
      "m (ext ys i) = (Some x, ext ys i')" by auto
    have "extends ys i' (f x i') (f x (ext ys i'))" using assms(2) i'(1) by (simp add: prefix_stable_def)
    then show ?thesis using i' r Some by (cases "f x i'"; cases "fst (f x i')") (auto simp: read_then_def)
  qed
qed

lemma stable_if [stable_intros]: "prefix_stable f \<Longrightarrow> prefix_stable g \<Longrightarrow> prefix_stable (if b then f else g)"
  by simp

lemma stable_take:
  "prefix_stable (\<lambda>i. if remaining i < n then (None, UnexpectedEOF i) else (Some (g (take n (in_rest i))), Advance n i))"
  by (rule stableI) (auto simp: remaining_def UnexpectedEOF_def Advance_def ext_def clean_def)

lemma stable_ParseUncompressed [stable_intros]: "prefix_stable (ParseUncompressed len)"
  using stable_take [of "unat len" "\<lambda>x. x"] by (simp add: ParseUncompressed_def [abs_def])

lemma stable_ParseHuff [stable_intros]: "prefix_stable (ParseHuff len output acc)"
  using stable_take [of "unat len" "\<lambda>bs. snd (foldl (huff_byte output) (0, acc) bs)"] by (simp add: ParseHuff_def [abs_def])

lemma padding_ext:
  "in_error i = None \<Longrightarrow> (case varint_padding cs i of
     (None, i') \<Rightarrow> in_eof i' \<and> in_frontier i' = in_frontier i
   | (Some c, i') \<Rightarrow> (\<exists>ds. i' = i\<lparr>in_rest := ds\<rparr> \<and> length ds \<le> length cs \<and>
       varint_padding (cs @ ys) (i\<lparr>in_rest := xs, in_frontier := zs\<rparr>) = (Some c, i\<lparr>in_rest := ds @ ys, in_frontier := zs\<rparr>)))"
  by (induction cs) (auto simp: UnexpectedEOF_def split: prod.splits option.splits)

lemma stable_varint_last [stable_intros]: "prefix_stable (varint_last v)"
proof (rule stableI)
  fix i :: input and ys assume c: "clean i"
  obtain r i' where r: "varint_padding (in_rest i) i = (r, i')" by fastforce
  have e: "in_error i = None" using c by (simp add: clean_def)
  from padding_ext [OF e, where cs = "in_rest i" and ys = ys and xs = "in_rest i @ ys" and zs = "in_frontier i @ ys"] r c
  show "extends ys i (varint_last v i) (varint_last v (ext ys i))"
    by (cases r) (auto simp: varint_last_def ext_def clean_def ParseVarintOutOfRange_def SetError_def)
qed

lemma stable_out_of_range [stable_intros]: "prefix_stable (ParseVarintOutOfRange v c)"
  using stable_error [of "VarintOutOfRange v c"] by (simp add: ParseVarintOutOfRange_def [abs_def])

lemma stable_varint_fifth [stable_intros]: "prefix_stable (varint_fifth v)"
  unfolding varint_fifth_def Let_def by (intro stable_intros)

lemma stable_varint_more [stable_intros]: "(\<And>v. prefix_stable (k v)) \<Longrightarrow> prefix_stable (varint_more s k v)"
  unfolding varint_more_def Let_def by (intro stable_intros)

lemma stable_ParseVarint [stable_intros]: "prefix_stable (ParseVarint v)"
  unfolding ParseVarint_def by (intro stable_intros)

lemma stable_ParseStringPrefix [stable_intros]: "prefix_stable ParseStringPrefix"
  unfolding ParseStringPrefix_def Let_def by (intro stable_intros)

lemma stable_String_Parse [stable_intros]: "prefix_stable String_Parse"
  unfolding String_Parse_def by (intro stable_intros)

lemma stable_Unbase64 [stable_intros]: "prefix_stable (Unbase64 s)"
  using stable_return stable_error unfolding Unbase64_def [abs_def] by (cases "Unbase64Loop s") auto

lemma stable_peek:
  fixes n :: u32
  assumes "\<And>n. prefix_stable (m n)" "prefix_stable m'"
    and "\<And>i. 0 < n \<Longrightarrow> clean i \<Longrightarrow> in_rest i = [] \<Longrightarrow> \<exists>i'. m' i = (None, i') \<and> in_eof i' \<and> in_frontier i' = in_frontier i"
  shows "prefix_stable (\<lambda>i. if 0 < n \<and> peek i = Some 0 then m (n - 1) (Advance 1 i) else m' i)"
proof (rule stableI)
  fix i :: input and ys assume c: "clean i"
  let ?f = "\<lambda>i. if 0 < n \<and> peek i = Some 0 then m (n - 1) (Advance 1 i) else m' i"
  have m': "extends ys i (m' i) (m' (ext ys i))" using assms(2) c by (simp add: prefix_stable_def)
  show "extends ys i (?f i) (?f (ext ys i))"
  proof (cases "in_rest i")
    case Nil
    then show ?thesis
    proof (cases "0 < n")
      case True
      from assms(3) [OF True c Nil] Nil show ?thesis by (auto simp: peek_def)
    qed (use m' in auto)
  next
    case (Cons b bs)
    have a: "Advance 1 (ext ys i) = ext ys (Advance 1 i)" "peek (ext ys i) = peek i"
      using Cons by (simp_all add: peek_def ext_def Advance_def)
    have "extends ys (Advance 1 i) (m (n - 1) (Advance 1 i)) (m (n - 1) (ext ys (Advance 1 i)))"
      using assms(1) c by (simp add: prefix_stable_def Advance_def)
    moreover have "in_frontier (Advance 1 i) = in_frontier i" "length (in_rest (Advance 1 i)) \<le> length (in_rest i)"
      by (simp_all add: Advance_def)
    ultimately have "extends ys i (m (n - 1) (Advance 1 i)) (m (n - 1) (ext ys (Advance 1 i)))"
      by (cases "m (n - 1) (Advance 1 i)"; cases "fst (m (n - 1) (Advance 1 i))") auto
    then show ?thesis using m' a by auto
  qed
qed

lemma stable_String_ParseBinary [stable_intros]: "prefix_stable String_ParseBinary"
proof -
  have "\<exists>i'. read_then (ParseUncompressed len) Unbase64 i = (None, i') \<and> in_eof i' \<and> in_frontier i' = in_frontier i"
    if "0 < len" "clean i" "in_rest i = []" for len i
  proof -
    have "0 < unat len" using that(1) by (simp add: word_less_nat_alt)
    then show ?thesis using that(2,3) by (simp add: read_then_def ParseUncompressed_def remaining_def UnexpectedEOF_def clean_def)
  qed
  then have plain: "prefix_stable (\<lambda>i. if 0 < len \<and> peek i = Some 0 then ParseUncompressed (len - 1) (Advance 1 i)
      else read_then (ParseUncompressed len) Unbase64 i)" for len
    by (intro stable_peek stable_intros)
  have huff: "prefix_stable (case so of (st, out) \<Rightarrow>
      (case st of kUnsure \<Rightarrow> (\<lambda>i. (Some [], i)) | kBinary \<Rightarrow> (\<lambda>i. (Some out, i)) | kBase64 \<Rightarrow> Unbase64 out))" for so
    using stable_return stable_Unbase64 by (cases so; cases "fst so") auto
  show ?thesis unfolding String_ParseBinary_def by (intro stable_intros plain huff)
qed

lemma stable_ParseValueString [stable_intros]: "prefix_stable (ParseValueString b)"
  unfolding ParseValueString_def by (intro stable_intros)

lemma stable_ParseLiteralKey [stable_intros]: "prefix_stable ParseLiteralKey"
  unfolding ParseLiteralKey_def by (intro stable_intros)

section \<open>Parsing a prefix of a header block\<close>

text \<open>The same for readers that may crash, and for the outcome of parsing a header: where the prefix ends inside it, the parser is unchanged up
  to \<open>q\<close>.\<close>

fun extends_crash :: "bytes \<Rightarrow> input \<Rightarrow> ('a option \<times> input) crashable \<Rightarrow> ('a option \<times> input) crashable \<Rightarrow> bool" where
  "extends_crash ys i None r \<longleftrightarrow> r = None"
| "extends_crash ys i (Some (Some x, i')) r \<longleftrightarrow>
     clean i' \<and> in_frontier i' = in_frontier i \<and> length (in_rest i') \<le> length (in_rest i) \<and> r = Some (Some x, ext ys i')"
| "extends_crash ys i (Some (None, i')) r \<longleftrightarrow>
     in_frontier i' = in_frontier i \<and>
     (in_eof i' \<or> \<not> in_eof i' \<and> in_error i' \<noteq> None \<and> (\<exists>i2. r = Some (None, i2) \<and> in_error i2 = in_error i' \<and> \<not> in_eof i2))"

fun outcome_extends :: "bytes \<Rightarrow> input \<Rightarrow> 'b hpack_parser \<Rightarrow> 'b parse_result \<Rightarrow> 'b parse_result \<Rightarrow> bool" where
  "outcome_extends ys i q None r \<longleftrightarrow> r = None"
| "outcome_extends ys i q (Some (True, p', i')) r \<longleftrightarrow>
     clean i' \<and> in_frontier i' = in_frontier i \<and> length (in_rest i') \<le> length (in_rest i) \<and> r = Some (True, p', ext ys i')"
| "outcome_extends ys i q (Some (False, p', i')) r \<longleftrightarrow>
     in_frontier i' = in_frontier i \<and>
     (in_eof i' \<and> p' = q \<or>
      \<not> in_eof i' \<and> in_error i' \<noteq> None \<and> (\<exists>i2. r = Some (False, p', i2) \<and> in_error i2 = in_error i' \<and> \<not> in_eof i2))"

lemma extends_crash_Some:
  assumes "prefix_stable m" "clean i"
  shows "extends_crash ys i (Some (m i)) (Some (m (ext ys i)))"
proof -
  have "extends ys i (m i) (m (ext ys i))" using assms by (simp add: prefix_stable_def)
  then show ?thesis by (cases "m i"; cases "fst (m i)") auto
qed

lemma extends_ParseIdxKey:
  assumes "clean i"
  shows "extends_crash ys i (ParseIdxKey t idx i) (ParseIdxKey t idx (ext ys i))"
proof (cases "HPackTable_Lookup (unat idx) t")
  case None
  then show ?thesis by (simp add: ParseIdxKey_def)
next
  case (Some e)
  show ?thesis
  proof (cases e)
    case None
    then show ?thesis
      using extends_crash_Some [OF stable_error assms, of ys] \<open>HPackTable_Lookup (unat idx) t = Some e\<close> by (simp add: ParseIdxKey_def)
  next
    case (Some elem)
    have "prefix_stable (read_then (ParseValueString (is_binary_header elem)) (\<lambda>v i. (Some (WithNewValue elem v), i)))"
      by (intro stable_intros)
    from extends_crash_Some [OF this assms, of ys] Some \<open>HPackTable_Lookup (unat idx) t = Some e\<close>
    show ?thesis by (simp add: ParseIdxKey_def)
  qed
qed

lemma extends_ParseVarIdxKey:
  assumes "clean i"
  shows "extends_crash ys i (ParseVarIdxKey t off i) (ParseVarIdxKey t off (ext ys i))"
proof -
  have e: "extends ys i (ParseVarint off i) (ParseVarint off (ext ys i))" using stable_ParseVarint assms by (simp add: prefix_stable_def)
  obtain r i' where r: "ParseVarint off i = (r, i')" by fastforce
  show ?thesis
  proof (cases r)
    case None
    then show ?thesis using e r by (auto simp: ParseVarIdxKey_def)
  next
    case (Some idx)
    with e r have i': "clean i'" "in_frontier i' = in_frontier i" "length (in_rest i') \<le> length (in_rest i)"
      "ParseVarint off (ext ys i) = (Some idx, ext ys i')" by auto
    from extends_ParseIdxKey [OF i'(1), of ys t idx] i' r Some show ?thesis
      by (cases "(ys, i', ParseIdxKey t idx i', ParseIdxKey t idx (ext ys i'))" rule: extends_crash.cases) (auto simp: ParseVarIdxKey_def)
  qed
qed

lemma EmitHeader_cases:
  assumes "clean i"
  obtains p' where "\<And>i. EmitHeader set_md m p i = (True, p', i)"
  | p' e where "\<And>i. EmitHeader set_md m p i = (False, p', SetError e i)"
proof (cases "metadata_buffer p")
  case None
  then show ?thesis using that(1) by (simp add: EmitHeader_def)
next
  case (Some buf)
  let ?p = "p\<lparr>frame_length := add32 (frame_length p) (transport_size m)\<rparr>"
  obtain ok buf' where "set_md m buf = (ok, buf')" by fastforce
  then show ?thesis
    using Some that by (cases "metadata_size_limit p < frame_length ?p"; cases ok) (auto simp: EmitHeader_def Let_def)
qed

lemma SetError_clean: "clean i \<Longrightarrow> SetError e i = i\<lparr>in_error := Some e, in_rest := []\<rparr>"
  by (simp add: SetError_def clean_def)

lemma outcome_Omit:
  assumes "extends_crash ys i r r2"
  shows "outcome_extends ys i p (FinishHeaderOmitFromTable set_md p r) (FinishHeaderOmitFromTable set_md p r2)"
  using assms
proof (cases "(ys, i, r, r2)" rule: extends_crash.cases)
  case (2 _ _ m i' _)
  then have c: "clean i'" using assms by simp
  show ?thesis
    by (rule EmitHeader_cases [OF c, of set_md m p]) (use 2 assms c in \<open>auto simp: FinishHeaderOmitFromTable_def SetError_def clean_def ext_def\<close>)
qed (use assms in \<open>auto simp: FinishHeaderOmitFromTable_def\<close>)

lemma outcome_Add:
  assumes "extends_crash ys i r r2"
  shows "outcome_extends ys i p (FinishHeaderAndAddToTable set_md p r) (FinishHeaderAndAddToTable set_md p r2)"
  using assms
proof (cases "(ys, i, r, r2)" rule: extends_crash.cases)
  case (2 _ _ m i' _)
  then have c: "clean i'" using assms by simp
  show ?thesis
  proof (rule EmitHeader_cases [OF c, of set_md m p])
    fix p' assume e: "\<And>i. EmitHeader set_md m p i = (True, p', i)"
    show ?thesis
      using 2 assms c by (auto simp: FinishHeaderAndAddToTable_def e SetError_def clean_def ext_def split: option.splits sum.splits)
  next
    fix p' er assume e: "\<And>i. EmitHeader set_md m p i = (False, p', SetError er i)"
    show ?thesis
      using 2 assms c by (auto simp: FinishHeaderAndAddToTable_def e SetError_def clean_def ext_def split: option.splits sum.splits)
  qed
qed (use assms in \<open>auto simp: FinishHeaderAndAddToTable_def\<close>)

lemma outcome_Indexed:
  assumes "extends ys i r r2"
  shows "outcome_extends ys i (p\<lparr>dynamic_table_updates_allowed := 0\<rparr>) (FinishIndexed set_md p r) (FinishIndexed set_md p r2)"
  using assms
proof (cases "(ys, i, r, r2)" rule: extends.cases)
  case (1 _ _ idx i' _)
  let ?p = "p\<lparr>dynamic_table_updates_allowed := 0\<rparr>"
  have i': "clean i'" "in_frontier i' = in_frontier i" "length (in_rest i') \<le> length (in_rest i)" "r2 = (Some idx, ext ys i')"
    using 1 assms by auto
  show ?thesis
  proof (cases "HPackTable_Lookup (unat idx) (hp_table p)")
    case None
    then show ?thesis using 1 i' by (simp add: FinishIndexed_def)
  next
    case (Some e)
    show ?thesis
    proof (cases e)
      case None
      then show ?thesis
        using 1 i' Some by (auto simp: FinishIndexed_def SetError_def clean_def ext_def)
    next
      case (Some elem)
      have "extends_crash ys i (Some (Some elem, i')) (Some (Some elem, ext ys i'))" using i' by simp
      from outcome_Omit [OF this, of ?p set_md] Some \<open>HPackTable_Lookup (unat idx) (hp_table p) = Some e\<close> 1 i'
      show ?thesis by (simp add: FinishIndexed_def)
    qed
  qed
qed (use assms in \<open>auto simp: FinishIndexed_def\<close>)

lemma outcome_MaxSize:
  assumes "extends ys i r r2"
  shows "outcome_extends ys i p (FinishMaxTableSize p r) (FinishMaxTableSize p r2)"
  using assms
proof (cases "(ys, i, r, r2)" rule: extends.cases)
  case (1 _ _ sz i' _)
  have i': "clean i'" "in_frontier i' = in_frontier i" "length (in_rest i') \<le> length (in_rest i)" "r2 = (Some sz, ext ys i')"
    using 1 assms by auto
  then show ?thesis
    using 1 by (auto simp: FinishMaxTableSize_def Let_def SetError_def clean_def ext_def split: option.splits sum.splits)
qed (use assms in \<open>auto simp: FinishMaxTableSize_def\<close>)

lemma small_byte: "w < 8 \<Longrightarrow> w \<in> {0, 1, 2, 3, 4, 5, 6, 7}" for w :: u8
proof -
  assume "w < 8"
  then have "unat w \<in> {0, 1, 2, 3, 4, 5, 6, 7}" by (auto simp: word_less_nat_alt)
  then have "of_nat (unat w) \<in> (of_nat ` {0, 1, 2, 3, 4, 5, 6, 7} :: u8 set)" by (rule imageI)
  then show ?thesis by simp
qed

lemma outcome_if:
  "(c \<Longrightarrow> outcome_extends ys i q a a') \<Longrightarrow> (\<not> c \<Longrightarrow> outcome_extends ys i q b b') \<Longrightarrow>
   outcome_extends ys i q (if c then a else b) (if c then a' else b')"
  by simp

text \<open>What a cut-off header leaves of the parser behaves the same when the header is read again.\<close>

lemma dispatch_extends:
  assumes "clean i"
  shows "\<exists>q. outcome_extends ys i q (Parser_dispatch set_md p cur i) (Parser_dispatch set_md p cur (ext ys i)) \<and>
    (\<forall>j. Parser_dispatch set_md q cur j = Parser_dispatch set_md p cur j) \<and>
    (q = p \<or> q = p\<lparr>dynamic_table_updates_allowed := 0\<rparr>)"
proof -
  let ?q = "p\<lparr>dynamic_table_updates_allowed := 0\<rparr>"
  have v: "extends ys i (ParseVarint off i) (ParseVarint off (ext ys i))" for off
    using stable_ParseVarint assms by (simp add: prefix_stable_def)
  have s: "extends ys i (Some x, i) (Some x, ext ys i)" for x :: u32 using assms by simp
  note lit = extends_crash_Some [OF stable_ParseLiteralKey assms, of ys]
  note idx = extends_ParseIdxKey [OF assms, of ys] and var = extends_ParseVarIdxKey [OF assms, of ys]
  show ?thesis
  proof (cases "drop_bit 4 cur < 8")
    case True
    note small_byte [OF True]
    then have "outcome_extends ys i p (Parser_dispatch set_md p cur i) (Parser_dispatch set_md p cur (ext ys i))"
      unfolding Parser_dispatch_def Let_def
      by (intro outcome_if outcome_Omit [OF lit] outcome_Omit [OF idx] outcome_Omit [OF var] outcome_Add [OF lit] outcome_Add [OF idx]
          outcome_Add [OF var] outcome_MaxSize [OF s] outcome_MaxSize [OF v]) simp_all
    then show ?thesis by blast
  next
    case False
    then have hi: "drop_bit 4 cur \<notin> {0, 1, 2, 3, 4, 5, 6, 7}" by auto
    have same: "Parser_dispatch set_md ?q cur j = Parser_dispatch set_md p cur j" if "cur \<noteq> 0x80" for j
      using hi that by (simp add: Parser_dispatch_def FinishIndexed_def Let_def)
    show ?thesis
    proof (cases "cur = 0x80")
      case True
      then have "outcome_extends ys i p (Parser_dispatch set_md p cur i) (Parser_dispatch set_md p cur (ext ys i))"
        using assms by (auto simp: Parser_dispatch_def SetError_def clean_def ext_def)
      then show ?thesis by blast
    next
      case n80: False
      have "outcome_extends ys i ?q (Parser_dispatch set_md p cur i) (Parser_dispatch set_md p cur (ext ys i))"
        using hi n80 unfolding Parser_dispatch_def Let_def
        by (intro outcome_if outcome_Indexed [OF s] outcome_Indexed [OF v]) simp_all
      then show ?thesis using same [OF n80] by blast
    qed
  qed
qed

definition same_frame :: "'b hpack_parser \<Rightarrow> 'b hpack_parser \<Rightarrow> bool" where
  "same_frame p q \<longleftrightarrow> unparsed_bytes q = unparsed_bytes p \<and> hp_boundary q = hp_boundary p \<and> hp_priority q = hp_priority p"

lemma same_frame_simps [simp]:
  "same_frame p p" "same_frame p (q\<lparr>hp_table := t\<rparr>) = same_frame p q" "same_frame p (q\<lparr>dynamic_table_updates_allowed := n\<rparr>) = same_frame p q"
  "same_frame (p\<lparr>dynamic_table_updates_allowed := n\<rparr>) q = same_frame p q"
  by (simp_all add: same_frame_def)

lemma same_frame_trans: "same_frame p q \<Longrightarrow> same_frame q r \<Longrightarrow> same_frame p r"
  by (simp add: same_frame_def)

lemma EmitHeader_frame: "EmitHeader set_md m p i = (ok, p', i') \<Longrightarrow> same_frame p p'"
  by (auto simp: EmitHeader_def same_frame_def Let_def split: option.splits if_splits prod.splits)

lemma Omit_frame: "FinishHeaderOmitFromTable set_md p r = Some (ok, p', i') \<Longrightarrow> same_frame p p'"
  by (auto simp: FinishHeaderOmitFromTable_def dest: EmitHeader_frame split: option.splits)

lemma Add_frame: "FinishHeaderAndAddToTable set_md p r = Some (ok, p', i') \<Longrightarrow> same_frame p p'"
  by (auto simp: FinishHeaderAndAddToTable_def dest: EmitHeader_frame split: option.splits prod.splits sum.splits)

lemma Indexed_frame: "FinishIndexed set_md p r = Some (ok, p', i') \<Longrightarrow> same_frame p p'"
  by (auto simp: FinishIndexed_def Let_def dest: Omit_frame split: option.splits prod.splits)

lemma MaxSize_frame: "FinishMaxTableSize p r = Some (ok, p', i') \<Longrightarrow> same_frame p p'"
  by (auto simp: FinishMaxTableSize_def Let_def split: option.splits prod.splits sum.splits if_splits)

lemma dispatch_frame: "Parser_dispatch set_md p cur i = Some (ok, p', i') \<Longrightarrow> same_frame p p'"
  unfolding Parser_dispatch_def Let_def
  by (auto dest: Omit_frame Add_frame Indexed_frame MaxSize_frame split: if_splits)

lemma parse_loop_Nil: "parse_loop set_md p (Input_init []) = Some (True, p, Input_init [])"
  by (subst parse_loop.simps) (simp add: end_of_stream_def Input_init_def)

lemma parse_loop_Cons:
  "parse_loop set_md p (Input_init (b # bs)) =
     (case Parser_dispatch set_md p b ((Input_init (b # bs))\<lparr>in_rest := bs\<rparr>) of
        None \<Rightarrow> None
      | Some (ok, p', i') \<Rightarrow> if \<not> ok then Some (False, p', i') else parse_loop set_md p' (UpdateFrontier i'))"
  by (subst parse_loop.simps) (simp add: end_of_stream_def Input_init_def Parser_Parse_def Next_def)

lemma clean_frontier: "clean i \<Longrightarrow> UpdateFrontier i = Input_init (in_rest i)"
  by (simp add: UpdateFrontier_def Input_init_def clean_def)

text \<open>A block in two parts: what the loop makes of the first part can be continued with the second.\<close>

lemma parse_loop_split:
  "case parse_loop set_md p (Input_init xs) of
     None \<Rightarrow> parse_loop set_md p (Input_init (xs @ ys)) = None
   | Some (ok, p', i') \<Rightarrow>
       same_frame p p' \<and>
       (if ok then parse_loop set_md p (Input_init (xs @ ys)) = parse_loop set_md p' (Input_init ys)
        else if in_eof i'
        then parse_loop set_md p (Input_init (xs @ ys)) = parse_loop set_md p' (Input_init (in_frontier i' @ ys))
        else in_error i' \<noteq> None \<and>
          (\<exists>i2. parse_loop set_md p (Input_init (xs @ ys)) = Some (False, p', i2) \<and> in_error i2 = in_error i' \<and> \<not> in_eof i2))"
proof (induction xs arbitrary: p rule: length_induct)
  case (1 xs)
  show ?case
  proof (cases xs)
    case Nil
    then show ?thesis by (simp add: parse_loop_Nil)
  next
    case (Cons b bs)
    let ?i = "(Input_init (b # bs))\<lparr>in_rest := bs\<rparr>"
    have c: "clean ?i" by (simp add: Input_init_def clean_def)
    have e: "ext ys ?i = (Input_init (b # bs @ ys))\<lparr>in_rest := bs @ ys\<rparr>" by (simp add: ext_def Input_init_def)
    obtain q where q: "outcome_extends ys ?i q (Parser_dispatch set_md p b ?i) (Parser_dispatch set_md p b (ext ys ?i))"
      "\<And>j. Parser_dispatch set_md q b j = Parser_dispatch set_md p b j"
      using dispatch_extends [OF c, of ys set_md p b] by blast
    show ?thesis
    proof (cases "(ys, ?i, q, Parser_dispatch set_md p b ?i, Parser_dispatch set_md p b (ext ys ?i))" rule: outcome_extends.cases)
      case 1
      then have "Parser_dispatch set_md p b ?i = None" by (metis prod.inject)
      then show ?thesis using q(1) e Cons by (simp add: parse_loop_Cons)
    next
      case (2 _ _ _ p' i' _)
      have r: "Parser_dispatch set_md p b ?i = Some (True, p', i')" using 2 by (metis prod.inject)
      with q(1) have i': "clean i'" "length (in_rest i') \<le> length bs"
        "Parser_dispatch set_md p b (ext ys ?i) = Some (True, p', ext ys i')" by auto
      have u: "UpdateFrontier (ext ys i') = Input_init (in_rest i' @ ys)"
        using i'(1) by (simp add: UpdateFrontier_def ext_def Input_init_def clean_def)
      have step: "parse_loop set_md p (Input_init (xs @ ys)) = parse_loop set_md p' (Input_init (in_rest i' @ ys))"
        "parse_loop set_md p (Input_init xs) = parse_loop set_md p' (Input_init (in_rest i'))"
        using r i' e Cons u by (simp_all add: parse_loop_Cons clean_frontier)
      have f: "same_frame p p'" using dispatch_frame [OF r] .
      from 1 [rule_format, of "in_rest i'" p'] i'(2) Cons step f same_frame_trans [OF f] show ?thesis
        by (auto split: option.splits)
    next
      case (3 _ _ _ p' i' _)
      have r: "Parser_dispatch set_md p b ?i = Some (False, p', i')" using 3 by (metis prod.inject)
      have f: "same_frame p p'" using dispatch_frame [OF r] .
      have fr: "in_frontier i' = xs" using q(1) r Cons by (simp add: Input_init_def)
      have again: "parse_loop set_md q (Input_init (xs @ ys)) = parse_loop set_md p (Input_init (xs @ ys))"
        using q(2) Cons by (simp add: parse_loop_Cons)
      show ?thesis
        using q(1) r e f fr again Cons by (auto simp: parse_loop_Cons)
    qed
  qed
qed

lemma ParseInput_priority:
  "ParseInput set_md (Input_init zs) l p =
     (if hp_priority p = Included then
        (if length zs < 5 then
           (if l \<and> hp_boundary p \<noteq> BoundaryNone then Some (Some IncompleteHeader, p) else Some (None, p\<lparr>unparsed_bytes := zs\<rparr>))
         else ParseInput set_md (Input_init (drop 5 zs)) l (p\<lparr>hp_priority := PriorityNone\<rparr>))
      else ParseInput set_md (Input_init zs) l p)"
  by (cases "hp_priority p")
    (simp_all add: ParseInput_def ParseInputInner_def remaining_def Advance_def UpdateFrontier_def UnexpectedEOF_def Input_init_def)

lemma unparsed_same: "unparsed_bytes p = [] \<Longrightarrow> p\<lparr>unparsed_bytes := []\<rparr> = p"
  by (cases p) simp

lemma HPackParser_Parse_unparsed:
  "HPackParser_Parse set_md bs l p = ParseInput set_md (Input_init (unparsed_bytes p @ bs)) l (p\<lparr>unparsed_bytes := []\<rparr>)"
  by (simp add: HPackParser_Parse_def unparsed_same)

text \<open>The rest of a run, given the outcome on a first part.\<close>

definition continue_with :: "(md memento \<Rightarrow> 'b \<Rightarrow> bool \<times> 'b) \<Rightarrow> bytes \<Rightarrow> (hpack_error option \<times> 'b hpack_parser) crashable
    \<Rightarrow> (hpack_error option \<times> 'b hpack_parser) crashable" where
  "continue_with set_md ys r =
     (case r of None \<Rightarrow> None | Some (Some e, p') \<Rightarrow> Some (Some e, p') | Some (None, p') \<Rightarrow> HPackParser_Parse set_md ys True p')"

lemma ParseInput_split_plain:
  assumes "unparsed_bytes p = []" "hp_priority p = PriorityNone"
  shows "ParseInput set_md (Input_init (zs @ ys)) True p = continue_with set_md ys (ParseInput set_md (Input_init zs) False p)"
proof -
  have loop: "ParseInputInner set_md q i = parse_loop set_md q i" if "same_frame p q" for q i
    using that assms by (simp add: ParseInputInner_def same_frame_def)
  show ?thesis
  proof (cases "parse_loop set_md p (Input_init zs)")
    case None
    then show ?thesis using parse_loop_split [of set_md p zs ys] loop [of p] by (simp add: ParseInput_def continue_with_def)
  next
    case (Some r)
    obtain ok p' i' where r: "r = (ok, p', i')" by (metis prod.exhaust)
    note sp = parse_loop_split [of set_md p zs ys, unfolded Some r, simplified]
    have f: "same_frame p p'" using sp by blast
    have u: "unparsed_bytes p' = []" using f assms(1) by (simp add: same_frame_def)
    show ?thesis
    proof (cases ok)
      case True
      then show ?thesis using sp r Some loop [of p] loop [OF f] u
        by (simp add: ParseInput_def continue_with_def HPackParser_Parse_unparsed unparsed_same)
    next
      case False
      show ?thesis
      proof (cases "in_eof i'")
        case True
        then have "ParseInput set_md (Input_init zs) False p = Some (None, p'\<lparr>unparsed_bytes := in_frontier i'\<rparr>)"
          using False r Some loop [of p] by (simp add: ParseInput_def)
        moreover have "parse_loop set_md p (Input_init (zs @ ys)) = parse_loop set_md p' (Input_init (in_frontier i' @ ys))"
          using sp True False by simp
        ultimately show ?thesis using loop [of p] loop [OF f] u
          by (simp add: ParseInput_def continue_with_def HPackParser_Parse_unparsed unparsed_same)
      next
        case no_eof: False
        then obtain e i2 where "in_error i' = Some e" "parse_loop set_md p (Input_init (zs @ ys)) = Some (False, p', i2)"
          "in_error i2 = Some e" "\<not> in_eof i2" using sp False by auto
        then show ?thesis using no_eof False r Some loop [of p] by (simp add: ParseInput_def continue_with_def TakeError_def)
      qed
    qed
  qed
qed

lemma ParseInput_split:
  assumes "unparsed_bytes p = []"
  shows "ParseInput set_md (Input_init (zs @ ys)) True p = continue_with set_md ys (ParseInput set_md (Input_init zs) False p)"
proof (cases "hp_priority p")
  case PriorityNone
  then show ?thesis using ParseInput_split_plain [OF assms] by simp
next
  case Included
  show ?thesis
  proof (cases "length zs < 5")
    case True
    then show ?thesis
      using Included assms ParseInput_priority [of set_md zs False p]
      by (simp add: continue_with_def HPackParser_Parse_unparsed unparsed_same)
  next
    case False
    then show ?thesis
      using Included ParseInput_priority [of set_md zs False p] ParseInput_priority [of set_md "zs @ ys" True p]
        ParseInput_split_plain [of "p\<lparr>hp_priority := PriorityNone\<rparr>" set_md "drop 5 zs" ys] assms by simp
  qed
qed

text \<open>The parser can be suspended at any byte of a header block.\<close>

interpretation hpp: resumable "HPackParser_Parse set_md" "\<lambda>_ _. True" for set_md
proof
  fix xs ys :: bytes and p :: "'a hpack_parser"
  have "HPackParser_Parse set_md (xs @ ys) True p = continue_with set_md ys (HPackParser_Parse set_md xs False p)"
    using ParseInput_split [of "p\<lparr>unparsed_bytes := []\<rparr>" set_md "unparsed_bytes p @ xs" ys] by (simp add: HPackParser_Parse_unparsed)
  then show "HPackParser_Parse set_md (xs @ ys) True p =
      (case HPackParser_Parse set_md xs False p of
         None \<Rightarrow> None | Some (Some e, s') \<Rightarrow> Some (Some e, s') | Some (None, s') \<Rightarrow> HPackParser_Parse set_md ys True s')"
    by (simp add: continue_with_def)
qed simp

section \<open>The parser is total\<close>

text \<open>The table's entries know their size exactly, and the decoder's bound comes from a setting that is at most \<open>2 ^ 31 - 1\<close>.\<close>

definition exact_memento :: "md memento \<Rightarrow> bool" where
  "exact_memento m \<longleftrightarrow> (case mem_value m of None \<Rightarrow> False | Some (k, v) \<Rightarrow> transport_size m = length k + length v + 32)"

definition table_ok :: "md hpack_table \<Rightarrow> bool" where
  "table_ok t \<longleftrightarrow> dec_ok t \<and> length (static_metadata t) = 61 \<and> max_bytes t \<le> 2 ^ 31 \<and> current_table_bytes t \<le> 2 ^ 31 \<and>
     list_all (\<lambda>m. exact_memento m \<and> transport_size m \<le> 2 ^ 31) (static_metadata t) \<and> list_all exact_memento (dec_abs t)"

lemma total_member: "x \<in> set xs \<Longrightarrow> sz x \<le> total_size sz xs"
  by (induction xs) auto

lemma Lookup_total:
  assumes "table_ok t" "0 < k" "k < 2 ^ 32"
  shows "\<exists>r. HPackTable_Lookup k t = Some r \<and> (\<forall>m. r = Some m \<longrightarrow> exact_memento m \<and> transport_size m \<le> 2 ^ 31)"
proof (cases "k \<le> 61")
  case True
  then have "exact_memento (static_metadata t ! (k - 1)) \<and> transport_size (static_metadata t ! (k - 1)) \<le> 2 ^ 31" using assms by (auto simp: table_ok_def list_all_length)
  then show ?thesis using True assms by (simp add: HPackTable_Lookup_def table_ok_def kLastStaticEntry_def)
next
  case False
  define j where "j = k - 62"
  then have j: "k = 62 + j" using False by simp
  have d: "dec_ok t" using assms(1) by (simp add: table_ok_def)
  show ?thesis
  proof (cases "j < num_entries t")
    case True
    let ?m = "dec_abs t ! (num_entries t - 1 - j)"
    have m: "?m \<in> set (dec_abs t)" using True by (intro nth_mem) (simp add: dec_abs_def)
    have "exact_memento ?m" using assms(1) m by (simp add: table_ok_def list_all_iff)
    moreover have "transport_size ?m \<le> 2 ^ 31"
      using total_member [OF m, of transport_size] assms(1) by (simp add: table_ok_def dec_ok_def)
    ultimately show ?thesis using Lookup_dynamic [OF d True] j by simp
  next
    case False
    then show ?thesis using Lookup_invalid [OF d, of j] j assms(3) by simp
  qed
qed

lemma list_all_evict: "list_all P xs \<Longrightarrow> list_all P (evict sz n xs)"
  using set_evict [of sz n xs] by (auto simp: list_all_iff)

lemma SetCurrentTableSize_total:
  assumes "table_ok t"
  shows "\<exists>r. HPackTable_SetCurrentTableSize n t = Some r \<and> (\<forall>u. r = Inr u \<longrightarrow> table_ok u)"
proof -
  consider "current_table_bytes t = n" | "current_table_bytes t \<noteq> n" "max_bytes t < n" | "n \<le> max_bytes t" by linarith
  then show ?thesis
  proof cases
    case 3
    then obtain u where "HPackTable_SetCurrentTableSize n t = Some (Inr u)" "dec_ok u" "max_bytes u = max_bytes t"
      "current_table_bytes u = n" "static_metadata u = static_metadata t" "dec_abs u = evict transport_size n (dec_abs t)"
      using SetCurrentTableSize_ok [of t n] assms by (auto simp: table_ok_def)
    then show ?thesis using 3 assms list_all_evict [of exact_memento] by (auto simp: table_ok_def)
  qed (use assms in \<open>simp_all add: HPackTable_SetCurrentTableSize_def\<close>)
qed

lemma Add_total:
  assumes "table_ok t" "exact_memento m"
  shows "\<exists>r. HPackTable_Add m t = Some r \<and> (\<forall>u. r = Inr u \<longrightarrow> table_ok u)"
proof (cases "max_bytes t < current_table_bytes t")
  case True
  then show ?thesis by (simp add: HPackTable_Add_def)
next
  case False
  have m: "32 \<le> transport_size m" using assms(2) by (auto simp: exact_memento_def split: option.splits)
  obtain u where "HPackTable_Add m t = Some (Inr u)" "dec_ok u" "max_bytes u = max_bytes t"
    "current_table_bytes u = current_table_bytes t" "static_metadata u = static_metadata t"
    "list_all exact_memento (dec_abs u)"
    using Add_ok [of t m] m assms False list_all_evict [of exact_memento] by (auto simp: table_ok_def split: if_splits)
  then show ?thesis using assms by (auto simp: table_ok_def)
qed

text \<open>A decoded string is at most twice as long as the input it was read from, so the size of an entry does not wrap.\<close>

definition bounded :: "bytes reader \<Rightarrow> bool" where
  "bounded m \<longleftrightarrow> (\<forall>i x i'. m i = (Some x, i') \<longrightarrow> length x \<le> 2 * length (in_rest i))"

lemma huff_bytes_length:
  fixes f :: "'o \<Rightarrow> nat"
  assumes "\<And>o' c. f (out o' c) \<le> Suc (f o')"
  shows "f (snd (foldl (huff_byte out) so bs)) \<le> f (snd so) + 2 * length bs"
proof (induction bs rule: rev_induct)
  case (snoc b bs)
  have n: "f (snd (huff_nibble out so k)) \<le> Suc (f (snd so))" for so k
    using assms [of "snd so"] le_SucI [OF order_refl] by (simp add: huff_nibble_def Let_def)
  have "f (snd (huff_byte out so' b)) \<le> f (snd so') + 2" for so'
    using n [of "huff_nibble out so' (unat (drop_bit 4 b))" "unat (b AND 0xf)"] n [of so' "unat (drop_bit 4 b)"] by (simp add: huff_byte_def)
  from this [of "foldl (huff_byte out) so bs"] snoc show ?case by simp
qed simp

lemma quads_length: "unbase64_quads out cur = Some x \<Longrightarrow> length x \<le> length out + length cur"
  by (induction out cur arbitrary: x rule: unbase64_quads.induct) (auto simp: Let_def intro: le_SucI split: if_splits)

lemma Unbase64Loop_length: "Unbase64Loop bs = Some x \<Longrightarrow> length x \<le> length bs"
  using quads_length [of "[]"] length_dropWhile_le [of "\<lambda>b. b = 61" "rev bs"] by (fastforce simp: Unbase64Loop_def)

lemma ParseHuff_length:
  assumes "ParseHuff len out acc i = (Some x, i')" "\<And>o' c. f (out o' c) \<le> Suc (f o')"
  shows "f x \<le> f acc + 2 * length (in_rest i)"
proof -
  have x: "x = snd (foldl (huff_byte out) (0, acc) (take (unat len) (in_rest i)))"
    using assms(1) by (auto simp: ParseHuff_def split: if_splits)
  have "2 * length (take (unat len) (in_rest i)) \<le> 2 * length (in_rest i)" by simp
  with huff_bytes_length [of f out "(0, acc)" "take (unat len) (in_rest i)", OF assms(2)] show ?thesis unfolding x by simp
qed

lemma ParseStringPrefix_length: "clean i \<Longrightarrow> ParseStringPrefix i = (Some x, i') \<Longrightarrow> clean i' \<and> length (in_rest i') \<le> length (in_rest i)"
  using stable_ParseStringPrefix unfolding prefix_stable_def by (metis extends.simps(1))

lemma String_Parse_length:
  assumes "clean i" "String_Parse i = (Some x, i')"
  shows "length x \<le> 2 * length (in_rest i)"
proof -
  obtain pfx i1 where p: "ParseStringPrefix i = (Some pfx, i1)"
    using assms(2) by (auto simp: String_Parse_def read_then_def split: prod.splits option.splits)
  have le: "length (in_rest i1) \<le> length (in_rest i)" using ParseStringPrefix_length [OF assms(1) p] by simp
  show ?thesis
  proof (cases "sp_huff pfx")
    case True
    then have "ParseHuff (sp_length pfx) (\<lambda>out c. out @ [c]) [] i1 = (Some x, i')" using assms(2) p by (simp add: String_Parse_def read_then_def)
    from ParseHuff_length [OF this, of length] le show ?thesis by simp
  next
    case False
    then show ?thesis using assms(2) p le by (auto simp: String_Parse_def read_then_def ParseUncompressed_def split: if_splits)
  qed
qed

lemma String_ParseBinary_length:
  assumes "clean i" "String_ParseBinary i = (Some x, i')"
  shows "length x \<le> 2 * length (in_rest i)"
proof -
  obtain pfx i1 where p: "ParseStringPrefix i = (Some pfx, i1)"
    using assms(2) by (auto simp: String_ParseBinary_def read_then_def split: prod.splits option.splits)
  have le: "length (in_rest i1) \<le> length (in_rest i)" using ParseStringPrefix_length [OF assms(1) p] by simp
  show ?thesis
  proof (cases "sp_huff pfx")
    case True
    obtain st out i2 where h: "ParseHuff (sp_length pfx) bin_output (kUnsure, []) i1 = (Some (st, out), i2)"
      using assms(2) p True by (auto simp: String_ParseBinary_def read_then_def split: prod.splits option.splits)
    have "length (snd (bin_output o' c)) \<le> Suc (length (snd o'))" for o' c by (cases o') (auto simp: bin_output_def)
    from ParseHuff_length [OF h, of "\<lambda>o'. length (snd o')", OF this] le have "length out \<le> 2 * length (in_rest i)" by simp
    moreover have "length x \<le> length out"
      using assms(2) p True h Unbase64Loop_length [of out]
      by (cases st) (auto simp: String_ParseBinary_def read_then_def Unbase64_def split: option.splits)
    ultimately show ?thesis by simp
  next
    case False
    then show ?thesis
      using assms(2) p le Unbase64Loop_length
      by (fastforce simp: String_ParseBinary_def read_then_def ParseUncompressed_def Unbase64_def Advance_def remaining_def
          split: if_splits option.splits)
  qed
qed

lemma ParseValueString_length: "clean i \<Longrightarrow> ParseValueString b i = (Some x, i') \<Longrightarrow> length x \<le> 2 * length (in_rest i)"
  using String_Parse_length String_ParseBinary_length by (auto simp: ParseValueString_def split: if_splits)

lemma exact_mk: "length k + length v + 32 < 2 ^ 32 \<Longrightarrow> exact_memento (mk_memento k v)"
  by (simp add: exact_memento_def mk_memento_def TransportSize_def)

lemma ParseLiteralKey_exact:
  assumes "clean i" "length (in_rest i) < 2 ^ 28" "ParseLiteralKey i = (Some m, i')"
  shows "exact_memento m"
proof -
  obtain k i1 where k: "String_Parse i = (Some k, i1)"
    using assms(3) by (auto simp: ParseLiteralKey_def read_then_def split: prod.splits option.splits)
  have i1: "clean i1" "length (in_rest i1) \<le> length (in_rest i)"
    using stable_String_Parse assms(1) k unfolding prefix_stable_def by (metis extends.simps(1))+
  obtain v i2 where "ParseValueString (grpc_key_is_binary_header k) i1 = (Some v, i2)" and m: "m = mk_memento k v"
    using assms(3) k by (auto simp: ParseLiteralKey_def read_then_def split: prod.splits option.splits)
  then have "length v \<le> 2 * length (in_rest i1)" using ParseValueString_length [OF i1(1)] by blast
  with String_Parse_length [OF assms(1) k] i1(2) assms(2) show ?thesis unfolding m by (intro exact_mk) simp
qed

text \<open>An index read as a variable-length integer is at least its offset, so it is never zero.\<close>

lemma varint_fifth_ge:
  assumes "varint_fifth v i = (Some w, i')"
  shows "v \<le> w"
proof -
  obtain b i1 where b: "Next i = (Some b, i1)"
    using assms by (auto simp: varint_fifth_def read_then_def split: prod.splits option.splits)
  define c where "c = (ucast b AND 0x7f :: u32)"
  define x where "x = push_bit 28 c"
  have *: "\<not> 0xffffffff - v < x \<and> w = v + x"
    using assms unfolding varint_fifth_def read_then_def b prod.case option.case Let_def c_def [symmetric] x_def [symmetric]
    by (auto simp: ParseVarintOutOfRange_def varint_last_def split: prod.splits option.splits if_splits)
  have v: "unat v < 2 ^ 32" using unsigned_less [of v] by simp
  then have "v \<le> 0xffffffff" by (simp add: word_le_nat_alt)
  then have "unat (0xffffffff - v) = 2 ^ 32 - 1 - unat v" using unat_sub [of v "0xffffffff"] by simp
  then have "unat v + unat x < 2 ^ 32" using * v unfolding word_less_nat_alt by linarith
  then have "unat (v + x) = unat v + unat x" by (simp add: unat_word_ariths)
  then show ?thesis using * by (simp add: word_le_nat_alt)
qed

lemma varint_more_ge:
  assumes "varint_more s k v i = (Some w, i')" "s \<le> 21" "unat v < 2 ^ 8 + 2 ^ s"
    and "\<And>v i w i'. k v i = (Some w, i') \<Longrightarrow> unat v < 2 ^ 8 + 2 ^ (s + 7) \<Longrightarrow> unat v \<le> unat w"
  shows "unat v \<le> unat w"
proof -
  obtain b i1 where b: "Next i = (Some b, i1)" using assms(1) by (auto simp: varint_more_def read_then_def split: prod.splits option.splits)
  define c where "c = (ucast b AND 0x7f :: u32)"
  define x where "x = v + push_bit s c"
  have "2 ^ s \<le> (2 ^ 21 :: nat)" using assms(2) by (rule power_increasing) simp
  then have x: "unat x = unat v + 2 ^ s * unat (b AND 0x7f)" unfolding x_def c_def using assms(2,3) by (intro low7_shift) auto
  have "2 ^ s * (unat (b AND 0x7f) + 1) \<le> 2 ^ s * (2 ^ 7 :: nat)" using low7_less [of b] by (intro mult_le_mono2) simp
  then have "2 ^ s * unat (b AND 0x7f) + 2 ^ s \<le> (2 ^ (s + 7) :: nat)" by (simp add: power_add)
  then have lt: "unat x < 2 ^ 8 + 2 ^ (s + 7)" using x assms(3) by linarith
  have "(if b AND 0x80 = 0 then (Some x, i1) else k x i1) = (Some w, i')"
    using assms(1) unfolding varint_more_def read_then_def b prod.case option.case Let_def c_def [symmetric] x_def [symmetric]
    by (auto split: if_splits)
  then show ?thesis using x assms(4) [OF _ lt, of i1 w i'] by (auto split: if_splits)
qed

lemma ParseVarint_ge:
  assumes "ParseVarint v i = (Some w, i')" "unat v \<le> 255"
  shows "unat v \<le> unat w"
proof -
  have five: "varint_fifth v i = (Some w, i') \<Longrightarrow> unat v < 2 ^ 8 + 2 ^ (21 + 7) \<Longrightarrow> unat v \<le> unat w" for v i w i'
    using varint_fifth_ge by (simp add: word_le_nat_alt)
  have four: "varint_more 21 varint_fifth v i = (Some w, i') \<Longrightarrow> unat v < 2 ^ 8 + 2 ^ (14 + 7) \<Longrightarrow> unat v \<le> unat w" for v i w i'
    using varint_more_ge [of 21 varint_fifth v i w i'] five by simp
  have three: "varint_more 14 (varint_more 21 varint_fifth) v i = (Some w, i') \<Longrightarrow> unat v < 2 ^ 8 + 2 ^ (7 + 7) \<Longrightarrow> unat v \<le> unat w" for v i w i'
    using varint_more_ge [of 14 "varint_more 21 varint_fifth" v i w i'] four by simp
  have two: "varint_more 7 (varint_more 14 (varint_more 21 varint_fifth)) v i = (Some w, i') \<Longrightarrow> unat v < 2 ^ 8 + 2 ^ (0 + 7) \<Longrightarrow>
      unat v \<le> unat w" for v i w i'
    using varint_more_ge [of 7 "varint_more 14 (varint_more 21 varint_fifth)" v i w i'] three by simp
  show ?thesis
    using varint_more_ge [of 0 "varint_more 7 (varint_more 14 (varint_more 21 varint_fifth))" v i w i'] two assms by (simp add: ParseVarint_def)
qed

lemma nonzero_index:
  fixes cur :: u8
  shows "cur AND 0xf \<noteq> 0 \<Longrightarrow> 0 < unat (ucast (cur AND 0xf) :: u32)"
    and "drop_bit 4 cur \<in> {4, 5, 6, 7} \<Longrightarrow> drop_bit 4 cur = 4 \<longrightarrow> cur \<noteq> 0x40 \<Longrightarrow> 0 < unat (ucast (cur AND 0x3f) :: u32)"
    and "drop_bit 4 cur \<notin> {0, 1, 2, 3, 4, 5, 6, 7} \<Longrightarrow> cur \<noteq> 0x80 \<Longrightarrow> 0 < unat (ucast (cur AND 0x7f) :: u32)"
proof -
  have up: "0 < unat (ucast b :: u32)" if "b \<noteq> 0" for b :: u8
  proof -
    have "unat b < 2 ^ 32" by (rule less_trans [OF unsigned_less]) simp
    then have "unat (ucast b :: u32) = unat b" by (simp add: unsigned_ucast_eq take_bit_nat_eq_self)
    then show ?thesis using that by (simp add: unat_gt_0)
  qed
  then show "cur AND 0xf \<noteq> 0 \<Longrightarrow> 0 < unat (ucast (cur AND 0xf) :: u32)" by blast
  have b: "unat cur < 256" using unsigned_less [of cur] by simp
  have hi: "unat (drop_bit 4 cur) = unat cur div 16" unfolding unsigned_drop_bit_eq using b by (simp add: drop_bit_eq_div take_bit_nat_eq_self)
  have m: "cur AND 0x3f = take_bit 6 cur" "cur AND 0x7f = take_bit 7 cur" by (simp_all add: take_bit_eq_mask mask_eq_decr_exp)
  have lo: "unat (cur AND 0x3f) = unat cur mod 64" "unat (cur AND 0x7f) = unat cur mod 128"
    unfolding m unsigned_take_bit_eq by (simp_all add: take_bit_eq_mod)
  show "0 < unat (ucast (cur AND 0x3f) :: u32)" if a: "drop_bit 4 cur \<in> {4, 5, 6, 7}" "drop_bit 4 cur = 4 \<longrightarrow> cur \<noteq> 0x40"
  proof (rule up, rule notI)
    assume z: "cur AND 0x3f = 0"
    have "unat (drop_bit 4 cur) \<in> {4, 5, 6, 7}" using a(1) by auto
    then have "unat cur div 16 \<in> {4, 5, 6, 7}" unfolding hi .
    moreover have "unat cur mod 64 = 0" using lo(1) z by simp
    ultimately have "unat cur = unat (0x40 :: u8)" by auto
    then have "cur = 0x40" by (rule unsigned_word_eqI)
    with a(2) show False by simp
  qed
  show "0 < unat (ucast (cur AND 0x7f) :: u32)" if a: "drop_bit 4 cur \<notin> {0, 1, 2, 3, 4, 5, 6, 7}" "cur \<noteq> 0x80"
  proof (rule up, rule notI)
    assume z: "cur AND 0x7f = 0"
    have "\<not> drop_bit 4 cur < 8" using a(1) small_byte by blast
    then have "\<not> unat cur div 16 < 8" unfolding word_less_nat_alt hi by simp
    then have ge: "128 \<le> unat cur" using less_mult_imp_div_less [of "unat cur" 8 16] by linarith
    then have "unat cur mod 128 = unat cur - 128" using b by (simp add: le_mod_geq)
    then have "unat cur = unat (0x80 :: u8)" using lo(2) z ge by simp
    then have "cur = 0x80" by (rule unsigned_word_eqI)
    with a(2) show False by simp
  qed
qed

lemma WithNewValue_exact:
  assumes "exact_memento e" "transport_size e \<le> 2 ^ 31" "length v < 2 ^ 30"
  shows "exact_memento (WithNewValue e v)"
  using assms by (auto simp: WithNewValue_def exact_memento_def mk_memento_def TransportSize_def split: option.splits)

text \<open>A result that is no crash, with a well-formed table.\<close>

definition exact_result :: "(md memento option \<times> input) crashable \<Rightarrow> bool" where
  "exact_result r \<longleftrightarrow> (\<exists>x i. r = Some (x, i) \<and> (\<forall>m. x = Some m \<longrightarrow> exact_memento m))"

definition sound_result :: "'b parse_result \<Rightarrow> bool" where
  "sound_result r \<longleftrightarrow> (case r of None \<Rightarrow> False | Some (ok, p, i) \<Rightarrow> table_ok (hp_table p))"

lemma ParseIdxKey_total:
  assumes "table_ok t" "0 < unat idx" "clean i" "length (in_rest i) < 2 ^ 28"
  shows "exact_result (ParseIdxKey t idx i)"
proof -
  have "unat idx < 2 ^ 32" using unsigned_less [of idx] by simp
  then obtain r where r: "HPackTable_Lookup (unat idx) t = Some r" and e: "\<And>m. r = Some m \<Longrightarrow> exact_memento m \<and> transport_size m \<le> 2 ^ 31"
    using Lookup_total [OF assms(1,2)] by blast
  show ?thesis
  proof (cases r)
    case (Some m)
    obtain x i' where x: "ParseValueString (is_binary_header m) i = (x, i')" by fastforce
    have "length v < 2 ^ 30" if "x = Some v" for v using ParseValueString_length [OF assms(3), of _ v i'] x that assms(4) by fastforce
    then show ?thesis
      using r Some x e [OF Some] WithNewValue_exact by (cases x) (auto simp: ParseIdxKey_def exact_result_def read_then_def)
  qed (simp add: ParseIdxKey_def exact_result_def r)
qed

lemma ParseVarIdxKey_total:
  assumes "table_ok t" "0 < unat off" "unat off \<le> 255" "clean i" "length (in_rest i) < 2 ^ 28"
  shows "exact_result (ParseVarIdxKey t off i)"
proof -
  obtain r i' where r: "ParseVarint off i = (r, i')" by fastforce
  show ?thesis
  proof (cases r)
    case (Some idx)
    have "clean i'" "length (in_rest i') \<le> length (in_rest i)"
      using stable_ParseVarint assms(4) r Some unfolding prefix_stable_def by (metis extends.simps(1))+
    moreover have "0 < unat idx" using ParseVarint_ge [of off i idx i'] r Some assms(2,3) by simp
    ultimately show ?thesis using ParseIdxKey_total [OF assms(1), of idx i'] r Some assms(5) by (simp add: ParseVarIdxKey_def)
  qed (simp add: ParseVarIdxKey_def exact_result_def r)
qed

lemma EmitHeader_table: "hp_table (fst (snd (EmitHeader set_md m p i))) = hp_table p"
  by (auto simp: EmitHeader_def Let_def split: option.splits prod.splits)

lemma sound_Omit:
  assumes "table_ok (hp_table p)" "exact_result r"
  shows "sound_result (FinishHeaderOmitFromTable set_md p r)"
proof -
  obtain x i where r: "r = Some (x, i)" using assms(2) by (auto simp: exact_result_def)
  show ?thesis
  proof (cases x)
    case (Some m)
    obtain ok p1 i1 where p1: "EmitHeader set_md m p i = (ok, p1, i1)" using prod_cases3 by blast
    then have "hp_table p1 = hp_table p" using EmitHeader_table [of set_md m p i] by simp
    then show ?thesis using r Some p1 assms(1) by (simp add: sound_result_def FinishHeaderOmitFromTable_def)
  qed (use r assms(1) in \<open>simp add: sound_result_def FinishHeaderOmitFromTable_def\<close>)
qed

lemma sound_Add:
  assumes "table_ok (hp_table p)" "exact_result r"
  shows "sound_result (FinishHeaderAndAddToTable set_md p r)"
proof -
  obtain x i where r: "r = Some (x, i)" and e: "\<And>m. x = Some m \<Longrightarrow> exact_memento m" using assms(2) by (auto simp: exact_result_def)
  show ?thesis
  proof (cases x)
    case (Some m)
    obtain ok p1 i1 where p1: "EmitHeader set_md m p i = (ok, p1, i1)" using prod_cases3 by blast
    then have t: "hp_table p1 = hp_table p" using EmitHeader_table [of set_md m p i] by simp
    obtain a where "HPackTable_Add m (hp_table p) = Some a" "\<And>u. a = Inr u \<Longrightarrow> table_ok u" using Add_total [OF assms(1) e [OF Some]] by blast
    then show ?thesis using r Some p1 t assms(1) by (cases a) (auto simp: sound_result_def FinishHeaderAndAddToTable_def)
  qed (use r assms(1) in \<open>simp add: sound_result_def FinishHeaderAndAddToTable_def\<close>)
qed

lemma sound_Indexed:
  assumes "table_ok (hp_table p)" "\<And>idx. fst r = Some idx \<Longrightarrow> 0 < unat idx"
  shows "sound_result (FinishIndexed set_md p r)"
proof (cases r)
  case (Pair x i)
  show ?thesis
  proof (cases x)
    case (Some idx)
    have "0 < unat idx" "unat idx < 2 ^ 32" using assms(2) [of idx] Pair Some unsigned_less [of idx] by simp_all
    then obtain e where "HPackTable_Lookup (unat idx) (hp_table p) = Some e" "\<And>m. e = Some m \<Longrightarrow> exact_memento m"
      using Lookup_total [OF assms(1)] by blast
    then show ?thesis
      using Pair Some assms(1) sound_Omit [of "p\<lparr>dynamic_table_updates_allowed := 0\<rparr>" "Some (e, i)" set_md]
      by (cases e) (auto simp: FinishIndexed_def sound_result_def exact_result_def)
  qed (use Pair assms(1) in \<open>simp add: FinishIndexed_def sound_result_def\<close>)
qed

lemma sound_MaxSize:
  assumes "table_ok (hp_table p)"
  shows "sound_result (FinishMaxTableSize p r)"
proof (cases r)
  case (Pair x i)
  show ?thesis
  proof (cases x)
    case (Some sz)
    obtain a where "HPackTable_SetCurrentTableSize (unat sz) (hp_table p) = Some a" "\<And>u. a = Inr u \<Longrightarrow> table_ok u"
      using SetCurrentTableSize_total [OF assms] by blast
    then show ?thesis using Pair Some assms by (cases a) (auto simp: FinishMaxTableSize_def Let_def sound_result_def)
  qed (use Pair assms(1) in \<open>simp add: FinishMaxTableSize_def sound_result_def\<close>)
qed

lemma sound_if: "(c \<Longrightarrow> sound_result a) \<Longrightarrow> (\<not> c \<Longrightarrow> sound_result b) \<Longrightarrow> sound_result (if c then a else b)"
  by simp

lemma dispatch_sound:
  assumes "table_ok (hp_table p)" "clean i" "length (in_rest i) < 2 ^ 28"
  shows "sound_result (Parser_dispatch set_md p cur i)"
proof -
  have lit: "exact_result (Some (ParseLiteralKey i))"
    using ParseLiteralKey_exact [OF assms(2,3)] by (cases "ParseLiteralKey i") (auto simp: exact_result_def)
  note idx = ParseIdxKey_total [OF assms(1) _ assms(2,3)] and var = ParseVarIdxKey_total [OF assms(1) _ _ assms(2,3)]
  have v: "0 < unat k" if "fst (ParseVarint 0x7f i) = Some k" for k
    using ParseVarint_ge [of "0x7f" i k "snd (ParseVarint 0x7f i)"] that by (cases "ParseVarint 0x7f i") simp
  have five: "0 < unat (ucast (cur AND 0x3f) :: u32)"
    if "\<not> (drop_bit 4 cur = 4 \<and> cur = 0x40)" "drop_bit 4 cur = 4 \<or> drop_bit 4 cur = 5 \<or> drop_bit 4 cur = 6"
    using that nonzero_index(2) [of cur] by auto
  note fin = sound_Omit [OF assms(1)] sound_Add [OF assms(1)] sound_MaxSize [OF assms(1)] sound_Indexed [OF assms(1)]
  show ?thesis
    unfolding Parser_dispatch_def Let_def
    by (intro sound_if fin lit idx var)
      (use assms(1) v nonzero_index [of cur] five in \<open>simp_all add: sound_result_def\<close>)
qed


lemma parse_loop_sound:
  "table_ok (hp_table p) \<Longrightarrow> length bs < 2 ^ 28 \<Longrightarrow> sound_result (parse_loop set_md p (Input_init bs))"
proof (induction bs arbitrary: p rule: length_induct)
  case (1 bs)
  show ?case
  proof (cases bs)
    case Nil
    then show ?thesis using "1.prems" by (simp add: parse_loop_Nil sound_result_def)
  next
    case (Cons b cs)
    let ?i = "(Input_init (b # cs))\<lparr>in_rest := cs\<rparr>"
    have c: "clean ?i" by (simp add: Input_init_def clean_def)
    have "sound_result (Parser_dispatch set_md p b ?i)" using dispatch_sound [OF "1.prems"(1) c] "1.prems"(2) Cons by simp
    then obtain ok p' i' where r: "Parser_dispatch set_md p b ?i = Some (ok, p', i')" and t: "table_ok (hp_table p')"
      by (auto simp: sound_result_def split: option.splits prod.splits)
    show ?thesis
    proof (cases ok)
      case True
      obtain q where "outcome_extends [] ?i q (Parser_dispatch set_md p b ?i) (Parser_dispatch set_md p b (ext [] ?i))"
        using dispatch_extends [OF c, of "[]" set_md p b] by blast
      then have i': "clean i'" "length (in_rest i') \<le> length cs" using r True by simp_all
      then have "sound_result (parse_loop set_md p' (Input_init (in_rest i')))"
        using "1.IH" [rule_format, of "in_rest i'" p'] "1.prems"(2) Cons t by simp
      then show ?thesis using r True Cons clean_frontier [OF i'(1)] by (simp add: parse_loop_Cons)
    next
      case False
      then show ?thesis using r t Cons by (simp add: parse_loop_Cons sound_result_def)
    qed
  qed
qed

lemma ParseInputInner_sound:
  assumes "table_ok (hp_table p)" "length bs < 2 ^ 28"
  shows "sound_result (ParseInputInner set_md p (Input_init bs))"
proof -
  have "UpdateFrontier (Advance 5 (Input_init bs)) = Input_init (drop 5 bs)" by (simp add: UpdateFrontier_def Advance_def Input_init_def)
  then show ?thesis
    using assms parse_loop_sound [of p bs set_md] parse_loop_sound [of "p\<lparr>hp_priority := PriorityNone\<rparr>" "drop 5 bs" set_md]
    by (cases "hp_priority p") (auto simp: ParseInputInner_def sound_result_def)
qed

section \<open>Properties\<close>

text \<open>C30: a header block may be cut into slices at any place, also inside a string or a variable-length integer: parsing the slices one after the
  other gives the same result, the same parser state and the same error as parsing the whole block at once.\<close>

theorem hpack_slicing:
  fixes set_md :: "md memento \<Rightarrow> 'b \<Rightarrow> bool \<times> 'b"
  assumes "xss \<noteq> []" "list_all (\<lambda>x. x \<noteq> []) xss"
  shows "feed_slices (HPackParser_Parse set_md) xss p = HPackParser_Parse set_md (concat xss) True p"
  using hpp.feed_concat [OF assms] by simp

theorem hpack_slicing_witness:
  "feed_slices (HPackParser_Parse (\<lambda>m b. (True, m # b))) [[0x40, 1], [0x61, 1], [0x62]]
     (HPackParser_BeginFrame (Some []) 1000 EndOfHeaders PriorityNone (HPackParser_init [])) =
   HPackParser_Parse (\<lambda>m b. (True, m # b)) [0x40, 1, 0x61, 1, 0x62] True
     (HPackParser_BeginFrame (Some []) 1000 EndOfHeaders PriorityNone (HPackParser_init []))"
  using hpack_slicing [of "[[0x40, 1], [0x61, 1], [0x62]]" "\<lambda>m b. (True, m # b)"
      "HPackParser_BeginFrame (Some []) 1000 EndOfHeaders PriorityNone (HPackParser_init [])"] by simp

end
