(* ===== verification/Hpack_Framer.thy ===== *)
theory Hpack_Framer
  imports Hpack_Parser "HOL-Library.Monad_Syntax"
begin

text \<open>
  The framer of the HPACK encoder: the class \<open>HPackCompressor::Framer\<close> of \<^verbatim>\<open>src/core/ext/transport/chttp2/transport/hpack_encoder.h/.cc\<close> up to the choice
  between the representations of a header, which is in \<open>Hpack_Encoder\<close>.  The slice buffer is the list of its bytes, so the header
  of a frame is known by its position; the debug assertions are checked (\<open>None\<close>).  The result: whatever is has_block, the output is a
  well-formed sequence of one HEADERS and some CONTINUATION frames whose payloads are the header block.
\<close>

section \<open>Definitions\<close>

definition kDataFrameHeaderSize :: nat where "kDataFrameHeaderSize = 9"

definition FillHeader :: "u8 \<Rightarrow> u32 \<Rightarrow> nat \<Rightarrow> u8 \<Rightarrow> bytes crashable" where
  "FillHeader type sid len flags =
     (if \<not> len < 16777316 then None
      else Some ([of_nat (len div 2 ^ 16), of_nat (len div 2 ^ 8), of_nat len, type, flags] @ be32 sid))"

record framer =
  fr_max_frame_size :: nat
  fr_is_first_frame :: bool
  fr_true_binary :: bool
  fr_is_end_of_stream :: bool
  fr_stream_id :: u32
  fr_seen_regular :: bool
  fr_output :: bytes
  fr_framing_bytes :: nat
  fr_header_bytes :: nat
  fr_header_at :: nat
  fr_start :: nat

definition CurrentFrameSize :: "framer \<Rightarrow> nat crashable" where
  "CurrentFrameSize f =
     (let frame_size = length (fr_output f) - fr_start f in
      if frame_size \<le> fr_max_frame_size f then Some frame_size else None)"

definition FinishFrame :: "bool \<Rightarrow> framer \<Rightarrow> framer crashable" where
  "FinishFrame is_header_boundary f = do {
     let type = (if fr_is_first_frame f then GRPC_CHTTP2_FRAME_HEADER else GRPC_CHTTP2_FRAME_CONTINUATION);
     let flags = (0 OR (if fr_is_first_frame f \<and> fr_is_end_of_stream f then GRPC_CHTTP2_DATA_FLAG_END_STREAM else 0))
       OR (if is_header_boundary then GRPC_CHTTP2_DATA_FLAG_END_HEADERS else 0);
     len \<leftarrow> CurrentFrameSize f;
     hdr \<leftarrow> FillHeader type (fr_stream_id f) len flags;
     Some (f\<lparr>fr_output := take (fr_header_at f) (fr_output f) @ hdr @ drop (fr_header_at f + kDataFrameHeaderSize) (fr_output f),
             fr_framing_bytes := fr_framing_bytes f + kDataFrameHeaderSize,
             fr_is_first_frame := False\<rparr>) }"

definition BeginFrame :: "framer \<Rightarrow> framer" where
  "BeginFrame f =
     f\<lparr>fr_output := fr_output f @ replicate kDataFrameHeaderSize 0,
       fr_header_at := length (fr_output f),
       fr_start := length (fr_output f) + kDataFrameHeaderSize\<rparr>"

definition EnsureSpace :: "nat \<Rightarrow> framer \<Rightarrow> framer crashable" where
  "EnsureSpace need_bytes f = do {
     n \<leftarrow> CurrentFrameSize f;
     if n + need_bytes \<le> fr_max_frame_size f then Some f
     else do { f \<leftarrow> FinishFrame False f; Some (BeginFrame f) } }"

text \<open>The recursion of the source need not end when the maximum frame size is zero.\<close>

partial_function (option) Framer_Add :: "bytes \<Rightarrow> framer \<Rightarrow> framer option" where
  "Framer_Add s f =
     (if s = [] then Some f
      else
        Option.bind (CurrentFrameSize f) (\<lambda>n.
          let remaining = fr_max_frame_size f - n in
          if length s \<le> remaining
          then Some (f\<lparr>fr_header_bytes := fr_header_bytes f + length s, fr_output := fr_output f @ s\<rparr>)
          else
            Option.bind
              (FinishFrame False (f\<lparr>fr_header_bytes := fr_header_bytes f + remaining, fr_output := fr_output f @ take remaining s\<rparr>))
              (\<lambda>f. Framer_Add (drop remaining s) (BeginFrame f))))"

text \<open>The caller fills the space that \<open>AddTiny\<close> reserves; here it is given what it writes.\<close>

definition AddTiny :: "bytes \<Rightarrow> framer \<Rightarrow> framer crashable" where
  "AddTiny bs f = do {
     f \<leftarrow> EnsureSpace (length bs) f;
     Some (f\<lparr>fr_header_bytes := fr_header_bytes f + length bs, fr_output := fr_output f @ bs\<rparr>) }"

definition EmitIndexed :: "u32 \<Rightarrow> framer \<Rightarrow> framer crashable" where
  "EmitIndexed elem_index = AddTiny (VarintWriter_Write 0x80 (VarintWriter 1 elem_index))"

record wire_value =
  wv_huffman_prefix :: u8
  wv_insert_null :: bool
  wv_data :: bytes
  wv_length :: nat

definition WireValue :: "u8 \<Rightarrow> bool \<Rightarrow> bytes \<Rightarrow> wire_value" where
  "WireValue huffman_prefix insert_null s =
     \<lparr>wv_huffman_prefix = huffman_prefix, wv_insert_null = insert_null, wv_data = s, wv_length = length s + (if insert_null then 1 else 0)\<rparr>"

definition GetWireValue :: "bytes \<Rightarrow> bool \<Rightarrow> bool \<Rightarrow> wire_value crashable" where
  "GetWireValue v true_binary_enabled is_bin_hdr =
     (if is_bin_hdr then
        (if true_binary_enabled then Some (WireValue 0x00 True v)
         else map_option (WireValue 0x80 False) (grpc_chttp2_base64_encode_and_huffman_compress v))
      else Some (WireValue 0x00 False v))"

definition StringValue_prefix :: "wire_value \<Rightarrow> bytes" where
  "StringValue_prefix w =
     VarintWriter_Write (wv_huffman_prefix w) (VarintWriter 1 (of_nat (wv_length w))) @ (if wv_insert_null w then [0] else [])"

definition NonBinaryStringValue_prefix :: "bytes \<Rightarrow> bytes" where
  "NonBinaryStringValue_prefix v = VarintWriter_Write 0x00 (VarintWriter 1 (of_nat (length v)))"

definition StringKey_prefix :: "u8 \<Rightarrow> bytes \<Rightarrow> bytes" where
  "StringKey_prefix type key = type # VarintWriter_Write 0x00 (VarintWriter 1 (of_nat (length key)))"

text \<open>An element: where it is stored, the addresses that identify it and its key when they are interned, their hashes, and the bytes.\<close>

datatype mdelem_storage = EXTERNAL | STATIC | ALLOCATED | INTERNED

record mdelem =
  el_storage :: mdelem_storage
  el_payload :: nat
  el_static_index :: nat
  el_hash :: u32
  el_key_ref :: nat
  el_key_interned :: bool
  el_key_hash :: u32
  el_key :: bytes
  el_value :: bytes

definition GRPC_MDELEM_IS_INTERNED :: "mdelem \<Rightarrow> bool" where
  "GRPC_MDELEM_IS_INTERNED e \<longleftrightarrow> el_storage e = STATIC \<or> el_storage e = INTERNED"

definition DefinitelyInterned_IsBinary :: "mdelem \<Rightarrow> bool crashable" where
  "DefinitelyInterned_IsBinary e = (if el_key_ref e = 0 then None else Some (grpc_key_is_binary_header (el_key e)))"

definition UnsureIfInterned_IsBinary :: "mdelem \<Rightarrow> bool" where
  "UnsureIfInterned_IsBinary e = grpc_key_is_binary_header (el_key e)"

definition EmitLitHdrIncIdx :: "u32 \<Rightarrow> mdelem \<Rightarrow> framer \<Rightarrow> framer crashable" where
  "EmitLitHdrIncIdx key_index e f = do {
     is_bin \<leftarrow> DefinitelyInterned_IsBinary e;
     emit \<leftarrow> GetWireValue (el_value e) (fr_true_binary f) is_bin;
     f \<leftarrow> AddTiny (VarintWriter_Write 0x40 (VarintWriter 2 key_index) @ StringValue_prefix emit) f;
     Framer_Add (wv_data emit) f }"

definition EmitLitHdrNotIdx :: "u32 \<Rightarrow> mdelem \<Rightarrow> framer \<Rightarrow> framer crashable" where
  "EmitLitHdrNotIdx key_index e f = do {
     is_bin \<leftarrow> DefinitelyInterned_IsBinary e;
     emit \<leftarrow> GetWireValue (el_value e) (fr_true_binary f) is_bin;
     f \<leftarrow> AddTiny (VarintWriter_Write 0x00 (VarintWriter 4 key_index) @ StringValue_prefix emit) f;
     Framer_Add (wv_data emit) f }"

definition EmitLitHdrWithStringKeyIncIdx :: "mdelem \<Rightarrow> framer \<Rightarrow> framer crashable" where
  "EmitLitHdrWithStringKeyIncIdx e f = do {
     f \<leftarrow> AddTiny (StringKey_prefix 0x40 (el_key e)) f;
     f \<leftarrow> Framer_Add (el_key e) f;
     is_bin \<leftarrow> DefinitelyInterned_IsBinary e;
     emit \<leftarrow> GetWireValue (el_value e) (fr_true_binary f) is_bin;
     f \<leftarrow> AddTiny (StringValue_prefix emit) f;
     Framer_Add (wv_data emit) f }"

definition EmitLitHdrWithNonBinaryStringKeyIncIdx :: "bytes \<Rightarrow> bytes \<Rightarrow> framer \<Rightarrow> framer crashable" where
  "EmitLitHdrWithNonBinaryStringKeyIncIdx key_slice value_slice f = do {
     f \<leftarrow> AddTiny (StringKey_prefix 0x40 key_slice) f;
     f \<leftarrow> Framer_Add key_slice f;
     f \<leftarrow> AddTiny (NonBinaryStringValue_prefix value_slice) f;
     Framer_Add value_slice f }"

definition EmitLitHdrWithStringKeyNotIdx :: "mdelem \<Rightarrow> framer \<Rightarrow> framer crashable" where
  "EmitLitHdrWithStringKeyNotIdx e f = do {
     f \<leftarrow> AddTiny (StringKey_prefix 0x00 (el_key e)) f;
     f \<leftarrow> Framer_Add (el_key e) f;
     emit \<leftarrow> GetWireValue (el_value e) (fr_true_binary f) (UnsureIfInterned_IsBinary e);
     f \<leftarrow> AddTiny (StringValue_prefix emit) f;
     Framer_Add (wv_data emit) f }"

definition Emit_AdvertiseTableSizeChange :: "nat \<Rightarrow> framer \<Rightarrow> framer crashable" where
  "Emit_AdvertiseTableSizeChange max_size = AddTiny (VarintWriter_Write 0x20 (VarintWriter 3 (of_nat max_size)))"

section \<open>The frames that are written\<close>

record h2_frame =
  h2_type :: u8
  h2_flags :: u8
  h2_stream :: u32
  h2_payload :: bytes

definition frame_bytes :: "h2_frame \<Rightarrow> bytes" where
  "frame_bytes h = be24 (of_nat (length (h2_payload h))) @ [h2_type h, h2_flags h] @ be32 (h2_stream h) @ h2_payload h"

text \<open>A header block in frames: the first is a HEADERS frame and says whether the stream ends, the last one ends the block.\<close>

definition header_frame :: "bool \<Rightarrow> bool \<Rightarrow> bool \<Rightarrow> u32 \<Rightarrow> bytes \<Rightarrow> h2_frame" where
  "header_frame first eos final sid payload =
     \<lparr>h2_type = (if first then 1 else 9), h2_flags = (if first \<and> eos then 1 else 0) OR (if final then 4 else 0), h2_stream = sid,
      h2_payload = payload\<rparr>"

definition header_frames :: "bool \<Rightarrow> u32 \<Rightarrow> bool \<Rightarrow> bytes list \<Rightarrow> h2_frame list" where
  "header_frames eos sid closed_block ps =
     map (\<lambda>k. header_frame (k = 0) eos (closed_block \<and> Suc k = length ps) sid (ps ! k)) [0..<length ps]"

lemma header_frames_snoc:
  "header_frames eos sid closed_block (ps @ [p]) = header_frames eos sid False ps @ [header_frame (ps = []) eos closed_block sid p]"
  by (auto simp: header_frames_def nth_append)

lemma of_nat_div_byte:
  assumes "n < 2 ^ 32"
  shows "(of_nat (n div 2 ^ k) :: u8) = ucast (drop_bit k (of_nat n :: u32))"
proof -
  have "unat (drop_bit k (of_nat n :: u32)) = n div 2 ^ k"
    unfolding unsigned_drop_bit_eq using assms by (simp add: unat_of_nat take_bit_nat_eq_self drop_bit_eq_div)
  then show ?thesis by (metis of_nat_unat)
qed

lemma FillHeader_bytes:
  assumes "length (h2_payload h) \<le> 16777215"
  shows "\<exists>b. FillHeader (h2_type h) (h2_stream h) (length (h2_payload h)) (h2_flags h) = Some b \<and> b @ h2_payload h = frame_bytes h"
proof -
  have "length (h2_payload h) < 2 ^ 32" using assms by simp
  from of_nat_div_byte [OF this, of 16] of_nat_div_byte [OF this, of 8] of_nat_div_byte [OF this, of 0] assms show ?thesis
    by (simp add: FillHeader_def frame_bytes_def be24_def)
qed

text \<open>The framer between two operations: the closed frames with the payloads \<open>ps\<close> behind what was in the buffer before, the space
  for the header of the open frame, and its payload so far.\<close>

definition framed :: "bytes \<Rightarrow> bytes list \<Rightarrow> bytes \<Rightarrow> framer \<Rightarrow> bool" where
  "framed pre ps cur f \<longleftrightarrow>
     (\<exists>hdr. length hdr = 9 \<and>
       fr_output f = pre @ concat (map frame_bytes (header_frames (fr_is_end_of_stream f) (fr_stream_id f) False ps)) @ hdr @ cur) \<and>
     fr_start f = length (fr_output f) - length cur \<and> fr_header_at f = fr_start f - 9 \<and> fr_is_first_frame f = (ps = []) \<and>
     list_all (\<lambda>p. p \<noteq> [] \<and> length p \<le> fr_max_frame_size f) ps \<and> length cur \<le> fr_max_frame_size f \<and>
     13 \<le> fr_max_frame_size f \<and> fr_max_frame_size f \<le> 16777215"

text \<open>The header block so far; a frame is begun only to put something into it.\<close>

definition has_block :: "bytes \<Rightarrow> bytes \<Rightarrow> framer \<Rightarrow> bool" where
  "has_block pre block f \<longleftrightarrow> (\<exists>ps cur. framed pre ps cur f \<and> block = concat ps @ cur \<and> (cur = [] \<longrightarrow> ps = []))"

definition same_options :: "framer \<Rightarrow> framer \<Rightarrow> bool" where
  "same_options f g \<longleftrightarrow> fr_max_frame_size g = fr_max_frame_size f \<and> fr_true_binary g = fr_true_binary f \<and>
     fr_is_end_of_stream g = fr_is_end_of_stream f \<and> fr_stream_id g = fr_stream_id f \<and> fr_seen_regular g = fr_seen_regular f"

lemma same_options_refl [simp]: "same_options f f"
  by (simp add: same_options_def)

lemma same_options_trans: "same_options f g \<Longrightarrow> same_options g h \<Longrightarrow> same_options f h"
  by (simp add: same_options_def)

lemma framed_size: "framed pre ps cur f \<Longrightarrow> CurrentFrameSize f = Some (length cur)"
  by (auto simp: framed_def CurrentFrameSize_def)

text \<open>Closing the open frame writes its header.\<close>

lemma FinishFrame_ok:
  assumes "framed pre ps cur f"
  shows "\<exists>g. FinishFrame final f = Some g \<and> same_options f g \<and> \<not> fr_is_first_frame g \<and>
    fr_output g = pre @ concat (map frame_bytes (header_frames (fr_is_end_of_stream f) (fr_stream_id f) final (ps @ [cur])))"
proof -
  obtain hdr where o: "length hdr = 9"
    "fr_output f = (pre @ concat (map frame_bytes (header_frames (fr_is_end_of_stream f) (fr_stream_id f) False ps))) @ hdr @ cur"
    using assms by (auto simp: framed_def)
  let ?h = "header_frame (ps = []) (fr_is_end_of_stream f) final (fr_stream_id f) cur"
  have at: "fr_header_at f = length (pre @ concat (map frame_bytes (header_frames (fr_is_end_of_stream f) (fr_stream_id f) False ps)))"
    using assms o by (simp add: framed_def)
  have le: "length (h2_payload ?h) \<le> 16777215" using assms by (simp add: framed_def header_frame_def)
  then obtain b where b: "FillHeader (h2_type ?h) (h2_stream ?h) (length cur) (h2_flags ?h) = Some b" "b @ cur = frame_bytes ?h"
    using FillHeader_bytes [OF le] by (metis h2_frame.select_convs(4) header_frame_def)
  have flags: "((0 OR (if fr_is_first_frame f \<and> fr_is_end_of_stream f then GRPC_CHTTP2_DATA_FLAG_END_STREAM else 0))
       OR (if final then GRPC_CHTTP2_DATA_FLAG_END_HEADERS else 0)) = h2_flags ?h"
    "(if fr_is_first_frame f then GRPC_CHTTP2_FRAME_HEADER else GRPC_CHTTP2_FRAME_CONTINUATION) = h2_type ?h" "h2_stream ?h = fr_stream_id f"
    using assms by (simp_all add: framed_def header_frame_def frame_consts)
  have "take (fr_header_at f) (fr_output f) @ b @ drop (fr_header_at f + 9) (fr_output f) =
      pre @ concat (map frame_bytes (header_frames (fr_is_end_of_stream f) (fr_stream_id f) final (ps @ [cur])))"
    unfolding at o(2) using o(1) b(2) by (simp add: header_frames_snoc)
  then show ?thesis
    using b(1) flags framed_size [OF assms] unfolding FinishFrame_def Let_def
    by (simp add: same_options_def kDataFrameHeaderSize_def)
qed

lemma next_frame:
  assumes "framed pre ps cur f" "cur \<noteq> []"
  shows "\<exists>g. FinishFrame False f = Some g \<and> framed pre (ps @ [cur]) [] (BeginFrame g) \<and> same_options f (BeginFrame g)"
proof -
  obtain g where g: "FinishFrame False f = Some g" "same_options f g" "\<not> fr_is_first_frame g"
    "fr_output g = pre @ concat (map frame_bytes (header_frames (fr_is_end_of_stream f) (fr_stream_id f) False (ps @ [cur])))"
    using FinishFrame_ok [OF assms(1), of False] by blast
  have "framed pre (ps @ [cur]) [] (BeginFrame g)" using g assms
    by (auto simp: framed_def BeginFrame_def same_options_def kDataFrameHeaderSize_def intro!: exI [of _ "replicate 9 0"])
  with g show ?thesis by (auto simp: same_options_def BeginFrame_def)
qed

lemma framed_append:
  "framed pre ps cur f \<Longrightarrow> length cur + length bs \<le> fr_max_frame_size f \<Longrightarrow>
   framed pre ps (cur @ bs) (f\<lparr>fr_header_bytes := n, fr_output := fr_output f @ bs\<rparr>)"
  by (auto simp: framed_def)

lemma AddTiny_ok:
  assumes "has_block pre block f" "length bs \<le> 13" "bs \<noteq> []"
  shows "\<exists>g. AddTiny bs f = Some g \<and> has_block pre (block @ bs) g \<and> same_options f g"
proof -
  obtain ps cur where f: "framed pre ps cur f" "block = concat ps @ cur" "cur = [] \<longrightarrow> ps = []" using assms(1) by (auto simp: has_block_def)
  have max: "13 \<le> fr_max_frame_size f" using f(1) by (simp add: framed_def)
  show ?thesis
  proof (cases "length cur + length bs \<le> fr_max_frame_size f")
    case True
    then have "framed pre ps (cur @ bs) (f\<lparr>fr_header_bytes := fr_header_bytes f + length bs, fr_output := fr_output f @ bs\<rparr>)"
      by (rule framed_append [OF f(1)])
    with f True assms(3) framed_size [OF f(1)] show ?thesis
      unfolding AddTiny_def EnsureSpace_def has_block_def by (auto simp: same_options_def intro!: exI [of _ ps] exI [of _ "cur @ bs"])
  next
    case False
    then have "cur \<noteq> []" using assms(2) max by auto
    then obtain g where g: "FinishFrame False f = Some g" "framed pre (ps @ [cur]) [] (BeginFrame g)" "same_options f (BeginFrame g)"
      using next_frame [OF f(1)] by blast
    let ?g = "(BeginFrame g)\<lparr>fr_header_bytes := fr_header_bytes (BeginFrame g) + length bs, fr_output := fr_output (BeginFrame g) @ bs\<rparr>"
    have "framed pre (ps @ [cur]) ([] @ bs) ?g"
      by (rule framed_append [OF g(2)]) (use assms(2) max g(3) in \<open>simp add: same_options_def\<close>)
    then have "has_block pre (block @ bs) ?g" using f(2) assms(3)
      unfolding has_block_def by (intro exI [of _ "ps @ [cur]"] exI [of _ bs]) simp
    with g False framed_size [OF f(1)] show ?thesis by (simp add: AddTiny_def EnsureSpace_def same_options_def)
  qed
qed

lemma Framer_Add_ok:
  assumes "framed pre ps cur f" "cur = [] \<longrightarrow> ps = [] \<or> bs \<noteq> []"
  shows "\<exists>g. Framer_Add bs f = Some g \<and> has_block pre (concat ps @ cur @ bs) g \<and> same_options f g"
  using assms
proof (induction "2 * length bs + of_bool (length cur = fr_max_frame_size f)" arbitrary: bs ps cur f rule: less_induct)
  case 1: less
  note sz = framed_size [OF 1(2)]
  have max: "length cur \<le> fr_max_frame_size f" "13 \<le> fr_max_frame_size f" using 1(2) by (simp_all add: framed_def)
  let ?r = "fr_max_frame_size f - length cur"
  consider "bs = []" | "bs \<noteq> []" "length bs \<le> ?r" | "bs \<noteq> []" "?r < length bs" by linarith
  then show ?case
  proof cases
    case 1
    with \<open>framed pre ps cur f\<close> \<open>cur = [] \<longrightarrow> ps = [] \<or> bs \<noteq> []\<close> show ?thesis
      by (subst Framer_Add.simps) (auto simp: has_block_def)
  next
    case 2
    then have "framed pre ps (cur @ bs) (f\<lparr>fr_header_bytes := fr_header_bytes f + length bs, fr_output := fr_output f @ bs\<rparr>)"
      using max by (intro framed_append [OF 1(2)]) simp
    with 2 sz show ?thesis
      by (subst Framer_Add.simps) (auto simp: has_block_def same_options_def intro!: exI [of _ ps] exI [of _ "cur @ bs"])
  next
    case 3
    let ?f = "f\<lparr>fr_header_bytes := fr_header_bytes f + ?r, fr_output := fr_output f @ take ?r bs\<rparr>"
    have f: "framed pre ps (cur @ take ?r bs) ?f" using max by (intro framed_append [OF 1(2)]) simp
    have "length (cur @ take ?r bs) = fr_max_frame_size f" using 3 max by simp
    then have ne: "cur @ take ?r bs \<noteq> []" using max(2) by auto
    obtain g where g: "FinishFrame False ?f = Some g" "framed pre (ps @ [cur @ take ?r bs]) [] (BeginFrame g)" "same_options ?f (BeginFrame g)"
      using next_frame [OF f ne] by blast
    have "drop ?r bs \<noteq> []" "length ([] :: bytes) \<noteq> fr_max_frame_size (BeginFrame g)" using 3 g(2) by (auto simp: framed_def)
    moreover have "2 * length (drop ?r bs) < 2 * length bs + of_bool (length cur = fr_max_frame_size f)" using 3 max by auto
    ultimately have "\<exists>h. Framer_Add (drop ?r bs) (BeginFrame g) = Some h \<and>
      has_block pre (concat (ps @ [cur @ take ?r bs]) @ [] @ drop ?r bs) h \<and> same_options (BeginFrame g) h"
      using 1(1) [of "drop ?r bs" "[]" "BeginFrame g" "ps @ [cur @ take ?r bs]"] g(2) by simp
    then obtain h where h: "Framer_Add (drop ?r bs) (BeginFrame g) = Some h" "has_block pre (concat ps @ cur @ bs) h" "same_options (BeginFrame g) h"
      by auto
    have "same_options f h" using g(3) h(3) by (simp add: same_options_def)
    with 3 sz g(1) h show ?thesis by (subst Framer_Add.simps) simp
  qed
qed

lemma Add_after:
  assumes "has_block pre block f"
  shows "\<exists>g. Framer_Add bs f = Some g \<and> has_block pre (block @ bs) g \<and> same_options f g"
  using assms Framer_Add_ok [of pre _ _ f bs] by (fastforce simp: has_block_def)

lemma AddTiny_then:
  assumes "has_block pre block f" "length bs \<le> 13" "bs \<noteq> []"
  shows "\<exists>g. AddTiny bs f \<bind> Framer_Add ds = Some g \<and> has_block pre (block @ bs @ ds) g \<and> same_options f g"
proof -
  obtain g where g: "AddTiny bs f = Some g" "has_block pre (block @ bs) g" "same_options f g" using AddTiny_ok [OF assms] by blast
  from Add_after [OF g(2), of ds] obtain h where "Framer_Add ds g = Some h" "has_block pre (block @ bs @ ds) h" "same_options g h" by auto
  with g show ?thesis using same_options_trans by auto
qed

lemma VarintWriter_length:
  assumes "1 \<le> k" "k \<le> 7" "prefix AND mask (8 - k) = 0"
  shows "length (VarintWriter_Write prefix (VarintWriter k v)) \<le> 6" "VarintWriter_Write prefix (VarintWriter k v) \<noteq> []"
  using VarintWriter_exact [OF assms, of "Input_init []" v "[]"]
  by (auto simp: Input_init_def VarintWriter_def VarintLength_def)

lemma writer_sizes [simp]:
  "length (VarintWriter_Write 0x80 (VarintWriter 1 v)) \<le> 6" "VarintWriter_Write 0x80 (VarintWriter 1 v) \<noteq> []"
  "length (VarintWriter_Write 0x40 (VarintWriter 2 v)) \<le> 6" "VarintWriter_Write 0x40 (VarintWriter 2 v) \<noteq> []"
  "length (VarintWriter_Write 0x20 (VarintWriter 3 v)) \<le> 6" "VarintWriter_Write 0x20 (VarintWriter 3 v) \<noteq> []"
  "length (VarintWriter_Write 0 (VarintWriter 4 v)) \<le> 6" "VarintWriter_Write 0 (VarintWriter 4 v) \<noteq> []"
  "length (VarintWriter_Write 0 (VarintWriter 1 v)) \<le> 6" "VarintWriter_Write 0 (VarintWriter 1 v) \<noteq> []"
  using VarintWriter_length [of 1 "0x80" v] VarintWriter_length [of 2 "0x40" v] VarintWriter_length [of 3 "0x20" v]
    VarintWriter_length [of 4 0 v] VarintWriter_length [of 1 0 v] by (simp_all add: mask_eq_exp_minus_1)

section \<open>What each representation adds to the block\<close>

definition wire :: "wire_value \<Rightarrow> bytes" where
  "wire w = StringValue_prefix w @ wv_data w"

definition wire_ok :: "wire_value \<Rightarrow> bool" where
  "wire_ok w \<longleftrightarrow> wv_huffman_prefix w = 0 \<or> wv_huffman_prefix w = 0x80"

lemma GetWireValue_ok: "GetWireValue v tb bin = Some w \<Longrightarrow> wire_ok w"
  by (auto simp: GetWireValue_def wire_ok_def WireValue_def split: if_splits)

lemma StringValue_prefix_size:
  assumes "wire_ok w"
  shows "length (StringValue_prefix w) \<le> 7" "StringValue_prefix w \<noteq> []"
  using assms writer_sizes [of "of_nat (wv_length w)"] by (auto simp: wire_ok_def StringValue_prefix_def)

definition emits :: "(framer \<Rightarrow> framer crashable) \<Rightarrow> bytes \<Rightarrow> framer \<Rightarrow> bool" where
  "emits m bs f \<longleftrightarrow> (\<forall>pre block. has_block pre block f \<longrightarrow> (\<exists>g. m f = Some g \<and> has_block pre (block @ bs) g \<and> same_options f g))"

lemma emits_tiny: "length bs \<le> 13 \<Longrightarrow> bs \<noteq> [] \<Longrightarrow> emits (AddTiny bs) bs f"
  unfolding emits_def using AddTiny_ok by simp

lemma emits_add: "emits (Framer_Add bs) bs f"
  unfolding emits_def using Add_after by simp

lemma emits_bind:
  assumes "emits m xs f" "\<And>g. same_options f g \<Longrightarrow> emits k ys g"
  shows "emits (\<lambda>f. m f \<bind> k) (xs @ ys) f"
  unfolding emits_def
proof (intro allI impI)
  fix pre block assume "has_block pre block f"
  with assms(1) obtain g where g: "m f = Some g" "has_block pre (block @ xs) g" "same_options f g" unfolding emits_def by blast
  with assms(2) [OF g(3)] obtain h where "k g = Some h" "has_block pre (block @ xs @ ys) h" "same_options g h" unfolding emits_def by fastforce
  with g show "\<exists>h. m f \<bind> k = Some h \<and> has_block pre (block @ xs @ ys) h \<and> same_options f h" using same_options_trans by auto
qed

lemma EmitIndexed_emits: "emits (EmitIndexed n) (VarintWriter_Write 0x80 (VarintWriter 1 n)) f"
  unfolding EmitIndexed_def using writer_sizes(1,2) [of n] by (intro emits_tiny) linarith+

lemma AdvertiseTableSizeChange_emits:
  "emits (Emit_AdvertiseTableSizeChange n) (VarintWriter_Write 0x20 (VarintWriter 3 (of_nat n))) f"
  unfolding Emit_AdvertiseTableSizeChange_def using writer_sizes(5,6) [of "of_nat n"] by (intro emits_tiny) linarith+

lemma StringKey_emits: "emits (AddTiny (StringKey_prefix b key)) (StringKey_prefix b key) f"
  using writer_sizes(9) [of "of_nat (length key)"] by (intro emits_tiny) (simp_all add: StringKey_prefix_def)

lemma StringValue_emits: "wire_ok w \<Longrightarrow> emits (\<lambda>f. AddTiny (StringValue_prefix w) f \<bind> Framer_Add (wv_data w)) (wire w) f"
  unfolding wire_def using StringValue_prefix_size [of w] by (intro emits_bind emits_tiny emits_add) auto

lemma IndexedKey_emits:
  assumes "wire_ok w" "length b \<le> 6"
  shows "emits (\<lambda>f. AddTiny (b @ StringValue_prefix w) f \<bind> Framer_Add (wv_data w)) (b @ wire w) f"
proof -
  have "emits (\<lambda>f. AddTiny (b @ StringValue_prefix w) f \<bind> Framer_Add (wv_data w)) ((b @ StringValue_prefix w) @ wv_data w) f"
    using assms StringValue_prefix_size [OF assms(1)] by (intro emits_bind emits_tiny emits_add) auto
  then show ?thesis by (simp add: wire_def)
qed

text \<open>The five literal representations.\<close>

definition encodes :: "mdelem \<Rightarrow> bool \<Rightarrow> wire_value \<Rightarrow> bool" where
  "encodes e tb w \<longleftrightarrow> GetWireValue (el_value e) tb (grpc_key_is_binary_header (el_key e)) = Some w"

lemma encodes_ok: "encodes e tb w \<Longrightarrow> wire_ok w"
  by (auto simp: encodes_def dest: GetWireValue_ok)

lemma EmitLitHdrIncIdx_emits:
  assumes "encodes e (fr_true_binary f) w" "el_key_ref e \<noteq> 0"
  shows "emits (EmitLitHdrIncIdx n e) (VarintWriter_Write 0x40 (VarintWriter 2 n) @ wire w) f"
  using IndexedKey_emits [OF encodes_ok [OF assms(1)] writer_sizes(3) [of n], of f] assms
  by (simp add: emits_def EmitLitHdrIncIdx_def DefinitelyInterned_IsBinary_def encodes_def)

lemma EmitLitHdrNotIdx_emits:
  assumes "encodes e (fr_true_binary f) w" "el_key_ref e \<noteq> 0"
  shows "emits (EmitLitHdrNotIdx n e) (VarintWriter_Write 0 (VarintWriter 4 n) @ wire w) f"
  using IndexedKey_emits [OF encodes_ok [OF assms(1)] writer_sizes(7) [of n], of f] assms
  by (simp add: emits_def EmitLitHdrNotIdx_def DefinitelyInterned_IsBinary_def encodes_def)

lemma keyed_emits:
  assumes "wire_ok w"
  shows "emits (\<lambda>f. AddTiny (StringKey_prefix b key) f \<bind> (\<lambda>f. Framer_Add key f \<bind> (\<lambda>f. AddTiny (StringValue_prefix w) f \<bind> Framer_Add (wv_data w))))
    (StringKey_prefix b key @ key @ wire w) f"
  by (intro emits_bind StringKey_emits emits_add StringValue_emits assms)

lemma EmitLitHdrWithStringKeyIncIdx_emits:
  assumes "encodes e (fr_true_binary f) w" "el_key_ref e \<noteq> 0"
  shows "emits (EmitLitHdrWithStringKeyIncIdx e) (StringKey_prefix 0x40 (el_key e) @ el_key e @ wire w) f"
proof -
  have "emits (\<lambda>f. DefinitelyInterned_IsBinary e \<bind> (\<lambda>is_bin. GetWireValue (el_value e) (fr_true_binary f) is_bin \<bind>
    (\<lambda>emit. AddTiny (StringValue_prefix emit) f \<bind> Framer_Add (wv_data emit)))) (wire w) g" if "same_options f g" for g
    using StringValue_emits [OF encodes_ok [OF assms(1)], of g] assms that
    by (simp add: emits_def DefinitelyInterned_IsBinary_def encodes_def same_options_def)
  then show ?thesis unfolding EmitLitHdrWithStringKeyIncIdx_def
    by (intro emits_bind StringKey_emits emits_add) (auto dest: same_options_trans)
qed

lemma EmitLitHdrWithStringKeyNotIdx_emits:
  assumes "encodes e (fr_true_binary f) w"
  shows "emits (EmitLitHdrWithStringKeyNotIdx e) (StringKey_prefix 0 (el_key e) @ el_key e @ wire w) f"
proof -
  have "emits (\<lambda>f. GetWireValue (el_value e) (fr_true_binary f) (UnsureIfInterned_IsBinary e) \<bind>
    (\<lambda>emit. AddTiny (StringValue_prefix emit) f \<bind> Framer_Add (wv_data emit))) (wire w) g" if "same_options f g" for g
    using StringValue_emits [OF encodes_ok [OF assms(1)], of g] assms that
    by (simp add: emits_def UnsureIfInterned_IsBinary_def encodes_def same_options_def)
  then show ?thesis unfolding EmitLitHdrWithStringKeyNotIdx_def
    by (intro emits_bind StringKey_emits emits_add) (auto dest: same_options_trans)
qed

lemma EmitLitHdrWithNonBinaryStringKeyIncIdx_emits:
  "emits (EmitLitHdrWithNonBinaryStringKeyIncIdx k v) (StringKey_prefix 0x40 k @ k @ wire (WireValue 0 False v)) f"
  using keyed_emits [of "WireValue 0 False v" "0x40" k f]
  by (simp add: EmitLitHdrWithNonBinaryStringKeyIncIdx_def wire_ok_def WireValue_def StringValue_prefix_def NonBinaryStringValue_prefix_def emits_def)

end
