(* ===== verification/Hpack_Index.thy ===== *)
theory Hpack_Index
  imports Prelude
begin

text \<open>
  Two caches of the HPACK encoder: the popularity filter of \<^verbatim>\<open>src/core/ext/transport/chttp2/transport/popularity_count.h\<close> and the two-slot index of
  \<^verbatim>\<open>hpack_encoder_index.h\<close>.  A key of the index is a pointer (zero is the null pointer of an empty entry) with its hash.  The index forgets, so its
  contract is that of a lossy map, stated as a locale: a lookup right after an insertion finds the new index, and an insertion either
  keeps or drops what was found for another key, but never brings back an older index.
\<close>

section \<open>Definitions\<close>

subsection \<open>The popularity filter\<close>

record popularity_count =
  pop_sum :: u32
  pop_elems :: "u8 list"

definition PopularityCount :: "nat \<Rightarrow> popularity_count" where
  "PopularityCount kElems = \<lparr>pop_sum = 0, pop_elems = replicate kElems 0\<rparr>"

definition HalveFilter :: "popularity_count \<Rightarrow> popularity_count" where
  "HalveFilter p =
     (let halved = map (\<lambda>e. e div 2) (pop_elems p) in
      \<lparr>pop_sum = foldl (\<lambda>s e. s + ucast e) 0 halved, pop_elems = halved\<rparr>)"

definition AddElement :: "nat \<Rightarrow> popularity_count \<Rightarrow> (bool \<times> popularity_count) crashable" where
  "AddElement idx p =
     (let kElems = length (pop_elems p) in
      if kElems \<le> idx then None
      else
        let p1 = p\<lparr>pop_elems := (pop_elems p)[idx := pop_elems p ! idx + 1]\<rparr>;
            p2 = (if pop_elems p1 ! idx < 255 then p1\<lparr>pop_sum := pop_sum p1 + 1\<rparr> else HalveFilter p1) in
        Some (2 * pop_sum p2 div of_nat kElems \<le> ucast (pop_elems p2 ! idx), p2))"

subsection \<open>The two-slot index\<close>

record index_entry =
  ent_key :: nat
  ent_index :: nat

type_synonym encoder_index = "index_entry list"

definition HPackEncoderIndex :: "nat \<Rightarrow> encoder_index" where
  "HPackEncoderIndex kNumEntries = replicate kNumEntries \<lparr>ent_key = 0, ent_index = 0\<rparr>"

text \<open>The hash of \<open>KeyElem\<close> and of \<open>KeySliceRef\<close>.\<close>

definition key_hash6 :: "u32 \<Rightarrow> u32" where
  "key_hash6 h = drop_bit 6 h"

definition first_slot :: "u32 \<Rightarrow> encoder_index \<Rightarrow> nat" where
  "first_slot h es = unat (key_hash6 h) mod length es"

definition second_slot :: "u32 \<Rightarrow> encoder_index \<Rightarrow> nat" where
  "second_slot h es = unat (key_hash6 h) div length es mod length es"

definition UpdateOrAdd :: "nat \<Rightarrow> nat \<Rightarrow> index_entry \<Rightarrow> index_entry option" where
  "UpdateOrAdd new_key new_index e =
     (if new_key = ent_key e then Some (e\<lparr>ent_index := new_index\<rparr>)
      else if ent_key e = 0 then Some \<lparr>ent_key = new_key, ent_index = new_index\<rparr>
      else None)"

text \<open>The slot that is the older of two.\<close>

definition Older :: "nat \<Rightarrow> nat \<Rightarrow> encoder_index \<Rightarrow> nat" where
  "Older a b es = (if ent_index (es ! a) < ent_index (es ! b) then a else b)"

definition Index_Insert :: "nat \<Rightarrow> u32 \<Rightarrow> nat \<Rightarrow> encoder_index \<Rightarrow> encoder_index" where
  "Index_Insert key h new_index es =
     (let a = first_slot h es; b = second_slot h es in
      case UpdateOrAdd key new_index (es ! a) of
        Some e \<Rightarrow> es[a := e]
      | None \<Rightarrow>
          (case UpdateOrAdd key new_index (es ! b) of
             Some e \<Rightarrow> es[b := e]
           | None \<Rightarrow> es[Older a b es := \<lparr>ent_key = key, ent_index = new_index\<rparr>]))"

definition Index_Lookup :: "nat \<Rightarrow> u32 \<Rightarrow> encoder_index \<Rightarrow> nat option" where
  "Index_Lookup key h es =
     (let a = first_slot h es; b = second_slot h es in
      if key = ent_key (es ! a) then Some (ent_index (es ! a))
      else if key = ent_key (es ! b) then Some (ent_index (es ! b))
      else None)"

section \<open>The popularity filter\<close>

definition pop_total :: "popularity_count \<Rightarrow> nat" where
  "pop_total p = sum_list (map unat (pop_elems p))"

definition pop_ok :: "popularity_count \<Rightarrow> bool" where
  "pop_ok p \<longleftrightarrow> 0 < length (pop_elems p) \<and> length (pop_elems p) \<le> 255 \<and> list_all (\<lambda>e. e < 255) (pop_elems p) \<and> unat (pop_sum p) = pop_total p"

lemma sum_list_bound: "\<forall>x \<in> set xs. f x \<le> (c :: nat) \<Longrightarrow> sum_list (map f xs) \<le> c * length xs"
  by (induction xs) auto

lemma u8_le_255: "unat (e :: u8) \<le> 255"
  using unsigned_less [where 'a = nat, of e] by simp

lemma unat_up8: "unat (ucast (e :: u8) :: u32) = unat e"
  using u8_le_255 [of e] by (simp add: unsigned_ucast_eq take_bit_nat_eq_self)

lemma sum_u8_bound:
  assumes "length es \<le> 255"
  shows "sum_list (map unat (es :: u8 list)) < 2 ^ 16"
proof -
  have "sum_list (map unat es) \<le> 255 * length es" by (rule sum_list_bound) (simp add: u8_le_255)
  then show ?thesis using assms by simp
qed

lemma foldl_sum: "foldl (\<lambda>s e. s + ucast e) s es = s + of_nat (sum_list (map unat es))" for s :: u32 and es :: "u8 list"
  by (induction es arbitrary: s) (simp_all add: add.assoc)

lemma unat_of_nat_small: "n < 2 ^ 32 \<Longrightarrow> unat (of_nat n :: u32) = n"
  by (simp add: unat_of_nat take_bit_nat_eq_self)

lemma unat_inc: "Suc (unat w) < 2 ^ LENGTH('a) \<Longrightarrow> unat (w + 1) = Suc (unat w)" for w :: "'a::len word"
  by (simp add: unat_plus_if')

lemma HalveFilter_ok:
  assumes "0 < length (pop_elems p)" "length (pop_elems p) \<le> 255"
  shows "pop_ok (HalveFilter p)"
proof -
  let ?es = "map (\<lambda>e. e div 2) (pop_elems p)"
  have "sum_list (map unat ?es) < 2 ^ 16" by (rule sum_u8_bound) (use assms in simp)
  then have "unat (pop_sum (HalveFilter p)) = sum_list (map unat ?es)"
    unfolding HalveFilter_def Let_def foldl_sum by (simp del: map_map add: unat_of_nat_small)
  moreover have "e div 2 < 255" for e :: u8 using u8_le_255 [of e] by (simp add: word_less_nat_alt unat_div)
  ultimately show ?thesis using assms by (simp add: pop_ok_def pop_total_def HalveFilter_def Let_def list_all_iff)
qed

lemma AddElement_counts:
  assumes "pop_ok p" "idx < length (pop_elems p)"
  shows "unat (pop_elems p ! idx + 1) = Suc (unat (pop_elems p ! idx))"
    and "unat (pop_sum p + 1) = Suc (pop_total p)"
    and "sum_list (map unat ((pop_elems p)[idx := pop_elems p ! idx + 1])) = Suc (pop_total p)"
proof -
  have lt: "unat (pop_elems p ! idx) < 255" using assms by (auto simp: pop_ok_def list_all_length word_less_nat_alt)
  show inc: "unat (pop_elems p ! idx + 1) = Suc (unat (pop_elems p ! idx))" using lt by (intro unat_inc) simp
  have tot: "pop_total p < 2 ^ 16" unfolding pop_total_def by (rule sum_u8_bound) (use assms in \<open>simp add: pop_ok_def\<close>)
  then show "unat (pop_sum p + 1) = Suc (pop_total p)" using assms(1) unat_inc [of "pop_sum p"] by (simp add: pop_ok_def)
  show "sum_list (map unat ((pop_elems p)[idx := pop_elems p ! idx + 1])) = Suc (pop_total p)"
    using sum_list_update_nat [of idx "map unat (pop_elems p)" "unat (pop_elems p ! idx + 1)"] assms(2) inc
    by (simp add: map_update pop_total_def)
qed

text \<open>The filter never leaves its array, never wraps a counter, and answers by the exact share of the element.\<close>

lemma AddElement_ok:
  assumes "pop_ok p" "idx < length (pop_elems p)"
  shows "\<exists>q. AddElement idx p = Some (2 * pop_total q div length (pop_elems p) \<le> unat (pop_elems q ! idx), q) \<and> pop_ok q \<and>
    length (pop_elems q) = length (pop_elems p)"
proof -
  let ?k = "length (pop_elems p)" and ?e = "pop_elems p ! idx + 1"
  let ?p1 = "p\<lparr>pop_elems := (pop_elems p)[idx := ?e]\<rparr>"
  let ?q = "if ?e < 255 then ?p1\<lparr>pop_sum := pop_sum p + 1\<rparr> else HalveFilter ?p1"
  have k: "0 < ?k" "?k \<le> 255" using assms(1) by (simp_all add: pop_ok_def)
  have ok: "pop_ok ?q"
  proof (cases "?e < 255")
    case True
    have "list_all (\<lambda>e. e < 255) ((pop_elems p)[idx := ?e])"
      using assms True by (simp add: pop_ok_def list_all_length nth_list_update_if)
    then show ?thesis using True k AddElement_counts [OF assms] by (simp add: pop_ok_def pop_total_def)
  next
    case False
    then show ?thesis using HalveFilter_ok [of ?p1] k by simp
  qed
  have len: "length (pop_elems ?q) = ?k" by (simp add: HalveFilter_def Let_def)
  have t: "pop_total ?q < 2 ^ 16" unfolding pop_total_def by (rule sum_u8_bound) (use len k in simp)
  have "unat (2 * pop_sum ?q) = 2 * pop_total ?q"
    using ok t by (simp add: pop_ok_def unat_word_ariths)
  then have "unat (2 * pop_sum ?q div of_nat ?k) = 2 * pop_total ?q div ?k"
    using k by (simp add: unat_div unat_of_nat_small)
  then have "(2 * pop_sum ?q div of_nat ?k \<le> ucast (pop_elems ?q ! idx)) = (2 * pop_total ?q div ?k \<le> unat (pop_elems ?q ! idx))"
    unfolding word_le_nat_alt unat_up8 by simp
  then show ?thesis using assms(2) ok len unfolding AddElement_def Let_def by (intro exI [of _ ?q]) (auto split: if_splits)
qed

section \<open>The contract of the index\<close>

locale lossy_map =
  fixes lookup :: "'k \<Rightarrow> 's \<Rightarrow> 'v option"
    and insert :: "'k \<Rightarrow> 'v \<Rightarrow> 's \<Rightarrow> 's"
    and ok :: "'s \<Rightarrow> bool"
    and valid :: "'k \<Rightarrow> bool"
  assumes insert_ok: "ok s \<Longrightarrow> valid k \<Longrightarrow> ok (insert k v s)"
    and lookup_same: "ok s \<Longrightarrow> valid k \<Longrightarrow> lookup k (insert k v s) = Some v"
    and lookup_other: "ok s \<Longrightarrow> valid k \<Longrightarrow> valid j \<Longrightarrow> j \<noteq> k \<Longrightarrow> lookup j (insert k v s) \<in> {None, lookup j s}"
begin

text \<open>What holds of every entry that was inserted holds of every entry that is found.\<close>

definition only :: "('k \<Rightarrow> 'v \<Rightarrow> bool) \<Rightarrow> 's \<Rightarrow> bool" where
  "only P s \<longleftrightarrow> ok s \<and> (\<forall>k v. valid k \<longrightarrow> lookup k s = Some v \<longrightarrow> P k v)"

lemma only_insert: "only P s \<Longrightarrow> valid k \<Longrightarrow> P k v \<Longrightarrow> only P (insert k v s)"
  unfolding only_def using insert_ok lookup_same lookup_other
  by (metis (no_types, lifting) insertE option.distinct(1) option.inject singletonD)

lemma onlyD: "only P s \<Longrightarrow> valid k \<Longrightarrow> lookup k s = Some v \<Longrightarrow> P k v"
  by (simp add: only_def)

lemma only_mono: "only P s \<Longrightarrow> (\<And>k v. P k v \<Longrightarrow> Q k v) \<Longrightarrow> only Q s"
  by (auto simp: only_def)

text \<open>After any sequence of insertions a lookup finds nothing or the latest value.\<close>

lemma run_latest:
  assumes "ok s" "\<And>k. valid k \<Longrightarrow> lookup k s = None" "list_all (\<lambda>(k, v). valid k) kvs" "valid k"
  shows "lookup k (fold (\<lambda>(k, v). insert k v) kvs s) \<in> {None, map_of (rev kvs) k}"
proof -
  have "ok (fold (\<lambda>(k, v). insert k v) kvs s) \<and> lookup k (fold (\<lambda>(k, v). insert k v) kvs s) \<in> {None, map_of (rev kvs) k}"
    using assms(3)
  proof (induction kvs rule: rev_induct)
    case Nil
    then show ?case using assms by simp
  next
    case (snoc kv kvs)
    obtain k' v' where kv: "kv = (k', v')" by fastforce
    let ?t = "fold (\<lambda>(k, v). insert k v) kvs s"
    have "ok ?t" "valid k'" "lookup k ?t \<in> {None, map_of (rev kvs) k}" using snoc kv by auto
    then show ?case using kv insert_ok [of ?t k' v'] lookup_same [of ?t k' v'] lookup_other [of ?t k' k v'] assms(4) by (cases "k = k'") auto
  qed
  then show ?thesis by blast
qed

end

text \<open>A key sits in its first slot, or in its second one while another key occupies the first.\<close>

definition index_ok :: "(nat \<Rightarrow> u32) \<Rightarrow> encoder_index \<Rightarrow> bool" where
  "index_ok h es \<longleftrightarrow> es \<noteq> [] \<and>
     (\<forall>s < length es. ent_key (es ! s) \<noteq> 0 \<longrightarrow>
        s = first_slot (h (ent_key (es ! s))) es \<or>
        s = second_slot (h (ent_key (es ! s))) es \<and> ent_key (es ! first_slot (h (ent_key (es ! s))) es) \<notin> {0, ent_key (es ! s)})"

lemma slots_less: "es \<noteq> [] \<Longrightarrow> first_slot h es < length es" "es \<noteq> [] \<Longrightarrow> second_slot h es < length es"
  by (simp_all add: first_slot_def second_slot_def)

lemma slots_update [simp]: "first_slot h (es[i := e]) = first_slot h es" "second_slot h (es[i := e]) = second_slot h es"
  by (simp_all add: first_slot_def second_slot_def)

text \<open>An insertion writes one slot: the first, unless another key is there, and never the first when the key is in the second.\<close>

lemma Index_Insert_slot:
  "\<exists>s. Index_Insert k h i es = es[s := \<lparr>ent_key = k, ent_index = i\<rparr>] \<and>
     (s = first_slot h es \<and> (ent_key (es ! s) \<in> {0, k} \<or> ent_key (es ! second_slot h es) \<notin> {0, k}) \<or>
      s = second_slot h es \<and> ent_key (es ! first_slot h es) \<notin> {0, k})"
proof -
  have *: "\<lparr>ent_key = ent_key e, ent_index = i\<rparr> = e\<lparr>ent_index := i\<rparr>" for e :: index_entry by (cases e) simp
  show ?thesis unfolding Index_Insert_def UpdateOrAdd_def Older_def Let_def by (auto simp: *)
qed

lemma index_ok_insert:
  assumes "index_ok h es" "k \<noteq> 0"
  shows "index_ok h (Index_Insert k (h k) i es)"
proof -
  obtain s where s: "Index_Insert k (h k) i es = es[s := \<lparr>ent_key = k, ent_index = i\<rparr>]"
    "s = first_slot (h k) es \<and> (ent_key (es ! s) \<in> {0, k} \<or> ent_key (es ! second_slot (h k) es) \<notin> {0, k}) \<or>
     s = second_slot (h k) es \<and> ent_key (es ! first_slot (h k) es) \<notin> {0, k}"
    using Index_Insert_slot by blast
  have ne: "es \<noteq> []" and at: "\<And>r. r < length es \<Longrightarrow> ent_key (es ! r) \<noteq> 0 \<Longrightarrow> r = first_slot (h (ent_key (es ! r))) es \<or>
      r = second_slot (h (ent_key (es ! r))) es \<and> ent_key (es ! first_slot (h (ent_key (es ! r))) es) \<notin> {0, ent_key (es ! r)}"
    using assms(1) unfolding index_ok_def by auto
  have sl: "s < length es" using s(2) slots_less [OF ne] by auto
  let ?es = "es[s := \<lparr>ent_key = k, ent_index = i\<rparr>]"
  have "r = first_slot (h (ent_key (?es ! r))) es \<or>
      r = second_slot (h (ent_key (?es ! r))) es \<and> ent_key (?es ! first_slot (h (ent_key (?es ! r))) es) \<notin> {0, ent_key (?es ! r)}"
    if r: "r < length es" "ent_key (?es ! r) \<noteq> 0" for r
  proof (cases "r = s")
    case True
    then show ?thesis using s(2) sl by (auto simp: nth_list_update_if)
  next
    case False
    then have "?es ! r = es ! r" using sl by simp
    with at [of r] r s(2) False sl assms(2) show ?thesis by (auto simp: nth_list_update_if)
  qed
  then show ?thesis using s(1) ne by (simp add: index_ok_def)
qed

lemma Index_Lookup_same:
  assumes "es \<noteq> []"
  shows "Index_Lookup k (h k) (Index_Insert k (h k) i es) = Some i"
proof -
  obtain s where s: "Index_Insert k (h k) i es = es[s := \<lparr>ent_key = k, ent_index = i\<rparr>]"
    "s = first_slot (h k) es \<or> s = second_slot (h k) es \<and> ent_key (es ! first_slot (h k) es) \<notin> {0, k}"
    using Index_Insert_slot [of k "h k" i es] by blast
  then show ?thesis using slots_less [OF assms, of "h k"] unfolding Index_Lookup_def Let_def by (auto simp: nth_list_update_if)
qed

lemma Index_Lookup_other:
  assumes "index_ok h es" "k \<noteq> 0" "j \<noteq> 0" "j \<noteq> k"
  shows "Index_Lookup j (h j) (Index_Insert k (h k) i es) \<in> {None, Index_Lookup j (h j) es}"
proof -
  obtain s where s: "Index_Insert k (h k) i es = es[s := \<lparr>ent_key = k, ent_index = i\<rparr>]"
    using Index_Insert_slot [of k "h k" i es] by blast
  have ne: "es \<noteq> []" using assms(1) by (simp add: index_ok_def)
  let ?a = "first_slot (h j) es" and ?b = "second_slot (h j) es"
  have "?a = ?b" if "ent_key (es ! ?a) = j" "ent_key (es ! ?b) = j"
    using assms(1,3) slots_less(2) [OF ne, of "h j"] that unfolding index_ok_def by auto
  then show ?thesis using s assms(4) slots_less [OF ne, of "h j"] unfolding Index_Lookup_def Let_def
    by (cases "s < length es") (auto simp: nth_list_update_if)
qed

interpretation cuckoo: lossy_map "\<lambda>k. Index_Lookup k (h k)" "\<lambda>k. Index_Insert k (h k)" "index_ok h" "\<lambda>k. k \<noteq> 0"
  for h :: "nat \<Rightarrow> u32"
proof
  fix es :: encoder_index and k j i :: nat
  assume "index_ok h es" "k \<noteq> 0"
  then show "index_ok h (Index_Insert k (h k) i es)" by (rule index_ok_insert)
  show "Index_Lookup k (h k) (Index_Insert k (h k) i es) = Some i"
    using \<open>index_ok h es\<close> by (intro Index_Lookup_same) (simp add: index_ok_def)
  show "Index_Lookup j (h j) (Index_Insert k (h k) i es) \<in> {None, Index_Lookup j (h j) es}" if "j \<noteq> 0" "j \<noteq> k"
    using \<open>index_ok h es\<close> \<open>k \<noteq> 0\<close> that by (rule Index_Lookup_other)
qed

lemma index_init: "0 < n \<Longrightarrow> index_ok h (HPackEncoderIndex n)" "0 < n \<Longrightarrow> k \<noteq> 0 \<Longrightarrow> Index_Lookup k (h k) (HPackEncoderIndex n) = None"
proof -
  assume n: "0 < n"
  then have ne: "HPackEncoderIndex n \<noteq> []" by (simp add: HPackEncoderIndex_def)
  have at: "r < length (HPackEncoderIndex n) \<Longrightarrow> ent_key (HPackEncoderIndex n ! r) = 0" for r by (simp add: HPackEncoderIndex_def)
  show "index_ok h (HPackEncoderIndex n)" using ne at by (simp add: index_ok_def)
  show "Index_Lookup k (h k) (HPackEncoderIndex n) = None" if "k \<noteq> 0"
    using that at slots_less [OF ne, of "h k"] by (simp add: Index_Lookup_def Let_def)
qed

section \<open>Properties\<close>

text \<open>The two-slot index of the encoder forgets but does not lie.  After any sequence of insertions, a lookup finds nothing or the index of the latest
  insertion for that key, whatever the hashes are and whichever entries were evicted; the key that was inserted last is found.\<close>

theorem encoder_index_latest:
  assumes "0 < n" "list_all (\<lambda>(k, i). k \<noteq> 0) (kis @ [(k', i')])" "k \<noteq> 0"
  shows "Index_Lookup k (h k) (fold (\<lambda>(k, i). Index_Insert k (h k) i) kis (HPackEncoderIndex n)) \<in> {None, map_of (rev kis) k} \<and>
    Index_Lookup k' (h k') (fold (\<lambda>(k, i). Index_Insert k (h k) i) (kis @ [(k', i')]) (HPackEncoderIndex n)) = Some i'"
proof
  show "Index_Lookup k (h k) (fold (\<lambda>(k, i). Index_Insert k (h k) i) kis (HPackEncoderIndex n)) \<in> {None, map_of (rev kis) k}"
    by (rule cuckoo.run_latest) (use assms index_init in auto)
  have "fold (\<lambda>(k, i). Index_Insert k (h k) i) kis es \<noteq> []" if "es \<noteq> []" for es
    using that Index_Insert_slot by (induction kis arbitrary: es) (auto, metis list_update_nonempty)
  then show "Index_Lookup k' (h k') (fold (\<lambda>(k, i). Index_Insert k (h k) i) (kis @ [(k', i')]) (HPackEncoderIndex n)) = Some i'"
    using assms(1) Index_Lookup_same [of _ k' h i'] by (simp add: HPackEncoderIndex_def)
qed

theorem encoder_index_latest_witness:
  "Index_Lookup 3 64 (fold (\<lambda>(k, i). Index_Insert k 64 i) [(3, 1), (4, 2)] (HPackEncoderIndex 2)) \<in> {None, Some 1} \<and>
   Index_Lookup 5 64 (fold (\<lambda>(k, i). Index_Insert k 64 i) ([(3, 1), (4, 2)] @ [(5, 3)]) (HPackEncoderIndex 2)) = Some 3"
  using encoder_index_latest [of 2 "[(3, 1), (4, 2)]" 5 3 3 "\<lambda>_. 64"] by simp

end
