(* ===== verification/Huffman_Automaton.thy ===== *)
theory Huffman_Automaton
  imports Huffman_Tables
begin

text \<open>
  The nibble automaton of the Huffman decoder is the prefix tree of the code: the state of the automaton is an inner node of the tree, given here by the
  path of bits that leads to it, and every one of the 256 * 16 transitions follows the tree, emitting the symbol of a leaf it passes.  All entries of
  the generated tables are evaluated by the kernel.
\<close>

section \<open>The tree\<close>

text \<open>The path to each state, as its length and its bits read as a number.\<close>

definition path_tbl :: "(nat \<times> nat) list" where
  "path_tbl = [
     (0, 0), (4, 0), (3, 0), (2, 0), (1, 0), (5, 10), (3, 1), (2, 1), (1, 1), (5, 16), (3, 2), (2, 2), (6, 46), (3, 3), (3, 4), (3, 5),
     (3, 6), (3, 7), (7, 124), (7, 125), (7, 126), (7, 127), (11, 2045), (11, 2046), (2, 3), (6, 48), (6, 49), (6, 50), (6, 51), (6, 52),
     (6, 53), (6, 54), (6, 55), (6, 56), (6, 57), (6, 58), (6, 59), (6, 60), (6, 61), (6, 62), (6, 63), (10, 1021), (10, 1022), (10, 1023),
     (14, 16382), (14, 16383), (18, 262136), (18, 262137), (18, 262138), (18, 262139), (18, 262140), (18, 262141), (18, 262142),
     (22, 4194284), (22, 4194285), (22, 4194286), (22, 4194287), (18, 262143), (22, 4194288), (22, 4194289), (22, 4194290), (22, 4194291),
     (22, 4194292), (22, 4194293), (22, 4194294), (22, 4194295), (22, 4194296), (22, 4194297), (22, 4194298), (22, 4194299), (22, 4194300),
     (22, 4194301), (22, 4194302), (26, 67108847), (22, 4194303), (26, 67108848), (26, 67108849), (26, 67108850), (26, 67108851),
     (26, 67108852), (26, 67108853), (26, 67108854), (26, 67108855), (26, 67108856), (26, 67108857), (26, 67108858), (26, 67108859),
     (26, 67108860), (26, 67108861), (26, 67108862), (26, 67108863), (11, 2047), (15, 32767), (19, 524275), (19, 524276), (19, 524277),
     (19, 524278), (19, 524279), (19, 524280), (19, 524281), (19, 524282), (19, 524283), (19, 524284), (19, 524285), (19, 524286),
     (19, 524287), (23, 8388597), (23, 8388598), (23, 8388599), (23, 8388600), (23, 8388601), (23, 8388602), (23, 8388603), (23, 8388604),
     (23, 8388605), (23, 8388606), (23, 8388607), (27, 134217713), (27, 134217714), (27, 134217715), (27, 134217716), (27, 134217717),
     (27, 134217718), (27, 134217719), (27, 134217720), (27, 134217721), (27, 134217722), (27, 134217723), (27, 134217724),
     (27, 134217725), (27, 134217726), (27, 134217727), (6, 47), (5, 17), (5, 18), (5, 19), (5, 20), (5, 21), (5, 22), (5, 23), (5, 24),
     (5, 25), (5, 26), (5, 27), (5, 28), (5, 29), (5, 30), (5, 31), (9, 508), (9, 509), (9, 510), (9, 511), (13, 8190), (13, 8191),
     (17, 131068), (17, 131069), (17, 131070), (21, 2097129), (21, 2097130), (21, 2097131), (21, 2097132), (21, 2097133), (21, 2097134),
     (21, 2097135), (17, 131071), (21, 2097136), (21, 2097137), (21, 2097138), (21, 2097139), (21, 2097140), (21, 2097141), (21, 2097142),
     (21, 2097143), (21, 2097144), (21, 2097145), (21, 2097146), (21, 2097147), (21, 2097148), (21, 2097149), (21, 2097150), (21, 2097151),
     (25, 33554416), (25, 33554417), (25, 33554418), (25, 33554419), (25, 33554420), (25, 33554421), (25, 33554422), (25, 33554423),
     (25, 33554424), (25, 33554425), (25, 33554426), (25, 33554427), (25, 33554428), (25, 33554429), (25, 33554430), (25, 33554431),
     (29, 536870910), (29, 536870911), (5, 11), (5, 12), (5, 13), (5, 14), (5, 15), (4, 1), (4, 2), (4, 3), (4, 4), (4, 5), (4, 6), (4, 7),
     (4, 8), (4, 9), (4, 10), (4, 11), (4, 12), (4, 13), (4, 14), (4, 15), (8, 254), (8, 255), (12, 4092), (12, 4093), (12, 4094),
     (12, 4095), (16, 65534), (20, 1048558), (20, 1048559), (16, 65535), (20, 1048560), (20, 1048561), (20, 1048562), (20, 1048563),
     (20, 1048564), (20, 1048565), (20, 1048566), (20, 1048567), (20, 1048568), (20, 1048569), (20, 1048570), (20, 1048571), (20, 1048572),
     (20, 1048573), (20, 1048574), (20, 1048575), (24, 16777206), (24, 16777207), (24, 16777208), (24, 16777209), (24, 16777210),
     (24, 16777211), (24, 16777212), (24, 16777213), (24, 16777214), (24, 16777215), (28, 268435455)]"

definition path :: "nat \<Rightarrow> nat \<times> nat" where
  "path s = path_tbl ! s"

definition hsym :: "nat \<Rightarrow> nat \<times> nat" where
  "hsym k = grpc_chttp2_huffsyms ! k"

text \<open>A symbol below each inner node.\<close>

definition leaf_tbl :: "nat list" where
  "leaf_tbl = [
     0, 48, 48, 48, 32, 32, 99, 32, 0, 61, 32, 58, 58, 47, 61, 58, 69, 0, 38, 44, 88, 0, 35, 0, 0, 69, 71, 73, 75, 77, 79, 81, 83, 85, 87,
     106, 113, 119, 121, 38, 0, 39, 35, 0, 60, 1, 92, 128, 131, 153, 176, 129, 1, 1, 137, 139, 141, 2, 147, 150, 152, 157, 165, 168, 175,
     182, 188, 197, 9, 144, 171, 199, 192, 203, 2, 211, 214, 222, 241, 245, 247, 250, 252, 2, 4, 8, 15, 19, 24, 28, 10, 1, 1, 128, 131,
     184, 224, 153, 176, 216, 129, 154, 178, 1, 147, 2, 9, 144, 148, 171, 215, 236, 199, 192, 203, 211, 2, 2, 4, 6, 8, 12, 15, 17, 19, 21,
     24, 26, 28, 30, 127, 10, 67, 95, 100, 103, 108, 110, 114, 58, 69, 73, 77, 81, 85, 106, 119, 0, 33, 40, 39, 0, 94, 1, 92, 131, 129,
     129, 133, 136, 154, 160, 164, 170, 1, 178, 185, 187, 190, 198, 232, 1, 139, 147, 152, 165, 175, 188, 9, 171, 2, 192, 200, 202, 210,
     218, 238, 242, 203, 211, 222, 245, 250, 2, 8, 19, 10, 10, 22, 45, 47, 52, 54, 56, 50, 99, 105, 115, 32, 47, 54, 61, 100, 108, 58, 69,
     77, 85, 0, 33, 0, 0, 64, 93, 1, 92, 153, 167, 1, 176, 179, 216, 227, 129, 133, 154, 164, 178, 187, 198, 1, 147, 165, 9, 2, 199, 234,
     192, 202, 218, 203, 211, 245, 2, 10, 10]"

text \<open>The symbols in the order of their codes.\<close>

definition code_order :: "nat list" where
  "code_order = [
     48, 49, 50, 97, 99, 101, 105, 111, 115, 116, 32, 37, 45, 46, 47, 51, 52, 53, 54, 55, 56, 57, 61, 65, 95, 98, 100, 102, 103, 104, 108,
     109, 110, 112, 114, 117, 58, 66, 67, 68, 69, 70, 71, 72, 73, 74, 75, 76, 77, 78, 79, 80, 81, 82, 83, 84, 85, 86, 87, 89, 106, 107,
     113, 118, 119, 120, 121, 122, 38, 42, 44, 59, 88, 90, 33, 34, 40, 41, 63, 39, 43, 124, 35, 62, 0, 36, 64, 91, 93, 126, 94, 125, 60,
     96, 123, 92, 195, 208, 128, 130, 131, 162, 184, 194, 224, 226, 153, 161, 167, 172, 176, 177, 179, 209, 216, 217, 227, 229, 230, 129,
     132, 133, 134, 136, 146, 154, 156, 160, 163, 164, 169, 170, 173, 178, 181, 185, 186, 187, 189, 190, 196, 198, 228, 232, 233, 1, 135,
     137, 138, 139, 140, 141, 143, 147, 149, 150, 151, 152, 155, 157, 158, 165, 166, 168, 174, 175, 180, 182, 183, 188, 191, 197, 231, 239,
     9, 142, 144, 145, 148, 159, 171, 206, 215, 225, 236, 237, 199, 207, 234, 235, 192, 193, 200, 201, 202, 205, 210, 213, 218, 219, 238,
     240, 242, 243, 255, 203, 204, 211, 212, 214, 221, 222, 223, 241, 244, 245, 246, 247, 248, 250, 251, 252, 253, 254, 2, 3, 4, 5, 6, 7,
     8, 11, 12, 14, 15, 16, 17, 18, 19, 20, 21, 23, 24, 25, 26, 27, 28, 29, 30, 31, 127, 220, 249, 10, 13, 22, 256]"

lemma path_simps:
  "path 0 = (0, 0)" "path (Suc 0) = (4, 0)" "path 2 = (3, 0)" "path 3 = (2, 0)"
  "path 4 = (1, 0)" "path 5 = (5, 10)" "path 6 = (3, 1)" "path 7 = (2, 1)"
  "path 8 = (1, 1)" "path 9 = (5, 16)" "path 10 = (3, 2)" "path 11 = (2, 2)"
  "path 12 = (6, 46)" "path 13 = (3, 3)" "path 14 = (3, 4)" "path 15 = (3, 5)"
  "path 16 = (3, 6)" "path 17 = (3, 7)" "path 18 = (7, 124)" "path 19 = (7, 125)"
  "path 20 = (7, 126)" "path 21 = (7, 127)" "path 22 = (11, 2045)" "path 23 = (11, 2046)"
  "path 24 = (2, 3)" "path 25 = (6, 48)" "path 26 = (6, 49)" "path 27 = (6, 50)"
  "path 28 = (6, 51)" "path 29 = (6, 52)" "path 30 = (6, 53)" "path 31 = (6, 54)"
  "path 32 = (6, 55)" "path 33 = (6, 56)" "path 34 = (6, 57)" "path 35 = (6, 58)"
  "path 36 = (6, 59)" "path 37 = (6, 60)" "path 38 = (6, 61)" "path 39 = (6, 62)"
  "path 40 = (6, 63)" "path 41 = (10, 1021)" "path 42 = (10, 1022)" "path 43 = (10, 1023)"
  "path 44 = (14, 16382)" "path 45 = (14, 16383)" "path 46 = (18, 262136)" "path 47 = (18, 262137)"
  "path 48 = (18, 262138)" "path 49 = (18, 262139)" "path 50 = (18, 262140)" "path 51 = (18, 262141)"
  "path 52 = (18, 262142)" "path 53 = (22, 4194284)" "path 54 = (22, 4194285)" "path 55 = (22, 4194286)"
  "path 56 = (22, 4194287)" "path 57 = (18, 262143)" "path 58 = (22, 4194288)" "path 59 = (22, 4194289)"
  "path 60 = (22, 4194290)" "path 61 = (22, 4194291)" "path 62 = (22, 4194292)" "path 63 = (22, 4194293)"
  "path 64 = (22, 4194294)" "path 65 = (22, 4194295)" "path 66 = (22, 4194296)" "path 67 = (22, 4194297)"
  "path 68 = (22, 4194298)" "path 69 = (22, 4194299)" "path 70 = (22, 4194300)" "path 71 = (22, 4194301)"
  "path 72 = (22, 4194302)" "path 73 = (26, 67108847)" "path 74 = (22, 4194303)" "path 75 = (26, 67108848)"
  "path 76 = (26, 67108849)" "path 77 = (26, 67108850)" "path 78 = (26, 67108851)" "path 79 = (26, 67108852)"
  "path 80 = (26, 67108853)" "path 81 = (26, 67108854)" "path 82 = (26, 67108855)" "path 83 = (26, 67108856)"
  "path 84 = (26, 67108857)" "path 85 = (26, 67108858)" "path 86 = (26, 67108859)" "path 87 = (26, 67108860)"
  "path 88 = (26, 67108861)" "path 89 = (26, 67108862)" "path 90 = (26, 67108863)" "path 91 = (11, 2047)"
  "path 92 = (15, 32767)" "path 93 = (19, 524275)" "path 94 = (19, 524276)" "path 95 = (19, 524277)"
  "path 96 = (19, 524278)" "path 97 = (19, 524279)" "path 98 = (19, 524280)" "path 99 = (19, 524281)"
  "path 100 = (19, 524282)" "path 101 = (19, 524283)" "path 102 = (19, 524284)" "path 103 = (19, 524285)"
  "path 104 = (19, 524286)" "path 105 = (19, 524287)" "path 106 = (23, 8388597)" "path 107 = (23, 8388598)"
  "path 108 = (23, 8388599)" "path 109 = (23, 8388600)" "path 110 = (23, 8388601)" "path 111 = (23, 8388602)"
  "path 112 = (23, 8388603)" "path 113 = (23, 8388604)" "path 114 = (23, 8388605)" "path 115 = (23, 8388606)"
  "path 116 = (23, 8388607)" "path 117 = (27, 134217713)" "path 118 = (27, 134217714)" "path 119 = (27, 134217715)"
  "path 120 = (27, 134217716)" "path 121 = (27, 134217717)" "path 122 = (27, 134217718)" "path 123 = (27, 134217719)"
  "path 124 = (27, 134217720)" "path 125 = (27, 134217721)" "path 126 = (27, 134217722)" "path 127 = (27, 134217723)"
  "path 128 = (27, 134217724)" "path 129 = (27, 134217725)" "path 130 = (27, 134217726)" "path 131 = (27, 134217727)"
  "path 132 = (6, 47)" "path 133 = (5, 17)" "path 134 = (5, 18)" "path 135 = (5, 19)"
  "path 136 = (5, 20)" "path 137 = (5, 21)" "path 138 = (5, 22)" "path 139 = (5, 23)"
  "path 140 = (5, 24)" "path 141 = (5, 25)" "path 142 = (5, 26)" "path 143 = (5, 27)"
  "path 144 = (5, 28)" "path 145 = (5, 29)" "path 146 = (5, 30)" "path 147 = (5, 31)"
  "path 148 = (9, 508)" "path 149 = (9, 509)" "path 150 = (9, 510)" "path 151 = (9, 511)"
  "path 152 = (13, 8190)" "path 153 = (13, 8191)" "path 154 = (17, 131068)" "path 155 = (17, 131069)"
  "path 156 = (17, 131070)" "path 157 = (21, 2097129)" "path 158 = (21, 2097130)" "path 159 = (21, 2097131)"
  "path 160 = (21, 2097132)" "path 161 = (21, 2097133)" "path 162 = (21, 2097134)" "path 163 = (21, 2097135)"
  "path 164 = (17, 131071)" "path 165 = (21, 2097136)" "path 166 = (21, 2097137)" "path 167 = (21, 2097138)"
  "path 168 = (21, 2097139)" "path 169 = (21, 2097140)" "path 170 = (21, 2097141)" "path 171 = (21, 2097142)"
  "path 172 = (21, 2097143)" "path 173 = (21, 2097144)" "path 174 = (21, 2097145)" "path 175 = (21, 2097146)"
  "path 176 = (21, 2097147)" "path 177 = (21, 2097148)" "path 178 = (21, 2097149)" "path 179 = (21, 2097150)"
  "path 180 = (21, 2097151)" "path 181 = (25, 33554416)" "path 182 = (25, 33554417)" "path 183 = (25, 33554418)"
  "path 184 = (25, 33554419)" "path 185 = (25, 33554420)" "path 186 = (25, 33554421)" "path 187 = (25, 33554422)"
  "path 188 = (25, 33554423)" "path 189 = (25, 33554424)" "path 190 = (25, 33554425)" "path 191 = (25, 33554426)"
  "path 192 = (25, 33554427)" "path 193 = (25, 33554428)" "path 194 = (25, 33554429)" "path 195 = (25, 33554430)"
  "path 196 = (25, 33554431)" "path 197 = (29, 536870910)" "path 198 = (29, 536870911)" "path 199 = (5, 11)"
  "path 200 = (5, 12)" "path 201 = (5, 13)" "path 202 = (5, 14)" "path 203 = (5, 15)"
  "path 204 = (4, 1)" "path 205 = (4, 2)" "path 206 = (4, 3)" "path 207 = (4, 4)"
  "path 208 = (4, 5)" "path 209 = (4, 6)" "path 210 = (4, 7)" "path 211 = (4, 8)"
  "path 212 = (4, 9)" "path 213 = (4, 10)" "path 214 = (4, 11)" "path 215 = (4, 12)"
  "path 216 = (4, 13)" "path 217 = (4, 14)" "path 218 = (4, 15)" "path 219 = (8, 254)"
  "path 220 = (8, 255)" "path 221 = (12, 4092)" "path 222 = (12, 4093)" "path 223 = (12, 4094)"
  "path 224 = (12, 4095)" "path 225 = (16, 65534)" "path 226 = (20, 1048558)" "path 227 = (20, 1048559)"
  "path 228 = (16, 65535)" "path 229 = (20, 1048560)" "path 230 = (20, 1048561)" "path 231 = (20, 1048562)"
  "path 232 = (20, 1048563)" "path 233 = (20, 1048564)" "path 234 = (20, 1048565)" "path 235 = (20, 1048566)"
  "path 236 = (20, 1048567)" "path 237 = (20, 1048568)" "path 238 = (20, 1048569)" "path 239 = (20, 1048570)"
  "path 240 = (20, 1048571)" "path 241 = (20, 1048572)" "path 242 = (20, 1048573)" "path 243 = (20, 1048574)"
  "path 244 = (20, 1048575)" "path 245 = (24, 16777206)" "path 246 = (24, 16777207)" "path 247 = (24, 16777208)"
  "path 248 = (24, 16777209)" "path 249 = (24, 16777210)" "path 250 = (24, 16777211)" "path 251 = (24, 16777212)"
  "path 252 = (24, 16777213)" "path 253 = (24, 16777214)" "path 254 = (24, 16777215)" "path 255 = (28, 268435455)"
  by (simp_all add: path_def path_tbl_def)

lemma sym_simps:
  "hsym 0 = (8184, 13)" "hsym (Suc 0) = (8388568, 23)" "hsym 2 = (268435426, 28)" "hsym 3 = (268435427, 28)"
  "hsym 4 = (268435428, 28)" "hsym 5 = (268435429, 28)" "hsym 6 = (268435430, 28)" "hsym 7 = (268435431, 28)"
  "hsym 8 = (268435432, 28)" "hsym 9 = (16777194, 24)" "hsym 10 = (1073741820, 30)" "hsym 11 = (268435433, 28)"
  "hsym 12 = (268435434, 28)" "hsym 13 = (1073741821, 30)" "hsym 14 = (268435435, 28)" "hsym 15 = (268435436, 28)"
  "hsym 16 = (268435437, 28)" "hsym 17 = (268435438, 28)" "hsym 18 = (268435439, 28)" "hsym 19 = (268435440, 28)"
  "hsym 20 = (268435441, 28)" "hsym 21 = (268435442, 28)" "hsym 22 = (1073741822, 30)" "hsym 23 = (268435443, 28)"
  "hsym 24 = (268435444, 28)" "hsym 25 = (268435445, 28)" "hsym 26 = (268435446, 28)" "hsym 27 = (268435447, 28)"
  "hsym 28 = (268435448, 28)" "hsym 29 = (268435449, 28)" "hsym 30 = (268435450, 28)" "hsym 31 = (268435451, 28)"
  "hsym 32 = (20, 6)" "hsym 33 = (1016, 10)" "hsym 34 = (1017, 10)" "hsym 35 = (4090, 12)"
  "hsym 36 = (8185, 13)" "hsym 37 = (21, 6)" "hsym 38 = (248, 8)" "hsym 39 = (2042, 11)"
  "hsym 40 = (1018, 10)" "hsym 41 = (1019, 10)" "hsym 42 = (249, 8)" "hsym 43 = (2043, 11)"
  "hsym 44 = (250, 8)" "hsym 45 = (22, 6)" "hsym 46 = (23, 6)" "hsym 47 = (24, 6)"
  "hsym 48 = (0, 5)" "hsym 49 = (1, 5)" "hsym 50 = (2, 5)" "hsym 51 = (25, 6)"
  "hsym 52 = (26, 6)" "hsym 53 = (27, 6)" "hsym 54 = (28, 6)" "hsym 55 = (29, 6)"
  "hsym 56 = (30, 6)" "hsym 57 = (31, 6)" "hsym 58 = (92, 7)" "hsym 59 = (251, 8)"
  "hsym 60 = (32764, 15)" "hsym 61 = (32, 6)" "hsym 62 = (4091, 12)" "hsym 63 = (1020, 10)"
  "hsym 64 = (8186, 13)" "hsym 65 = (33, 6)" "hsym 66 = (93, 7)" "hsym 67 = (94, 7)"
  "hsym 68 = (95, 7)" "hsym 69 = (96, 7)" "hsym 70 = (97, 7)" "hsym 71 = (98, 7)"
  "hsym 72 = (99, 7)" "hsym 73 = (100, 7)" "hsym 74 = (101, 7)" "hsym 75 = (102, 7)"
  "hsym 76 = (103, 7)" "hsym 77 = (104, 7)" "hsym 78 = (105, 7)" "hsym 79 = (106, 7)"
  "hsym 80 = (107, 7)" "hsym 81 = (108, 7)" "hsym 82 = (109, 7)" "hsym 83 = (110, 7)"
  "hsym 84 = (111, 7)" "hsym 85 = (112, 7)" "hsym 86 = (113, 7)" "hsym 87 = (114, 7)"
  "hsym 88 = (252, 8)" "hsym 89 = (115, 7)" "hsym 90 = (253, 8)" "hsym 91 = (8187, 13)"
  "hsym 92 = (524272, 19)" "hsym 93 = (8188, 13)" "hsym 94 = (16380, 14)" "hsym 95 = (34, 6)"
  "hsym 96 = (32765, 15)" "hsym 97 = (3, 5)" "hsym 98 = (35, 6)" "hsym 99 = (4, 5)"
  "hsym 100 = (36, 6)" "hsym 101 = (5, 5)" "hsym 102 = (37, 6)" "hsym 103 = (38, 6)"
  "hsym 104 = (39, 6)" "hsym 105 = (6, 5)" "hsym 106 = (116, 7)" "hsym 107 = (117, 7)"
  "hsym 108 = (40, 6)" "hsym 109 = (41, 6)" "hsym 110 = (42, 6)" "hsym 111 = (7, 5)"
  "hsym 112 = (43, 6)" "hsym 113 = (118, 7)" "hsym 114 = (44, 6)" "hsym 115 = (8, 5)"
  "hsym 116 = (9, 5)" "hsym 117 = (45, 6)" "hsym 118 = (119, 7)" "hsym 119 = (120, 7)"
  "hsym 120 = (121, 7)" "hsym 121 = (122, 7)" "hsym 122 = (123, 7)" "hsym 123 = (32766, 15)"
  "hsym 124 = (2044, 11)" "hsym 125 = (16381, 14)" "hsym 126 = (8189, 13)" "hsym 127 = (268435452, 28)"
  "hsym 128 = (1048550, 20)" "hsym 129 = (4194258, 22)" "hsym 130 = (1048551, 20)" "hsym 131 = (1048552, 20)"
  "hsym 132 = (4194259, 22)" "hsym 133 = (4194260, 22)" "hsym 134 = (4194261, 22)" "hsym 135 = (8388569, 23)"
  "hsym 136 = (4194262, 22)" "hsym 137 = (8388570, 23)" "hsym 138 = (8388571, 23)" "hsym 139 = (8388572, 23)"
  "hsym 140 = (8388573, 23)" "hsym 141 = (8388574, 23)" "hsym 142 = (16777195, 24)" "hsym 143 = (8388575, 23)"
  "hsym 144 = (16777196, 24)" "hsym 145 = (16777197, 24)" "hsym 146 = (4194263, 22)" "hsym 147 = (8388576, 23)"
  "hsym 148 = (16777198, 24)" "hsym 149 = (8388577, 23)" "hsym 150 = (8388578, 23)" "hsym 151 = (8388579, 23)"
  "hsym 152 = (8388580, 23)" "hsym 153 = (2097116, 21)" "hsym 154 = (4194264, 22)" "hsym 155 = (8388581, 23)"
  "hsym 156 = (4194265, 22)" "hsym 157 = (8388582, 23)" "hsym 158 = (8388583, 23)" "hsym 159 = (16777199, 24)"
  "hsym 160 = (4194266, 22)" "hsym 161 = (2097117, 21)" "hsym 162 = (1048553, 20)" "hsym 163 = (4194267, 22)"
  "hsym 164 = (4194268, 22)" "hsym 165 = (8388584, 23)" "hsym 166 = (8388585, 23)" "hsym 167 = (2097118, 21)"
  "hsym 168 = (8388586, 23)" "hsym 169 = (4194269, 22)" "hsym 170 = (4194270, 22)" "hsym 171 = (16777200, 24)"
  "hsym 172 = (2097119, 21)" "hsym 173 = (4194271, 22)" "hsym 174 = (8388587, 23)" "hsym 175 = (8388588, 23)"
  "hsym 176 = (2097120, 21)" "hsym 177 = (2097121, 21)" "hsym 178 = (4194272, 22)" "hsym 179 = (2097122, 21)"
  "hsym 180 = (8388589, 23)" "hsym 181 = (4194273, 22)" "hsym 182 = (8388590, 23)" "hsym 183 = (8388591, 23)"
  "hsym 184 = (1048554, 20)" "hsym 185 = (4194274, 22)" "hsym 186 = (4194275, 22)" "hsym 187 = (4194276, 22)"
  "hsym 188 = (8388592, 23)" "hsym 189 = (4194277, 22)" "hsym 190 = (4194278, 22)" "hsym 191 = (8388593, 23)"
  "hsym 192 = (67108832, 26)" "hsym 193 = (67108833, 26)" "hsym 194 = (1048555, 20)" "hsym 195 = (524273, 19)"
  "hsym 196 = (4194279, 22)" "hsym 197 = (8388594, 23)" "hsym 198 = (4194280, 22)" "hsym 199 = (33554412, 25)"
  "hsym 200 = (67108834, 26)" "hsym 201 = (67108835, 26)" "hsym 202 = (67108836, 26)" "hsym 203 = (134217694, 27)"
  "hsym 204 = (134217695, 27)" "hsym 205 = (67108837, 26)" "hsym 206 = (16777201, 24)" "hsym 207 = (33554413, 25)"
  "hsym 208 = (524274, 19)" "hsym 209 = (2097123, 21)" "hsym 210 = (67108838, 26)" "hsym 211 = (134217696, 27)"
  "hsym 212 = (134217697, 27)" "hsym 213 = (67108839, 26)" "hsym 214 = (134217698, 27)" "hsym 215 = (16777202, 24)"
  "hsym 216 = (2097124, 21)" "hsym 217 = (2097125, 21)" "hsym 218 = (67108840, 26)" "hsym 219 = (67108841, 26)"
  "hsym 220 = (268435453, 28)" "hsym 221 = (134217699, 27)" "hsym 222 = (134217700, 27)" "hsym 223 = (134217701, 27)"
  "hsym 224 = (1048556, 20)" "hsym 225 = (16777203, 24)" "hsym 226 = (1048557, 20)" "hsym 227 = (2097126, 21)"
  "hsym 228 = (4194281, 22)" "hsym 229 = (2097127, 21)" "hsym 230 = (2097128, 21)" "hsym 231 = (8388595, 23)"
  "hsym 232 = (4194282, 22)" "hsym 233 = (4194283, 22)" "hsym 234 = (33554414, 25)" "hsym 235 = (33554415, 25)"
  "hsym 236 = (16777204, 24)" "hsym 237 = (16777205, 24)" "hsym 238 = (67108842, 26)" "hsym 239 = (8388596, 23)"
  "hsym 240 = (67108843, 26)" "hsym 241 = (134217702, 27)" "hsym 242 = (67108844, 26)" "hsym 243 = (67108845, 26)"
  "hsym 244 = (134217703, 27)" "hsym 245 = (134217704, 27)" "hsym 246 = (134217705, 27)" "hsym 247 = (134217706, 27)"
  "hsym 248 = (134217707, 27)" "hsym 249 = (268435454, 28)" "hsym 250 = (134217708, 27)" "hsym 251 = (134217709, 27)"
  "hsym 252 = (134217710, 27)" "hsym 253 = (134217711, 27)" "hsym 254 = (134217712, 27)" "hsym 255 = (67108846, 26)"
  "hsym 256 = (1073741823, 30)"
  by (simp_all add: hsym_def grpc_chttp2_huffsyms_def)

section \<open>The transitions\<close>

text \<open>One entry of the tables against the path \<open>(l, v)\<close> extended by a nibble.\<close>

definition edge_ok :: "nat \<Rightarrow> nat \<Rightarrow> nat \<Rightarrow> int \<Rightarrow> bool" where
  "edge_ok l v q e \<longleftrightarrow>
     q < 256 \<and>
     (if e = - 1 then path q = (l, v)
      else 0 \<le> e \<and> e < 257 \<and> l = snd (hsym (nat e)) + fst (path q) \<and> v = fst (hsym (nat e)) * 2 ^ fst (path q) + snd (path q))"

fun row_ok :: "nat \<Rightarrow> nat \<Rightarrow> nat list \<Rightarrow> int list \<Rightarrow> bool" where
  "row_ok l v [] [] \<longleftrightarrow> True"
| "row_ok l v (q # qs) (e # es) \<longleftrightarrow> edge_ok l v q e \<and> row_ok l (v + 1) qs es"
| "row_ok l v _ _ \<longleftrightarrow> False"

definition next_rows :: "nat list list" where
  "next_rows = next_rows_0 @ next_rows_1 @ next_rows_2"

definition state_ok :: "nat \<Rightarrow> bool" where
  "state_ok s \<longleftrightarrow>
     next_tbl ! s < 48 \<and> emit_tbl ! s < 249 \<and>
     row_ok (fst (path s) + 4) (16 * snd (path s)) (next_rows ! (next_tbl ! s)) (emit_rows ! (emit_tbl ! s))"

lemma rows_length [simp]:
  "length next_rows_0 = 16"
  "length next_rows_1 = 16"
  "length next_rows_2 = 16"
  "length emit_rows_0 = 16"
  "length emit_rows_1 = 16"
  "length emit_rows_2 = 16"
  "length emit_rows_3 = 16"
  "length emit_rows_4 = 16"
  "length emit_rows_5 = 16"
  "length emit_rows_6 = 16"
  "length emit_rows_7 = 16"
  "length emit_rows_8 = 16"
  "length emit_rows_9 = 16"
  "length emit_rows_10 = 16"
  "length emit_rows_11 = 16"
  "length emit_rows_12 = 16"
  "length emit_rows_13 = 16"
  "length emit_rows_14 = 16"
  "length emit_rows_15 = 9"
  by (simp_all add: next_rows_0_def next_rows_1_def next_rows_2_def emit_rows_0_def emit_rows_1_def emit_rows_2_def emit_rows_3_def emit_rows_4_def emit_rows_5_def emit_rows_6_def emit_rows_7_def emit_rows_8_def emit_rows_9_def emit_rows_10_def emit_rows_11_def emit_rows_12_def emit_rows_13_def emit_rows_14_def emit_rows_15_def)

lemmas row_defs = next_rows_0_def next_rows_1_def next_rows_2_def emit_rows_0_def emit_rows_1_def emit_rows_2_def emit_rows_3_def emit_rows_4_def emit_rows_5_def emit_rows_6_def emit_rows_7_def emit_rows_8_def emit_rows_9_def emit_rows_10_def emit_rows_11_def emit_rows_12_def emit_rows_13_def emit_rows_14_def emit_rows_15_def

lemmas entry_simps = edge_ok_def path_simps sym_simps

lemma states_0: "list_all state_ok [0, 1, 2, 3, 4, 5, 6, 7, 8, 9, 10, 11, 12, 13, 14, 15]"
  by (simp add: state_ok_def path_simps next_tbl_def emit_tbl_def next_rows_def emit_rows_def nth_append) (simp add: row_defs entry_simps)

lemma states_16: "list_all state_ok [16, 17, 18, 19, 20, 21, 22, 23, 24, 25, 26, 27, 28, 29, 30, 31]"
  by (simp add: state_ok_def path_simps next_tbl_def emit_tbl_def next_rows_def emit_rows_def nth_append) (simp add: row_defs entry_simps)

lemma states_32: "list_all state_ok [32, 33, 34, 35, 36, 37, 38, 39, 40, 41, 42, 43, 44, 45, 46, 47]"
  by (simp add: state_ok_def path_simps next_tbl_def emit_tbl_def next_rows_def emit_rows_def nth_append) (simp add: row_defs entry_simps)

lemma states_48: "list_all state_ok [48, 49, 50, 51, 52, 53, 54, 55, 56, 57, 58, 59, 60, 61, 62, 63]"
  by (simp add: state_ok_def path_simps next_tbl_def emit_tbl_def next_rows_def emit_rows_def nth_append) (simp add: row_defs entry_simps)

lemma states_64: "list_all state_ok [64, 65, 66, 67, 68, 69, 70, 71, 72, 73, 74, 75, 76, 77, 78, 79]"
  by (simp add: state_ok_def path_simps next_tbl_def emit_tbl_def next_rows_def emit_rows_def nth_append) (simp add: row_defs entry_simps)

lemma states_80: "list_all state_ok [80, 81, 82, 83, 84, 85, 86, 87, 88, 89, 90, 91, 92, 93, 94, 95]"
  by (simp add: state_ok_def path_simps next_tbl_def emit_tbl_def next_rows_def emit_rows_def nth_append) (simp add: row_defs entry_simps)

lemma states_96: "list_all state_ok [96, 97, 98, 99, 100, 101, 102, 103, 104, 105, 106, 107, 108, 109, 110, 111]"
  by (simp add: state_ok_def path_simps next_tbl_def emit_tbl_def next_rows_def emit_rows_def nth_append) (simp add: row_defs entry_simps)

lemma states_112: "list_all state_ok [112, 113, 114, 115, 116, 117, 118, 119, 120, 121, 122, 123, 124, 125, 126, 127]"
  by (simp add: state_ok_def path_simps next_tbl_def emit_tbl_def next_rows_def emit_rows_def nth_append) (simp add: row_defs entry_simps)

lemma states_128: "list_all state_ok [128, 129, 130, 131, 132, 133, 134, 135, 136, 137, 138, 139, 140, 141, 142, 143]"
  by (simp add: state_ok_def path_simps next_tbl_def emit_tbl_def next_rows_def emit_rows_def nth_append) (simp add: row_defs entry_simps)

lemma states_144: "list_all state_ok [144, 145, 146, 147, 148, 149, 150, 151, 152, 153, 154, 155, 156, 157, 158, 159]"
  by (simp add: state_ok_def path_simps next_tbl_def emit_tbl_def next_rows_def emit_rows_def nth_append) (simp add: row_defs entry_simps)

lemma states_160: "list_all state_ok [160, 161, 162, 163, 164, 165, 166, 167, 168, 169, 170, 171, 172, 173, 174, 175]"
  by (simp add: state_ok_def path_simps next_tbl_def emit_tbl_def next_rows_def emit_rows_def nth_append) (simp add: row_defs entry_simps)

lemma states_176: "list_all state_ok [176, 177, 178, 179, 180, 181, 182, 183, 184, 185, 186, 187, 188, 189, 190, 191]"
  by (simp add: state_ok_def path_simps next_tbl_def emit_tbl_def next_rows_def emit_rows_def nth_append) (simp add: row_defs entry_simps)

lemma states_192: "list_all state_ok [192, 193, 194, 195, 196, 197, 198, 199, 200, 201, 202, 203, 204, 205, 206, 207]"
  by (simp add: state_ok_def path_simps next_tbl_def emit_tbl_def next_rows_def emit_rows_def nth_append) (simp add: row_defs entry_simps)

lemma states_208: "list_all state_ok [208, 209, 210, 211, 212, 213, 214, 215, 216, 217, 218, 219, 220, 221, 222, 223]"
  by (simp add: state_ok_def path_simps next_tbl_def emit_tbl_def next_rows_def emit_rows_def nth_append) (simp add: row_defs entry_simps)

lemma states_224: "list_all state_ok [224, 225, 226, 227, 228, 229, 230, 231, 232, 233, 234, 235, 236, 237, 238, 239]"
  by (simp add: state_ok_def path_simps next_tbl_def emit_tbl_def next_rows_def emit_rows_def nth_append) (simp add: row_defs entry_simps)

lemma states_240: "list_all state_ok [240, 241, 242, 243, 244, 245, 246, 247, 248, 249, 250, 251, 252, 253, 254, 255]"
  by (simp add: state_ok_def path_simps next_tbl_def emit_tbl_def next_rows_def emit_rows_def nth_append) (simp add: row_defs entry_simps)

lemma all_states: "s < 256 \<Longrightarrow> state_ok s"
proof -
  have "[0..<256] =
    ([0, 1, 2, 3, 4, 5, 6, 7, 8, 9, 10, 11, 12, 13, 14, 15] @
     [16, 17, 18, 19, 20, 21, 22, 23, 24, 25, 26, 27, 28, 29, 30, 31] @
     [32, 33, 34, 35, 36, 37, 38, 39, 40, 41, 42, 43, 44, 45, 46, 47] @
     [48, 49, 50, 51, 52, 53, 54, 55, 56, 57, 58, 59, 60, 61, 62, 63] @
     [64, 65, 66, 67, 68, 69, 70, 71, 72, 73, 74, 75, 76, 77, 78, 79] @
     [80, 81, 82, 83, 84, 85, 86, 87, 88, 89, 90, 91, 92, 93, 94, 95] @
     [96, 97, 98, 99, 100, 101, 102, 103, 104, 105, 106, 107, 108, 109, 110, 111] @
     [112, 113, 114, 115, 116, 117, 118, 119, 120, 121, 122, 123, 124, 125, 126, 127] @
     [128, 129, 130, 131, 132, 133, 134, 135, 136, 137, 138, 139, 140, 141, 142, 143] @
     [144, 145, 146, 147, 148, 149, 150, 151, 152, 153, 154, 155, 156, 157, 158, 159] @
     [160, 161, 162, 163, 164, 165, 166, 167, 168, 169, 170, 171, 172, 173, 174, 175] @
     [176, 177, 178, 179, 180, 181, 182, 183, 184, 185, 186, 187, 188, 189, 190, 191] @
     [192, 193, 194, 195, 196, 197, 198, 199, 200, 201, 202, 203, 204, 205, 206, 207] @
     [208, 209, 210, 211, 212, 213, 214, 215, 216, 217, 218, 219, 220, 221, 222, 223] @
     [224, 225, 226, 227, 228, 229, 230, 231, 232, 233, 234, 235, 236, 237, 238, 239] @
     [240, 241, 242, 243, 244, 245, 246, 247, 248, 249, 250, 251, 252, 253, 254, 255])" by (simp add: upt_conv_Cons del: upt_Suc)
  then have "list_all state_ok [0..<256]"
    by (simp only: list_all_append states_0 states_16 states_32 states_48 states_64 states_80 states_96 states_112 states_128 states_144 states_160 states_176 states_192 states_208 states_224 states_240 simp_thms)
  then show "s < 256 \<Longrightarrow> state_ok s" by (simp add: list_all_iff)
qed

lemma rows_16: "list_all (\<lambda>r. length r = 16) next_rows" "list_all (\<lambda>r. length r = 16) emit_rows" "length next_rows = 48" "length emit_rows = 249"
  by (simp_all add: next_rows_def emit_rows_def row_defs)

lemma nth_concat_rows:
  "list_all (\<lambda>r. length r = 16) rows \<Longrightarrow> k < length rows \<Longrightarrow> n < 16 \<Longrightarrow> concat rows ! (16 * k + n) = rows ! k ! n"
proof (induction rows arbitrary: k)
  case (Cons r rows)
  then show ?case by (cases k) (simp_all add: nth_append)
qed simp

lemma row_ok_nth: "row_ok l v qs es \<Longrightarrow> n < length qs \<Longrightarrow> edge_ok l (v + n) (qs ! n) (es ! n)"
proof (induction l v qs es arbitrary: n rule: row_ok.induct)
  case (2 l v q qs e es)
  then show ?case by (cases n) simp_all
qed simp_all

lemma transition_ok:
  assumes "s < 256" "n < 16"
  shows "edge_ok (fst (path s) + 4) (16 * snd (path s) + n) (next_sub_tbl ! (16 * next_tbl ! s + n)) (emit_sub_tbl ! (16 * emit_tbl ! s + n))"
proof -
  note st = all_states [OF assms(1), unfolded state_ok_def]
  have "next_sub_tbl ! (16 * next_tbl ! s + n) = next_rows ! (next_tbl ! s) ! n" "emit_sub_tbl ! (16 * emit_tbl ! s + n) = emit_rows ! (emit_tbl ! s) ! n"
    using st assms(2) rows_16 nth_concat_rows [of next_rows "next_tbl ! s" n] nth_concat_rows [of emit_rows "emit_tbl ! s" n]
    unfolding next_sub_tbl_def emit_sub_tbl_def next_rows_def [symmetric] by simp_all
  moreover have "length (next_rows ! (next_tbl ! s)) = 16" using rows_16(1,3) st by (simp add: list_all_length)
  ultimately show ?thesis using row_ok_nth st assms(2) by simp
qed

lemma path_bound: "s < 256 \<Longrightarrow> snd (path s) < 2 ^ fst (path s)"
proof -
  have "list_all (\<lambda>(l, v). v < 2 ^ l) path_tbl" "length path_tbl = 256" by (simp_all add: path_tbl_def)
  then show "s < 256 \<Longrightarrow> snd (path s) < 2 ^ fst (path s)" by (auto simp: list_all_length path_def split: prod.splits)
qed

section \<open>The code\<close>

text \<open>The bits of a number or a word, the most significant first.\<close>

definition bits :: "nat \<Rightarrow> 'a::semiring_bits \<Rightarrow> bool list" where
  "bits l v = map (bit v) (rev [0..<l])"

definition code :: "nat \<Rightarrow> bool list" where
  "code k = bits (snd (hsym k)) (fst (hsym k))"

definition trail :: "nat \<Rightarrow> bool list" where
  "trail s = bits (fst (path s)) (snd (path s))"

lemma length_bits [simp]: "length (bits l v) = l"
  by (simp add: bits_def)

lemma bits_0 [simp]: "bits 0 v = []"
  by (simp add: bits_def)

lemma nth_bits: "i < l \<Longrightarrow> bits l v ! i = bit v (l - 1 - i)"
  by (simp add: bits_def rev_nth)

lemma bits_split: "bits (a + b) v = bits a (drop_bit b v) @ bits b v" for v :: "'a::semiring_bit_operations"
  by (rule nth_equalityI) (auto simp: nth_bits nth_append bit_drop_bit_eq add.commute)

lemma bits_eqI: "(\<And>i. i < l \<Longrightarrow> bit v i = bit w i) \<Longrightarrow> bits l v = bits l w"
  by (simp add: bits_def)

lemma bits_sum: "y < 2 ^ b \<Longrightarrow> bits (a + b) (x * 2 ^ b + y) = bits a x @ bits b y" for x y :: nat
proof -
  assume y: "y < 2 ^ b"
  then have "drop_bit b (x * 2 ^ b + y) = x" by (simp add: drop_bit_eq_div)
  moreover have "take_bit b (x * 2 ^ b + y) = take_bit b y" by (simp add: take_bit_eq_mod)
  then have "bits b (x * 2 ^ b + y) = bits b y" by (intro bits_eqI) (metis bit_take_bit_iff)
  ultimately show ?thesis by (simp add: bits_split)
qed

lemma bits_inj: "bits l v = bits l w \<Longrightarrow> v < 2 ^ l \<Longrightarrow> w < 2 ^ l \<Longrightarrow> v = w" for v w :: nat
proof -
  assume b: "bits l v = bits l w" and lt: "v < 2 ^ l" "w < 2 ^ l"
  have "bit v i = bit w i" if "i < l" for i using arg_cong [OF b, of "\<lambda>xs. xs ! (l - 1 - i)"] that by (simp add: nth_bits)
  then have "take_bit l v = take_bit l w" by (intro bit_eqI) (auto simp: bit_take_bit_iff)
  then show "v = w" using lt by (simp add: take_bit_nat_eq_self)
qed

lemma transition_bits:
  assumes "s < 256" "n < 16"
  defines "q \<equiv> next_sub_tbl ! (16 * next_tbl ! s + n)" and "e \<equiv> emit_sub_tbl ! (16 * emit_tbl ! s + n)"
  shows "q < 256 \<and> (e = - 1 \<or> 0 \<le> e \<and> e < 257) \<and> trail s @ bits 4 n = (if e = - 1 then [] else code (nat e)) @ trail q"
proof -
  have ok: "edge_ok (fst (path s) + 4) (16 * snd (path s) + n) q e" using transition_ok [OF assms(1,2)] by (simp add: q_def e_def)
  then have q: "q < 256" by (simp add: edge_ok_def)
  have "bits (fst (path s) + 4) (snd (path s) * 2 ^ 4 + n) = trail s @ bits 4 n" using assms(2) unfolding trail_def by (intro bits_sum) simp
  then have l: "trail s @ bits 4 n = bits (fst (path s) + 4) (16 * snd (path s) + n)" by (simp add: mult.commute)
  show ?thesis
  proof (cases "e = - 1")
    case True
    then have "path q = (fst (path s) + 4, 16 * snd (path s) + n)" using ok by (simp add: edge_ok_def)
    then show ?thesis unfolding l using q True by (simp add: trail_def)
  next
    case False
    then have e: "0 \<le> e" "e < 257" "fst (path s) + 4 = snd (hsym (nat e)) + fst (path q)"
      "16 * snd (path s) + n = fst (hsym (nat e)) * 2 ^ fst (path q) + snd (path q)"
      using ok by (simp_all add: edge_ok_def)
    show ?thesis unfolding l e(3,4) using bits_sum [OF path_bound [OF q]] q False e(1,2) by (simp add: code_def trail_def)
  qed
qed

end
