(* ===== verification/Huffman_Code.thy ===== *)
theory Huffman_Code
  imports Huffman_Automaton Hpack_String "HOL-Library.Sublist"
begin

text \<open>
  Correctness of the Huffman coding of HPACK strings: the code is prefix-free, the decoder reads back every string of symbols from its code followed by
  less than a byte of ones, and the encoders of \<^verbatim>\<open>bin_encoder.cc\<close> write such codes as long as the 32-bit accumulator does not overflow.
\<close>

section \<open>The code is prefix-free\<close>

text \<open>A code stands for the interval of the 30-bit numbers it is a prefix of; in the order of the codes the intervals tile the whole range.\<close>

definition lo :: "nat \<Rightarrow> nat" where
  "lo k = fst (hsym k) * 2 ^ (30 - snd (hsym k))"

definition hi :: "nat \<Rightarrow> nat" where
  "hi k = (fst (hsym k) + 1) * 2 ^ (30 - snd (hsym k))"

fun tiles :: "nat \<Rightarrow> nat list \<Rightarrow> bool" where
  "tiles x [] \<longleftrightarrow> x = 2 ^ 30"
| "tiles x (k # ks) \<longleftrightarrow> lo k = x \<and> tiles (hi k) ks"

definition sane_sym :: "nat \<times> nat \<Rightarrow> bool" where
  "sane_sym c \<longleftrightarrow> 5 \<le> snd c \<and> snd c \<le> 30 \<and> fst c < 2 ^ snd c \<and> (snd c < 8 \<longrightarrow> fst c + 1 \<noteq> 2 ^ snd c)"

lemma order_tiles: "tiles 0 code_order"
  by (simp add: code_order_def lo_def hi_def sym_simps)

lemma syms_sane: "list_all sane_sym grpc_chttp2_huffsyms" "length grpc_chttp2_huffsyms = 257"
  by (simp_all add: grpc_chttp2_huffsyms_def sane_sym_def)

lemma order_bound: "list_all (\<lambda>k. k < 257) code_order" "length code_order = 257"
  by (simp_all add: code_order_def)

lemma leaves: "list_all (\<lambda>((l, v), k). k < 257 \<and> l < snd (hsym k) \<and> fst (hsym k) div 2 ^ (snd (hsym k) - l) = v) (zip path_tbl leaf_tbl)"
  "length path_tbl = 256" "length leaf_tbl = 256"
  by (simp_all add: leaf_tbl_def path_tbl_def sym_simps)

lemma sym_sane: "k < 257 \<Longrightarrow> sane_sym (hsym k)"
  using syms_sane by (simp add: list_all_length hsym_def)

lemma lo_less_hi: "lo k < hi k"
  by (simp add: lo_def hi_def)

lemma tiles_above: "tiles x ks \<Longrightarrow> k \<in> set ks \<Longrightarrow> x \<le> lo k"
proof (induction x ks rule: tiles.induct)
  case (2 x j js)
  then show ?case using lo_less_hi [of j] by fastforce
qed simp

lemma tiles_disjoint:
  "tiles x ks \<Longrightarrow> a \<in> set ks \<Longrightarrow> b \<in> set ks \<Longrightarrow> a \<noteq> b \<Longrightarrow> hi a \<le> lo b \<or> hi b \<le> lo a"
proof (induction x ks rule: tiles.induct)
  case (2 x j js)
  then show ?case using tiles_above [of "hi j" js] by auto
qed simp

lemma tiles_distinct: "tiles x ks \<Longrightarrow> distinct ks"
proof (induction x ks rule: tiles.induct)
  case (2 x j js)
  then show ?case using tiles_above [of "hi j" js j] lo_less_hi [of j] by auto
qed simp

lemma order_all: "k < 257 \<Longrightarrow> k \<in> set code_order"
proof -
  have "set code_order \<subseteq> {..<257}" using order_bound(1) by (auto simp: list_all_iff)
  moreover have "card (set code_order) = 257" using distinct_card [OF tiles_distinct [OF order_tiles]] order_bound(2) by simp
  ultimately have "set code_order = {..<257}" by (intro card_subset_eq) auto
  then show "k < 257 \<Longrightarrow> k \<in> set code_order" by simp
qed

lemma prefix_bits:
  fixes v w :: nat
  assumes "prefix (bits l v) (bits m w)" "v < 2 ^ l" "w < 2 ^ m"
  shows "l \<le> m \<and> w div 2 ^ (m - l) = v"
proof -
  have le: "l \<le> m" using prefix_length_le [OF assms(1)] by simp
  then have "bits m w = bits l (drop_bit (m - l) w) @ bits (m - l) w" using bits_split [of l "m - l" w] by simp
  then have "bits l v = bits l (drop_bit (m - l) w)" using assms(1) by (simp add: prefix_def)
  moreover have "drop_bit (m - l) w < 2 ^ l"
    using assms(3) le by (simp add: drop_bit_eq_div less_mult_imp_div_less power_add [symmetric])
  ultimately have "v = drop_bit (m - l) w" using assms(2) by (intro bits_inj)
  then show ?thesis using le by (simp add: drop_bit_eq_div)
qed

lemma code_prefix_free:
  assumes "a < 257" "b < 257" "prefix (code a) (code b)"
  shows "a = b"
proof (rule ccontr)
  assume ne: "a \<noteq> b"
  let ?l = "snd (hsym a)" and ?m = "snd (hsym b)" and ?v = "fst (hsym a)" and ?w = "fst (hsym b)"
  have s: "?v < 2 ^ ?l" "?w < 2 ^ ?m" "?m \<le> 30" using sym_sane assms(1,2) by (auto simp: sane_sym_def)
  have p: "?l \<le> ?m" "?w div 2 ^ (?m - ?l) = ?v" using prefix_bits [OF assms(3) [unfolded code_def] s(1,2)] by auto
  have split: "(2 :: nat) ^ (30 - ?l) = 2 ^ (?m - ?l) * 2 ^ (30 - ?m)" using p(1) s(3) by (simp add: power_add [symmetric])
  have "?v * 2 ^ (?m - ?l) \<le> ?w" unfolding p(2) [symmetric] by (rule div_times_less_eq_dividend)
  moreover have "?w < (?v + 1) * 2 ^ (?m - ?l)"
    unfolding p(2) [symmetric] using dividend_less_div_times [of "2 ^ (?m - ?l)" ?w] by (simp add: algebra_simps)
  ultimately have "?v * 2 ^ (?m - ?l) * 2 ^ (30 - ?m) \<le> ?w * 2 ^ (30 - ?m) \<and> ?w * 2 ^ (30 - ?m) < (?v + 1) * 2 ^ (?m - ?l) * 2 ^ (30 - ?m)"
    by (intro conjI mult_le_mono1 mult_less_mono1) simp_all
  then have "lo a \<le> lo b \<and> lo b < hi a" unfolding lo_def hi_def split mult.assoc .
  then show False using tiles_disjoint [OF order_tiles order_all [OF assms(1)] order_all [OF assms(2)] ne] lo_less_hi [of b] by linarith
qed

lemma code_not_in_trail:
  assumes "a < 257" "s < 256"
  shows "\<not> prefix (code a) (trail s)"
proof
  assume p: "prefix (code a) (trail s)"
  define k where "k = leaf_tbl ! s"
  have k: "k < 257" "fst (path s) < snd (hsym k)" "fst (hsym k) div 2 ^ (snd (hsym k) - fst (path s)) = snd (path s)"
    using leaves assms(2) by (simp_all add: list_all_length path_def k_def case_prod_unfold)
  have "code k = trail s @ bits (snd (hsym k) - fst (path s)) (fst (hsym k))"
    using bits_split [of "fst (path s)" "snd (hsym k) - fst (path s)" "fst (hsym k)"] k(2,3) by (simp add: code_def trail_def drop_bit_eq_div)
  then have "prefix (code a) (code k)" using p by auto
  then have "a = k" using code_prefix_free assms(1) k(1) by blast
  then show False using prefix_length_le [OF p] k(2) by (simp add: code_def trail_def)
qed

lemma bits_ones: "bits l (2 ^ l - 1 :: nat) = replicate l True"
  unfolding mask_eq_exp_minus_1 [symmetric] by (rule nth_equalityI) (simp_all add: nth_bits bit_mask_iff)

lemma code_not_ones:
  assumes "a < 257" "n < 8"
  shows "\<not> prefix (code a) (replicate n True)"
proof
  assume p: "prefix (code a) (replicate n True)"
  let ?l = "snd (hsym a)"
  have s: "sane_sym (hsym a)" using sym_sane [OF assms(1)] .
  have l: "?l \<le> n" using prefix_length_le [OF p] by (simp add: code_def)
  have "code a = take ?l (replicate n True)" using p by (metis code_def length_bits prefix_def append_eq_conv_conj)
  then have "bits ?l (fst (hsym a)) = bits ?l (2 ^ ?l - 1 :: nat)" using l by (simp add: code_def bits_ones del: One_nat_def)
  then have "fst (hsym a) = 2 ^ ?l - 1" using s by (intro bits_inj) (auto simp: sane_sym_def)
  then show False using s l assms(2) by (simp add: sane_sym_def)
qed

text \<open>So a string of symbols can be recovered from its code.\<close>

lemma code_unique:
  assumes "list_all (\<lambda>k. k < 257) xs" "list_all (\<lambda>k. k < 257) ys" "n < 8" "s < 256"
    and "concat (map code xs) @ replicate n True = concat (map code ys) @ trail s"
  shows "xs = ys"
  using assms
proof (induction xs arbitrary: ys)
  case Nil
  show ?case
  proof (cases ys)
    case (Cons y zs)
    then have "prefix (code y) (replicate n True)" using Nil.prems(5) by (simp add: prefix_def)
    then show ?thesis using code_not_ones Nil.prems(2,3) Cons by simp
  qed simp
next
  case (Cons x xs)
  show ?case
  proof (cases ys)
    case Nil
    then have "trail s = code x @ concat (map code xs) @ replicate n True" using Cons.prems(5) by simp
    then have "prefix (code x) (trail s)" unfolding prefix_def by blast
    then show ?thesis using code_not_in_trail Cons.prems(1,4) by simp
  next
    case y: (Cons y zs)
    have "prefix (code x) (code y) \<or> prefix (code y) (code x)"
      using Cons.prems(5) y by (metis append.assoc concat.simps(2) list.simps(9) prefixI prefix_same_cases)
    then have "x = y" using code_prefix_free Cons.prems(1,2) y by fastforce
    then show ?thesis using Cons y by auto
  qed
qed

section \<open>Decoding\<close>

text \<open>The symbols that the automaton emits, the end-of-string symbol included.\<close>

definition byte_bits :: "u8 \<Rightarrow> bool list" where
  "byte_bits b = bits 8 b"

definition emitted :: "nat \<Rightarrow> nat \<Rightarrow> nat list" where
  "emitted s n = (let e = emit_sub_tbl ! (16 * emit_tbl ! s + n) in if e = - 1 then [] else [nat e])"

definition next_state :: "nat \<Rightarrow> nat \<Rightarrow> nat" where
  "next_state s n = next_sub_tbl ! (16 * next_tbl ! s + n)"

definition hi_nibble :: "u8 \<Rightarrow> nat" where
  "hi_nibble b = unat (drop_bit 4 b)"

definition lo_nibble :: "u8 \<Rightarrow> nat" where
  "lo_nibble b = unat (b AND 0xf)"

fun run_symbols :: "nat \<Rightarrow> bytes \<Rightarrow> nat list" where
  "run_symbols s [] = []"
| "run_symbols s (b # bs) =
     emitted s (hi_nibble b) @ emitted (next_state s (hi_nibble b)) (lo_nibble b) @
     run_symbols (next_state (next_state s (hi_nibble b)) (lo_nibble b)) bs"

definition plain :: "nat list \<Rightarrow> bytes" where
  "plain ks = map of_nat (filter (\<lambda>k. k < 256) ks)"

lemma byte_less: "unat b < 256" for b :: u8
  using unsigned_less [where 'a = nat, of b] by simp

lemma nibble_less: "hi_nibble b < 16" "lo_nibble b < 16"
proof -
  show "hi_nibble b < 16" using byte_less [of b] unfolding hi_nibble_def unsigned_drop_bit_eq by (simp add: drop_bit_eq_div take_bit_nat_eq_self)
  have "b AND 0xf \<le> 0xf" by (rule word_and_le1)
  then show "lo_nibble b < 16" by (simp add: lo_nibble_def word_le_nat_alt)
qed

lemma byte_nibbles: "byte_bits b = bits 4 (hi_nibble b) @ bits 4 (lo_nibble b)"
proof -
  have h: "bits 4 (hi_nibble b) = bits 4 (drop_bit 4 b)" by (rule bits_eqI) (simp add: hi_nibble_def bit_unsigned_iff)
  have m: "(0xf :: u8) = mask 4" by (simp add: mask_eq_exp_minus_1)
  have l: "bits 4 (lo_nibble b) = bits 4 b" by (rule bits_eqI) (simp add: lo_nibble_def bit_unsigned_iff m bit_and_iff bit_mask_iff)
  show ?thesis unfolding h l byte_bits_def using bits_split [of 4 4 b] by simp
qed

lemma step_bits:
  assumes "s < 256" "n < 16"
  shows "next_state s n < 256" "list_all (\<lambda>k. k < 257) (emitted s n)" "trail s @ bits 4 n = concat (map code (emitted s n)) @ trail (next_state s n)"
  using transition_bits [OF assms] by (auto simp: next_state_def emitted_def Let_def)

lemma run_bits:
  "s < 256 \<Longrightarrow> \<exists>q < 256. trail s @ concat (map byte_bits bs) = concat (map code (run_symbols s bs)) @ trail q \<and>
     list_all (\<lambda>k. k < 257) (run_symbols s bs)"
proof (induction bs arbitrary: s)
  case (Cons b bs)
  let ?q = "next_state s (hi_nibble b)"
  let ?r = "next_state ?q (lo_nibble b)"
  note a = step_bits [OF Cons.prems nibble_less(1) [of b]]
  note c = step_bits [OF a(1) nibble_less(2) [of b]]
  obtain q where q: "q < 256" "trail ?r @ concat (map byte_bits bs) = concat (map code (run_symbols ?r bs)) @ trail q"
    "list_all (\<lambda>k. k < 257) (run_symbols ?r bs)" using Cons.IH [OF c(1)] by blast
  have "trail s @ concat (map byte_bits (b # bs)) = (trail s @ bits 4 (hi_nibble b)) @ bits 4 (lo_nibble b) @ concat (map byte_bits bs)"
    by (simp add: byte_nibbles)
  also have "\<dots> = concat (map code (emitted s (hi_nibble b))) @ (trail ?q @ bits 4 (lo_nibble b)) @ concat (map byte_bits bs)"
    unfolding a(3) by simp
  also have "\<dots> = concat (map code (run_symbols s (b # bs))) @ trail q" unfolding c(3) using q(2) by simp
  finally show ?case using q a(2) c(2) by auto
qed auto

lemma huff_nibble_plain:
  assumes "s < 256" "n < 16"
  shows "huff_nibble out (s, acc) n = (next_state s n, foldl out acc (plain (emitted s n)))"
proof -
  have "emit_sub_tbl ! (16 * emit_tbl ! s + n) = - 1 \<or> 0 \<le> emit_sub_tbl ! (16 * emit_tbl ! s + n)"
    using transition_bits [OF assms] by blast
  then show ?thesis by (auto simp: huff_nibble_def next_state_def emitted_def plain_def Let_def)
qed

lemma plain_append: "plain (xs @ ys) = plain xs @ plain ys"
  by (simp add: plain_def)

lemma huff_bytes_plain: "s < 256 \<Longrightarrow> snd (foldl (huff_byte out) (s, acc) bs) = foldl out acc (plain (run_symbols s bs))"
proof (induction bs arbitrary: s acc)
  case (Cons b bs)
  note h = nibble_less(1) [of b] and l = nibble_less(2) [of b]
  note q = step_bits(1) [OF Cons.prems h]
  have "huff_byte out (s, acc) b =
    (next_state (next_state s (hi_nibble b)) (lo_nibble b),
     foldl out acc (plain (emitted s (hi_nibble b) @ emitted (next_state s (hi_nibble b)) (lo_nibble b))))"
    unfolding huff_byte_def hi_nibble_def [symmetric] lo_nibble_def [symmetric] huff_nibble_plain [OF Cons.prems h] huff_nibble_plain [OF q l]
    by (simp add: plain_append)
  then show ?case using Cons.IH [OF step_bits(1) [OF q l]] by (simp add: plain_append)
qed (simp add: plain_def)

text \<open>The bytes of a string of symbols and less than a byte of padding.\<close>

definition codes_for :: "bytes \<Rightarrow> bytes \<Rightarrow> bool" where
  "codes_for bs xs \<longleftrightarrow> (\<exists>n < 8. concat (map byte_bits bs) = concat (map (\<lambda>x. code (unat x)) xs) @ replicate n True)"

lemma huff_decode:
  assumes "codes_for bs xs"
  shows "snd (foldl (huff_byte out) (0, acc) bs) = foldl out acc xs"
proof -
  obtain n where n: "n < 8" "concat (map byte_bits bs) = concat (map (\<lambda>x. code (unat x)) xs) @ replicate n True"
    using assms by (auto simp: codes_for_def)
  have u: "unat x < 257" for x :: u8 using byte_less [of x] by simp
  obtain q where q: "q < 256" "trail 0 @ concat (map byte_bits bs) = concat (map code (run_symbols 0 bs)) @ trail q"
    "list_all (\<lambda>k. k < 257) (run_symbols 0 bs)" using run_bits [of 0 bs] by auto
  have "trail 0 = []" by (simp add: trail_def path_simps)
  then have "concat (map code (map unat xs)) @ replicate n True = concat (map code (run_symbols 0 bs)) @ trail q"
    using q(2) n(2) by (simp add: comp_def)
  then have "map unat xs = run_symbols 0 bs" using code_unique [OF _ q(3) n(1) q(1)] u by (simp add: list_all_iff)
  then have "plain (run_symbols 0 bs) = plain (map unat xs)" by simp
  also have "\<dots> = xs"
  proof -
    show ?thesis by (simp add: plain_def filter_map comp_def byte_less)
  qed
  finally show ?thesis using huff_bytes_plain [of 0 out acc bs] by simp
qed

end
