(* ===== verification/Huffman_Encoder.thy ===== *)
theory Huffman_Encoder
  imports Huffman_Code
begin

text \<open>
  The encoders of \<^verbatim>\<open>src/core/ext/transport/chttp2/transport/bin_encoder.cc\<close> against the decoders of \<^verbatim>\<open>hpack_parser.cc\<close>: the bits that an accumulator
  holds, written and pending, are the codes of what was added, for as long as the pending bits and the next code fit 32 bits; and base64 text
  decodes to the bytes it was made from.
\<close>

section \<open>The accumulator\<close>

definition acc_bits :: "huff_out \<Rightarrow> bool list" where
  "acc_bits h = concat (map byte_bits (ho_out h)) @ bits (ho_temp_length h) (ho_temp h)"

lemma bits_ucast: "l \<le> 8 \<Longrightarrow> bits l (ucast w :: u8) = bits l w" for w :: u32
  by (rule bits_eqI) (simp add: bit_simps)

lemma flush_bits: "acc_bits (enc_flush_some h) = acc_bits h \<and> ho_temp_length (enc_flush_some h) \<le> 8"
proof (induction h rule: enc_flush_some.induct)
  case (1 h)
  show ?case
  proof (cases "8 < ho_temp_length h")
    case True
    let ?h = "h\<lparr>ho_temp_length := ho_temp_length h - 8, ho_out := ho_out h @ [ucast (drop_bit (ho_temp_length h - 8) (ho_temp h))]\<rparr>"
    have "bits (ho_temp_length h) (ho_temp h) =
      bits 8 (drop_bit (ho_temp_length h - 8) (ho_temp h)) @ bits (ho_temp_length h - 8) (ho_temp h)"
      using bits_split [of 8 "ho_temp_length h - 8" "ho_temp h"] True by simp
    then have "acc_bits ?h = acc_bits h" by (simp add: acc_bits_def byte_bits_def bits_ucast)
    moreover have "enc_flush_some h = enc_flush_some ?h" using True by (subst enc_flush_some.simps) simp
    ultimately show ?thesis using "1.IH" [OF True] by simp
  next
    case False
    then have "enc_flush_some h = h" by (subst enc_flush_some.simps) simp
    with False show ?thesis by simp
  qed
qed

lemma bit_above: "c < 2 ^ l \<Longrightarrow> l \<le> i \<Longrightarrow> \<not> bit c i" for c :: nat
  by (metis bit_take_bit_iff leD take_bit_nat_eq_self)

lemma push_bits:
  fixes w :: u32
  assumes "t + l \<le> 32" "c < 2 ^ l"
  shows "bits (t + l) (push_bit l w OR of_nat c) = bits t w @ bits l c"
proof -
  have "bits t (drop_bit l (push_bit l w OR of_nat c)) = bits t w"
    by (rule bits_eqI) (use assms bit_above [OF assms(2)] in \<open>auto simp: bit_simps\<close>)
  moreover have "bits l (push_bit l w OR of_nat c) = bits l (of_nat c :: u32)" by (rule bits_eqI) (auto simp: bit_simps)
  moreover have "\<dots> = bits l c" unfolding bits_def using assms(1) by (auto simp: bit_simps)
  ultimately show ?thesis by (simp add: bits_split)
qed

lemma push_bits2:
  fixes w :: u32
  assumes "t + l + m \<le> 32" "c < 2 ^ l" "d < 2 ^ m"
  shows "bits (t + (l + m)) (push_bit (l + m) w OR push_bit m (of_nat c) OR of_nat d) = bits t w @ bits l c @ bits m d"
proof -
  have "push_bit (l + m) w OR push_bit m (of_nat c) OR of_nat d = push_bit m (push_bit l w OR of_nat c) OR (of_nat d :: u32)"
    by (simp add: add.commute or.assoc)
  then show ?thesis using push_bits [of "t + l" m d "push_bit l w OR of_nat c"] push_bits [of t l c w] assms by (simp add: add.assoc)
qed

lemma huff_add_bits:
  assumes "ho_temp_length h \<le> 8" "snd (hsym (unat c)) \<le> 24"
  shows "acc_bits (huff_add h c) = acc_bits h @ code (unat c) \<and> ho_temp_length (huff_add h c) \<le> 8"
proof -
  have s: "fst (hsym (unat c)) < 2 ^ snd (hsym (unat c))" using sym_sane [of "unat c"] byte_less [of c] by (simp add: sane_sym_def)
  have "bits (ho_temp_length h + snd (hsym (unat c))) (push_bit (snd (hsym (unat c))) (ho_temp h) OR of_nat (fst (hsym (unat c)))) =
    bits (ho_temp_length h) (ho_temp h) @ code (unat c)"
    unfolding code_def using assms s by (intro push_bits) simp_all
  then show ?thesis
    unfolding huff_add_def hsym_def [symmetric] Let_def using flush_bits by (simp add: acc_bits_def)
qed

lemma huff_adds_bits:
  "ho_temp_length h \<le> 8 \<Longrightarrow> list_all (\<lambda>c. snd (hsym (unat c)) \<le> 24) xs \<Longrightarrow>
   acc_bits (foldl huff_add h xs) = acc_bits h @ concat (map (\<lambda>x. code (unat x)) xs) \<and> ho_temp_length (foldl huff_add h xs) \<le> 8"
proof (induction xs arbitrary: h)
  case (Cons x xs)
  then show ?case using huff_add_bits [of h x] by simp
qed simp

lemma bits_pad:
  fixes w :: u32
  assumes "0 < t" "t \<le> 8"
  shows "byte_bits (ucast (push_bit (8 - t) w) OR ucast (drop_bit t (0xff :: u32))) = bits t w @ replicate (8 - t) True"
proof -
  let ?b = "ucast (push_bit (8 - t) w) OR ucast (drop_bit t (0xff :: u32)) :: u8"
  have m: "(0xff :: u32) = mask 8" by (simp add: mask_eq_exp_minus_1)
  have "bits t (drop_bit (8 - t) ?b) = bits t w" by (rule bits_eqI) (use assms in \<open>auto simp: bit_simps m\<close>)
  moreover have "bits (8 - t) ?b = replicate (8 - t) True" by (rule nth_equalityI) (use assms in \<open>auto simp: nth_bits bit_simps m\<close>)
  ultimately show ?thesis using bits_split [of t "8 - t" ?b] assms(2) by (simp add: byte_bits_def)
qed

lemma finish_bits:
  assumes "ho_temp_length h \<le> 8"
  shows "\<exists>n < 8. concat (map byte_bits (enc_finish h)) = acc_bits h @ replicate n True"
proof (cases "ho_temp_length h = 0")
  case True
  then show ?thesis by (intro exI [of _ 0]) (simp add: enc_finish_def acc_bits_def)
next
  case False
  then show ?thesis
    using bits_pad [of "ho_temp_length h" "ho_temp h"] assms
    by (intro exI [of _ "8 - ho_temp_length h"]) (simp add: enc_finish_def acc_bits_def)
qed

lemma length_byte_bits: "length (concat (map byte_bits bs)) = 8 * length bs"
  by (induction bs) (simp_all add: byte_bits_def)

abbreviation empty_out :: huff_out where
  "empty_out \<equiv> \<lparr>ho_temp = 0, ho_temp_length = 0, ho_out = []\<rparr>"

lemma ceil8: "8 * x = m + n \<Longrightarrow> n < 8 \<Longrightarrow> x = m div 8 + of_bool (m mod 8 \<noteq> 0)" for m n x :: nat
proof -
  assume a: "8 * x = m + n" "n < 8"
  define q r where "q = m div 8" and "r = m mod 8"
  have m: "m = 8 * q + r" "r < 8" by (simp_all add: q_def r_def)
  have "x = q" if "r = 0" using that a m by presburger
  moreover have "x = q + 1" if "r \<noteq> 0" using that a m by presburger
  ultimately have "x = q + of_bool (r \<noteq> 0)" by simp
  then show ?thesis by (simp add: q_def r_def)
qed

lemma huffman_compress_codes:
  assumes "list_all (\<lambda>c. snd (hsym (unat c)) \<le> 24) xs"
  shows "\<exists>out. grpc_chttp2_huffman_compress xs = Some out \<and> codes_for out xs"
proof -
  let ?h = "foldl huff_add empty_out xs"
  let ?n = "sum_list (map (\<lambda>c. snd (hsym (unat c))) xs)"
  have h: "acc_bits ?h = concat (map (\<lambda>x. code (unat x)) xs)" "ho_temp_length ?h \<le> 8"
    using huff_adds_bits [of empty_out xs] assms by (simp_all add: acc_bits_def)
  then obtain n where n: "n < 8" "concat (map byte_bits (enc_finish ?h)) = concat (map (\<lambda>x. code (unat x)) xs) @ replicate n True"
    using finish_bits by metis
  have "length (concat (map (\<lambda>x. code (unat x)) xs)) = ?n" by (induction xs) (simp_all add: code_def)
  then have "8 * length (enc_finish ?h) = ?n + n" using arg_cong [OF n(2), of length] length_byte_bits by simp
  then have "length (enc_finish ?h) = ?n div 8 + of_bool (?n mod 8 \<noteq> 0)" using n(1) by (rule ceil8)
  then have "grpc_chttp2_huffman_compress xs = Some (enc_finish ?h)"
    unfolding grpc_chttp2_huffman_compress_def hsym_def [symmetric] Let_def by simp
  moreover have "codes_for (enc_finish ?h) xs" using n by (auto simp: codes_for_def)
  ultimately show ?thesis by blast
qed

section \<open>Base64\<close>

definition sextet_ok :: "nat \<Rightarrow> bool" where
  "sextet_ok k \<longleftrightarrow>
     huff_alphabet ! k = hsym (unat (b64_char (of_nat k))) \<and> snd (huff_alphabet ! k) \<le> 11 \<and>
     b64_char (of_nat k) \<noteq> 61 \<and> b64_char (of_nat k) \<noteq> 0"

text \<open>The inverse table inverts the alphabet.\<close>

lemma updates_length: "length (foldl (\<lambda>table (ofs, c). table[f c := ofs mod 256]) t cs) = length t"
  by (induction cs arbitrary: t) auto

lemma updates_other:
  "x \<notin> f ` snd ` set cs \<Longrightarrow> foldl (\<lambda>table (ofs, c). table[f c := ofs mod 256]) t cs ! x = t ! x"
  by (induction cs arbitrary: t) auto

lemma updates_nth:
  assumes "distinct (map f cs)" "k < length cs" "\<forall>c \<in> set cs. f c < length t"
  shows "foldl (\<lambda>table (ofs, c). table[f c := ofs mod 256]) t (List.enumerate n cs) ! f (cs ! k) = (n + k) mod 256"
  using assms
proof (induction cs arbitrary: n k t)
  case (Cons c cs)
  show ?case
  proof (cases k)
    case 0
    have "snd ` set (List.enumerate (Suc n) cs) = set cs" by (metis list.set_map map_snd_enumerate)
    then have "f c \<notin> f ` snd ` set (List.enumerate (Suc n) cs)" using Cons.prems(1) by auto
    from updates_other [OF this] show ?thesis using 0 Cons.prems(3) by simp
  next
    case (Suc j)
    then show ?thesis using Cons.IH [of j "t[f c := n mod 256]" "Suc n"] Cons.prems by simp
  qed
qed simp

lemma inverse_table: "k < 64 \<Longrightarrow> kBase64InverseTable ! of_char (alphabet ! k) = k"
proof -
  assume k: "k < 64"
  have b: "kBase64Alphabet = alphabet @ ''=''" "length alphabet = 64" by (simp_all add: kBase64Alphabet_def alphabet_def)
  have "distinct kBase64Alphabet" by (simp add: kBase64Alphabet_def)
  then have d: "distinct (map (of_char :: char \<Rightarrow> nat) kBase64Alphabet)" by (simp add: distinct_map inj_on_def)
  have "kBase64InverseTable ! of_char (kBase64Alphabet ! k) = (0 + k) mod 256"
    unfolding kBase64InverseTable_def using k b(2) by (intro updates_nth [OF d]) (simp_all add: b(1))
  then show ?thesis using k b(2) unfolding b(1) by (simp add: nth_append)
qed

lemma b64_char_bits: "k < 64 \<Longrightarrow> base64_bits (b64_char (of_nat k)) = of_nat k"
proof -
  assume k: "k < 64"
  then have "unat (of_nat k :: u8) = k" by (simp add: unat_of_nat)
  moreover have "unat (of_char c :: u8) = of_char c" for c by (cases c) (simp add: of_char_def split: bool.splits)
  ultimately show ?thesis using inverse_table [OF k] by (simp add: base64_bits_def b64_char_def)
qed

lemma sextets_ok: "k < 64 \<Longrightarrow> sextet_ok k"
proof -
  have u: "[0..<64] =
    [0, 1, 2, 3, 4, 5, 6, 7, 8, 9, 10, 11, 12, 13, 14, 15, 16, 17, 18, 19, 20, 21, 22, 23, 24, 25, 26, 27, 28, 29, 30, 31,
     32, 33, 34, 35, 36, 37, 38, 39, 40, 41, 42, 43, 44, 45, 46, 47, 48, 49, 50, 51, 52, 53, 54, 55, 56, 57, 58, 59, 60, 61, 62, 63]" by (simp add: upt_conv_Cons del: upt_Suc)
  have "list_all sextet_ok [0..<64]"
    unfolding u by (simp add: sextet_ok_def huff_alphabet_def b64_char_def alphabet_def sym_simps)
  then show "k < 64 \<Longrightarrow> sextet_ok k" by (simp add: list_all_iff)
qed


definition is_sextet :: "u8 \<Rightarrow> bool" where
  "is_sextet k \<longleftrightarrow> \<not> bit k 6 \<and> \<not> bit k 7"

lemma byte_no_bit: "8 \<le> i \<Longrightarrow> \<not> bit b i" for b :: u8
  using bit_imp_le_length by fastforce

lemma is_sextetD: "is_sextet k \<Longrightarrow> unat k < 64"
proof -
  assume k: "is_sextet k"
  have "n < 8 \<Longrightarrow> n < 6 \<or> n = 6 \<or> n = 7" for n :: nat by arith
  then have "take_bit 6 k = k" using k by (intro bit_word_eqI) (auto simp: bit_take_bit_iff is_sextet_def)
  then have "take_bit 6 (unat k) = unat k" by (metis unsigned_take_bit_eq)
  then show ?thesis using take_bit_nat_less_exp [of 6 "unat k"] by simp
qed

lemma sextets_are: "list_all is_sextet (sextets xs)"
  by (induction xs rule: sextets.induct) (simp_all add: is_sextet_def bit_simps byte_no_bit)

lemma sextets_length: "length (sextets xs) = length xs div 3 * 4 + tail_xtra ! (length xs mod 3)"
proof (induction xs rule: sextets.induct)
  case (1 a b c rest)
  have "length (a # b # c # rest) = length rest + 3" by simp
  then show ?case unfolding \<open>length (a # b # c # rest) = length rest + 3\<close> using 1 by (simp add: div_add_self2)
qed (simp_all add: tail_xtra_def)

text \<open>Four sextets give back the three bytes they were cut from.\<close>

lemma byte_eqI:
  fixes v w :: u8
  assumes "bit v 0 = bit w 0" "bit v 1 = bit w 1" "bit v 2 = bit w 2" "bit v 3 = bit w 3"
    "bit v 4 = bit w 4" "bit v 5 = bit w 5" "bit v 6 = bit w 6" "bit v 7 = bit w 7"
  shows "v = w"
proof (rule bit_word_eqI)
  fix n
  assume "n < LENGTH(8)"
  then have "n = 0 \<or> n = 1 \<or> n = 2 \<or> n = 3 \<or> n = 4 \<or> n = 5 \<or> n = 6 \<or> n = 7" by (simp, arith)
  then show "bit v n = bit w n" using assms by blast
qed

lemma quad_bytes:
  fixes a b c :: u8
  defines "buffer \<equiv> push_bit 18 (ucast (drop_bit 2 a)) OR push_bit 12 (ucast (push_bit 4 (a AND 0x3) OR drop_bit 4 b)) OR
      push_bit 6 (ucast (push_bit 2 (b AND 0xf) OR drop_bit 6 c)) OR ucast (c AND 0x3f) :: u32"
  shows "ucast (drop_bit 16 buffer) = a" "ucast (drop_bit 8 buffer) = b" "ucast buffer = c"
  unfolding buffer_def by (rule byte_eqI; simp add: bit_simps byte_no_bit)+

lemma pair_bytes:
  fixes a b :: u8
  defines "buffer \<equiv> push_bit 18 (ucast (drop_bit 2 a)) OR push_bit 12 (ucast (push_bit 4 (a AND 0x3) OR drop_bit 4 b)) OR
      push_bit 6 (ucast (push_bit 2 (b AND 0xf))) :: u32"
  shows "ucast (drop_bit 16 buffer) = a" "ucast (drop_bit 8 buffer) = b" "ucast buffer = (0 :: u8)"
  unfolding buffer_def by (rule byte_eqI; simp add: bit_simps byte_no_bit)+

lemma single_bytes:
  fixes a :: u8
  defines "buffer \<equiv> push_bit 18 (ucast (drop_bit 2 a)) OR push_bit 12 (ucast (push_bit 4 (a AND 0x3))) :: u32"
  shows "ucast (drop_bit 16 buffer) = a" "ucast (drop_bit 8 buffer) = (0 :: u8)" "ucast buffer = (0 :: u8)"
  unfolding buffer_def by (rule byte_eqI; simp add: bit_simps byte_no_bit)+

lemma low_bytes:
  fixes w :: u32
  shows "ucast w = (0 :: u8) \<Longrightarrow> w AND 0xff = 0"
    and "ucast w = (0 :: u8) \<Longrightarrow> ucast (drop_bit 8 w) = (0 :: u8) \<Longrightarrow> w AND 0xffff = 0"
proof -
  have m: "(0xff :: u32) = mask 8" "(0xffff :: u32) = mask 16" by (simp_all add: mask_eq_exp_minus_1)
  have z: "\<not> bit w i" if "ucast w = (0 :: u8)" "i < 8" for i using arg_cong [OF that(1), of "\<lambda>b. bit b i"] that(2) by (simp add: bit_simps)
  then show "ucast w = (0 :: u8) \<Longrightarrow> w AND 0xff = 0" unfolding m by (intro bit_word_eqI) (auto simp: bit_simps)
  have "\<not> bit w i" if "ucast w = (0 :: u8)" "ucast (drop_bit 8 w) = (0 :: u8)" "i < 16" for i
  proof (cases "i < 8")
    case False
    then show ?thesis using arg_cong [OF that(2), of "\<lambda>b. bit b (i - 8)"] that(3) by (simp add: bit_simps)
  qed (use z that(1) in blast)
  then show "ucast w = (0 :: u8) \<Longrightarrow> ucast (drop_bit 8 w) = (0 :: u8) \<Longrightarrow> w AND 0xffff = 0"
    unfolding m by (intro bit_word_eqI) (auto simp: bit_simps)
qed

lemma sextet_bits: "is_sextet k \<Longrightarrow> base64_bits (b64_char k) = ucast k \<and> \<not> 63 < (ucast k :: u32)"
proof -
  assume "is_sextet k"
  then have k: "unat k < 64" by (rule is_sextetD)
  then have "base64_bits (b64_char k) = ucast k" using b64_char_bits [OF k] by simp
  moreover have "unat (ucast k :: u32) = unat k" using k by (simp add: unsigned_ucast_eq take_bit_nat_eq_self)
  ultimately show ?thesis using k by (simp add: word_less_nat_alt)
qed

lemma unbase64_sextets: "unbase64_quads out (map b64_char (sextets xs)) = Some (out @ xs)"
proof (induction xs arbitrary: out rule: sextets.induct)
  case (1 a b c rest)
  have "list_all is_sextet [drop_bit 2 a, push_bit 4 (a AND 0x3) OR drop_bit 4 b, push_bit 2 (b AND 0xf) OR drop_bit 6 c, c AND 0x3f]"
    using sextets_are [of "[a, b, c]"] by simp
  then show ?case using 1 [of "out @ [a, b, c]"] quad_bytes [of a b c] sextet_bits by (simp add: Let_def)
next
  case (3 a)
  have "list_all is_sextet [drop_bit 2 a, push_bit 4 (a AND 0x3)]" using sextets_are [of "[a]"] by simp
  then show ?case using single_bytes [of a] low_bytes(2) sextet_bits by (simp add: Let_def)
next
  case (4 a b)
  have "list_all is_sextet [drop_bit 2 a, push_bit 4 (a AND 0x3) OR drop_bit 4 b, push_bit 2 (b AND 0xf)]"
    using sextets_are [of "[a, b]"] by simp
  then show ?case using pair_bytes [of a b] low_bytes(1) sextet_bits by (simp add: Let_def)
qed simp

lemma b64_char_ok: "is_sextet k \<Longrightarrow> b64_char k \<noteq> 61 \<and> b64_char k \<noteq> 0 \<and> huff_alphabet ! unat k = hsym (unat (b64_char k)) \<and>
    snd (hsym (unat (b64_char k))) \<le> 11"
  using sextets_ok [OF is_sextetD, of k] by (auto simp: sextet_ok_def)

lemma Unbase64Loop_sextets: "Unbase64Loop (map b64_char (sextets xs)) = Some xs"
proof -
  have "list_all (\<lambda>b. b \<noteq> 61) (map b64_char (sextets xs))" using sextets_are [of xs] b64_char_ok by (auto simp: list_all_iff)
  then have "dropWhile (\<lambda>b. b = 61) (rev (map b64_char (sextets xs))) = rev (map b64_char (sextets xs))"
    unfolding dropWhile_eq_self_iff list_all_iff by (metis hd_in_set set_rev)
  then show ?thesis using unbase64_sextets [of "[]" xs] by (simp add: Unbase64Loop_def)
qed

section \<open>Base64 text in Huffman code\<close>

lemma alphabet_sane: "is_sextet k \<Longrightarrow> fst (huff_alphabet ! unat k) < 2 ^ snd (huff_alphabet ! unat k)"
  using b64_char_ok [of k] sym_sane [of "unat (b64_char k)"] byte_less [of "b64_char k"] by (simp add: sane_sym_def)

lemma enc_add1_bits:
  assumes "ho_temp_length h \<le> 8" "is_sextet a"
  shows "acc_bits (enc_add1 h a) = acc_bits h @ code (unat (b64_char a)) \<and> ho_temp_length (enc_add1 h a) \<le> 8"
proof -
  let ?s = "huff_alphabet ! unat a"
  have "bits (ho_temp_length h + snd ?s) (push_bit (snd ?s) (ho_temp h) OR of_nat (fst ?s)) =
    bits (ho_temp_length h) (ho_temp h) @ code (unat (b64_char a))"
    using push_bits [of "ho_temp_length h" "snd ?s" "fst ?s" "ho_temp h"] assms(1) b64_char_ok [OF assms(2)] alphabet_sane [OF assms(2)]
    by (simp add: code_def)
  then show ?thesis unfolding enc_add1_def Let_def using flush_bits by (simp add: acc_bits_def)
qed

lemma enc_add2_bits:
  assumes "ho_temp_length h \<le> 8" "is_sextet a" "is_sextet b"
  shows "acc_bits (enc_add2 h a b) = acc_bits h @ code (unat (b64_char a)) @ code (unat (b64_char b)) \<and> ho_temp_length (enc_add2 h a b) \<le> 8"
proof -
  let ?s = "huff_alphabet ! unat a" and ?t = "huff_alphabet ! unat b"
  have "bits (ho_temp_length h + (snd ?s + snd ?t))
      (push_bit (snd ?s + snd ?t) (ho_temp h) OR push_bit (snd ?t) (of_nat (fst ?s)) OR of_nat (fst ?t)) =
    bits (ho_temp_length h) (ho_temp h) @ code (unat (b64_char a)) @ code (unat (b64_char b))"
    using push_bits2 [of "ho_temp_length h" "snd ?s" "snd ?t" "fst ?s" "fst ?t" "ho_temp h"] assms(1) b64_char_ok [OF assms(2)]
      b64_char_ok [OF assms(3)] alphabet_sane [OF assms(2)] alphabet_sane [OF assms(3)]
    by (simp add: code_def)
  then show ?thesis unfolding enc_add2_def Let_def using flush_bits by (simp add: acc_bits_def)
qed

lemma enc_sextets_bits:
  "ho_temp_length h \<le> 8 \<Longrightarrow>
   acc_bits (enc_sextets h xs) = acc_bits h @ concat (map (\<lambda>x. code (unat x)) (map b64_char (sextets xs))) \<and>
   ho_temp_length (enc_sextets h xs) \<le> 8"
proof (induction h xs rule: enc_sextets.induct)
  case (1 h a b c rest)
  let ?a = "drop_bit 2 a" and ?b = "push_bit 4 (a AND 0x3) OR drop_bit 4 b" and ?c = "push_bit 2 (b AND 0xf) OR drop_bit 6 c" and ?d = "c AND 0x3f"
  have s: "is_sextet ?a" "is_sextet ?b" "is_sextet ?c" "is_sextet ?d" using sextets_are [of "[a, b, c]"] by simp_all
  note x = enc_add2_bits [OF "1.prems" s(1,2)]
  note y = enc_add2_bits [OF conjunct2 [OF x] s(3,4)]
  have "acc_bits (enc_sextets h (a # b # c # rest)) =
    acc_bits (enc_add2 (enc_add2 h ?a ?b) ?c ?d) @ concat (map (\<lambda>x. code (unat x)) (map b64_char (sextets rest))) \<and>
    ho_temp_length (enc_sextets h (a # b # c # rest)) \<le> 8"
    unfolding enc_sextets.simps by (rule "1.IH" [OF conjunct2 [OF y]])
  then show ?case unfolding sextets.simps list.map concat.simps conjunct1 [OF y] conjunct1 [OF x] append.assoc .
next
  case (3 h a)
  have "is_sextet (drop_bit 2 a)" "is_sextet (push_bit 4 (a AND 0x3))" using sextets_are [of "[a]"] by simp_all
  from enc_add2_bits [OF 3 this] show ?case by simp
next
  case (4 h a b)
  have s: "is_sextet (drop_bit 2 a)" "is_sextet (push_bit 4 (a AND 0x3) OR drop_bit 4 b)" "is_sextet (push_bit 2 (b AND 0xf))"
    using sextets_are [of "[a, b]"] by simp_all
  note x = enc_add2_bits [OF 4 s(1,2)]
  from x enc_add1_bits [OF conjunct2 [OF x] s(3)] show ?case by simp
qed simp

lemma codes_length: "list_all (\<lambda>x. snd (hsym (unat x)) \<le> 11) cs \<Longrightarrow> length (concat (map (\<lambda>x. code (unat x)) cs)) \<le> 11 * length cs" for cs :: bytes
  by (induction cs) (auto simp: code_def)

lemma ceil8_le: "8 * x \<le> m + n \<Longrightarrow> n < 8 \<Longrightarrow> x \<le> m div 8 + of_bool (m mod 8 \<noteq> 0)" for m n x :: nat
proof -
  assume a: "8 * x \<le> m + n" "n < 8"
  define q r where "q = m div 8" and "r = m mod 8"
  have m: "m = 8 * q + r" "r < 8" by (simp_all add: q_def r_def)
  have "x \<le> q" if "r = 0" using that a m by linarith
  moreover have "x \<le> q + 1" using a m by linarith
  ultimately have "x \<le> q + of_bool (r \<noteq> 0)" by simp
  then show ?thesis by (simp add: q_def r_def)
qed

lemma base64_huffman_codes:
  "\<exists>out. grpc_chttp2_base64_encode_and_huffman_compress xs = Some out \<and> codes_for out (map b64_char (sextets xs))"
proof -
  let ?h = "enc_sextets empty_out xs" and ?cs = "map b64_char (sextets xs)"
  have h: "acc_bits ?h = concat (map (\<lambda>x. code (unat x)) ?cs)" "ho_temp_length ?h \<le> 8"
    using enc_sextets_bits [of empty_out xs] by (simp_all add: acc_bits_def)
  then obtain n where n: "n < 8" "concat (map byte_bits (enc_finish ?h)) = concat (map (\<lambda>x. code (unat x)) ?cs) @ replicate n True"
    using finish_bits by metis
  have "list_all (\<lambda>x. snd (hsym (unat x)) \<le> 11) ?cs" using sextets_are [of xs] b64_char_ok by (auto simp: list_all_iff)
  then have "length (concat (map (\<lambda>x. code (unat x)) ?cs)) \<le> 11 * length ?cs" by (rule codes_length)
  then have "8 * length (enc_finish ?h) \<le> 11 * length (sextets xs) + n" using arg_cong [OF n(2), of length] length_byte_bits by simp
  then have "length (enc_finish ?h) \<le> 11 * length (sextets xs) div 8 + of_bool (11 * length (sextets xs) mod 8 \<noteq> 0)" using n(1) by (rule ceil8_le)
  then have "grpc_chttp2_base64_encode_and_huffman_compress xs = Some (enc_finish ?h)"
    unfolding grpc_chttp2_base64_encode_and_huffman_compress_def sextets_length Let_def by simp
  moreover have "codes_for (enc_finish ?h) ?cs" using n by (auto simp: codes_for_def)
  ultimately show ?thesis by blast
qed

section \<open>Strings on the wire\<close>

lemma ParseHuff_decode:
  assumes "codes_for bs xs" "length bs < 2 ^ 32" "in_rest i = bs @ rest"
  shows "ParseHuff (of_nat (length bs)) out acc i = (Some (foldl out acc xs), i\<lparr>in_rest := rest\<rparr>)"
proof -
  have "unat (of_nat (length bs) :: u32) = length bs" using assms(2) by (simp add: unat_of_nat)
  then show ?thesis using huff_decode [OF assms(1), of out acc] assms(3) by (simp add: ParseHuff_def remaining_def Advance_def)
qed

lemma foldl_snoc: "foldl (\<lambda>out c. out @ [c]) acc xs = acc @ xs"
  by (induction xs arbitrary: acc) simp_all

lemma bin_output_base64: "foldl bin_output (kBase64, acc) cs = (kBase64, acc @ cs)"
  by (induction cs arbitrary: acc) (simp_all add: bin_output_def)

lemma bin_output_run: "list_all (\<lambda>c. c \<noteq> 0) cs \<Longrightarrow> foldl bin_output (kUnsure, []) cs = (if cs = [] then kUnsure else kBase64, cs)"
  by (cases cs) (simp_all add: bin_output_base64, simp add: bin_output_def bin_output_base64)

definition huff_string :: "bytes \<Rightarrow> bytes" where
  "huff_string bs = VarintWriter_Write 0x80 (VarintWriter 1 (of_nat (length bs))) @ bs"

lemma String_Parse_huff:
  assumes "codes_for bs xs" "length bs < 2 ^ 32" "clean i" "in_rest i = huff_string bs @ rest"
  shows "String_Parse i = (Some xs, i\<lparr>in_rest := rest\<rparr>)"
proof -
  have "ParseStringPrefix i = (Some \<lparr>sp_length = of_nat (length bs), sp_huff = True\<rparr>, i\<lparr>in_rest := bs @ rest\<rparr>)"
    using ParseStringPrefix_exact [OF assms(3), of True] assms(4) by (simp add: huff_string_def)
  then show ?thesis
    using ParseHuff_decode [OF assms(1,2), of "i\<lparr>in_rest := bs @ rest\<rparr>" rest "\<lambda>out c. out @ [c]" "[]"]
    by (simp add: String_Parse_def read_then_def foldl_snoc)
qed

lemma String_ParseBinary_huff:
  assumes "codes_for bs (map b64_char (sextets xs))" "length bs < 2 ^ 32" "clean i" "in_rest i = huff_string bs @ rest"
  shows "String_ParseBinary i = (Some xs, i\<lparr>in_rest := rest\<rparr>)"
proof -
  have p: "ParseStringPrefix i = (Some \<lparr>sp_length = of_nat (length bs), sp_huff = True\<rparr>, i\<lparr>in_rest := bs @ rest\<rparr>)"
    using ParseStringPrefix_exact [OF assms(3), of True] assms(4) by (simp add: huff_string_def)
  have "list_all (\<lambda>c. c \<noteq> 0) (map b64_char (sextets xs))" using sextets_are [of xs] b64_char_ok by (auto simp: list_all_iff)
  note o = bin_output_run [OF this]
  have e: "sextets xs = [] \<longleftrightarrow> xs = []" by (cases xs rule: sextets.cases) simp_all
  show ?thesis
    using p ParseHuff_decode [OF assms(1,2), of "i\<lparr>in_rest := bs @ rest\<rparr>" rest bin_output "(kUnsure, [])"] o e Unbase64Loop_sextets [of xs]
    by (auto simp: String_ParseBinary_def read_then_def Unbase64_def)
qed

lemma codes_for_length:
  assumes "codes_for bs xs" "list_all (\<lambda>c. snd (hsym (unat c)) \<le> 24) xs"
  shows "length bs \<le> 3 * length xs + 1"
proof -
  obtain n where n: "n < 8" "concat (map byte_bits bs) = concat (map (\<lambda>x. code (unat x)) xs) @ replicate n True"
    using assms(1) by (auto simp: codes_for_def)
  have "length (concat (map (\<lambda>x. code (unat x)) xs)) \<le> 24 * length xs" using assms(2) by (induction xs) (auto simp: code_def)
  then have "8 * length bs \<le> 24 * length xs + 7" using arg_cong [OF n(2), of length] length_byte_bits [of bs] n(1) by simp
  then show ?thesis by linarith
qed

lemma hd_bits: "0 < l \<Longrightarrow> bits l v \<noteq> [] \<and> hd (bits l v) = bit v (l - 1)"
proof -
  assume l: "0 < l"
  then have "bits l v \<noteq> []" by (simp flip: length_greater_0_conv)
  then show ?thesis using l by (simp add: hd_conv_nth nth_bits)
qed

lemma first_plain:
  assumes "plain ks = [x, y]" "list_all (\<lambda>k. k < 257) ks"
  obtains k ks' where "ks = k # ks'" "k = 256 \<or> k = unat x"
proof (cases ks)
  case (Cons k ks')
  then have "k = 256 \<or> k = unat x" using assms by (auto simp: plain_def unat_of_nat split: if_splits)
  then show ?thesis using Cons that by blast
qed (use assms(1) in \<open>simp add: plain_def\<close>)

lemma base64_code_length:
  assumes "codes_for out (map b64_char (sextets xs))" "length xs < 2 ^ 29"
  shows "length out < 2 ^ 32"
proof -
  have "list_all (\<lambda>c. snd (hsym (unat c)) \<le> 24) (map b64_char (sextets xs))"
    using sextets_are [of xs] b64_char_ok by (fastforce simp: list_all_iff)
  then have "length out \<le> 3 * length (sextets xs) + 1" using codes_for_length [OF assms(1)] by simp
  moreover have "length (sextets xs) \<le> 2 * length xs" by (induction xs rule: sextets.induct) simp_all
  ultimately show ?thesis using assms(2) by simp
qed

section \<open>Properties\<close>

text \<open>Base64 text is decoded to the bytes it encodes: the encoder never fails its assertion on the output length, and the decoder of binary metadata
  gives back the input.\<close>

theorem base64_roundtrip:
  "\<exists>out. grpc_chttp2_base64_encode xs = Some out \<and> Unbase64Loop out = Some xs"
  using Unbase64Loop_sextets sextets_length by (simp add: grpc_chttp2_base64_encode_def)

text \<open>C34: binary metadata survive the wire: base64 text compressed by the encoder into Huffman code, framed as a string with the Huffman flag, is parsed
  back to the original bytes by the table-driven decoder, which stops right behind it.  The encoder's assertions hold.\<close>

theorem binary_metadata_roundtrip:
  assumes "length xs < 2 ^ 29" "in_error i = None" "\<not> in_eof i"
  shows "\<exists>out. grpc_chttp2_base64_encode_and_huffman_compress xs = Some out \<and>
    String_ParseBinary (i\<lparr>in_rest := huff_string out @ rest\<rparr>) = (Some xs, i\<lparr>in_rest := rest\<rparr>)"
proof -
  obtain out where out: "grpc_chttp2_base64_encode_and_huffman_compress xs = Some out" "codes_for out (map b64_char (sextets xs))"
    using base64_huffman_codes by blast
  from String_ParseBinary_huff [OF out(2) base64_code_length [OF out(2) assms(1)], of "i\<lparr>in_rest := huff_string out @ rest\<rparr>" rest] out(1) assms(2,3)
  show ?thesis by (simp add: clean_def)
qed

theorem binary_metadata_roundtrip_witness:
  "\<exists>out. grpc_chttp2_base64_encode_and_huffman_compress [0xde, 0xad, 0xbe, 0xef, 0] = Some out \<and>
    String_ParseBinary ((Input_init [])\<lparr>in_rest := huff_string out @ [7]\<rparr>) = (Some [0xde, 0xad, 0xbe, 0xef, 0], (Input_init [])\<lparr>in_rest := [7]\<rparr>)"
  using binary_metadata_roundtrip [of "[0xde, 0xad, 0xbe, 0xef, 0]" "Input_init []" "[7]"] by (simp add: Input_init_def)

text \<open>C35: a string is compressed into Huffman code that the table-driven decoder expands to the same string, whenever every symbol's code has at most 24
  bits, which holds for every printable character: then the eight bits that may be pending and the code fit the 32-bit accumulator.\<close>

theorem huffman_string_roundtrip:
  assumes "list_all (\<lambda>c. snd (grpc_chttp2_huffsyms ! unat c) \<le> 24) xs" "length xs < 2 ^ 30" "in_error i = None" "\<not> in_eof i"
  shows "\<exists>out. grpc_chttp2_huffman_compress xs = Some out \<and>
    String_Parse (i\<lparr>in_rest := huff_string out @ rest\<rparr>) = (Some xs, i\<lparr>in_rest := rest\<rparr>)"
proof -
  have short: "list_all (\<lambda>c. snd (hsym (unat c)) \<le> 24) xs" using assms(1) by (simp add: hsym_def)
  obtain out where out: "grpc_chttp2_huffman_compress xs = Some out" "codes_for out xs" using huffman_compress_codes [OF short] by blast
  have "length out < 2 ^ 32" using codes_for_length [OF out(2) short] assms(2) by simp
  from String_Parse_huff [OF out(2) this, of "i\<lparr>in_rest := huff_string out @ rest\<rparr>" rest] out(1) assms(3,4)
  show ?thesis by (simp add: clean_def)
qed

theorem huffman_string_roundtrip_witness:
  "\<exists>out. grpc_chttp2_huffman_compress [0x67, 0x52, 0x50, 0x43] = Some out \<and>
    String_Parse ((Input_init [])\<lparr>in_rest := huff_string out @ [7]\<rparr>) = (Some [0x67, 0x52, 0x50, 0x43], (Input_init [])\<lparr>in_rest := [7]\<rparr>)"
  using huffman_string_roundtrip [of "[0x67, 0x52, 0x50, 0x43]" "Input_init []" "[7]"] by (simp add: Input_init_def grpc_chttp2_huffsyms_def)


end
