(* ===== verification/Static_Metadata.thy ===== *)
theory Static_Metadata
  imports Hpack_Tables Hpack_Parser
begin

text \<open>
  The static metadata: the bytes of \<^verbatim>\<open>src/core/lib/slice/static_slice.cc\<close>, the table of \<^verbatim>\<open>src/core/lib/transport/static_metadata.cc\<close> whose
  rows are slices of those bytes, its perfect hash, and the mementos that the decoder's table takes from it.  A slice carries the index of its
  reference count, which is the index of the string.
\<close>

section \<open>Definitions\<close>

datatype static_slice = StaticMetadataSlice (slice_index: nat) (slice_length: nat) (slice_offset: nat)

datatype static_mdelem = StaticMetadata (md_key: static_slice) (md_value: static_slice) (static_idx: nat)

definition metadata_bytes_0 :: "nat list" where
  "metadata_bytes_0 = [
     58, 112, 97, 116, 104, 58, 109, 101, 116, 104, 111, 100, 58, 115, 116, 97, 116, 117, 115, 58, 97, 117, 116, 104, 111, 114,
     105, 116, 121, 58, 115, 99, 104, 101, 109, 101, 103, 114, 112, 99, 45, 109, 101, 115, 115, 97, 103, 101, 103, 114, 112, 99,
     45, 115, 116, 97, 116, 117, 115, 103, 114, 112, 99, 45, 112, 97, 121, 108, 111, 97, 100, 45, 98, 105, 110, 103, 114, 112,
     99, 45, 101, 110, 99, 111, 100, 105, 110, 103, 103, 114, 112, 99, 45, 97, 99, 99, 101, 112, 116, 45, 101, 110, 99, 111, 100,
     105, 110, 103, 103, 114, 112, 99, 45, 115, 101, 114, 118, 101, 114, 45, 115, 116, 97, 116, 115, 45, 98, 105, 110, 103, 114,
     112, 99, 45, 116, 97, 103, 115, 45, 98, 105, 110, 103, 114, 112, 99, 45, 116, 114, 97, 99, 101, 45, 98, 105, 110, 99, 111,
     110, 116, 101, 110, 116, 45, 116, 121, 112, 101, 99, 111, 110, 116, 101, 110, 116, 45, 101, 110, 99, 111, 100, 105, 110,
     103, 97, 99, 99, 101, 112, 116, 45, 101, 110, 99, 111, 100, 105, 110, 103, 103, 114, 112, 99, 45, 105, 110, 116, 101, 114,
     110, 97, 108, 45, 101, 110, 99, 111, 100, 105, 110, 103, 45, 114, 101, 113, 117, 101, 115, 116, 103, 114, 112, 99, 45, 105,
     110, 116, 101, 114, 110]"

definition metadata_bytes_1 :: "nat list" where
  "metadata_bytes_1 = [
     97, 108, 45, 115, 116, 114, 101, 97, 109, 45, 101, 110, 99, 111, 100, 105, 110, 103, 45, 114, 101, 113, 117, 101, 115, 116,
     117, 115, 101, 114, 45, 97, 103, 101, 110, 116, 104, 111, 115, 116, 103, 114, 112, 99, 45, 112, 114, 101, 118, 105, 111,
     117, 115, 45, 114, 112, 99, 45, 97, 116, 116, 101, 109, 112, 116, 115, 103, 114, 112, 99, 45, 114, 101, 116, 114, 121, 45,
     112, 117, 115, 104, 98, 97, 99, 107, 45, 109, 115, 120, 45, 101, 110, 100, 112, 111, 105, 110, 116, 45, 108, 111, 97, 100,
     45, 109, 101, 116, 114, 105, 99, 115, 45, 98, 105, 110, 103, 114, 112, 99, 45, 116, 105, 109, 101, 111, 117, 116, 49, 50,
     51, 52, 103, 114, 112, 99, 46, 119, 97, 105, 116, 95, 102, 111, 114, 95, 114, 101, 97, 100, 121, 103, 114, 112, 99, 46, 116,
     105, 109, 101, 111, 117, 116, 103, 114, 112, 99, 46, 109, 97, 120, 95, 114, 101, 113, 117, 101, 115, 116, 95, 109, 101, 115,
     115, 97, 103, 101, 95, 98, 121, 116, 101, 115, 103, 114, 112, 99, 46, 109, 97, 120, 95, 114, 101, 115, 112, 111, 110, 115,
     101, 95, 109, 101, 115, 115, 97, 103, 101, 95, 98, 121, 116, 101, 115, 47, 103, 114, 112, 99, 46, 108, 98, 46, 118, 49, 46,
     76, 111, 97, 100, 66]"

definition metadata_bytes_2 :: "nat list" where
  "metadata_bytes_2 = [
     97, 108, 97, 110, 99, 101, 114, 47, 66, 97, 108, 97, 110, 99, 101, 76, 111, 97, 100, 47, 101, 110, 118, 111, 121, 46, 115,
     101, 114, 118, 105, 99, 101, 46, 108, 111, 97, 100, 95, 115, 116, 97, 116, 115, 46, 118, 50, 46, 76, 111, 97, 100, 82, 101,
     112, 111, 114, 116, 105, 110, 103, 83, 101, 114, 118, 105, 99, 101, 47, 83, 116, 114, 101, 97, 109, 76, 111, 97, 100, 83,
     116, 97, 116, 115, 47, 101, 110, 118, 111, 121, 46, 115, 101, 114, 118, 105, 99, 101, 46, 108, 111, 97, 100, 95, 115, 116,
     97, 116, 115, 46, 118, 51, 46, 76, 111, 97, 100, 82, 101, 112, 111, 114, 116, 105, 110, 103, 83, 101, 114, 118, 105, 99,
     101, 47, 83, 116, 114, 101, 97, 109, 76, 111, 97, 100, 83, 116, 97, 116, 115, 47, 103, 114, 112, 99, 46, 104, 101, 97, 108,
     116, 104, 46, 118, 49, 46, 72, 101, 97, 108, 116, 104, 47, 87, 97, 116, 99, 104, 47, 101, 110, 118, 111, 121, 46, 115, 101,
     114, 118, 105, 99, 101, 46, 100, 105, 115, 99, 111, 118, 101, 114, 121, 46, 118, 50, 46, 65, 103, 103, 114, 101, 103, 97,
     116, 101, 100, 68, 105, 115, 99, 111, 118, 101, 114, 121, 83, 101, 114, 118, 105, 99, 101, 47, 83, 116, 114, 101, 97, 109,
     65, 103]"

definition metadata_bytes_3 :: "nat list" where
  "metadata_bytes_3 = [
     103, 114, 101, 103, 97, 116, 101, 100, 82, 101, 115, 111, 117, 114, 99, 101, 115, 47, 101, 110, 118, 111, 121, 46, 115, 101,
     114, 118, 105, 99, 101, 46, 100, 105, 115, 99, 111, 118, 101, 114, 121, 46, 118, 51, 46, 65, 103, 103, 114, 101, 103, 97,
     116, 101, 100, 68, 105, 115, 99, 111, 118, 101, 114, 121, 83, 101, 114, 118, 105, 99, 101, 47, 83, 116, 114, 101, 97, 109,
     65, 103, 103, 114, 101, 103, 97, 116, 101, 100, 82, 101, 115, 111, 117, 114, 99, 101, 115, 100, 101, 102, 108, 97, 116, 101,
     103, 122, 105, 112, 115, 116, 114, 101, 97, 109, 47, 103, 122, 105, 112, 116, 101, 116, 114, 97, 105, 108, 101, 114, 115,
     71, 69, 84, 80, 79, 83, 84, 47, 47, 105, 110, 100, 101, 120, 46, 104, 116, 109, 108, 104, 116, 116, 112, 104, 116, 116, 112,
     115, 50, 48, 48, 50, 48, 52, 50, 48, 54, 51, 48, 52, 52, 48, 48, 52, 48, 52, 53, 48, 48, 97, 99, 99, 101, 112, 116, 45, 99,
     104, 97, 114, 115, 101, 116, 103, 122, 105, 112, 44, 32, 100, 101, 102, 108, 97, 116, 101, 97, 99, 99, 101, 112, 116, 45,
     108, 97, 110, 103, 117, 97, 103, 101, 97, 99, 99, 101, 112, 116, 45, 114, 97, 110, 103, 101, 115, 97, 99, 99, 101, 112, 116,
     97]"

definition metadata_bytes_4 :: "nat list" where
  "metadata_bytes_4 = [
     99, 99, 101, 115, 115, 45, 99, 111, 110, 116, 114, 111, 108, 45, 97, 108, 108, 111, 119, 45, 111, 114, 105, 103, 105, 110,
     97, 103, 101, 97, 108, 108, 111, 119, 97, 117, 116, 104, 111, 114, 105, 122, 97, 116, 105, 111, 110, 99, 97, 99, 104, 101,
     45, 99, 111, 110, 116, 114, 111, 108, 99, 111, 110, 116, 101, 110, 116, 45, 100, 105, 115, 112, 111, 115, 105, 116, 105,
     111, 110, 99, 111, 110, 116, 101, 110, 116, 45, 108, 97, 110, 103, 117, 97, 103, 101, 99, 111, 110, 116, 101, 110, 116, 45,
     108, 101, 110, 103, 116, 104, 99, 111, 110, 116, 101, 110, 116, 45, 108, 111, 99, 97, 116, 105, 111, 110, 99, 111, 110, 116,
     101, 110, 116, 45, 114, 97, 110, 103, 101, 99, 111, 111, 107, 105, 101, 100, 97, 116, 101, 101, 116, 97, 103, 101, 120, 112,
     101, 99, 116, 101, 120, 112, 105, 114, 101, 115, 102, 114, 111, 109, 105, 102, 45, 109, 97, 116, 99, 104, 105, 102, 45, 109,
     111, 100, 105, 102, 105, 101, 100, 45, 115, 105, 110, 99, 101, 105, 102, 45, 110, 111, 110, 101, 45, 109, 97, 116, 99, 104,
     105, 102, 45, 114, 97, 110, 103, 101, 105, 102, 45, 117, 110, 109, 111, 100, 105, 102, 105, 101, 100, 45, 115, 105, 110, 99,
     101, 108, 97, 115, 116, 45, 109]"

definition metadata_bytes_5 :: "nat list" where
  "metadata_bytes_5 = [
     111, 100, 105, 102, 105, 101, 100, 108, 105, 110, 107, 108, 111, 99, 97, 116, 105, 111, 110, 109, 97, 120, 45, 102, 111,
     114, 119, 97, 114, 100, 115, 112, 114, 111, 120, 121, 45, 97, 117, 116, 104, 101, 110, 116, 105, 99, 97, 116, 101, 112, 114,
     111, 120, 121, 45, 97, 117, 116, 104, 111, 114, 105, 122, 97, 116, 105, 111, 110, 114, 97, 110, 103, 101, 114, 101, 102,
     101, 114, 101, 114, 114, 101, 102, 114, 101, 115, 104, 114, 101, 116, 114, 121, 45, 97, 102, 116, 101, 114, 115, 101, 114,
     118, 101, 114, 115, 101, 116, 45, 99, 111, 111, 107, 105, 101, 115, 116, 114, 105, 99, 116, 45, 116, 114, 97, 110, 115, 112,
     111, 114, 116, 45, 115, 101, 99, 117, 114, 105, 116, 121, 116, 114, 97, 110, 115, 102, 101, 114, 45, 101, 110, 99, 111, 100,
     105, 110, 103, 118, 97, 114, 121, 118, 105, 97, 119, 119, 119, 45, 97, 117, 116, 104, 101, 110, 116, 105, 99, 97, 116, 101,
     48, 105, 100, 101, 110, 116, 105, 116, 121, 97, 112, 112, 108, 105, 99, 97, 116, 105, 111, 110, 47, 103, 114, 112, 99, 103,
     114, 112, 99, 80, 85, 84, 108, 98, 45, 99, 111, 115, 116, 45, 98, 105, 110, 105, 100, 101, 110, 116, 105, 116, 121, 44, 100,
     101, 102, 108, 97, 116, 101, 105, 100]"

definition metadata_bytes_6 :: "nat list" where
  "metadata_bytes_6 = [
     101, 110, 116, 105, 116, 121, 44, 103, 122, 105, 112, 100, 101, 102, 108, 97, 116, 101, 44, 103, 122, 105, 112, 105, 100,
     101, 110, 116, 105, 116, 121, 44, 100, 101, 102, 108, 97, 116, 101, 44, 103, 122, 105, 112]"

definition g_static_metadata_bytes :: "nat list" where
  "g_static_metadata_bytes = metadata_bytes_0 @ metadata_bytes_1 @ metadata_bytes_2 @ metadata_bytes_3 @ metadata_bytes_4 @ metadata_bytes_5 @ metadata_bytes_6"

definition mdelem_table_0 :: "static_mdelem list" where
  "mdelem_table_0 = [
     StaticMetadata (StaticMetadataSlice 3 10 19) (StaticMetadataSlice 28 0 371) 0,
     StaticMetadata (StaticMetadataSlice 1 7 5) (StaticMetadataSlice 44 3 849) 1,
     StaticMetadata (StaticMetadataSlice 1 7 5) (StaticMetadataSlice 45 4 852) 2,
     StaticMetadata (StaticMetadataSlice 0 5 0) (StaticMetadataSlice 46 1 856) 3,
     StaticMetadata (StaticMetadataSlice 0 5 0) (StaticMetadataSlice 47 11 857) 4,
     StaticMetadata (StaticMetadataSlice 4 7 29) (StaticMetadataSlice 48 4 868) 5,
     StaticMetadata (StaticMetadataSlice 4 7 29) (StaticMetadataSlice 49 5 872) 6,
     StaticMetadata (StaticMetadataSlice 2 7 12) (StaticMetadataSlice 50 3 877) 7,
     StaticMetadata (StaticMetadataSlice 2 7 12) (StaticMetadataSlice 51 3 880) 8,
     StaticMetadata (StaticMetadataSlice 2 7 12) (StaticMetadataSlice 52 3 883) 9,
     StaticMetadata (StaticMetadataSlice 2 7 12) (StaticMetadataSlice 53 3 886) 10,
     StaticMetadata (StaticMetadataSlice 2 7 12) (StaticMetadataSlice 54 3 889) 11,
     StaticMetadata (StaticMetadataSlice 2 7 12) (StaticMetadataSlice 55 3 892) 12,
     StaticMetadata (StaticMetadataSlice 2 7 12) (StaticMetadataSlice 56 3 895) 13,
     StaticMetadata (StaticMetadataSlice 57 14 898) (StaticMetadataSlice 28 0 371) 14,
     StaticMetadata (StaticMetadataSlice 15 15 184) (StaticMetadataSlice 58 13 912) 15,
     StaticMetadata (StaticMetadataSlice 59 15 925) (StaticMetadataSlice 28 0 371) 16,
     StaticMetadata (StaticMetadataSlice 60 13 940) (StaticMetadataSlice 28 0 371) 17,
     StaticMetadata (StaticMetadataSlice 61 6 953) (StaticMetadataSlice 28 0 371) 18,
     StaticMetadata (StaticMetadataSlice 62 27 959) (StaticMetadataSlice 28 0 371) 19,
     StaticMetadata (StaticMetadataSlice 63 3 986) (StaticMetadataSlice 28 0 371) 20]"

definition mdelem_table_1 :: "static_mdelem list" where
  "mdelem_table_1 = [
     StaticMetadata (StaticMetadataSlice 64 5 989) (StaticMetadataSlice 28 0 371) 21,
     StaticMetadata (StaticMetadataSlice 65 13 994) (StaticMetadataSlice 28 0 371) 22,
     StaticMetadata (StaticMetadataSlice 66 13 1007) (StaticMetadataSlice 28 0 371) 23,
     StaticMetadata (StaticMetadataSlice 67 19 1020) (StaticMetadataSlice 28 0 371) 24,
     StaticMetadata (StaticMetadataSlice 14 16 168) (StaticMetadataSlice 28 0 371) 25,
     StaticMetadata (StaticMetadataSlice 68 16 1039) (StaticMetadataSlice 28 0 371) 26,
     StaticMetadata (StaticMetadataSlice 69 14 1055) (StaticMetadataSlice 28 0 371) 27,
     StaticMetadata (StaticMetadataSlice 70 16 1069) (StaticMetadataSlice 28 0 371) 28,
     StaticMetadata (StaticMetadataSlice 71 13 1085) (StaticMetadataSlice 28 0 371) 29,
     StaticMetadata (StaticMetadataSlice 13 12 156) (StaticMetadataSlice 28 0 371) 30,
     StaticMetadata (StaticMetadataSlice 72 6 1098) (StaticMetadataSlice 28 0 371) 31,
     StaticMetadata (StaticMetadataSlice 73 4 1104) (StaticMetadataSlice 28 0 371) 32,
     StaticMetadata (StaticMetadataSlice 74 4 1108) (StaticMetadataSlice 28 0 371) 33,
     StaticMetadata (StaticMetadataSlice 75 6 1112) (StaticMetadataSlice 28 0 371) 34,
     StaticMetadata (StaticMetadataSlice 76 7 1118) (StaticMetadataSlice 28 0 371) 35,
     StaticMetadata (StaticMetadataSlice 77 4 1125) (StaticMetadataSlice 28 0 371) 36,
     StaticMetadata (StaticMetadataSlice 19 4 276) (StaticMetadataSlice 28 0 371) 37,
     StaticMetadata (StaticMetadataSlice 78 8 1129) (StaticMetadataSlice 28 0 371) 38,
     StaticMetadata (StaticMetadataSlice 79 17 1137) (StaticMetadataSlice 28 0 371) 39,
     StaticMetadata (StaticMetadataSlice 80 13 1154) (StaticMetadataSlice 28 0 371) 40,
     StaticMetadata (StaticMetadataSlice 81 8 1167) (StaticMetadataSlice 28 0 371) 41]"

definition mdelem_table_2 :: "static_mdelem list" where
  "mdelem_table_2 = [
     StaticMetadata (StaticMetadataSlice 82 19 1175) (StaticMetadataSlice 28 0 371) 42,
     StaticMetadata (StaticMetadataSlice 83 13 1194) (StaticMetadataSlice 28 0 371) 43,
     StaticMetadata (StaticMetadataSlice 84 4 1207) (StaticMetadataSlice 28 0 371) 44,
     StaticMetadata (StaticMetadataSlice 85 8 1211) (StaticMetadataSlice 28 0 371) 45,
     StaticMetadata (StaticMetadataSlice 86 12 1219) (StaticMetadataSlice 28 0 371) 46,
     StaticMetadata (StaticMetadataSlice 87 18 1231) (StaticMetadataSlice 28 0 371) 47,
     StaticMetadata (StaticMetadataSlice 88 19 1249) (StaticMetadataSlice 28 0 371) 48,
     StaticMetadata (StaticMetadataSlice 89 5 1268) (StaticMetadataSlice 28 0 371) 49,
     StaticMetadata (StaticMetadataSlice 90 7 1273) (StaticMetadataSlice 28 0 371) 50,
     StaticMetadata (StaticMetadataSlice 91 7 1280) (StaticMetadataSlice 28 0 371) 51,
     StaticMetadata (StaticMetadataSlice 92 11 1287) (StaticMetadataSlice 28 0 371) 52,
     StaticMetadata (StaticMetadataSlice 93 6 1298) (StaticMetadataSlice 28 0 371) 53,
     StaticMetadata (StaticMetadataSlice 94 10 1304) (StaticMetadataSlice 28 0 371) 54,
     StaticMetadata (StaticMetadataSlice 95 25 1314) (StaticMetadataSlice 28 0 371) 55,
     StaticMetadata (StaticMetadataSlice 96 17 1339) (StaticMetadataSlice 28 0 371) 56,
     StaticMetadata (StaticMetadataSlice 18 10 266) (StaticMetadataSlice 28 0 371) 57,
     StaticMetadata (StaticMetadataSlice 97 4 1356) (StaticMetadataSlice 28 0 371) 58,
     StaticMetadata (StaticMetadataSlice 98 3 1360) (StaticMetadataSlice 28 0 371) 59,
     StaticMetadata (StaticMetadataSlice 99 16 1363) (StaticMetadataSlice 28 0 371) 60,
     StaticMetadata (StaticMetadataSlice 6 11 48) (StaticMetadataSlice 100 1 1379) 61,
     StaticMetadata (StaticMetadataSlice 6 11 48) (StaticMetadataSlice 24 1 367) 62]"

definition mdelem_table_3 :: "static_mdelem list" where
  "mdelem_table_3 = [
     StaticMetadata (StaticMetadataSlice 6 11 48) (StaticMetadataSlice 25 1 368) 63,
     StaticMetadata (StaticMetadataSlice 8 13 75) (StaticMetadataSlice 101 8 1380) 64,
     StaticMetadata (StaticMetadataSlice 8 13 75) (StaticMetadataSlice 40 4 824) 65,
     StaticMetadata (StaticMetadataSlice 8 13 75) (StaticMetadataSlice 39 7 817) 66,
     StaticMetadata (StaticMetadataSlice 13 12 156) (StaticMetadataSlice 102 16 1388) 67,
     StaticMetadata (StaticMetadataSlice 4 7 29) (StaticMetadataSlice 103 4 1404) 68,
     StaticMetadata (StaticMetadataSlice 1 7 5) (StaticMetadataSlice 104 3 1408) 69,
     StaticMetadata (StaticMetadataSlice 15 15 184) (StaticMetadataSlice 28 0 371) 70,
     StaticMetadata (StaticMetadataSlice 14 16 168) (StaticMetadataSlice 101 8 1380) 71,
     StaticMetadata (StaticMetadataSlice 14 16 168) (StaticMetadataSlice 40 4 824) 72,
     StaticMetadata (StaticMetadataSlice 105 11 1411) (StaticMetadataSlice 28 0 371) 73,
     StaticMetadata (StaticMetadataSlice 9 20 88) (StaticMetadataSlice 101 8 1380) 74,
     StaticMetadata (StaticMetadataSlice 9 20 88) (StaticMetadataSlice 39 7 817) 75,
     StaticMetadata (StaticMetadataSlice 9 20 88) (StaticMetadataSlice 106 16 1422) 76,
     StaticMetadata (StaticMetadataSlice 9 20 88) (StaticMetadataSlice 40 4 824) 77,
     StaticMetadata (StaticMetadataSlice 9 20 88) (StaticMetadataSlice 107 13 1438) 78,
     StaticMetadata (StaticMetadataSlice 9 20 88) (StaticMetadataSlice 108 12 1451) 79,
     StaticMetadata (StaticMetadataSlice 9 20 88) (StaticMetadataSlice 109 21 1463) 80,
     StaticMetadata (StaticMetadataSlice 15 15 184) (StaticMetadataSlice 101 8 1380) 81,
     StaticMetadata (StaticMetadataSlice 15 15 184) (StaticMetadataSlice 40 4 824) 82,
     StaticMetadata (StaticMetadataSlice 15 15 184) (StaticMetadataSlice 107 13 1438) 83]"

definition g_static_mdelem_table :: "static_mdelem list" where
  "g_static_mdelem_table = mdelem_table_0 @ mdelem_table_1 @ mdelem_table_2 @ mdelem_table_3"

text \<open>The perfect hash of a pair of strings, in 32-bit arithmetic.\<close>

definition elems_r :: "int list" where
  "elems_r = [
     18, 11, - 8, 0, 3, - 75, - 51, 0, 7, - 4, 0, 0, 0, 12, - 1, - 2, 0, 0, 7, 6, 0, 0, 0, 0, 0, 0, 0, 0, 0, 0, 0, 0, 0, 0, 0, 0,
     0, 0, 0, 0, 0, 0, 0, 0, 0, 0, 0, 0, 0, 0, 0, 0, 0, 0, 0, 0, 0, - 50, 0, - 55, - 75, - 76, - 77, 0, 30, 29, 28, 27, 26, 25,
     24, 23, 22, 21, 28, 19, 18, 17, 16, 17, 17, 16, 15, 14, 13, 12, 11, 10, 9, 8, 7, 6, 5, 4, 3, 2, 1, 0, - 1, 0, 0, 0, 0, 0, 0,
     0, - 11, 0]"

definition elem_keys :: "nat list" where
  "elem_keys = [
     270, 271, 272, 273, 274, 275, 276, 1029, 1030, 1568, 1678, 154, 155, 488, 489, 760, 919, 920, 46, 47, 1458, 1580, 1690, 684,
     685, 2008, 2118, 6628, 6738, 6848, 6958, 7068, 7178, 7288, 7398, 7508, 7618, 7728, 7838, 7948, 1708, 8168, 8278, 8388, 8498,
     6518, 6298, 8608, 8058, 8718, 8828, 8938, 9048, 9158, 9268, 9378, 9488, 9598, 9708, 9818, 9928, 10038, 10148, 10258, 10368,
     10478, 10588, 10698, 543, 1091, 10808, 214, 10918, 11578, 1096, 1097, 1098, 1099, 981, 0, 0, 0, 1641, 1751, 0, 0, 0, 0, 358,
     1757, 0, 0, 0, 0, 1532]"

definition elem_idxs :: "nat list" where
  "elem_idxs = [
     7, 8, 9, 10, 11, 12, 13, 75, 77, 25, 70, 1, 2, 5, 6, 61, 66, 65, 3, 4, 30, 72, 82, 62, 63, 57, 37, 17, 18, 19, 20, 21, 22,
     23, 24, 26, 27, 28, 29, 31, 15, 33, 34, 35, 36, 16, 14, 38, 32, 39, 40, 41, 42, 43, 44, 45, 46, 47, 48, 49, 50, 51, 52, 53,
     54, 55, 56, 58, 68, 74, 59, 69, 60, 73, 76, 78, 79, 80, 64, 255, 255, 255, 71, 81, 255, 255, 255, 255, 0, 83, 255, 255, 255,
     255, 67]"

definition elems_phash :: "u32 \<Rightarrow> u32" where
  "elems_phash i0 =
     (let i = i0 - 46; x = i mod 108; y = i div 108; h = x in
      if unat y < length elems_r then h + of_int (elems_r ! unat y) else h)"

definition grpc_static_mdelem_for_static_strings :: "int \<Rightarrow> int \<Rightarrow> static_mdelem option" where
  "grpc_static_mdelem_for_static_strings a b =
     (if a = - 1 \<or> b = - 1 then None
      else
        let k = of_int (a * 110 + b) :: u32; h = unat (elems_phash k) in
        if h < length elem_keys \<and> of_nat (elem_keys ! h) = k \<and> elem_idxs ! h \<noteq> 255
        then Some (g_static_mdelem_table ! (elem_idxs ! h)) else None)"

definition slice_bytes :: "static_slice \<Rightarrow> nat list" where
  "slice_bytes s = take (slice_length s) (drop (slice_offset s) g_static_metadata_bytes)"

definition StaticMementos :: "md memento list" where
  "StaticMementos =
     map (\<lambda>e. mk_memento (map of_nat (slice_bytes (md_key e))) (map of_nat (slice_bytes (md_value e))))
       (take kLastStaticEntry g_static_mdelem_table)"

section \<open>The static table of HPACK\<close>

text \<open>The table of RFC 7541, Appendix A.\<close>

definition rfc7541_static :: "(string \<times> string) list" where
  "rfc7541_static = [
     ('':authority'', ''''), ('':method'', ''GET''), ('':method'', ''POST''), ('':path'', ''/''), ('':path'', ''/index.html''),
     ('':scheme'', ''http''), ('':scheme'', ''https''), ('':status'', ''200''), ('':status'', ''204''), ('':status'', ''206''),
     ('':status'', ''304''), ('':status'', ''400''), ('':status'', ''404''), ('':status'', ''500''), (''accept-charset'', ''''),
     (''accept-encoding'', ''gzip, deflate''), (''accept-language'', ''''), (''accept-ranges'', ''''), (''accept'', ''''),
     (''access-control-allow-origin'', ''''), (''age'', ''''), (''allow'', ''''), (''authorization'', ''''),
     (''cache-control'', ''''), (''content-disposition'', ''''), (''content-encoding'', ''''), (''content-language'', ''''),
     (''content-length'', ''''), (''content-location'', ''''), (''content-range'', ''''), (''content-type'', ''''),
     (''cookie'', ''''), (''date'', ''''), (''etag'', ''''), (''expect'', ''''), (''expires'', ''''), (''from'', ''''),
     (''host'', ''''), (''if-match'', ''''), (''if-modified-since'', ''''), (''if-none-match'', ''''), (''if-range'', ''''),
     (''if-unmodified-since'', ''''), (''last-modified'', ''''), (''link'', ''''), (''location'', ''''),
     (''max-forwards'', ''''), (''proxy-authenticate'', ''''), (''proxy-authorization'', ''''), (''range'', ''''),
     (''referer'', ''''), (''refresh'', ''''), (''retry-after'', ''''), (''server'', ''''), (''set-cookie'', ''''),
     (''strict-transport-security'', ''''), (''transfer-encoding'', ''''), (''user-agent'', ''''), (''vary'', ''''),
     (''via'', ''''), (''www-authenticate'', '''')]"

definition static_codes :: "(nat list \<times> nat list) list" where
  "static_codes = map (\<lambda>e. (slice_bytes (md_key e), slice_bytes (md_value e))) (take kLastStaticEntry g_static_mdelem_table)"

lemma metadata_bytes_lengths [simp]:
  "length metadata_bytes_0 = 240" "length metadata_bytes_1 = 240" "length metadata_bytes_2 = 240" "length metadata_bytes_3 = 240"
  "length metadata_bytes_4 = 240" "length metadata_bytes_5 = 240"
  by (simp_all add: metadata_bytes_0_def metadata_bytes_1_def metadata_bytes_2_def metadata_bytes_3_def metadata_bytes_4_def metadata_bytes_5_def)

lemma slice_codes:
  "static_codes = map (\<lambda>e. (slice_bytes (md_key e), slice_bytes (md_value e))) (mdelem_table_0 @ mdelem_table_1 @ take 19 mdelem_table_2)"
  by (simp add: static_codes_def kLastStaticEntry_def g_static_mdelem_table_def mdelem_table_0_def mdelem_table_1_def mdelem_table_2_def)

lemma static_codes_rfc: "static_codes = map (map_prod (map of_char) (map of_char)) rfc7541_static"
  unfolding slice_codes mdelem_table_0_def mdelem_table_1_def mdelem_table_2_def
  by (simp add: slice_bytes_def g_static_metadata_bytes_def)
    (simp add: metadata_bytes_0_def metadata_bytes_1_def metadata_bytes_2_def metadata_bytes_3_def metadata_bytes_4_def metadata_bytes_5_def
      metadata_bytes_6_def rfc7541_static_def)

definition ascii :: "string \<Rightarrow> bytes" where
  "ascii s = map of_char s"

lemma of_nat_ascii: "of_nat (of_char c) = (of_char c :: u8)"
  by (cases c) (simp add: of_char_def)

lemma ascii_codes: "map of_nat (map of_char s) = ascii s"
  by (simp add: ascii_def of_nat_ascii)

lemma StaticMementos_rfc: "StaticMementos = map (\<lambda>(k, v). mk_memento (ascii k) (ascii v)) rfc7541_static"
proof -
  have s: "StaticMementos = map (\<lambda>(k, v). mk_memento (map of_nat k) (map of_nat v)) static_codes"
    by (simp add: StaticMementos_def static_codes_def)
  show ?thesis unfolding s static_codes_rfc map_map by (rule map_cong) (auto simp: of_nat_ascii ascii_def comp_def)
qed

lemma rfc_sizes: "list_all (\<lambda>(k, v). length k + length v < 100) rfc7541_static" "length rfc7541_static = 61"
  by (simp_all add: rfc7541_static_def)

lemma StaticMementos_ok:
  "length StaticMementos = 61" "list_all (\<lambda>m. exact_memento m \<and> transport_size m \<le> 2 ^ 31) StaticMementos"
proof -
  show "length StaticMementos = 61" by (simp add: StaticMementos_rfc rfc_sizes(2))
  have "exact_memento (mk_memento (ascii k) (ascii v)) \<and> transport_size (mk_memento (ascii k) (ascii v)) \<le> 2 ^ 31"
    if "(k, v) \<in> set rfc7541_static" for k v
    using that rfc_sizes(1) by (auto simp: list_all_iff exact_memento_def mk_memento_def TransportSize_def ascii_def)
  then show "list_all (\<lambda>m. exact_memento m \<and> transport_size m \<le> 2 ^ 31) StaticMementos" by (auto simp: StaticMementos_rfc list_all_iff)
qed

lemma hpack_table_ok_init: "table_ok (HPackTable_init StaticMementos)"
  using StaticMementos_ok peer_ok_init [of StaticMementos]
  by (simp add: table_ok_def peer_ok_def coupled_def peers_init_def HPackTable_init_def kInitialTableSize_def dec_abs_def)

section \<open>The perfect hash\<close>

definition string_pair :: "static_mdelem \<Rightarrow> int \<times> int" where
  "string_pair e = (int (slice_index (md_key e)), int (slice_index (md_value e)))"

lemma hash_slots:
  "list_all (\<lambda>(k, j). j = 255 \<or> j < 84 \<and> string_pair (g_static_mdelem_table ! j) = (int k div 110, int k mod 110)) (zip elem_keys elem_idxs)"
  by (simp add: elem_keys_def elem_idxs_def g_static_mdelem_table_def mdelem_table_0_def mdelem_table_1_def mdelem_table_2_def
      mdelem_table_3_def string_pair_def)

lemma elem_tables_length: "length elem_keys = 95" "length elem_idxs = 95" "length g_static_mdelem_table = 84"
  by (simp_all add: elem_keys_def elem_idxs_def g_static_mdelem_table_def mdelem_table_0_def mdelem_table_1_def mdelem_table_2_def mdelem_table_3_def)

lemma elem_keys_bound: "list_all (\<lambda>k. k < 2 ^ 32) elem_keys"
  by (simp add: elem_keys_def)

definition found :: "static_mdelem \<Rightarrow> bool" where
  "found e \<longleftrightarrow> grpc_static_mdelem_for_static_strings (fst (string_pair e)) (snd (string_pair e)) = Some e"

lemmas static_table_defs = g_static_mdelem_table_def mdelem_table_0_def mdelem_table_1_def mdelem_table_2_def mdelem_table_3_def
  elem_keys_def elem_idxs_def elems_r_def string_pair_def

lemma mdelem_found: "list_all found g_static_mdelem_table"
proof -
  have "list_all found mdelem_table_0" "list_all found mdelem_table_1" "list_all found mdelem_table_2" "list_all found mdelem_table_3"
    by (simp_all add: static_table_defs found_def grpc_static_mdelem_for_static_strings_def elems_phash_def)
  then show ?thesis by (simp add: g_static_mdelem_table_def)
qed

lemma static_hit:
  assumes "0 \<le> a" "0 \<le> b" "a < 110" "b < 110" "grpc_static_mdelem_for_static_strings a b = Some e"
  shows "e \<in> set g_static_mdelem_table \<and> string_pair e = (a, b)"
proof -
  define h where "h = unat (elems_phash (of_int (a * 110 + b)))"
  have h: "h < length elem_keys" "of_nat (elem_keys ! h) = (of_int (a * 110 + b) :: u32)" "elem_idxs ! h \<noteq> 255"
    "e = g_static_mdelem_table ! (elem_idxs ! h)"
    using assms(5) unfolding grpc_static_mdelem_for_static_strings_def Let_def h_def [symmetric] by (simp_all split: if_split_asm)
  define k where "k = elem_keys ! h"
  have "k < 2 ^ 32" using elem_keys_bound h(1) by (simp add: list_all_length k_def)
  then have "uint (of_nat k :: u32) = int k" by (simp add: uint_nat unat_of_nat)
  moreover define c where "c = a * 110 + b"
  have "0 \<le> c" "c < 2 ^ 32" using assms(1-4) by (simp_all add: c_def)
  then have "uint (of_int c :: u32) = c" by (simp add: uint_word_of_int)
  ultimately have "int k = a * 110 + b" using h(2) by (simp add: k_def c_def)
  moreover have "elem_idxs ! h < 84 \<and> string_pair e = (int k div 110, int k mod 110)"
    using hash_slots h(1,3) elem_tables_length unfolding h(4) k_def list_all_length by simp blast
  ultimately show ?thesis using assms(2,4) h(4) elem_tables_length(3) by auto
qed

section \<open>Properties\<close>

text \<open>C32: the first 61 rows of the generated static metadata, read out of the byte array at the offsets of the generated table, are the static table of
  HPACK (RFC 7541, Appendix A), each memento with its HPACK size, as the comment above the table demands; and the decoder starts well formed with it.\<close>

theorem static_table_is_rfc7541:
  "StaticMementos = map (\<lambda>(k, v). mk_memento (ascii k) (ascii v)) rfc7541_static \<and> table_ok (HPackTable_init StaticMementos)"
  using StaticMementos_rfc hpack_table_ok_init by blast

text \<open>C33: the perfect hash of the static metadata is exact: a pair of string indices finds an element just when the table has an element with that
  key and that value, and finds that element; every other pair, and a string that is not static (index -1), finds none.\<close>

theorem static_perfect_hash:
  assumes "a \<in> {-1..<110}" "b \<in> {-1..<110}"
  shows "grpc_static_mdelem_for_static_strings a b = Some e \<longleftrightarrow> e \<in> set g_static_mdelem_table \<and> string_pair e = (a, b)"
proof -
  have neg: "a \<noteq> -1 \<and> b \<noteq> -1" if "grpc_static_mdelem_for_static_strings a b = Some e"
    using that by (auto simp: grpc_static_mdelem_for_static_strings_def)
  have "grpc_static_mdelem_for_static_strings a b = Some e" if "e \<in> set g_static_mdelem_table" "string_pair e = (a, b)"
    using mdelem_found that unfolding list_all_iff found_def by (metis fst_conv snd_conv)
  then show ?thesis using neg static_hit [of a b e] assms by fastforce
qed

theorem static_perfect_hash_witness:
  "grpc_static_mdelem_for_static_strings 1 44 = Some (g_static_mdelem_table ! 1) \<longleftrightarrow>
     g_static_mdelem_table ! 1 \<in> set g_static_mdelem_table \<and> string_pair (g_static_mdelem_table ! 1) = (1, 44)"
  using static_perfect_hash [of 1 44 "g_static_mdelem_table ! 1"] by simp

text \<open>C31: the parser returns on every input, with a value or an error: it never reads out of bounds, never violates an assertion of the table, never
  loops, and it leaves the table well formed (its ring buffer, its size accounting and the exact size of every entry).\<close>

theorem hpack_parser_total:
  assumes "table_ok (hp_table p)" "length (unparsed_bytes p) + length bs < 2 ^ 28"
  shows "\<exists>e p'. HPackParser_Parse set_md bs is_last p = Some (e, p') \<and> table_ok (hp_table p')"
proof -
  have "sound_result (ParseInputInner set_md (p\<lparr>unparsed_bytes := []\<rparr>) (Input_init (unparsed_bytes p @ bs)))"
    using ParseInputInner_sound [of "p\<lparr>unparsed_bytes := []\<rparr>" "unparsed_bytes p @ bs" set_md] assms by simp
  then obtain ok p' i' where
    "ParseInputInner set_md (p\<lparr>unparsed_bytes := []\<rparr>) (Input_init (unparsed_bytes p @ bs)) = Some (ok, p', i')" "table_ok (hp_table p')"
    by (auto simp: sound_result_def split: option.splits prod.splits)
  then show ?thesis by (cases ok) (auto simp: HPackParser_Parse_unparsed ParseInput_def)
qed

theorem hpack_parser_total_witness:
  "table_ok (HPackTable_init StaticMementos) \<and>
   (\<exists>e p'. HPackParser_Parse (\<lambda>m b. (True, m # b)) [0x82, 0x40, 1, 0x61, 1, 0x62] True
      (HPackParser_BeginFrame (Some []) 1000 EndOfHeaders PriorityNone (HPackParser_init StaticMementos)) = Some (e, p') \<and>
    table_ok (hp_table p'))"
  using hpack_parser_total [of "HPackParser_BeginFrame (Some []) 1000 EndOfHeaders PriorityNone (HPackParser_init StaticMementos)"
      "[0x82, 0x40, 1, 0x61, 1, 0x62]" "\<lambda>m b. (True, m # b)" True] hpack_table_ok_init
  by (simp add: HPackParser_BeginFrame_def HPackParser_init_def)

end
