(* ===== verification/Timeout_Encoding.thy ===== *)
theory Timeout_Encoding
  imports Prelude
begin

text \<open>
  The text form of deadlines: \<^verbatim>\<open>src/core/lib/transport/timeout_encoding.cc\<close> with \<open>int64_ttoa\<close> of \<^verbatim>\<open>src/core/lib/gpr/string.cc\<close>.  A \<open>grpc_millis\<close> is an
  integer; C division truncates, which is \<open>div\<close> on the non-negative numbers that occur.  Texts are lists of bytes without the final NUL.
  Encoding rounds up, to three significant figures, so a decoded timeout is never shorter than the one that was encoded.
\<close>

section \<open>Definitions\<close>

type_synonym millis = int

definition GPR_MS_PER_SEC :: int where "GPR_MS_PER_SEC = 1000"
definition GPR_NS_PER_MS :: int where "GPR_NS_PER_MS = 1000000"
definition GPR_US_PER_MS :: int where "GPR_US_PER_MS = 1000"
definition GRPC_MILLIS_INF_FUTURE :: int where "GRPC_MILLIS_INF_FUTURE = 2 ^ 63 - 1"
definition GRPC_HTTP2_TIMEOUT_ENCODE_MIN_BUFSIZE :: nat where "GRPC_HTTP2_TIMEOUT_ENCODE_MIN_BUFSIZE = 10"

text \<open>The digits, the least significant first, as the loop writes them.\<close>

function ttoa_loop :: "int \<Rightarrow> u8 list" where
  "ttoa_loop v = (if v \<le> 0 then [] else of_int (48 + v mod 10) # ttoa_loop (v div 10))"
  by pat_completeness auto
termination by (relation "measure nat") auto

declare ttoa_loop.simps [simp del]

definition int64_ttoa :: "int \<Rightarrow> u8 list" where
  "int64_ttoa v =
     (if v = 0 then [48]
      else if v < 0 then rev (ttoa_loop (- v) @ [45])
      else rev (ttoa_loop v))"

definition round_up :: "int \<Rightarrow> int \<Rightarrow> int" where
  "round_up x divisor = (x div divisor + of_bool (x mod divisor \<noteq> 0)) * divisor"

definition round_up_to_three_sig_figs :: "int \<Rightarrow> int" where
  "round_up_to_three_sig_figs x =
     (if x < 1000 then x
      else if x < 10000 then round_up x 10
      else if x < 100000 then round_up x 100
      else if x < 1000000 then round_up x 1000
      else if x < 10000000 then round_up x 10000
      else if x < 100000000 then round_up x 100000
      else if x < 1000000000 then round_up x 1000000
      else round_up x 10000000)"

definition enc_tiny :: "u8 list" where "enc_tiny = map of_char ''1n''"
definition enc_huge :: "u8 list" where "enc_huge = map of_char ''99999999S''"

definition enc_ext :: "int \<Rightarrow> char \<Rightarrow> u8 list" where
  "enc_ext v c = int64_ttoa v @ [of_char c]"

definition enc_seconds :: "int \<Rightarrow> u8 list" where
  "enc_seconds sec0 =
     (let sec = round_up_to_three_sig_figs sec0 in
      if sec mod 3600 = 0 then enc_ext (sec div 3600) CHR ''H''
      else if sec mod 60 = 0 then enc_ext (sec div 60) CHR ''M''
      else enc_ext sec CHR ''S'')"

definition enc_millis :: "int \<Rightarrow> u8 list" where
  "enc_millis x0 =
     (let x = round_up_to_three_sig_figs x0 in
      if x < GPR_MS_PER_SEC then enc_ext x CHR ''m''
      else if x mod GPR_MS_PER_SEC = 0 then enc_seconds (x div GPR_MS_PER_SEC)
      else enc_ext x CHR ''m'')"

definition kMaxTimeout :: int where "kMaxTimeout = 99999999000"

definition grpc_http2_encode_timeout :: "millis \<Rightarrow> u8 list" where
  "grpc_http2_encode_timeout timeout =
     (if timeout \<le> 0 then enc_tiny
      else if timeout < 1000 * GPR_MS_PER_SEC then enc_millis timeout
      else if kMaxTimeout \<le> timeout then enc_huge
      else enc_seconds (timeout div GPR_MS_PER_SEC + of_bool (timeout mod GPR_MS_PER_SEC \<noteq> 0)))"

definition is_all_whitespace :: "u8 list \<Rightarrow> bool" where
  "is_all_whitespace p \<longleftrightarrow> dropWhile (\<lambda>c. c = 32) p = []"

text \<open>The numeric part: \<open>Inl\<close> is the early return with the infinite future.\<close>

fun decode_digits :: "bool \<Rightarrow> int \<Rightarrow> u8 list \<Rightarrow> unit + (bool \<times> int \<times> u8 list)" where
  "decode_digits have_digit x [] = Inr (have_digit, x, [])"
| "decode_digits have_digit x (c # p) =
     (if 48 \<le> c \<and> c \<le> 57 then
        let digit = uint c - 48 in
        if 100 * 1000 * 1000 \<le> x \<and> (x \<noteq> 100 * 1000 * 1000 \<or> digit \<noteq> 0) then Inl ()
        else decode_digits True (x * 10 + digit) p
      else Inr (have_digit, x, c # p))"

definition grpc_http2_decode_timeout :: "u8 list \<Rightarrow> millis option" where
  "grpc_http2_decode_timeout text0 =
     (case decode_digits False 0 (dropWhile (\<lambda>c. c = 32) text0) of
        Inl _ \<Rightarrow> Some GRPC_MILLIS_INF_FUTURE
      | Inr (have_digit, x, p0) \<Rightarrow>
          if \<not> have_digit then None
          else
            (case dropWhile (\<lambda>c. c = 32) p0 of
               [] \<Rightarrow> None
             | c # p \<Rightarrow>
                 let timeout =
                   (if c = of_char CHR ''n'' then Some (x div GPR_NS_PER_MS + of_bool (x mod GPR_NS_PER_MS \<noteq> 0))
                    else if c = of_char CHR ''u'' then Some (x div GPR_US_PER_MS + of_bool (x mod GPR_US_PER_MS \<noteq> 0))
                    else if c = of_char CHR ''m'' then Some x
                    else if c = of_char CHR ''S'' then Some (x * GPR_MS_PER_SEC)
                    else if c = of_char CHR ''M'' then Some (x * 60 * GPR_MS_PER_SEC)
                    else if c = of_char CHR ''H'' then Some (x * 60 * 60 * GPR_MS_PER_SEC)
                    else None) in
                 if timeout \<noteq> None \<and> is_all_whitespace p then timeout else None))"

section \<open>Numbers\<close>

text \<open>A digit that is read back, appended to the number so far.\<close>

lemma digit_byte:
  assumes "0 \<le> d" "d < 10"
  shows "48 \<le> (of_int (48 + d) :: u8)" "(of_int (48 + d) :: u8) \<le> 57" "uint (of_int (48 + d) :: u8) = 48 + d"
proof -
  have "(48 + d) mod 2 ^ LENGTH(8) = 48 + d" using assms by simp
  then show u: "uint (of_int (48 + d) :: u8) = 48 + d" unfolding uint_word_of_int by simp
  then show "48 \<le> (of_int (48 + d) :: u8)" "(of_int (48 + d) :: u8) \<le> 57" using assms by (simp_all add: word_le_def)
qed

text \<open>The value of digits, the least significant first.\<close>

lemma decode_ttoa:
  assumes "0 \<le> v" "v \<le> 1000000000"
  shows "decode_digits h 0 (rev (ttoa_loop v) @ p) = decode_digits (h \<or> 0 < v) v p"
  using assms
proof (induction v arbitrary: p rule: ttoa_loop.induct)
  case (1 v)
  show ?case
  proof (cases "v = 0")
    case True
    then show ?thesis by (simp add: ttoa_loop.simps)
  next
    case False
    let ?d = "v mod 10"
    have d: "0 \<le> ?d" "?d < 10" by simp_all
    have "decode_digits h 0 (rev (ttoa_loop v) @ p) = decode_digits h 0 (rev (ttoa_loop (v div 10)) @ of_int (48 + ?d) # p)"
      using False 1(2) by (subst ttoa_loop.simps) simp
    also have "\<dots> = decode_digits (h \<or> 0 < v div 10) (v div 10) (of_int (48 + ?d) # p)"
      using 1 False by simp
    also have "\<dots> = decode_digits True (v div 10 * 10 + ?d) p"
      unfolding decode_digits.simps digit_byte(3) [OF d] Let_def using digit_byte(1,2) [OF d] 1(3) by (simp del: of_int_add) presburger
    finally show ?thesis using False 1(2) by simp
  qed
qed

lemma decode_int64_ttoa:
  "0 \<le> v \<Longrightarrow> v \<le> 1000000000 \<Longrightarrow> decode_digits h 0 (int64_ttoa v @ p) = decode_digits True v p"
  using decode_ttoa [of v h p] by (simp add: int64_ttoa_def)

lemma ttoa_length: "v < 10 ^ n \<Longrightarrow> length (ttoa_loop v) \<le> n"
proof (induction v arbitrary: n rule: ttoa_loop.induct)
  case (1 v)
  show ?case
  proof (cases "v \<le> 0")
    case True
    then show ?thesis by (simp add: ttoa_loop.simps)
  next
    case False
    then obtain m where n: "n = Suc m" using 1(2) by (cases n) auto
    then have "v div 10 < 10 ^ m" using 1(2) by simp
    then show ?thesis using 1(1) [of m] False n by (subst ttoa_loop.simps) simp
  qed
qed

lemma enc_ext_length: "0 \<le> v \<Longrightarrow> v < 10 ^ 8 \<Longrightarrow> length (enc_ext v c) \<le> 9"
  using ttoa_length [of v 8] by (simp add: enc_ext_def int64_ttoa_def)

lemma int64_ttoa_hd: "0 \<le> v \<Longrightarrow> \<exists>c cs. int64_ttoa v = c # cs \<and> c \<noteq> 32"
proof (cases "v = 0")
  case False
  assume "0 \<le> v"
  have "\<forall>c \<in> set (ttoa_loop v). c \<noteq> 32"
  proof (induction v rule: ttoa_loop.induct)
    case (1 v)
    have "(of_int (48 + v mod 10) :: u8) \<noteq> 32"
    proof
      assume "(of_int (48 + v mod 10) :: u8) = 32"
      moreover have "uint (of_int (48 + v mod 10) :: u8) = 48 + v mod 10" by (rule digit_byte) simp_all
      ultimately have "48 + v mod 10 = uint (32 :: u8)" by metis
      then have "48 + v mod 10 = 32" by (simp only: uint_numeral) simp
      then show False by presburger
    qed
    then show ?case using 1 by (subst ttoa_loop.simps) (simp del: of_int_add)
  qed
  moreover have "ttoa_loop v \<noteq> []" using False \<open>0 \<le> v\<close> by (subst ttoa_loop.simps) simp
  moreover have "int64_ttoa v = rev (ttoa_loop v)" using False \<open>0 \<le> v\<close> by (simp add: int64_ttoa_def)
  ultimately show ?thesis by (metis list.exhaust list.set_intros(1) rev_is_Nil_conv set_rev)
qed (simp add: int64_ttoa_def)

text \<open>The units that the encoder writes.\<close>

definition unit_millis :: "char \<Rightarrow> int" where
  "unit_millis c = (if c = CHR ''m'' then 1 else if c = CHR ''S'' then 1000 else if c = CHR ''M'' then 60000 else 3600000)"

lemma decode_ext:
  assumes "0 \<le> v" "v \<le> 1000000000" "c \<in> {CHR ''m'', CHR ''S'', CHR ''M'', CHR ''H''}"
  shows "grpc_http2_decode_timeout (enc_ext v c) = Some (v * unit_millis c)"
proof -
  obtain b bs where b: "int64_ttoa v = b # bs" "b \<noteq> 32" using int64_ttoa_hd [OF assms(1)] by blast
  then have "dropWhile (\<lambda>c. c = 32) (enc_ext v c) = enc_ext v c" by (simp add: enc_ext_def)
  moreover have "decode_digits False 0 (enc_ext v c) = Inr (True, v, [of_char c])"
    using decode_int64_ttoa [OF assms(1,2), of False "[of_char c]"] assms(3) by (auto simp: enc_ext_def)
  ultimately have d: "decode_digits False 0 (dropWhile (\<lambda>c. c = 32) (enc_ext v c)) = Inr (True, v, [of_char c])" by simp
  consider "c = CHR ''m''" | "c = CHR ''S''" | "c = CHR ''M''" | "c = CHR ''H''" using assms(3) by blast
  then show ?thesis
    unfolding grpc_http2_decode_timeout_def d by cases (simp_all add: is_all_whitespace_def unit_millis_def GPR_MS_PER_SEC_def)
qed

section \<open>Rounding\<close>

lemma round_up_bounds:
  assumes "0 < d" "0 \<le> x"
  shows "x \<le> round_up x d" "round_up x d < x + d" "round_up x d mod d = 0"
proof -
  have m: "0 \<le> x mod d" "x mod d < d" using assms(1) by simp_all
  have e: "round_up x d = x - x mod d + of_bool (x mod d \<noteq> 0) * d"
    unfolding round_up_def by (simp add: algebra_simps minus_mod_eq_div_mult [symmetric])
  show "x \<le> round_up x d" "round_up x d < x + d" using m unfolding e by auto
  show "round_up x d mod d = 0" by (simp add: round_up_def)
qed

lemma three_sig_figs:
  assumes "0 \<le> x" "x < 1000000000"
  shows "x \<le> round_up_to_three_sig_figs x" "100 * round_up_to_three_sig_figs x \<le> 101 * x" "round_up_to_three_sig_figs x \<le> 1000000000"
  using assms round_up_bounds [of 10 x] round_up_bounds [of 100 x] round_up_bounds [of 1000 x] round_up_bounds [of 10000 x]
    round_up_bounds [of 100000 x] round_up_bounds [of 1000000 x]
  unfolding round_up_to_three_sig_figs_def by (auto split: if_splits)

lemma decode_enc_seconds:
  assumes "0 \<le> s" "s < 1000000000"
  shows "grpc_http2_decode_timeout (enc_seconds s) = Some (1000 * round_up_to_three_sig_figs s)"
proof -
  let ?r = "round_up_to_three_sig_figs s"
  have r: "0 \<le> ?r" "?r \<le> 1000000000" using three_sig_figs [OF assms] assms by auto
  consider "?r mod 3600 = 0" | "?r mod 3600 \<noteq> 0" "?r mod 60 = 0" | "?r mod 3600 \<noteq> 0" "?r mod 60 \<noteq> 0" by blast
  then show ?thesis
  proof cases
    case 1
    then obtain q where q: "?r = 3600 * q" by (metis mod_0_imp_dvd dvdE)
    then show ?thesis using r decode_ext [of q "CHR ''H''"] by (simp add: enc_seconds_def unit_millis_def Let_def)
  next
    case 2
    then obtain q where q: "?r = 60 * q" by (metis mod_0_imp_dvd dvdE)
    then have "enc_seconds s = enc_ext q CHR ''M''" using 2(1) by (simp add: enc_seconds_def Let_def)
    then show ?thesis using q r decode_ext [of q "CHR ''M''"] by (simp add: unit_millis_def)
  next
    case 3
    then show ?thesis using r decode_ext [of ?r "CHR ''S''"] by (simp add: enc_seconds_def unit_millis_def Let_def)
  qed
qed

lemma decode_enc_millis:
  assumes "0 < x" "x < 1000000"
  shows "grpc_http2_decode_timeout (enc_millis x) = Some (round_up_to_three_sig_figs x)"
proof -
  let ?r = "round_up_to_three_sig_figs x"
  have r: "x \<le> ?r" "100 * ?r \<le> 101 * x" using three_sig_figs [of x] assms by auto
  show ?thesis
  proof (cases "1000 \<le> ?r \<and> ?r mod 1000 = 0")
    case True
    then obtain q where q: "?r = 1000 * q" by (metis mod_0_imp_dvd dvdE)
    have "?r < x + 1000"
      using assms round_up_bounds [of 10 x] round_up_bounds [of 100 x] round_up_bounds [of 1000 x]
      by (auto simp: round_up_to_three_sig_figs_def)
    then have s: "0 \<le> q" "q < 1001" using q r assms by auto
    then have "round_up_to_three_sig_figs q = q"
      by (cases "q = 1000") (auto simp: round_up_to_three_sig_figs_def round_up_def)
    moreover have "enc_millis x = enc_seconds q" using True q by (simp add: enc_millis_def Let_def GPR_MS_PER_SEC_def)
    ultimately show ?thesis using q s decode_enc_seconds [of q] by simp
  next
    case False
    then show ?thesis using r assms decode_ext [of ?r "CHR ''m''"] by (auto simp: enc_millis_def unit_millis_def Let_def GPR_MS_PER_SEC_def)
  qed
qed

lemma enc_seconds_length:
  assumes "0 \<le> s" "s \<le> 99900000"
  shows "length (enc_seconds s) \<le> 9"
proof -
  note b = three_sig_figs [of s]
  have "round_up_to_three_sig_figs s \<le> 99900000"
  proof (cases "s < 10000000")
    case True
    then show ?thesis using assms b by linarith
  next
    case False
    then have r: "round_up_to_three_sig_figs s = round_up s 100000" using assms by (simp add: round_up_to_three_sig_figs_def)
    obtain q where "round_up s 100000 = 100000 * q" by (metis round_up_def mult.commute)
    then show ?thesis using r assms round_up_bounds [of 100000 s] by simp
  qed
  then have r: "0 \<le> round_up_to_three_sig_figs s" "round_up_to_three_sig_figs s \<le> 99900000" using b assms by linarith+
  then show ?thesis
    using enc_ext_length [of "round_up_to_three_sig_figs s"] enc_ext_length [of "round_up_to_three_sig_figs s div 60"]
      enc_ext_length [of "round_up_to_three_sig_figs s div 3600"] by (simp add: enc_seconds_def Let_def)
qed

lemma enc_millis_length:
  assumes "0 < x" "x < 1000000"
  shows "length (enc_millis x) \<le> 9"
proof -
  have r: "0 \<le> round_up_to_three_sig_figs x" "round_up_to_three_sig_figs x \<le> 10100000" using three_sig_figs [of x] assms by auto
  then show ?thesis using enc_ext_length [of "round_up_to_three_sig_figs x"] enc_seconds_length [of "round_up_to_three_sig_figs x div 1000"]
    by (simp add: enc_millis_def Let_def GPR_MS_PER_SEC_def)
qed

section \<open>Properties\<close>

text \<open>C37: a timeout survives the wire and is never shortened.  For every positive timeout below the cap the text is decoded again, to a value that is not
  below the timeout and at most 1.2 percent above it; a timeout that has passed becomes one millisecond, and one above the cap becomes the cap.\<close>

theorem timeout_roundtrip:
  "\<exists>t'. grpc_http2_decode_timeout (grpc_http2_encode_timeout t) = Some t' \<and>
     (if t \<le> 0 then t' = 1 else if kMaxTimeout \<le> t then t' = kMaxTimeout else t \<le> t' \<and> 1000 * t' \<le> 1012 * t)"
proof -
  consider "t \<le> 0" | "kMaxTimeout \<le> t" | "0 < t" "t < 1000000" | "1000000 \<le> t" "t < kMaxTimeout" by linarith
  then show ?thesis
  proof cases
    case 1
    then show ?thesis by (simp add: grpc_http2_encode_timeout_def enc_tiny_def grpc_http2_decode_timeout_def is_all_whitespace_def GPR_NS_PER_MS_def)
  next
    case 2
    then show ?thesis by (simp add: kMaxTimeout_def grpc_http2_encode_timeout_def enc_huge_def grpc_http2_decode_timeout_def is_all_whitespace_def GPR_MS_PER_SEC_def)
  next
    case 3
    then show ?thesis using decode_enc_millis [of t] three_sig_figs [of t]
      by (simp add: grpc_http2_encode_timeout_def GPR_MS_PER_SEC_def kMaxTimeout_def)
  next
    case 4
    let ?s = "t div 1000 + of_bool (t mod 1000 \<noteq> 0)"
    have "round_up t 1000 = 1000 * ?s" by (simp add: round_up_def)
    with round_up_bounds [of 1000 t] 4 have s: "t \<le> 1000 * ?s" "1000 * ?s < t + 1000" by simp_all
    then have "0 \<le> ?s" "?s < 1000000000" using 4 by (auto simp: kMaxTimeout_def)
    from decode_enc_seconds [OF this] three_sig_figs [OF this] s 4 show ?thesis
      by (simp add: grpc_http2_encode_timeout_def GPR_MS_PER_SEC_def kMaxTimeout_def)
  qed
qed

text \<open>C38: the buffer of ten bytes that the callers provide is one byte too short for some timeouts.  The text and its final NUL fit it exactly when
  the timeout is not between 99900000 and 99999999 seconds; in between, rounding up to three figures gives the ten characters
  \<open>100000000S\<close>, and the NUL is written behind the end of the buffer.\<close>

theorem timeout_buffer_overrun:
  "length (grpc_http2_encode_timeout t) + 1 \<le> GRPC_HTTP2_TIMEOUT_ENCODE_MIN_BUFSIZE \<longleftrightarrow> \<not> (99900000000 < t \<and> t < kMaxTimeout)"
proof -
  let ?s = "t div 1000 + of_bool (t mod 1000 \<noteq> 0)"
  have ru: "round_up t 1000 = 1000 * ?s" by (simp add: round_up_def)
  consider "t \<le> 0 \<or> kMaxTimeout \<le> t" | "0 < t" "t < 1000000" | "1000000 \<le> t" "t \<le> 99900000000" | "99900000000 < t" "t < kMaxTimeout" by linarith
  then show ?thesis
  proof cases
    case 1
    then show ?thesis by (auto simp: grpc_http2_encode_timeout_def enc_tiny_def enc_huge_def GRPC_HTTP2_TIMEOUT_ENCODE_MIN_BUFSIZE_def GPR_MS_PER_SEC_def kMaxTimeout_def)
  next
    case 2
    then have "length (enc_millis t) \<le> 9" by (rule enc_millis_length)
    with 2 show ?thesis by (simp add: grpc_http2_encode_timeout_def GRPC_HTTP2_TIMEOUT_ENCODE_MIN_BUFSIZE_def GPR_MS_PER_SEC_def kMaxTimeout_def)
  next
    case 3
    then have "0 \<le> ?s" "?s \<le> 99900000" using round_up_bounds [of 1000 t] ru by simp_all
    then have "length (enc_seconds ?s) \<le> 9" by (rule enc_seconds_length)
    with 3 show ?thesis by (simp add: grpc_http2_encode_timeout_def GRPC_HTTP2_TIMEOUT_ENCODE_MIN_BUFSIZE_def GPR_MS_PER_SEC_def kMaxTimeout_def)
  next
    case 4
    then have s: "99900000 < ?s" "?s \<le> 99999999" using round_up_bounds [of 1000 t] ru by (simp_all add: kMaxTimeout_def)
    obtain q where "round_up ?s 100000 = 100000 * q" by (metis round_up_def mult.commute)
    with round_up_bounds [of 100000 ?s] s have "round_up ?s 100000 = 100000000" by simp
    then have "enc_seconds ?s = enc_ext 100000000 CHR ''S''" using s by (simp add: enc_seconds_def round_up_to_three_sig_figs_def Let_def)
    with 4 show ?thesis
      by (simp add: grpc_http2_encode_timeout_def GRPC_HTTP2_TIMEOUT_ENCODE_MIN_BUFSIZE_def GPR_MS_PER_SEC_def kMaxTimeout_def
          enc_ext_def int64_ttoa_def ttoa_loop.simps)
  qed
qed

end
