(* ===== verification/Hpack_Encoder.thy ===== *)
theory Hpack_Encoder
  imports Hpack_Framer Hpack_Index Huffman_Encoder Static_Metadata Timeout_Encoding
begin

text \<open>
  The HPACK encoder: the class \<open>HPackCompressor\<close> of \<^verbatim>\<open>src/core/ext/transport/chttp2/transport/hpack_encoder.h/.cc\<close> with \<^verbatim>\<open>hpack_utils.cc\<close>.  A framer and
  its compressor are passed and returned together.  A compressor and the parser of the peer are linked when the tables are coupled
  and every index the encoder has cached stands for an entry with that content; then what is encoded is decoded, header by header.
\<close>

section \<open>Definitions\<close>

definition Base64EncodedSize :: "nat \<Rightarrow> nat" where
  "Base64EncodedSize raw_length = raw_length div 3 * 4 + tail_xtra ! (raw_length mod 3)"

definition MetadataSizeInHPackTable :: "mdelem \<Rightarrow> bool \<Rightarrow> nat" where
  "MetadataSizeInHPackTable e use_true_binary_metadata =
     (let overhead_and_key = 32 + length (el_key e); value_len = length (el_value e) in
      if grpc_key_is_binary_header (el_key e)
      then overhead_and_key + (if use_true_binary_metadata then value_len + 1 else Base64EncodedSize value_len)
      else overhead_and_key + value_len)"

definition kMaxDecoderSpaceUsage :: nat where "kMaxDecoderSpaceUsage = 512"
definition kNumFilterValues :: nat where "kNumFilterValues = 64"

record compressor =
  max_usable_size :: nat
  advertise_table_size_change :: bool
  hc_table :: encoder_table
  filter_elems :: popularity_count
  elem_index :: encoder_index
  key_index :: encoder_index
  te_index :: nat

definition HPackCompressor_init :: compressor where
  "HPackCompressor_init =
     \<lparr>max_usable_size = kInitialTableSize, advertise_table_size_change = False, hc_table = HPackEncoderTable_init,
      filter_elems = PopularityCount kNumFilterValues, elem_index = HPackEncoderIndex kNumFilterValues,
      key_index = HPackEncoderIndex kNumFilterValues, te_index = 0\<rparr>"

definition AddKeyWithIndex :: "nat \<Rightarrow> nat \<Rightarrow> u32 \<Rightarrow> compressor \<Rightarrow> compressor" where
  "AddKeyWithIndex key_ref new_index key_hash c = c\<lparr>key_index := Index_Insert key_ref key_hash new_index (key_index c)\<rparr>"

definition AddElemWithIndex :: "mdelem \<Rightarrow> nat \<Rightarrow> u32 \<Rightarrow> u32 \<Rightarrow> compressor \<Rightarrow> compressor crashable" where
  "AddElemWithIndex e new_index elem_hash key_hash c =
     (if \<not> GRPC_MDELEM_IS_INTERNED e then None
      else Some (AddKeyWithIndex (el_key_ref e) new_index key_hash
        (c\<lparr>elem_index := Index_Insert (el_payload e) elem_hash new_index (elem_index c)\<rparr>)))"

definition AddElem :: "mdelem \<Rightarrow> nat \<Rightarrow> u32 \<Rightarrow> u32 \<Rightarrow> compressor \<Rightarrow> compressor crashable" where
  "AddElem e size_in_table elem_hash key_hash c = do {
     (new_index, t) \<leftarrow> AllocateIndex size_in_table (hc_table c);
     let c = c\<lparr>hc_table := t\<rparr>;
     if new_index \<noteq> 0 then AddElemWithIndex e new_index elem_hash key_hash c else Some c }"

definition AddKey :: "mdelem \<Rightarrow> nat \<Rightarrow> u32 \<Rightarrow> compressor \<Rightarrow> compressor crashable" where
  "AddKey e size_in_table key_hash c = do {
     (new_index, t) \<leftarrow> AllocateIndex size_in_table (hc_table c);
     let c = c\<lparr>hc_table := t\<rparr>;
     Some (if new_index \<noteq> 0 then AddKeyWithIndex (el_key_ref e) new_index key_hash c else c) }"

definition HPackCompressor_SetMaxTableSize :: "nat \<Rightarrow> compressor \<Rightarrow> compressor crashable" where
  "HPackCompressor_SetMaxTableSize n c = do {
     (changed, t) \<leftarrow> SetMaxSize (min (max_usable_size c) n) (hc_table c);
     Some (c\<lparr>hc_table := t, advertise_table_size_change := advertise_table_size_change c \<or> changed\<rparr>) }"

definition SetMaxUsableSize :: "nat \<Rightarrow> compressor \<Rightarrow> compressor crashable" where
  "SetMaxUsableSize n c = HPackCompressor_SetMaxTableSize (min (max_table_size (hc_table c)) n) (c\<lparr>max_usable_size := n\<rparr>)"

subsection \<open>Encoding one header\<close>

type_synonym enc_state = "framer \<times> compressor"

definition emit_then :: "(framer \<Rightarrow> framer crashable) \<Rightarrow> (compressor \<Rightarrow> compressor crashable) \<Rightarrow> enc_state \<Rightarrow> enc_state crashable" where
  "emit_then m k s = do { f \<leftarrow> m (fst s); c \<leftarrow> k (snd s); Some (f, c) }"

definition check_header_order :: "mdelem \<Rightarrow> framer \<Rightarrow> framer crashable" where
  "check_header_order e f =
     (case el_key e of
        [] \<Rightarrow> None
      | c # _ \<Rightarrow> if c \<noteq> of_char CHR '':'' then Some (f\<lparr>fr_seen_regular := True\<rparr>) else if fr_seen_regular f then None else Some f)"

text \<open>The element was not found in the index: \<open>elem_hash\<close> is zero when it is not to be added.\<close>

definition EncodeDynamic_literal :: "mdelem \<Rightarrow> u32 \<Rightarrow> enc_state \<Rightarrow> enc_state crashable" where
  "EncodeDynamic_literal e elem_hash s =
     (let f = fst s; c = snd s; elem_interned = GRPC_MDELEM_IS_INTERNED e;
          decoder_space_usage = MetadataSizeInHPackTable e (fr_true_binary f);
          decoder_space_available = decoder_space_usage < kMaxDecoderSpaceUsage;
          should_add_elem = elem_interned \<and> decoder_space_available \<and> elem_hash \<noteq> 0;
          key_hash = el_key_hash e;
          should_add_key = \<not> elem_interned \<and> decoder_space_available;
          new_literal =
            (if should_add_elem then emit_then (EmitLitHdrWithStringKeyIncIdx e) (AddElem e decoder_space_usage elem_hash key_hash)
             else if should_add_key then emit_then (EmitLitHdrWithStringKeyIncIdx e) (AddKey e decoder_space_usage key_hash)
             else emit_then (EmitLitHdrWithStringKeyNotIdx e) Some) in
      case Index_Lookup (el_key_ref e) key_hash (key_index c) of
        Some i \<Rightarrow>
          if ConvertableToDynamicIndex i (hc_table c) then
            (if should_add_elem
             then emit_then (EmitLitHdrIncIdx (of_nat (DynamicIndex i (hc_table c))) e) (AddElem e decoder_space_usage elem_hash key_hash) s
             else emit_then (EmitLitHdrNotIdx (of_nat (DynamicIndex i (hc_table c))) e) Some s)
          else new_literal s
      | None \<Rightarrow> new_literal s)"

definition EncodeDynamic_body :: "mdelem \<Rightarrow> enc_state \<Rightarrow> enc_state crashable" where
  "EncodeDynamic_body e s =
     (let f = fst s; c = snd s; elem_interned = GRPC_MDELEM_IS_INTERNED e in
      if \<not> (elem_interned \<or> el_key_interned e) then emit_then (EmitLitHdrWithStringKeyNotIdx e) Some (f, c)
      else if elem_interned then do {
        (can_add, pop) \<leftarrow> AddElement (unat (el_hash e) mod kNumFilterValues) (filter_elems c);
        let c = c\<lparr>filter_elems := pop\<rparr>;
        case Index_Lookup (el_payload e) (el_hash e) (elem_index c) of
          Some i \<Rightarrow>
            if ConvertableToDynamicIndex i (hc_table c) then emit_then (EmitIndexed (of_nat (DynamicIndex i (hc_table c)))) Some (f, c)
            else EncodeDynamic_literal e (if can_add then el_hash e else 0) (f, c)
        | None \<Rightarrow> EncodeDynamic_literal e (if can_add then el_hash e else 0) (f, c) }
      else EncodeDynamic_literal e 0 (f, c))"

definition EncodeDynamic :: "mdelem \<Rightarrow> enc_state \<Rightarrow> enc_state crashable" where
  "EncodeDynamic e s = do {
     f \<leftarrow> check_header_order e (fst s);
     EncodeDynamic_body e (f, snd s) }"

definition Encode_md :: "mdelem \<Rightarrow> enc_state \<Rightarrow> enc_state crashable" where
  "Encode_md e s =
     (if el_storage e = STATIC \<and> el_static_index e < kLastStaticEntry
      then emit_then (EmitIndexed (of_nat (el_static_index e + 1))) Some s
      else EncodeDynamic e s)"

definition te_key :: bytes where "te_key = map of_char ''te''"
definition te_trailers :: bytes where "te_trailers = map of_char ''trailers''"

definition Encode_Te :: "enc_state \<Rightarrow> enc_state crashable" where
  "Encode_Te s =
     (let c = snd s in
      if ConvertableToDynamicIndex (te_index c) (hc_table c)
      then emit_then (EmitIndexed (of_nat (DynamicIndex (te_index c) (hc_table c)))) Some s
      else do {
        (i, t) \<leftarrow> AllocateIndex (2 + 8 + kEntryOverhead) (hc_table c);
        emit_then (EmitLitHdrWithNonBinaryStringKeyIncIdx te_key te_trailers) Some (fst s, c\<lparr>hc_table := t, te_index := i\<rparr>) })"

text \<open>A fresh element with the static key; \<open>key_ref\<close> and \<open>key_hash\<close> are those of \<open>GRPC_MDSTR_GRPC_TIMEOUT\<close>, \<open>addr\<close> is the new element.\<close>

definition timeout_mdelem :: "nat \<Rightarrow> nat \<Rightarrow> u32 \<Rightarrow> millis \<Rightarrow> mdelem" where
  "timeout_mdelem addr key_ref key_hash timeout =
     \<lparr>el_storage = ALLOCATED, el_payload = addr, el_static_index = 0, el_hash = 0, el_key_ref = key_ref, el_key_interned = True,
      el_key_hash = key_hash, el_key = map of_char ''grpc-timeout'', el_value = grpc_http2_encode_timeout timeout\<rparr>"

definition Encode_Timeout :: "nat \<Rightarrow> nat \<Rightarrow> u32 \<Rightarrow> millis \<Rightarrow> millis \<Rightarrow> enc_state \<Rightarrow> enc_state crashable" where
  "Encode_Timeout addr key_ref key_hash deadline now = EncodeDynamic (timeout_mdelem addr key_ref key_hash (deadline - now))"

subsection \<open>Encoding a header block\<close>

datatype header_item = Md mdelem | Te | GrpcTimeout nat nat u32 millis millis

fun Encode_item :: "header_item \<Rightarrow> enc_state \<Rightarrow> enc_state crashable" where
  "Encode_item (Md e) = Encode_md e"
| "Encode_item Te = Encode_Te"
| "Encode_item (GrpcTimeout addr key_ref key_hash deadline now) = Encode_Timeout addr key_ref key_hash deadline now"

record encode_options =
  opt_stream_id :: u32
  opt_is_end_of_stream :: bool
  opt_true_binary :: bool
  opt_max_frame_size :: nat

definition Framer_init :: "encode_options \<Rightarrow> bytes \<Rightarrow> compressor \<Rightarrow> enc_state crashable" where
  "Framer_init opts output c =
     (let f = BeginFrame
        \<lparr>fr_max_frame_size = opt_max_frame_size opts, fr_is_first_frame = True, fr_true_binary = opt_true_binary opts,
         fr_is_end_of_stream = opt_is_end_of_stream opts, fr_stream_id = opt_stream_id opts, fr_seen_regular = False,
         fr_output = output, fr_framing_bytes = 0, fr_header_bytes = 0, fr_header_at = 0, fr_start = 0\<rparr> in
      if advertise_table_size_change c
      then emit_then (Emit_AdvertiseTableSizeChange (max_table_size (hc_table c))) Some (f, c\<lparr>advertise_table_size_change := False\<rparr>)
      else Some (f, c))"

definition EncodeHeaders :: "encode_options \<Rightarrow> header_item list \<Rightarrow> bytes \<Rightarrow> compressor \<Rightarrow> (bytes \<times> compressor) crashable" where
  "EncodeHeaders opts headers output c = do {
     s \<leftarrow> Framer_init opts output c;
     s \<leftarrow> fold_opt Encode_item headers s;
     f \<leftarrow> FinishFrame True (fst s);
     Some (fr_output f, snd s) }"

end
