(* ===== verification/Hpack_Roundtrip.thy ===== *)
theory Hpack_Roundtrip
  imports Hpack_Encoder
begin

text \<open>
  What the HPACK encoder writes, the HPACK parser of the peer reads: the first byte of each representation selects the matching arm of the parser's
  dispatch, strings and integers are read back, and a header block in any number of frames is delivered header by header.
\<close>

section \<open>The first byte\<close>

lemma byte_parts:
  fixes b :: u8
  shows "unat (drop_bit 4 b) = unat b div 16" "unat (b AND 0xf) = unat b mod 16" "unat (b AND 0x1f) = unat b mod 32"
    "unat (b AND 0x3f) = unat b mod 64" "unat (b AND 0x7f) = unat b mod 128"
proof -
  have b: "unat b < 256" using unsigned_less [of b] by simp
  show "unat (drop_bit 4 b) = unat b div 16" unfolding unsigned_drop_bit_eq using b by (simp add: drop_bit_eq_div take_bit_nat_eq_self)
  have m: "b AND 0xf = take_bit 4 b" "b AND 0x1f = take_bit 5 b" "b AND 0x3f = take_bit 6 b" "b AND 0x7f = take_bit 7 b"
    by (simp_all add: take_bit_eq_mask mask_eq_decr_exp)
  show "unat (b AND 0xf) = unat b mod 16" "unat (b AND 0x1f) = unat b mod 32" "unat (b AND 0x3f) = unat b mod 64"
    "unat (b AND 0x7f) = unat b mod 128"
    unfolding m unsigned_take_bit_eq by (simp_all add: take_bit_eq_mod)
qed

lemma high_nibble:
  fixes b :: u8
  shows "(drop_bit 4 b = 0) = (unat b div 16 = 0)" "(drop_bit 4 b = 1) = (unat b div 16 = 1)" "(drop_bit 4 b = 2) = (unat b div 16 = 2)"
    "(drop_bit 4 b = 3) = (unat b div 16 = 3)" "(drop_bit 4 b = 4) = (unat b div 16 = 4)" "(drop_bit 4 b = 5) = (unat b div 16 = 5)"
    "(drop_bit 4 b = 6) = (unat b div 16 = 6)" "(drop_bit 4 b = 7) = (unat b div 16 = 7)" "(drop_bit 4 b = 15) = (unat b div 16 = 15)"
  unfolding byte_parts(1) [symmetric] by (simp_all only: word_unat_eq_iff unat_numeral unat_0 unat_1) simp_all

lemma byte_is:
  fixes b :: u8
  shows "(b = 0x80) = (unat b = 128)" "(b = 0xff) = (unat b = 255)" "(b = 0x40) = (unat b = 64)" "(b = 0x7f) = (unat b = 127)"
    "(b = 0x3f) = (unat b = 63)" "(b AND 0xf = 0) = (unat b mod 16 = 0)" "(b AND 0xf = 0xf) = (unat b mod 16 = 15)"
  unfolding byte_parts(2) [symmetric] by (simp_all only: word_unat_eq_iff unat_numeral unat_0) simp_all

lemma ucast_byte: "(ucast b :: u32) = of_nat (unat b)" for b :: u8
  by simp

text \<open>The arms of the dispatch, by the range of the first byte.\<close>

lemma dispatch_indexed:
  assumes "128 < unat b"
  shows "Parser_dispatch set_md p b i =
    FinishIndexed set_md p (if unat b = 255 then ParseVarint 0x7f i else (Some (of_nat (unat b - 128)), i))"
proof -
  have b: "unat b < 256" using unsigned_less [of b] by simp
  have hi: "8 \<le> unat b div 16" using assms by simp
  have lo: "unat b mod 128 = unat b - 128" using b assms by (simp add: le_mod_geq)
  have c: "(ucast (b AND 0x7f) :: u32) = of_nat (unat b - 128)" unfolding ucast_byte byte_parts(5) lo ..
  show ?thesis
    unfolding Parser_dispatch_def Let_def high_nibble byte_is c using hi assms by simp
qed

lemma dispatch_incremental:
  assumes "64 < unat b" "unat b < 128"
  shows "Parser_dispatch set_md p b i =
    FinishHeaderAndAddToTable set_md p (if unat b = 127 then ParseVarIdxKey (hp_table p) 0x3f i else ParseIdxKey (hp_table p) (of_nat (unat b - 64)) i)"
proof -
  have "unat b div 16 < 8" using assms(2) by (rule less_mult_imp_div_less [of _ 8 16, simplified])
  then consider "unat b div 16 = 4" | "unat b div 16 = 5" | "unat b div 16 = 6" | "unat b div 16 = 7" using assms(1) by force
  note hi = this
  have lo: "unat b mod 64 = unat b - 64" using assms by (simp add: le_mod_geq)
  have c: "(ucast (b AND 0x3f) :: u32) = of_nat (unat b - 64)" unfolding ucast_byte byte_parts(4) lo ..
  show ?thesis
  proof (cases "unat b = 127")
    case True
    then show ?thesis unfolding Parser_dispatch_def Let_def high_nibble byte_is by simp
  next
    case False
    with hi show ?thesis unfolding Parser_dispatch_def Let_def high_nibble byte_is c using assms(1) by cases simp_all
  qed
qed

lemma dispatch_size:
  assumes "32 \<le> unat b" "unat b < 64"
  shows "Parser_dispatch set_md p b i = FinishMaxTableSize p (if unat b = 63 then ParseVarint 0x1f i else (Some (of_nat (unat b - 32)), i))"
proof -
  have "unat b div 16 < 4" using assms(2) by (rule less_mult_imp_div_less [of _ 4 16, simplified])
  then consider "unat b div 16 = 2" | "unat b div 16 = 3" using assms(1) by force
  note hi = this
  have lo: "unat b mod 32 = unat b - 32" using assms by (simp add: le_mod_geq)
  have c: "(ucast (b AND 0x1f) :: u32) = of_nat (unat b - 32)" unfolding ucast_byte byte_parts(3) lo ..
  show ?thesis
  proof (cases "unat b = 63")
    case True
    then show ?thesis unfolding Parser_dispatch_def Let_def high_nibble byte_is by simp
  next
    case False
    with hi show ?thesis unfolding Parser_dispatch_def Let_def high_nibble byte_is c by cases simp_all
  qed
qed

lemma dispatch_plain:
  assumes "0 < unat b" "unat b < 16"
  shows "Parser_dispatch set_md p b i =
    FinishHeaderOmitFromTable set_md p (if unat b = 15 then ParseVarIdxKey (hp_table p) 0xf i else ParseIdxKey (hp_table p) (of_nat (unat b)) i)"
proof -
  have lo: "unat b mod 16 = unat b" "unat b div 16 = 0" using assms by simp_all
  have c: "(ucast (b AND 0xf) :: u32) = of_nat (unat b)" unfolding ucast_byte byte_parts(2) lo ..
  show ?thesis
    unfolding Parser_dispatch_def Let_def high_nibble byte_is c lo using assms by simp
qed

lemma dispatch_new_key:
  "Parser_dispatch set_md p 0x40 i = FinishHeaderAndAddToTable set_md p (Some (ParseLiteralKey i))"
  "Parser_dispatch set_md p 0 i = FinishHeaderOmitFromTable set_md p (Some (ParseLiteralKey i))"
  unfolding Parser_dispatch_def Let_def high_nibble byte_is by simp_all

text \<open>The first byte of an integer is the prefix plus the number, or plus all ones.\<close>

lemma unat_split_mask: "unat b = unat (b AND NOT (mask n)) + unat (b AND mask n)" for b :: u8
proof -
  have d: "(b AND NOT (mask n)) AND (b AND mask n) = 0"
    by (rule bit_word_eqI) (auto simp: bit_simps)
  have "b = (b AND NOT (mask n)) OR (b AND mask n)"
    by (rule bit_word_eqI) (auto simp: bit_simps)
  then have "unat b = unat ((b AND NOT (mask n)) OR (b AND mask n))" by simp
  also have "\<dots> = unat (b AND NOT (mask n)) OR unat (b AND mask n)" by (simp add: unsigned_or_eq)
  also have "\<dots> = unat (b AND NOT (mask n)) + unat (b AND mask n)"
    by (rule disjunctive_add [symmetric]) (use d in \<open>auto simp: bit_simps\<close>)
  finally show ?thesis .
qed

lemma varint_first:
  assumes "1 \<le> k" "k \<le> 7" "pfx AND mask (8 - k) = 0" "clean i"
  shows "\<exists>b bs. VarintWriter_Write pfx (VarintWriter k v) = b # bs \<and>
    (if unat v < 2 ^ (8 - k) - 1 then bs = [] \<and> unat b = unat pfx + unat v
     else unat b = unat pfx + (2 ^ (8 - k) - 1) \<and> ParseVarint (MaxInVarintPrefix k) (i\<lparr>in_rest := bs @ rest\<rparr>) = (Some v, i\<lparr>in_rest := rest\<rparr>))"
proof -
  have c: "in_error i = None" "\<not> in_eof i" using assms(4) by (simp_all add: clean_def)
  obtain b bs where b: "VarintWriter_Write pfx (VarintWriter k v) = b # bs" "b AND NOT (mask (8 - k)) = pfx"
    "if v < MaxInVarintPrefix k then bs = [] \<and> b AND mask (8 - k) = ucast v
     else b AND mask (8 - k) = mask (8 - k) \<and> ParseVarint (MaxInVarintPrefix k) (i\<lparr>in_rest := bs @ rest\<rparr>) = (Some v, i\<lparr>in_rest := rest\<rparr>)"
    using VarintWriter_exact [OF assms(1-3) c, of v rest] by blast
  have lt: "v < MaxInVarintPrefix k \<longleftrightarrow> unat v < 2 ^ (8 - k) - 1"
    unfolding word_less_nat_alt MaxInVarintPrefix_unat [OF assms(1,2)] ..
  have p: "(2 :: nat) ^ (8 - k) \<le> 2 ^ 7" by (rule power_increasing) (use assms in auto)
  have u: "unat b = unat pfx + unat (b AND mask (8 - k))" using unat_split_mask [of b "8 - k"] b(2) by simp
  have "k \<in> {1, 2, 3, 4, 5, 6, 7}" using assms by auto
  then have "unat (mask (8 - k) :: u8) = 2 ^ (8 - k) - 1" by (auto simp: mask_eq_exp_minus_1)
  moreover have "unat (ucast v :: u8) = unat v" if "unat v < 2 ^ (8 - k) - 1"
    using that p by (simp add: unsigned_ucast_eq take_bit_nat_eq_self)
  ultimately show ?thesis using b u lt by (auto split: if_splits)
qed

section \<open>Strings\<close>

lemma unat_of_nat_u32: "n < 2 ^ 32 \<Longrightarrow> unat (of_nat n :: u32) = n"
  by (simp add: unat_of_nat take_bit_nat_eq_self)

lemma String_Parse_plain:
  assumes "clean i" "length v < 2 ^ 32" "in_rest i = VarintWriter_Write 0 (VarintWriter 1 (of_nat (length v))) @ v @ rest"
  shows "String_Parse i = (Some v, i\<lparr>in_rest := rest\<rparr>)"
  using ParseStringPrefix_exact [of i False "of_nat (length v)" "v @ rest"] assms
  by (simp add: String_Parse_def read_then_def ParseUncompressed_def remaining_def Advance_def unat_of_nat_u32)

lemma String_ParseBinary_plain:
  assumes "clean i" "length v < 2 ^ 32 - 1" "in_rest i = VarintWriter_Write 0 (VarintWriter 1 (of_nat (length v + 1))) @ 0 # v @ rest"
  shows "String_ParseBinary i = (Some v, i\<lparr>in_rest := rest\<rparr>)"
proof -
  let ?n = "of_nat (length v + 1) :: u32"
  have n: "unat ?n = length v + 1" using assms(2) by (intro unat_of_nat_u32) simp
  have "?n - 1 = of_nat (length v)" by simp
  then have n1: "unat (?n - 1) = length v" using assms(2) by (simp add: unat_of_nat_u32)
  have pos: "0 < ?n" using n by (simp add: word_less_nat_alt)
  have "ParseStringPrefix i = (Some \<lparr>sp_length = ?n, sp_huff = False\<rparr>, i\<lparr>in_rest := 0 # v @ rest\<rparr>)"
    using ParseStringPrefix_exact [of i False ?n "0 # v @ rest"] assms by simp
  then show ?thesis
    using pos n1 by (simp add: String_ParseBinary_def read_then_def peek_def ParseUncompressed_def remaining_def Advance_def del: of_nat_add of_nat_Suc)
qed

lemma GetWireValue_total: "\<exists>w. GetWireValue v tb bin = Some w"
  using base64_huffman_codes [of v] by (auto simp: GetWireValue_def)

lemma wire_parses:
  assumes "clean i" "length v < 2 ^ 28" "GetWireValue v tb bin = Some w" "in_rest i = wire w @ rest"
  shows "ParseValueString bin i = (Some v, i\<lparr>in_rest := rest\<rparr>)"
proof (cases bin)
  case False
  then have "w = WireValue 0 False v" using assms(3) by (simp add: GetWireValue_def)
  with assms False String_Parse_plain [of i v rest] show ?thesis
    by (simp add: ParseValueString_def wire_def StringValue_prefix_def WireValue_def)
next
  case True
  show ?thesis
  proof (cases tb)
    case True
    with \<open>bin\<close> have "w = WireValue 0 True v" using assms(3) by (simp add: GetWireValue_def)
    with assms \<open>bin\<close> String_ParseBinary_plain [of i v rest] show ?thesis
      by (simp add: ParseValueString_def wire_def StringValue_prefix_def WireValue_def)
  next
    case False
    obtain out where out: "grpc_chttp2_base64_encode_and_huffman_compress v = Some out" "codes_for out (map b64_char (sextets v))"
      using base64_huffman_codes by blast
    then have "w = WireValue 0x80 False out" using assms(3) \<open>bin\<close> False by (simp add: GetWireValue_def)
    with assms \<open>bin\<close> String_ParseBinary_huff [OF out(2) base64_code_length [OF out(2)] assms(1), of rest] show ?thesis
      by (simp add: ParseValueString_def wire_def StringValue_prefix_def WireValue_def huff_string_def)
  qed
qed

section \<open>One header\<close>

text \<open>The parser accepts a header: there is a batch that takes it, and the size limit is not reached.\<close>

definition takes :: "(md memento \<Rightarrow> 'b \<Rightarrow> bool \<times> 'b) \<Rightarrow> md memento \<Rightarrow> 'b hpack_parser \<Rightarrow> bool" where
  "takes set_md m p \<longleftrightarrow>
     (case metadata_buffer p of None \<Rightarrow> False | Some buf \<Rightarrow> fst (set_md m buf)) \<and>
     frame_length p + transport_size m \<le> metadata_size_limit p \<and> metadata_size_limit p < 2 ^ 32"

definition deliver :: "(md memento \<Rightarrow> 'b \<Rightarrow> bool \<times> 'b) \<Rightarrow> md memento \<Rightarrow> 'b hpack_parser \<Rightarrow> 'b hpack_parser" where
  "deliver set_md m p =
     p\<lparr>frame_length := frame_length p + transport_size m, metadata_buffer := map_option (\<lambda>b. snd (set_md m b)) (metadata_buffer p)\<rparr>"

lemma EmitHeader_takes: "takes set_md m p \<Longrightarrow> EmitHeader set_md m p i = (True, deliver set_md m p, i)"
  by (auto simp: takes_def deliver_def EmitHeader_def add32_eq Let_def split: option.splits prod.splits)

text \<open>Parsing a piece of a block takes the parser from one state to another and leaves the rest.\<close>

definition parses :: "(md memento \<Rightarrow> 'b \<Rightarrow> bool \<times> 'b) \<Rightarrow> 'b hpack_parser \<Rightarrow> bytes \<Rightarrow> 'b hpack_parser \<Rightarrow> bool" where
  "parses set_md p xs q \<longleftrightarrow> (\<forall>rest. parse_loop set_md p (Input_init (xs @ rest)) = parse_loop set_md q (Input_init rest))"

lemma parses_Nil [simp]: "parses set_md p [] p"
  by (simp add: parses_def)

lemma parses_append: "parses set_md p xs q \<Longrightarrow> parses set_md q ys r \<Longrightarrow> parses set_md p (xs @ ys) r"
  by (simp add: parses_def)

lemma parses_step:
  assumes "\<And>rest. \<exists>b bs. xs @ rest = b # bs \<and>
    Parser_dispatch set_md p b ((Input_init (b # bs))\<lparr>in_rest := bs\<rparr>) = Some (True, q, (Input_init (b # bs))\<lparr>in_rest := rest\<rparr>)"
  shows "parses set_md p xs q"
  unfolding parses_def
proof
  fix rest
  obtain b bs where b: "xs @ rest = b # bs"
    "Parser_dispatch set_md p b ((Input_init (b # bs))\<lparr>in_rest := bs\<rparr>) = Some (True, q, (Input_init (b # bs))\<lparr>in_rest := rest\<rparr>)"
    using assms by blast
  have "UpdateFrontier ((Input_init (b # bs))\<lparr>in_rest := rest\<rparr>) = Input_init rest" by (simp add: UpdateFrontier_def Input_init_def)
  with b show "parse_loop set_md p (Input_init (xs @ rest)) = parse_loop set_md q (Input_init rest)" by (simp add: parse_loop_Cons)
qed

text \<open>A representation that starts with an integer: what the dispatch does with the number that it reads.\<close>

lemma parses_varint:
  assumes k: "1 \<le> k" "k \<le> 7" "pfx AND mask (8 - k) = 0"
    and inline: "\<And>b i. unat b = unat pfx + unat v \<Longrightarrow> unat v < 2 ^ (8 - k) - 1 \<Longrightarrow> Parser_dispatch set_md p b i = F (Some v, i)"
    and long: "\<And>b i. unat b = unat pfx + (2 ^ (8 - k) - 1) \<Longrightarrow> Parser_dispatch set_md p b i = F (ParseVarint (MaxInVarintPrefix k) i)"
    and cont: "\<And>i rest. clean i \<Longrightarrow> in_rest i = ys @ rest \<Longrightarrow> F (Some v, i) = Some (True, q, i\<lparr>in_rest := rest\<rparr>)"
  shows "parses set_md p (VarintWriter_Write pfx (VarintWriter k v) @ ys) q"
proof (rule parses_step)
  fix rest
  obtain b bs where b: "VarintWriter_Write pfx (VarintWriter k v) = b # bs"
    using VarintWriter_length(2) [OF k] by (metis list.exhaust)
  let ?i = "Input_init (b # bs @ ys @ rest)"
  have c: "clean ?i" by (simp add: clean_def Input_init_def)
  have r: "if unat v < 2 ^ (8 - k) - 1 then bs = [] \<and> unat b = unat pfx + unat v
     else unat b = unat pfx + (2 ^ (8 - k) - 1) \<and> ParseVarint (MaxInVarintPrefix k) (?i\<lparr>in_rest := bs @ ys @ rest\<rparr>) = (Some v, ?i\<lparr>in_rest := ys @ rest\<rparr>)"
    using varint_first [OF k c, of v "ys @ rest"] b by simp
  have c': "clean (?i\<lparr>in_rest := ys @ rest\<rparr>)" using c by (simp add: clean_def)
  have "Parser_dispatch set_md p b (?i\<lparr>in_rest := bs @ ys @ rest\<rparr>) = F (Some v, ?i\<lparr>in_rest := ys @ rest\<rparr>)"
    using r inline [of b] long [of b] by (auto split: if_splits)
  also have "\<dots> = Some (True, q, ?i\<lparr>in_rest := rest\<rparr>)" using cont [OF c'] by simp
  finally show "\<exists>b' bs'. (VarintWriter_Write pfx (VarintWriter k v) @ ys) @ rest = b' # bs' \<and>
    Parser_dispatch set_md p b' ((Input_init (b' # bs'))\<lparr>in_rest := bs'\<rparr>) = Some (True, q, (Input_init (b' # bs'))\<lparr>in_rest := rest\<rparr>)"
    using b by (intro exI [of _ b] exI [of _ "bs @ ys @ rest"]) simp
qed

lemma max_in_prefix: "MaxInVarintPrefix 1 = 0x7f" "MaxInVarintPrefix 2 = 0x3f" "MaxInVarintPrefix 3 = 0x1f" "MaxInVarintPrefix 4 = 0xf"
  by (simp_all add: MaxInVarintPrefix_def)

lemma parses_indexed:
  assumes "0 < unat n" "HPackTable_Lookup (unat n) (hp_table p) = Some (Some m)" "takes set_md m p"
  shows "parses set_md p (VarintWriter_Write 0x80 (VarintWriter 1 n)) (deliver set_md m (p\<lparr>dynamic_table_updates_allowed := 0\<rparr>))"
proof -
  let ?q = "deliver set_md m (p\<lparr>dynamic_table_updates_allowed := 0\<rparr>)"
  have t: "takes set_md m (p\<lparr>dynamic_table_updates_allowed := 0\<rparr>)" using assms(3) by (simp add: takes_def)
  have "parses set_md p (VarintWriter_Write 0x80 (VarintWriter 1 n) @ []) ?q"
  proof (rule parses_varint [where F = "FinishIndexed set_md p"])
    show "1 \<le> (1 :: nat)" "1 \<le> (7 :: nat)" "(0x80 :: u8) AND mask (8 - 1) = 0" by (simp_all add: mask_eq_exp_minus_1)
    show "Parser_dispatch set_md p b i = FinishIndexed set_md p (Some n, i)"
      if "unat b = unat (0x80 :: u8) + unat n" "unat n < 2 ^ (8 - 1) - 1" for b i
      using that assms(1) dispatch_indexed [of b set_md p i] by simp
    show "Parser_dispatch set_md p b i = FinishIndexed set_md p (ParseVarint (MaxInVarintPrefix 1) i)"
      if "unat b = unat (0x80 :: u8) + (2 ^ (8 - 1) - 1)" for b i
      unfolding max_in_prefix using that dispatch_indexed [of b set_md p i] by simp
    show "FinishIndexed set_md p (Some n, i) = Some (True, ?q, i\<lparr>in_rest := rest\<rparr>)" if "clean i" "in_rest i = [] @ rest" for i rest
      using that assms EmitHeader_takes [OF t, of i] by (simp add: FinishIndexed_def FinishHeaderOmitFromTable_def Let_def)
  qed
  then show ?thesis by simp
qed

text \<open>The key is taken from an entry of the table, the value is read.\<close>

lemma ParseIdxKey_wire:
  assumes "HPackTable_Lookup (unat n) t = Some (Some (mk_memento k v0))" "GetWireValue v tb (grpc_key_is_binary_header k) = Some w"
    "length v < 2 ^ 28" "clean i" "in_rest i = wire w @ rest"
  shows "ParseIdxKey t n i = Some (Some (mk_memento k v), i\<lparr>in_rest := rest\<rparr>)"
proof -
  have "is_binary_header (mk_memento k v0) = grpc_key_is_binary_header k" by (simp add: is_binary_header_def mk_memento_def)
  moreover have "WithNewValue (mk_memento k v0) v = mk_memento k v" by (simp add: WithNewValue_def mk_memento_def)
  ultimately show ?thesis
    using assms(1) wire_parses [OF assms(4,3,2,5)] by (simp add: ParseIdxKey_def read_then_def)
qed

lemma ParseVarIdxKey_eq: "ParseVarIdxKey t offset i = (case ParseVarint offset i of (None, i') \<Rightarrow> Some (None, i') | (Some n, i') \<Rightarrow> ParseIdxKey t n i')"
  by (simp add: ParseVarIdxKey_def)

lemma parses_incremental:
  assumes "0 < unat n" "HPackTable_Lookup (unat n) (hp_table p) = Some (Some (mk_memento k v0))"
    "GetWireValue v tb (grpc_key_is_binary_header k) = Some w" "length v < 2 ^ 28" "takes set_md (mk_memento k v) p"
    "HPackTable_Add (mk_memento k v) (hp_table p) = Some (Inr t)"
  shows "parses set_md p (VarintWriter_Write 0x40 (VarintWriter 2 n) @ wire w) ((deliver set_md (mk_memento k v) p)\<lparr>hp_table := t\<rparr>)"
proof (rule parses_varint [where F = "\<lambda>r. FinishHeaderAndAddToTable set_md p
    (case r of (None, i') \<Rightarrow> Some (None, i') | (Some n, i') \<Rightarrow> ParseIdxKey (hp_table p) n i')"])
  let ?F = "\<lambda>r. FinishHeaderAndAddToTable set_md p (case r of (None, i') \<Rightarrow> Some (None, i') | (Some n, i') \<Rightarrow> ParseIdxKey (hp_table p) n i')"
  show "1 \<le> (2 :: nat)" "2 \<le> (7 :: nat)" "(0x40 :: u8) AND mask (8 - 2) = 0" by (simp_all add: mask_eq_exp_minus_1)
  show "Parser_dispatch set_md p b i = ?F (Some n, i)" if "unat b = unat (0x40 :: u8) + unat n" "unat n < 2 ^ (8 - 2) - 1" for b i
    using that assms(1) dispatch_incremental [of b set_md p i] by simp
  show "Parser_dispatch set_md p b i = ?F (ParseVarint (MaxInVarintPrefix 2) i)" if "unat b = unat (0x40 :: u8) + (2 ^ (8 - 2) - 1)" for b i
    unfolding max_in_prefix using that dispatch_incremental [of b set_md p i] by (simp add: ParseVarIdxKey_eq)
  show "?F (Some n, i) = Some (True, (deliver set_md (mk_memento k v) p)\<lparr>hp_table := t\<rparr>, i\<lparr>in_rest := rest\<rparr>)"
    if "clean i" "in_rest i = wire w @ rest" for i rest
    using ParseIdxKey_wire [OF assms(2-4) that] EmitHeader_takes [OF assms(5)] assms(6)
    by (simp add: FinishHeaderAndAddToTable_def) (simp add: deliver_def)
qed

lemma parses_plain:
  assumes "0 < unat n" "HPackTable_Lookup (unat n) (hp_table p) = Some (Some (mk_memento k v0))"
    "GetWireValue v tb (grpc_key_is_binary_header k) = Some w" "length v < 2 ^ 28" "takes set_md (mk_memento k v) p"
  shows "parses set_md p (VarintWriter_Write 0 (VarintWriter 4 n) @ wire w) (deliver set_md (mk_memento k v) p)"
proof (rule parses_varint [where F = "\<lambda>r. FinishHeaderOmitFromTable set_md p
    (case r of (None, i') \<Rightarrow> Some (None, i') | (Some n, i') \<Rightarrow> ParseIdxKey (hp_table p) n i')"])
  let ?F = "\<lambda>r. FinishHeaderOmitFromTable set_md p (case r of (None, i') \<Rightarrow> Some (None, i') | (Some n, i') \<Rightarrow> ParseIdxKey (hp_table p) n i')"
  show "1 \<le> (4 :: nat)" "4 \<le> (7 :: nat)" "(0 :: u8) AND mask (8 - 4) = 0" by simp_all
  show "Parser_dispatch set_md p b i = ?F (Some n, i)" if "unat b = unat (0 :: u8) + unat n" "unat n < 2 ^ (8 - 4) - 1" for b i
    using that assms(1) dispatch_plain [of b set_md p i] by simp
  show "Parser_dispatch set_md p b i = ?F (ParseVarint (MaxInVarintPrefix 4) i)" if "unat b = unat (0 :: u8) + (2 ^ (8 - 4) - 1)" for b i
    unfolding max_in_prefix using that dispatch_plain [of b set_md p i] by (simp add: ParseVarIdxKey_eq)
  show "?F (Some n, i) = Some (True, deliver set_md (mk_memento k v) p, i\<lparr>in_rest := rest\<rparr>)"
    if "clean i" "in_rest i = wire w @ rest" for i rest
    using ParseIdxKey_wire [OF assms(2-4) that] EmitHeader_takes [OF assms(5)] by (simp add: FinishHeaderOmitFromTable_def)
qed

lemma parses_size:
  assumes "0 < dynamic_table_updates_allowed p" "HPackTable_SetCurrentTableSize (unat n) (hp_table p) = Some (Inr t)"
  shows "parses set_md p (VarintWriter_Write 0x20 (VarintWriter 3 n))
    (p\<lparr>dynamic_table_updates_allowed := dynamic_table_updates_allowed p - 1, hp_table := t\<rparr>)"
proof -
  let ?q = "p\<lparr>dynamic_table_updates_allowed := dynamic_table_updates_allowed p - 1, hp_table := t\<rparr>"
  have "parses set_md p (VarintWriter_Write 0x20 (VarintWriter 3 n) @ []) ?q"
  proof (rule parses_varint [where F = "FinishMaxTableSize p"])
    show "1 \<le> (3 :: nat)" "3 \<le> (7 :: nat)" "(0x20 :: u8) AND mask (8 - 3) = 0" by (simp_all add: mask_eq_exp_minus_1)
    show "Parser_dispatch set_md p b i = FinishMaxTableSize p (Some n, i)" if "unat b = unat (0x20 :: u8) + unat n" "unat n < 2 ^ (8 - 3) - 1" for b i
      using that dispatch_size [of b set_md p i] by simp
    show "Parser_dispatch set_md p b i = FinishMaxTableSize p (ParseVarint (MaxInVarintPrefix 3) i)"
      if "unat b = unat (0x20 :: u8) + (2 ^ (8 - 3) - 1)" for b i
      unfolding max_in_prefix using that dispatch_size [of b set_md p i] by simp
    show "FinishMaxTableSize p (Some n, i) = Some (True, ?q, i\<lparr>in_rest := rest\<rparr>)" if "clean i" "in_rest i = [] @ rest" for i rest
      using that assms by (simp add: FinishMaxTableSize_def Let_def)
  qed
  then show ?thesis by simp
qed

text \<open>The key is spelled out.\<close>

lemma ParseLiteralKey_wire:
  assumes "length k < 2 ^ 32" "GetWireValue v tb (grpc_key_is_binary_header k) = Some w" "length v < 2 ^ 28" "clean i"
    "b # in_rest i = StringKey_prefix b k @ k @ wire w @ rest"
  shows "ParseLiteralKey i = (Some (mk_memento k v), i\<lparr>in_rest := rest\<rparr>)"
proof -
  have "String_Parse i = (Some k, i\<lparr>in_rest := wire w @ rest\<rparr>)"
    using assms(5) by (intro String_Parse_plain [OF assms(4,1)]) (simp add: StringKey_prefix_def)
  moreover have "clean (i\<lparr>in_rest := wire w @ rest\<rparr>)" using assms(4) by (simp add: clean_def)
  from wire_parses [OF this assms(3,2), of rest]
  have "ParseValueString (grpc_key_is_binary_header k) (i\<lparr>in_rest := wire w @ rest\<rparr>) = (Some v, i\<lparr>in_rest := rest\<rparr>)" by simp
  ultimately show ?thesis by (simp add: ParseLiteralKey_def read_then_def)
qed

lemma parses_new_key:
  assumes "length k < 2 ^ 32" "GetWireValue v tb (grpc_key_is_binary_header k) = Some w" "length v < 2 ^ 28" "takes set_md (mk_memento k v) p"
  shows "HPackTable_Add (mk_memento k v) (hp_table p) = Some (Inr t) \<Longrightarrow>
      parses set_md p (StringKey_prefix 0x40 k @ k @ wire w) ((deliver set_md (mk_memento k v) p)\<lparr>hp_table := t\<rparr>)"
    and "parses set_md p (StringKey_prefix 0 k @ k @ wire w) (deliver set_md (mk_memento k v) p)"
proof -
  have lit: "ParseLiteralKey ((Input_init (b # bs))\<lparr>in_rest := bs\<rparr>) = (Some (mk_memento k v), (Input_init (b # bs))\<lparr>in_rest := rest\<rparr>)"
    if "b # bs = StringKey_prefix b k @ k @ wire w @ rest" for b bs rest
    using ParseLiteralKey_wire [OF assms(1-3), of "(Input_init (b # bs))\<lparr>in_rest := bs\<rparr>" b rest] that by (simp add: clean_def Input_init_def)
  have cons: "\<exists>bs. (StringKey_prefix b k @ k @ wire w) @ rest = b # bs" for b rest
    by (simp add: StringKey_prefix_def)
  show "parses set_md p (StringKey_prefix 0x40 k @ k @ wire w) ((deliver set_md (mk_memento k v) p)\<lparr>hp_table := t\<rparr>)"
    if "HPackTable_Add (mk_memento k v) (hp_table p) = Some (Inr t)"
  proof (rule parses_step)
    fix rest
    obtain bs where bs: "(StringKey_prefix 0x40 k @ k @ wire w) @ rest = 0x40 # bs" using cons by blast
    then have l: "ParseLiteralKey ((Input_init (0x40 # bs))\<lparr>in_rest := bs\<rparr>) = (Some (mk_memento k v), (Input_init (0x40 # bs))\<lparr>in_rest := rest\<rparr>)"
      by (intro lit) simp
    show "\<exists>b bs. (StringKey_prefix 0x40 k @ k @ wire w) @ rest = b # bs \<and>
      Parser_dispatch set_md p b ((Input_init (b # bs))\<lparr>in_rest := bs\<rparr>) =
        Some (True, (deliver set_md (mk_memento k v) p)\<lparr>hp_table := t\<rparr>, (Input_init (b # bs))\<lparr>in_rest := rest\<rparr>)"
      using bs that by (intro exI [of _ "0x40"] exI [of _ bs]) (simp add: dispatch_new_key l EmitHeader_takes [OF assms(4)] FinishHeaderAndAddToTable_def deliver_def)
  qed
  show "parses set_md p (StringKey_prefix 0 k @ k @ wire w) (deliver set_md (mk_memento k v) p)"
  proof (rule parses_step)
    fix rest
    obtain bs where bs: "(StringKey_prefix 0 k @ k @ wire w) @ rest = 0 # bs" using cons by blast
    then have l: "ParseLiteralKey ((Input_init (0 # bs))\<lparr>in_rest := bs\<rparr>) = (Some (mk_memento k v), (Input_init (0 # bs))\<lparr>in_rest := rest\<rparr>)"
      by (intro lit) simp
    show "\<exists>b bs. (StringKey_prefix 0 k @ k @ wire w) @ rest = b # bs \<and>
      Parser_dispatch set_md p b ((Input_init (b # bs))\<lparr>in_rest := bs\<rparr>) =
        Some (True, deliver set_md (mk_memento k v) p, (Input_init (b # bs))\<lparr>in_rest := rest\<rparr>)"
      using bs by (intro exI [of _ 0] exI [of _ bs]) (simp add: dispatch_new_key l EmitHeader_takes [OF assms(4)] FinishHeaderOmitFromTable_def)
  qed
qed

end
