(* ===== verification/Hpack_Link.thy ===== *)
theory Hpack_Link
  imports Hpack_Roundtrip
begin

text \<open>
  An HPACK encoder linked to the parser of its peer, and the properties of the pair.  The addresses of interned elements and keys stand for their
  contents, which an \<open>interning\<close> records.  The ghost log lists the entries of the encoder's table in the order of their insertion; every
  index that the encoder has cached points to an entry of the log with the right content.
\<close>

section \<open>The invariant\<close>

record interning =
  elem_of :: "nat \<Rightarrow> md"
  elem_hash_of :: "nat \<Rightarrow> u32"
  key_of :: "nat \<Rightarrow> bytes"
  key_hash_of :: "nat \<Rightarrow> u32"

definition mdelem_ok :: "interning \<Rightarrow> mdelem \<Rightarrow> bool" where
  "mdelem_ok env e \<longleftrightarrow>
     el_key e \<noteq> [] \<and> length (el_key e) < 2 ^ 28 \<and> length (el_value e) < 2 ^ 28 \<and>
     (GRPC_MDELEM_IS_INTERNED e \<longrightarrow>
        el_payload e \<noteq> 0 \<and> elem_of env (el_payload e) = (el_key e, el_value e) \<and> elem_hash_of env (el_payload e) = el_hash e) \<and>
     (GRPC_MDELEM_IS_INTERNED e \<or> el_key_interned e \<longrightarrow>
        el_key_ref e \<noteq> 0 \<and> key_of env (el_key_ref e) = el_key e \<and> key_hash_of env (el_key_ref e) = el_key_hash e) \<and>
     (el_storage e = STATIC \<and> el_static_index e < 61 \<longrightarrow> StaticMementos ! el_static_index e = mk_memento (el_key e) (el_value e))"

definition md_of :: "mdelem \<Rightarrow> md memento" where
  "md_of e = mk_memento (el_key e) (el_value e)"

type_synonym entry_log = "(md memento \<times> nat) list"

definition entry_at :: "entry_log \<Rightarrow> nat \<Rightarrow> md memento \<Rightarrow> bool" where
  "entry_at l i m \<longleftrightarrow> 0 < i \<and> i \<le> length l \<and> fst (l ! (i - 1)) = m"

definition elem_sound :: "interning \<Rightarrow> entry_log \<Rightarrow> nat \<Rightarrow> nat \<Rightarrow> bool" where
  "elem_sound env l k i \<longleftrightarrow> entry_at l i (mk_memento (fst (elem_of env k)) (snd (elem_of env k)))"

definition key_sound :: "interning \<Rightarrow> entry_log \<Rightarrow> nat \<Rightarrow> nat \<Rightarrow> bool" where
  "key_sound env l k i \<longleftrightarrow> (\<exists>v. entry_at l i (mk_memento (key_of env k) v))"

definition cached :: "interning \<Rightarrow> compressor \<Rightarrow> entry_log \<Rightarrow> bool" where
  "cached env c l \<longleftrightarrow>
     pop_ok (filter_elems c) \<and> length (pop_elems (filter_elems c)) = 64 \<and>
     cuckoo.only (elem_hash_of env) (elem_sound env l) (elem_index c) \<and>
     cuckoo.only (key_hash_of env) (key_sound env l) (key_index c) \<and>
     (te_index c = 0 \<or> entry_at l (te_index c) (mk_memento te_key te_trailers))"

abbreviation pair_of :: "compressor \<Rightarrow> 'b hpack_parser \<Rightarrow> entry_log \<Rightarrow> md peers" where
  "pair_of c p l \<equiv> \<lparr>enc = hc_table c, dec = hp_table p, log = l\<rparr>"

definition linked :: "interning \<Rightarrow> compressor \<Rightarrow> 'b hpack_parser \<Rightarrow> entry_log \<Rightarrow> bool" where
  "linked env c p l \<longleftrightarrow>
     (if advertise_table_size_change c then matched (pair_of c p l) else coupled (pair_of c p l)) \<and>
     cached env c l \<and> static_metadata (hp_table p) = StaticMementos"

lemma entry_at_more: "entry_at l i m \<Longrightarrow> entry_at (l @ zs) i m"
  by (auto simp: entry_at_def nth_append)

lemma entry_at_new: "entry_at (l @ [(m, n)]) (Suc (length l)) m"
  by (simp add: entry_at_def)

lemma cached_more:
  assumes "cached env c l"
  shows "cached env c (l @ zs)"
proof -
  have "elem_sound env l k i \<Longrightarrow> elem_sound env (l @ zs) k i" "key_sound env l k i \<Longrightarrow> key_sound env (l @ zs) k i" for k i
    unfolding elem_sound_def key_sound_def using entry_at_more by blast+
  then show ?thesis using assms entry_at_more [of l "te_index c"] unfolding cached_def by (blast intro: cuckoo.only_mono)
qed

lemma cached_table [simp]: "cached env (c\<lparr>hc_table := t\<rparr>) l = cached env c l"
  by (simp add: cached_def)

section \<open>Sending one header\<close>

definition delivered :: "(md memento \<Rightarrow> 'b \<Rightarrow> bool \<times> 'b) \<Rightarrow> md memento \<Rightarrow> 'b hpack_parser \<Rightarrow> 'b hpack_parser \<Rightarrow> bool" where
  "delivered set_md m p q \<longleftrightarrow>
     metadata_buffer q = map_option (\<lambda>b. snd (set_md m b)) (metadata_buffer p) \<and> frame_length q = frame_length p + transport_size m \<and>
     metadata_size_limit q = metadata_size_limit p \<and> max_bytes (hp_table q) = max_bytes (hp_table p) \<and> same_frame p q"

lemma delivered_simps [simp]:
  "delivered set_md m p (deliver set_md m p)"
  "delivered set_md m p (deliver set_md m (p\<lparr>dynamic_table_updates_allowed := n\<rparr>))"
  "max_bytes t = max_bytes (hp_table p) \<Longrightarrow> delivered set_md m p ((deliver set_md m p)\<lparr>hp_table := t\<rparr>)"
  by (simp_all add: delivered_def deliver_def same_frame_def)

lemma deliver_table [simp]: "hp_table (deliver set_md m p) = hp_table p"
  by (simp add: deliver_def)

definition sends :: "interning \<Rightarrow> (md memento \<Rightarrow> 'b \<Rightarrow> bool \<times> 'b) \<Rightarrow> md memento \<Rightarrow> (enc_state \<Rightarrow> enc_state crashable) \<Rightarrow>
    framer \<Rightarrow> compressor \<Rightarrow> 'b hpack_parser \<Rightarrow> entry_log \<Rightarrow> bool" where
  "sends env set_md m op f c p l \<longleftrightarrow>
     (\<forall>pre block. has_block pre block f \<longrightarrow>
        (\<exists>f' c' p' l' bs. op (f, c) = Some (f', c') \<and> has_block pre (block @ bs) f' \<and> same_options f f' \<and> parses set_md p bs p' \<and>
           delivered set_md m p p' \<and> linked env c' p' l' \<and> \<not> advertise_table_size_change c' \<and> length l' \<le> Suc (length l)))"

text \<open>A representation that leaves the tables as they are.\<close>

lemma sends_plain:
  assumes "emits M bs f" "parses set_md p bs q" "hp_table q = hp_table p" "delivered set_md m p q" "linked env c p l"
    "\<not> advertise_table_size_change c"
  shows "sends env set_md m (emit_then M Some) f c p l"
  unfolding sends_def
proof (intro allI impI)
  fix pre block assume "has_block pre block f"
  then obtain g where "M f = Some g" "has_block pre (block @ bs) g" "same_options f g" using assms(1) unfolding emits_def by blast
  moreover have "linked env c q l" using assms(3,5) by (simp add: linked_def)
  ultimately show "\<exists>f' c' p' l' bs. emit_then M Some (f, c) = Some (f', c') \<and> has_block pre (block @ bs) f' \<and> same_options f f' \<and>
      parses set_md p bs p' \<and> delivered set_md m p p' \<and> linked env c' p' l' \<and> \<not> advertise_table_size_change c' \<and> length l' \<le> Suc (length l)"
    using assms(2,4,6) by (intro exI [of _ g] exI [of _ c] exI [of _ q] exI [of _ l] exI [of _ bs]) (simp add: emit_then_def)
qed

text \<open>A representation that both ends enter into their tables.\<close>

lemma sends_adding:
  assumes M: "emits M bs f"
    and P: "\<And>t. HPackTable_Add m (hp_table p) = Some (Inr t) \<Longrightarrow> parses set_md p bs ((deliver set_md m p)\<lparr>hp_table := t\<rparr>)"
    and K: "\<And>e. AllocateIndex n (hc_table c) = Some (if max_table_size (hc_table c) < n then 0 else Suc (length l), e) \<Longrightarrow>
      \<exists>c'. K c = Some c' \<and> hc_table c' = e \<and> \<not> advertise_table_size_change c' \<and>
        cached env c' (l @ (if max_table_size (hc_table c) < n then [] else [(m, n)]))"
    and L: "linked env c p l" "\<not> advertise_table_size_change c" "length l < 2 ^ 32 - 64"
    and m: "32 \<le> transport_size m" "transport_size m \<le> n" "n < 2 ^ 16"
  shows "sends env set_md m (emit_then M K) f c p l"
  unfolding sends_def
proof (intro allI impI)
  fix pre block assume "has_block pre block f"
  then obtain g where g: "M f = Some g" "has_block pre (block @ bs) g" "same_options f g" using M unfolding emits_def by blast
  let ?l = "l @ (if max_table_size (hc_table c) < n then [] else [(m, n)])"
  have "coupled (pair_of c p l)" using L by (simp add: linked_def)
  from coupled_insert [OF this m] L(3) obtain e d where
    e: "AllocateIndex n (hc_table c) = Some (if max_table_size (hc_table c) < n then 0 else Suc (length l), e)" and
    d: "HPackTable_Add m (hp_table p) = Some (Inr d)" "max_bytes d = max_bytes (hp_table p)" "static_metadata d = static_metadata (hp_table p)" and
    co: "coupled \<lparr>enc = e, dec = d, log = ?l\<rparr>" by auto
  obtain c' where c': "K c = Some c'" "hc_table c' = e" "\<not> advertise_table_size_change c'" "cached env c' ?l" using K [OF e] by blast
  let ?q = "(deliver set_md m p)\<lparr>hp_table := d\<rparr>"
  have "linked env c' ?q ?l" using c' co d(3) L(1) by (simp add: linked_def)
  then show "\<exists>f' c' p' l' bs. emit_then M K (f, c) = Some (f', c') \<and> has_block pre (block @ bs) f' \<and> same_options f f' \<and>
      parses set_md p bs p' \<and> delivered set_md m p p' \<and> linked env c' p' l' \<and> \<not> advertise_table_size_change c' \<and> length l' \<le> Suc (length l)"
    using g c' P [OF d(1)] d(2)
    by (intro exI [of _ g] exI [of _ c'] exI [of _ ?q] exI [of _ ?l] exI [of _ bs]) (simp add: emit_then_def)
qed

section \<open>The choices of the encoder\<close>

lemma cached_new_key:
  assumes "cached env c (l @ [(md_of e, n)])" "el_key_ref e \<noteq> 0" "key_of env (el_key_ref e) = el_key e" "key_hash_of env (el_key_ref e) = el_key_hash e"
  shows "cached env (AddKeyWithIndex (el_key_ref e) (Suc (length l)) (el_key_hash e) c) (l @ [(md_of e, n)])"
proof -
  have "key_sound env (l @ [(md_of e, n)]) (el_key_ref e) (Suc (length l))"
    unfolding key_sound_def md_of_def assms(3) using entry_at_new by blast
  with assms cuckoo.only_insert [of "key_hash_of env" "key_sound env (l @ [(md_of e, n)])" "key_index c" "el_key_ref e" "Suc (length l)"]
  show ?thesis by (simp add: cached_def AddKeyWithIndex_def)
qed

lemma cached_new_elem:
  assumes "cached env c (l @ [(md_of e, n)])" "mdelem_ok env e" "GRPC_MDELEM_IS_INTERNED e"
  shows "\<exists>c'. AddElemWithIndex e (Suc (length l)) (el_hash e) (el_key_hash e) c = Some c' \<and> hc_table c' = hc_table c \<and>
    advertise_table_size_change c' = advertise_table_size_change c \<and> cached env c' (l @ [(md_of e, n)])"
proof -
  have ok: "el_payload e \<noteq> 0" "elem_of env (el_payload e) = (el_key e, el_value e)" "elem_hash_of env (el_payload e) = el_hash e"
    "el_key_ref e \<noteq> 0" "key_of env (el_key_ref e) = el_key e" "key_hash_of env (el_key_ref e) = el_key_hash e"
    using assms(2,3) by (simp_all add: mdelem_ok_def)
  have "elem_sound env (l @ [(md_of e, n)]) (el_payload e) (Suc (length l))"
    using ok(2) entry_at_new by (simp add: elem_sound_def md_of_def)
  with assms(1) ok(1,3) cuckoo.only_insert [of "elem_hash_of env" "elem_sound env (l @ [(md_of e, n)])" "elem_index c" "el_payload e" "Suc (length l)"]
  have "cached env (c\<lparr>elem_index := Index_Insert (el_payload e) (el_hash e) (Suc (length l)) (elem_index c)\<rparr>) (l @ [(md_of e, n)])"
    by (simp add: cached_def)
  from cached_new_key [OF this ok(4-6)] assms(3) show ?thesis by (simp add: AddElemWithIndex_def AddKeyWithIndex_def)
qed

text \<open>The size the encoder reserves is at least the size of the decoder's entry.\<close>

lemma size_in_table:
  assumes "MetadataSizeInHPackTable e tb < 512"
  shows "32 \<le> transport_size (md_of e)" "transport_size (md_of e) \<le> MetadataSizeInHPackTable e tb" "MetadataSizeInHPackTable e tb < 2 ^ 16"
proof -
  have b: "n \<le> Base64EncodedSize n" for n
  proof -
    have "n mod 3 < 3" by simp
    then consider "n mod 3 = 0" | "n mod 3 = 1" | "n mod 3 = 2" by linarith
    then show ?thesis using div_mult_mod_eq [of n 3] by cases (simp_all add: Base64EncodedSize_def tail_xtra_def)
  qed
  then have le: "32 + length (el_key e) + length (el_value e) \<le> MetadataSizeInHPackTable e tb"
    using b [of "length (el_value e)"] by (simp add: MetadataSizeInHPackTable_def Let_def)
  then have "transport_size (md_of e) = length (el_key e) + length (el_value e) + 32"
    using assms by (simp add: md_of_def mk_memento_def TransportSize_def)
  with le assms show "32 \<le> transport_size (md_of e)" "transport_size (md_of e) \<le> MetadataSizeInHPackTable e tb"
    "MetadataSizeInHPackTable e tb < 2 ^ 16" by simp_all
qed

lemma AddElem_cached:
  assumes "AllocateIndex n (hc_table c) = Some (if max_table_size (hc_table c) < n then 0 else Suc (length l), t)" "cached env c l"
    "\<not> advertise_table_size_change c" "mdelem_ok env e" "GRPC_MDELEM_IS_INTERNED e"
  shows "\<exists>c'. AddElem e n (el_hash e) (el_key_hash e) c = Some c' \<and> hc_table c' = t \<and> \<not> advertise_table_size_change c' \<and>
    cached env c' (l @ (if max_table_size (hc_table c) < n then [] else [(md_of e, n)]))"
proof (cases "max_table_size (hc_table c) < n")
  case True
  then show ?thesis using assms by (simp add: AddElem_def)
next
  case False
  have "cached env (c\<lparr>hc_table := t\<rparr>) (l @ [(md_of e, n)])" using cached_more [OF assms(2)] by simp
  from cached_new_elem [OF this assms(4,5)] False assms(1,3) show ?thesis by (auto simp: AddElem_def)
qed

lemma AddKey_cached:
  assumes "AllocateIndex n (hc_table c) = Some (if max_table_size (hc_table c) < n then 0 else Suc (length l), t)" "cached env c l"
    "\<not> advertise_table_size_change c" "mdelem_ok env e" "el_key_interned e"
  shows "\<exists>c'. AddKey e n (el_key_hash e) c = Some c' \<and> hc_table c' = t \<and> \<not> advertise_table_size_change c' \<and>
    cached env c' (l @ (if max_table_size (hc_table c) < n then [] else [(md_of e, n)]))"
proof (cases "max_table_size (hc_table c) < n")
  case True
  then show ?thesis using assms by (simp add: AddKey_def)
next
  case False
  have "cached env (c\<lparr>hc_table := t\<rparr>) (l @ [(md_of e, n)])" using cached_more [OF assms(2)] by simp
  from cached_new_key [OF this] False assms(1,3-5) show ?thesis by (auto simp: AddKey_def mdelem_ok_def AddKeyWithIndex_def)
qed

text \<open>An index of the log that is convertible finds its entry at the peer.\<close>

lemma linked_lookup:
  assumes "linked env c p l" "\<not> advertise_table_size_change c" "entry_at l i m" "ConvertableToDynamicIndex i (hc_table c)"
  shows "HPackTable_Lookup (unat (of_nat (DynamicIndex i (hc_table c)) :: u32)) (hp_table p) = Some (Some m)"
    "0 < unat (of_nat (DynamicIndex i (hc_table c)) :: u32)"
proof -
  have c: "coupled (pair_of c p l)" using assms(1,2) by (simp add: linked_def)
  then have e: "enc_ok (hc_table c)" "enc_last (hc_table c) = length l" by (simp_all add: coupled_def)
  have i: "0 < i" "i \<le> length l" "fst (l ! (i - 1)) = m" using assms(3) by (simp_all add: entry_at_def)
  have d: "DynamicIndex i (hc_table c) = 62 + (length l - i)" using DynamicIndex_eq [OF e(1) i(1)] e(2) i(2) by simp
  have "length l < 2 ^ 32 - 63" using e unfolding enc_ok_def by simp
  then have u: "unat (of_nat (DynamicIndex i (hc_table c)) :: u32) = DynamicIndex i (hc_table c)"
    unfolding d using i by (intro unat_of_nat_u32) simp
  show "HPackTable_Lookup (unat (of_nat (DynamicIndex i (hc_table c)) :: u32)) (hp_table p) = Some (Some m)"
    using peer_lookup [OF c, of i] i assms(4) unfolding u by simp
  show "0 < unat (of_nat (DynamicIndex i (hc_table c)) :: u32)" by (subst u) (simp add: d)
qed

lemma wire_for: "\<exists>w. encodes e tb w"
  unfolding encodes_def by (rule GetWireValue_total)

lemma cached_filter:
  "cached env c l \<Longrightarrow> pop_ok q \<Longrightarrow> length (pop_elems q) = 64 \<Longrightarrow> cached env (c\<lparr>filter_elems := q\<rparr>) l"
  by (simp add: cached_def)

lemma sends_mono: "op (f, c) = op' (f, c') \<Longrightarrow> sends env set_md m op' f c' p l \<Longrightarrow> sends env set_md m op f c p l"
  unfolding sends_def by simp

lemma sends_AddElem:
  assumes "emits M bs f"
    and "\<And>t. HPackTable_Add (md_of e) (hp_table p) = Some (Inr t) \<Longrightarrow> parses set_md p bs ((deliver set_md (md_of e) p)\<lparr>hp_table := t\<rparr>)"
    and L: "linked env c p l" "\<not> advertise_table_size_change c" "length l < 2 ^ 32 - 64"
    and e: "mdelem_ok env e" "GRPC_MDELEM_IS_INTERNED e" "MetadataSizeInHPackTable e tb < kMaxDecoderSpaceUsage"
  shows "sends env set_md (md_of e) (emit_then M (AddElem e (MetadataSizeInHPackTable e tb) (el_hash e) (el_key_hash e))) f c p l"
proof (rule sends_adding [where n = "MetadataSizeInHPackTable e tb", OF assms(1,2) _ L])
  have "cached env c l" using L(1) by (simp add: linked_def)
  then show "AllocateIndex n (hc_table c) = Some (if max_table_size (hc_table c) < n then 0 else Suc (length l), t) \<Longrightarrow>
      \<exists>c'. AddElem e n (el_hash e) (el_key_hash e) c = Some c' \<and> hc_table c' = t \<and> \<not> advertise_table_size_change c' \<and>
        cached env c' (l @ (if max_table_size (hc_table c) < n then [] else [(md_of e, n)]))" for n t
    using AddElem_cached [OF _ _ L(2) e(1,2)] by blast
qed (use size_in_table [of e tb] e(3) in \<open>simp_all add: kMaxDecoderSpaceUsage_def\<close>)

lemma sends_AddKey:
  assumes "emits M bs f"
    and "\<And>t. HPackTable_Add (md_of e) (hp_table p) = Some (Inr t) \<Longrightarrow> parses set_md p bs ((deliver set_md (md_of e) p)\<lparr>hp_table := t\<rparr>)"
    and L: "linked env c p l" "\<not> advertise_table_size_change c" "length l < 2 ^ 32 - 64"
    and e: "mdelem_ok env e" "el_key_interned e" "MetadataSizeInHPackTable e tb < kMaxDecoderSpaceUsage"
  shows "sends env set_md (md_of e) (emit_then M (AddKey e (MetadataSizeInHPackTable e tb) (el_key_hash e))) f c p l"
proof (rule sends_adding [where n = "MetadataSizeInHPackTable e tb", OF assms(1,2) _ L])
  have "cached env c l" using L(1) by (simp add: linked_def)
  then show "AllocateIndex n (hc_table c) = Some (if max_table_size (hc_table c) < n then 0 else Suc (length l), t) \<Longrightarrow>
      \<exists>c'. AddKey e n (el_key_hash e) c = Some c' \<and> hc_table c' = t \<and> \<not> advertise_table_size_change c' \<and>
        cached env c' (l @ (if max_table_size (hc_table c) < n then [] else [(md_of e, n)]))" for n t
    using AddKey_cached [OF _ _ L(2) e(1,2)] by blast
qed (use size_in_table [of e tb] e(3) in \<open>simp_all add: kMaxDecoderSpaceUsage_def\<close>)

lemma EncodeDynamic_literal_sends:
  assumes L: "linked env c p l" "\<not> advertise_table_size_change c" "length l < 2 ^ 32 - 64"
    and e: "mdelem_ok env e" "GRPC_MDELEM_IS_INTERNED e \<or> el_key_interned e" "takes set_md (md_of e) p"
    and h: "h = 0 \<or> h = el_hash e"
  shows "sends env set_md (md_of e) (EncodeDynamic_literal e h) f c p l"
proof -
  obtain w where w: "encodes e (fr_true_binary f) w" using wire_for by blast
  have gw: "GetWireValue (el_value e) (fr_true_binary f) (grpc_key_is_binary_header (el_key e)) = Some w" using w by (simp add: encodes_def)
  have k: "el_key_ref e \<noteq> 0" "key_of env (el_key_ref e) = el_key e" "key_hash_of env (el_key_ref e) = el_key_hash e"
    using e(1,2) by (simp_all add: mdelem_ok_def)
  have len: "length (el_key e) < 2 ^ 32" "length (el_value e) < 2 ^ 28" using e(1) by (simp_all add: mdelem_ok_def)
  have tk: "takes set_md (mk_memento (el_key e) (el_value e)) p" using e(3) by (simp add: md_of_def)
  let ?n = "MetadataSizeInHPackTable e (fr_true_binary f)"
  let ?E = "GRPC_MDELEM_IS_INTERNED e \<and> ?n < kMaxDecoderSpaceUsage \<and> h \<noteq> 0" and ?K = "\<not> GRPC_MDELEM_IS_INTERNED e \<and> ?n < kMaxDecoderSpaceUsage"
  let ?new = "if ?E then emit_then (EmitLitHdrWithStringKeyIncIdx e) (AddElem e ?n h (el_key_hash e))
     else if ?K then emit_then (EmitLitHdrWithStringKeyIncIdx e) (AddKey e ?n (el_key_hash e))
     else emit_then (EmitLitHdrWithStringKeyNotIdx e) Some"
  note new = parses_new_key [OF len(1) gw len(2) tk, folded md_of_def] and keyed = EmitLitHdrWithStringKeyIncIdx_emits [OF w k(1)]
  have lit: "sends env set_md (md_of e) ?new f c p l"
    using sends_AddElem [OF keyed new(1) L e(1)] sends_AddKey [OF keyed new(1) L e(1)] h e(2)
      sends_plain [OF EmitLitHdrWithStringKeyNotIdx_emits [OF w] new(2) _ _ L(1,2)] by auto
  show ?thesis
  proof (cases "\<exists>i. Index_Lookup (el_key_ref e) (el_key_hash e) (key_index c) = Some i \<and> ConvertableToDynamicIndex i (hc_table c)")
    case False
    have "EncodeDynamic_literal e h (f, c) = ?new (f, c)"
      using False unfolding EncodeDynamic_literal_def Let_def by (auto split: option.splits)
    with lit show ?thesis by (simp add: sends_def)
  next
    case True
    then obtain i where i: "Index_Lookup (el_key_ref e) (el_key_hash e) (key_index c) = Some i" "ConvertableToDynamicIndex i (hc_table c)" by blast
    let ?d = "of_nat (DynamicIndex i (hc_table c)) :: u32"
    have "key_sound env l (el_key_ref e) i"
      using cuckoo.onlyD [of "key_hash_of env" "key_sound env l" "key_index c" "el_key_ref e" i] L(1) k i(1) by (simp add: linked_def cached_def)
    then obtain v where "entry_at l i (mk_memento (el_key e) v)" using k(2) by (auto simp: key_sound_def)
    note lk = linked_lookup [OF L(1,2) this i(2)]
    note inc = parses_incremental [OF lk(2,1) gw len(2) tk, folded md_of_def] and pl = parses_plain [OF lk(2,1) gw len(2) tk, folded md_of_def]
    have "sends env set_md (md_of e) (if ?E then emit_then (EmitLitHdrIncIdx ?d e) (AddElem e ?n h (el_key_hash e))
      else emit_then (EmitLitHdrNotIdx ?d e) Some) f c p l"
      using sends_AddElem [OF EmitLitHdrIncIdx_emits [OF w k(1)] inc L e(1)] h
        sends_plain [OF EmitLitHdrNotIdx_emits [OF w k(1)] pl _ _ L(1,2)] by auto
    then show ?thesis by (rule sends_mono [rotated]) (use i in \<open>simp add: EncodeDynamic_literal_def Let_def\<close>)
  qed
qed

text \<open>The whole of the dynamic encoding, once the order of the headers is checked.\<close>

lemma EncodeDynamic_body_sends:
  assumes L: "linked env c p l" "\<not> advertise_table_size_change c" "length l < 2 ^ 32 - 64"
    and e: "mdelem_ok env e" "takes set_md (md_of e) p"
  shows "sends env set_md (md_of e) (EncodeDynamic_body e) f c p l"
proof -
  have len: "length (el_key e) < 2 ^ 32" "length (el_value e) < 2 ^ 28" using e(1) by (simp_all add: mdelem_ok_def)
  have tk: "takes set_md (mk_memento (el_key e) (el_value e)) p" using e(2) by (simp add: md_of_def)
  consider "\<not> GRPC_MDELEM_IS_INTERNED e" "\<not> el_key_interned e" | "\<not> GRPC_MDELEM_IS_INTERNED e" "el_key_interned e" | "GRPC_MDELEM_IS_INTERNED e" by blast
  then show ?thesis
  proof cases
    case 1
    obtain w where w: "encodes e (fr_true_binary f) w" using wire_for by blast
    then have gw: "GetWireValue (el_value e) (fr_true_binary f) (grpc_key_is_binary_header (el_key e)) = Some w" by (simp add: encodes_def)
    note new = parses_new_key(2) [OF len(1) gw len(2) tk, folded md_of_def]
    have "sends env set_md (md_of e) (emit_then (EmitLitHdrWithStringKeyNotIdx e) Some) f c p l"
      by (rule sends_plain [OF EmitLitHdrWithStringKeyNotIdx_emits [OF w] new _ _ L(1,2)]) simp_all
    then show ?thesis by (rule sends_mono [rotated]) (use 1 in \<open>simp add: EncodeDynamic_body_def\<close>)
  next
    case 2
    then have "sends env set_md (md_of e) (EncodeDynamic_literal e 0) f c p l" using EncodeDynamic_literal_sends [OF L e(1) _ e(2), of 0 f] by simp
    then show ?thesis by (rule sends_mono [rotated]) (use 2 in \<open>simp add: EncodeDynamic_body_def\<close>)
  next
    case 3
    have pop: "pop_ok (filter_elems c)" "length (pop_elems (filter_elems c)) = 64" using L(1) by (simp_all add: linked_def cached_def)
    obtain can q where q: "AddElement (unat (el_hash e) mod kNumFilterValues) (filter_elems c) = Some (can, q)" "pop_ok q" "length (pop_elems q) = 64"
      using AddElement_ok [OF pop(1), of "unat (el_hash e) mod kNumFilterValues"] pop(2) by (auto simp: kNumFilterValues_def)
    let ?c = "c\<lparr>filter_elems := q\<rparr>"
    have L': "linked env ?c p l" "\<not> advertise_table_size_change ?c" using L q cached_filter [of env c l q] by (simp_all add: linked_def)
    show ?thesis
    proof (cases "\<exists>i. Index_Lookup (el_payload e) (el_hash e) (elem_index ?c) = Some i \<and> ConvertableToDynamicIndex i (hc_table ?c)")
      case False
      then have "EncodeDynamic_body e (f, c) = EncodeDynamic_literal e (if can then el_hash e else 0) (f, ?c)"
        using 3 q(1) by (auto simp: EncodeDynamic_body_def Let_def split: option.splits)
      then show ?thesis
        by (rule sends_mono [OF _ EncodeDynamic_literal_sends [OF L' L(3) e(1) _ e(2)]]) (use 3 in auto)
    next
      case True
      then obtain i where i: "Index_Lookup (el_payload e) (el_hash e) (elem_index ?c) = Some i" "ConvertableToDynamicIndex i (hc_table ?c)" by blast
      have "elem_sound env l (el_payload e) i"
        using cuckoo.onlyD [of "elem_hash_of env" "elem_sound env l" "elem_index ?c" "el_payload e" i] L' i(1) e(1) 3
        by (simp add: linked_def cached_def mdelem_ok_def)
      then have "entry_at l i (md_of e)" using e(1) 3 by (simp add: elem_sound_def md_of_def mdelem_ok_def)
      note lk = linked_lookup [OF L' this i(2)]
      have "sends env set_md (md_of e) (emit_then (EmitIndexed (of_nat (DynamicIndex i (hc_table ?c)))) Some) f ?c p l"
        by (rule sends_plain [OF EmitIndexed_emits parses_indexed [OF lk(2,1) e(2)] _ _ L']) simp_all
      then show ?thesis by (rule sends_mono [rotated]) (use 3 q(1) i in \<open>simp add: EncodeDynamic_body_def\<close>)
    qed
  qed
qed

lemma Encode_Te_sends:
  assumes L: "linked env c p l" "\<not> advertise_table_size_change c" "length l < 2 ^ 32 - 64" and t: "takes set_md (mk_memento te_key te_trailers) p"
  shows "sends env set_md (mk_memento te_key te_trailers) Encode_Te f c p l"
proof (cases "ConvertableToDynamicIndex (te_index c) (hc_table c)")
  case True
  then have "te_index c \<noteq> 0" by (auto simp: ConvertableToDynamicIndex_def)
  then have "entry_at l (te_index c) (mk_memento te_key te_trailers)" using L(1) by (simp add: linked_def cached_def)
  note lk = linked_lookup [OF L(1,2) this True]
  have "sends env set_md (mk_memento te_key te_trailers) (emit_then (EmitIndexed (of_nat (DynamicIndex (te_index c) (hc_table c)))) Some) f c p l"
    by (rule sends_plain [OF EmitIndexed_emits parses_indexed [OF lk(2,1) t] _ _ L(1,2)]) simp_all
  then show ?thesis by (rule sends_mono [rotated]) (use True in \<open>simp add: Encode_Te_def\<close>)
next
  case False
  let ?K = "\<lambda>c. map_option (\<lambda>(i, t). c\<lparr>hc_table := t, te_index := i\<rparr>) (AllocateIndex 42 (hc_table c))"
  let ?M = "EmitLitHdrWithNonBinaryStringKeyIncIdx te_key te_trailers"
  have gw: "GetWireValue te_trailers False (grpc_key_is_binary_header te_key) = Some (WireValue 0 False te_trailers)"
    by (simp add: GetWireValue_def grpc_key_is_binary_header_def te_key_def)
  have m: "transport_size (mk_memento te_key te_trailers) = 42" by (simp add: mk_memento_def TransportSize_def te_key_def te_trailers_def)
  note new = parses_new_key(1) [OF _ gw _ t]
  have "sends env set_md (mk_memento te_key te_trailers) (emit_then ?M ?K) f c p l"
  proof (rule sends_adding [where n = 42, OF EmitLitHdrWithNonBinaryStringKeyIncIdx_emits new _ L])
    fix t assume a: "AllocateIndex 42 (hc_table c) = Some (if max_table_size (hc_table c) < 42 then 0 else Suc (length l), t)"
    have "cached env c l" using L(1) by (simp add: linked_def)
    then have "cached env (c\<lparr>hc_table := t, te_index := if max_table_size (hc_table c) < 42 then 0 else Suc (length l)\<rparr>)
      (l @ (if max_table_size (hc_table c) < 42 then [] else [(mk_memento te_key te_trailers, 42)]))"
      using cached_more [of env c l "[(mk_memento te_key te_trailers, 42)]"] entry_at_new by (simp add: cached_def)
    with a L(2) show "\<exists>c'. ?K c = Some c' \<and> hc_table c' = t \<and> \<not> advertise_table_size_change c' \<and>
      cached env c' (l @ (if max_table_size (hc_table c) < 42 then [] else [(mk_memento te_key te_trailers, 42)]))" by simp
  qed (use m in \<open>simp_all add: te_key_def te_trailers_def\<close>)
  moreover have "Encode_Te (f, c) = emit_then ?M ?K (f, c)"
    using False by (cases "AllocateIndex 42 (hc_table c)"; cases "?M f") (auto simp: Encode_Te_def emit_then_def kEntryOverhead_def)
  ultimately show ?thesis by (rule sends_mono [rotated])
qed

lemma static_lookup:
  assumes "static_metadata t = StaticMementos" "k < 61"
  shows "HPackTable_Lookup (unat (of_nat (k + 1) :: u32)) t = Some (Some (StaticMementos ! k))" "0 < unat (of_nat (k + 1) :: u32)"
proof -
  have u: "unat (of_nat (k + 1) :: u32) = k + 1" using assms(2) by (intro unat_of_nat_u32) simp
  show "HPackTable_Lookup (unat (of_nat (k + 1) :: u32)) t = Some (Some (StaticMementos ! k))"
    using assms StaticMementos_ok(1) unfolding u by (simp add: HPackTable_Lookup_def kLastStaticEntry_def)
  show "0 < unat (of_nat (k + 1) :: u32)" unfolding u by simp
qed

section \<open>A header block\<close>

fun item_md :: "header_item \<Rightarrow> md memento" where
  "item_md (Md e) = md_of e"
| "item_md Te = mk_memento te_key te_trailers"
| "item_md (GrpcTimeout addr key_ref key_hash deadline now) = md_of (timeout_mdelem addr key_ref key_hash (deadline - now))"

fun item_ok :: "interning \<Rightarrow> header_item \<Rightarrow> bool" where
  "item_ok env (Md e) = mdelem_ok env e"
| "item_ok env Te = True"
| "item_ok env (GrpcTimeout addr key_ref key_hash deadline now) = mdelem_ok env (timeout_mdelem addr key_ref key_hash (deadline - now))"

definition pseudo :: "mdelem \<Rightarrow> bool" where
  "pseudo e \<longleftrightarrow> take 1 (el_key e) = [of_char CHR '':'']"

text \<open>Pseudo-headers come first; \<open>seen\<close> says whether a regular header has been seen.\<close>

fun seen_after :: "header_item \<Rightarrow> bool \<Rightarrow> bool" where
  "seen_after (Md e) seen = (seen \<or> \<not> pseudo e)"
| "seen_after Te seen = seen"
| "seen_after (GrpcTimeout addr key_ref key_hash deadline now) seen = True"

fun in_order :: "header_item \<Rightarrow> bool \<Rightarrow> bool" where
  "in_order (Md e) seen \<longleftrightarrow> \<not> (pseudo e \<and> seen)"
| "in_order _ seen \<longleftrightarrow> True"

fun headers_ordered :: "bool \<Rightarrow> header_item list \<Rightarrow> bool" where
  "headers_ordered seen [] \<longleftrightarrow> True"
| "headers_ordered seen (x # xs) \<longleftrightarrow> in_order x seen \<and> headers_ordered (seen_after x seen) xs"

lemma check_header_order_ok:
  assumes "el_key e \<noteq> []" "\<not> (pseudo e \<and> fr_seen_regular f)"
  shows "check_header_order e f = Some (f\<lparr>fr_seen_regular := fr_seen_regular f \<or> \<not> pseudo e\<rparr>)"
  using assms by (cases "el_key e") (auto simp: check_header_order_def pseudo_def)

lemma has_block_seen [simp]: "has_block pre block (f\<lparr>fr_seen_regular := s\<rparr>) = has_block pre block f"
  by (simp add: has_block_def framed_def)

text \<open>The same as \<open>sends\<close>, up to the record of the regular headers.\<close>

definition sends_item :: "interning \<Rightarrow> (md memento \<Rightarrow> 'b \<Rightarrow> bool \<times> 'b) \<Rightarrow> header_item \<Rightarrow>
    framer \<Rightarrow> compressor \<Rightarrow> 'b hpack_parser \<Rightarrow> entry_log \<Rightarrow> bool" where
  "sends_item env set_md x f c p l \<longleftrightarrow>
     (\<forall>pre block. has_block pre block f \<longrightarrow>
        (\<exists>f' c' p' l' bs s. Encode_item x (f, c) = Some (f', c') \<and> has_block pre (block @ bs) f' \<and>
           same_options (f\<lparr>fr_seen_regular := s\<rparr>) f' \<and> (s \<longrightarrow> seen_after x (fr_seen_regular f)) \<and> parses set_md p bs p' \<and>
           delivered set_md (item_md x) p p' \<and> linked env c' p' l' \<and> \<not> advertise_table_size_change c' \<and> length l' \<le> Suc (length l)))"

lemma sends_itemI:
  assumes "sends env set_md (item_md x) op (f\<lparr>fr_seen_regular := s\<rparr>) c p l" "s \<longrightarrow> seen_after x (fr_seen_regular f)"
    "Encode_item x (f, c) = op (f\<lparr>fr_seen_regular := s\<rparr>, c)"
  shows "sends_item env set_md x f c p l"
  unfolding sends_item_def
proof (intro allI impI)
  fix pre block assume "has_block pre block f"
  then have "has_block pre block (f\<lparr>fr_seen_regular := s\<rparr>)" by simp
  with assms(1) obtain f' c' p' l' bs where "op (f\<lparr>fr_seen_regular := s\<rparr>, c) = Some (f', c') \<and> has_block pre (block @ bs) f' \<and>
    same_options (f\<lparr>fr_seen_regular := s\<rparr>) f' \<and> parses set_md p bs p' \<and>
    delivered set_md (item_md x) p p' \<and> linked env c' p' l' \<and> \<not> advertise_table_size_change c' \<and> length l' \<le> Suc (length l)"
    unfolding sends_def by blast
  with assms(2,3) show "\<exists>f' c' p' l' bs s. Encode_item x (f, c) = Some (f', c') \<and> has_block pre (block @ bs) f' \<and>
    same_options (f\<lparr>fr_seen_regular := s\<rparr>) f' \<and> (s \<longrightarrow> seen_after x (fr_seen_regular f)) \<and> parses set_md p bs p' \<and>
    delivered set_md (item_md x) p p' \<and> linked env c' p' l' \<and> \<not> advertise_table_size_change c' \<and> length l' \<le> Suc (length l)"
    by metis
qed

lemma EncodeDynamic_sends:
  assumes L: "linked env c p l" "\<not> advertise_table_size_change c" "length l < 2 ^ 32 - 64"
    and e: "mdelem_ok env e" "takes set_md (md_of e) p" "\<not> (pseudo e \<and> fr_seen_regular f)"
    and x: "item_md x = md_of e" "Encode_item x (f, c) = EncodeDynamic e (f, c)" "\<not> pseudo e \<Longrightarrow> seen_after x (fr_seen_regular f)"
      "fr_seen_regular f \<Longrightarrow> seen_after x (fr_seen_regular f)"
  shows "sends_item env set_md x f c p l"
proof (rule sends_itemI [where s = "fr_seen_regular f \<or> \<not> pseudo e" and op = "EncodeDynamic_body e"])
  show "sends env set_md (item_md x) (EncodeDynamic_body e) (f\<lparr>fr_seen_regular := fr_seen_regular f \<or> \<not> pseudo e\<rparr>) c p l"
    unfolding x(1) by (rule EncodeDynamic_body_sends [OF L e(1,2)])
  have "el_key e \<noteq> []" using e(1) by (simp add: mdelem_ok_def)
  then show "Encode_item x (f, c) = EncodeDynamic_body e (f\<lparr>fr_seen_regular := fr_seen_regular f \<or> \<not> pseudo e\<rparr>, c)"
    unfolding x(2) EncodeDynamic_def using check_header_order_ok e(3) by simp
qed (use x(3,4) in blast)

lemma Encode_item_sends:
  assumes L: "linked env c p l" "\<not> advertise_table_size_change c" "length l < 2 ^ 32 - 64"
    and x: "item_ok env x" "takes set_md (item_md x) p" "in_order x (fr_seen_regular f)"
  shows "sends_item env set_md x f c p l"
proof (cases x)
  case (Md e)
  show ?thesis
  proof (cases "el_storage e = STATIC \<and> el_static_index e < 61")
    case True
    have st: "static_metadata (hp_table p) = StaticMementos" using L(1) by (simp add: linked_def)
    have "StaticMementos ! el_static_index e = md_of e" using True x(1) Md by (simp add: mdelem_ok_def md_of_def)
    with static_lookup [OF st, of "el_static_index e"] True
    have lk: "HPackTable_Lookup (unat (of_nat (el_static_index e + 1) :: u32)) (hp_table p) = Some (Some (md_of e))"
      "0 < unat (of_nat (el_static_index e + 1) :: u32)" by simp_all
    have t: "takes set_md (md_of e) p" using x(2) Md by simp
    have "sends env set_md (md_of e) (emit_then (EmitIndexed (of_nat (el_static_index e + 1))) Some) g c p l" for g
      by (rule sends_plain [OF EmitIndexed_emits parses_indexed [OF lk(2,1) t] _ _ L(1,2)]) simp_all
    then show ?thesis
      by (intro sends_itemI [where s = "fr_seen_regular f" and op = "emit_then (EmitIndexed (of_nat (el_static_index e + 1))) Some"])
        (use True Md in \<open>simp_all add: Encode_md_def kLastStaticEntry_def\<close>)
  next
    case False
    show ?thesis
      by (rule EncodeDynamic_sends [OF L, of e]) (use x Md False in \<open>auto simp: Encode_md_def kLastStaticEntry_def\<close>)
  qed
next
  case Te
  show ?thesis
    by (rule sends_itemI [where s = "fr_seen_regular f" and op = Encode_Te]) (use Te x(2) Encode_Te_sends [OF L] in simp_all)
next
  case (GrpcTimeout addr key_ref key_hash deadline now)
  let ?e = "timeout_mdelem addr key_ref key_hash (deadline - now)"
  have "\<not> pseudo ?e" by (simp add: pseudo_def timeout_mdelem_def)
  then show ?thesis
    by (intro EncodeDynamic_sends [OF L, of ?e]) (use x GrpcTimeout in \<open>auto simp: Encode_Timeout_def\<close>)
qed

definition accepting :: "(md memento \<Rightarrow> 'b \<Rightarrow> bool \<times> 'b) \<Rightarrow> bool" where
  "accepting set_md \<longleftrightarrow> (\<forall>m b. fst (set_md m b))"

text \<open>The parser has a batch and room for headers of a total size.\<close>

definition room :: "nat \<Rightarrow> 'b hpack_parser \<Rightarrow> bool" where
  "room n p \<longleftrightarrow> metadata_buffer p \<noteq> None \<and> frame_length p + n \<le> metadata_size_limit p \<and> metadata_size_limit p < 2 ^ 32"

definition block_delivered :: "(md memento \<Rightarrow> 'b \<Rightarrow> bool \<times> 'b) \<Rightarrow> md memento list \<Rightarrow> 'b hpack_parser \<Rightarrow> 'b hpack_parser \<Rightarrow> bool" where
  "block_delivered set_md ms p q \<longleftrightarrow>
     metadata_buffer q = map_option (fold (\<lambda>m b. snd (set_md m b)) ms) (metadata_buffer p) \<and>
     max_bytes (hp_table q) = max_bytes (hp_table p) \<and> same_frame p q"

lemma block_delivered_Cons: "delivered set_md m p q \<Longrightarrow> block_delivered set_md ms q r \<Longrightarrow> block_delivered set_md (m # ms) p r"
  by (cases "metadata_buffer p") (auto simp: delivered_def block_delivered_def same_frame_def)

lemma room_takes: "accepting set_md \<Longrightarrow> room (transport_size m + n) p \<Longrightarrow> takes set_md m p"
  by (auto simp: accepting_def room_def takes_def)

lemma room_next: "delivered set_md m p q \<Longrightarrow> room (transport_size m + n) p \<Longrightarrow> room n q"
  by (auto simp: delivered_def room_def)

definition same_stream :: "framer \<Rightarrow> framer \<Rightarrow> bool" where
  "same_stream f g \<longleftrightarrow> fr_max_frame_size g = fr_max_frame_size f \<and> fr_is_end_of_stream g = fr_is_end_of_stream f \<and> fr_stream_id g = fr_stream_id f"

lemma Encode_items:
  assumes "linked env c p l" "\<not> advertise_table_size_change c" "length l + length xs < 2 ^ 32 - 64" "list_all (item_ok env) xs"
    "headers_ordered seen xs" "fr_seen_regular f \<longrightarrow> seen" "accepting set_md" "room (sum_list (map (\<lambda>x. transport_size (item_md x)) xs)) p"
    "has_block pre block f"
  shows "\<exists>f' c' p' l' bs. fold_opt Encode_item xs (f, c) = Some (f', c') \<and> has_block pre (block @ bs) f' \<and> same_stream f f' \<and>
    parses set_md p bs p' \<and> block_delivered set_md (map item_md xs) p p' \<and> linked env c' p' l' \<and>
    \<not> advertise_table_size_change c' \<and> length l' \<le> length l + length xs"
  using assms
proof (induction xs arbitrary: f c p l block seen)
  case Nil
  then have "has_block pre (block @ []) f" by simp
  with Nil show ?case
    by (intro exI [of _ f] exI [of _ c] exI [of _ p] exI [of _ l] exI [of _ "[]"]) (simp add: same_stream_def block_delivered_def option.map_id0)
next
  case (Cons x xs)
  let ?n = "sum_list (map (\<lambda>x. transport_size (item_md x)) xs)"
  have r: "room (transport_size (item_md x) + ?n) p" using Cons.prems(8) by simp
  have "in_order x (fr_seen_regular f)" using Cons.prems(5,6) by (cases x) auto
  then have "sends_item env set_md x f c p l"
    using Cons.prems by (intro Encode_item_sends room_takes [OF Cons.prems(7) r]) auto
  with Cons.prems(9) obtain f1 c1 p1 l1 bs1 s where s1: "Encode_item x (f, c) = Some (f1, c1)" "has_block pre (block @ bs1) f1"
    "same_options (f\<lparr>fr_seen_regular := s\<rparr>) f1" "s \<longrightarrow> seen_after x (fr_seen_regular f)" "parses set_md p bs1 p1"
    "delivered set_md (item_md x) p p1" "linked env c1 p1 l1" "\<not> advertise_table_size_change c1" "length l1 \<le> Suc (length l)"
    unfolding sends_item_def by blast
  have seen: "fr_seen_regular f1 \<longrightarrow> seen_after x seen" using s1(3,4) Cons.prems(6) by (cases x) (auto simp: same_options_def)
  have "length l1 + length xs < 2 ^ 32 - 64" using s1(9) Cons.prems(3) by simp
  from Cons.IH [OF s1(7,8) this _ _ seen Cons.prems(7) room_next [OF s1(6) r] s1(2)] Cons.prems(4,5)
  obtain f' c' p' l' bs where s2: "fold_opt Encode_item xs (f1, c1) = Some (f', c')" "has_block pre ((block @ bs1) @ bs) f'" "same_stream f1 f'"
    "parses set_md p1 bs p'" "block_delivered set_md (map item_md xs) p1 p'" "linked env c' p' l'" "\<not> advertise_table_size_change c'"
    "length l' \<le> length l1 + length xs" by auto
  have "same_stream f f'" using s1(3) s2(3) by (simp add: same_stream_def same_options_def)
  moreover have "length l' \<le> length l + length (x # xs)" using s1(9) s2(8) by simp
  ultimately show ?case
    using s1(1) s2(1,2,6,7) parses_append [OF s1(5) s2(4)] block_delivered_Cons [OF s1(6) s2(5)]
    by (intro exI [of _ f'] exI [of _ c'] exI [of _ p'] exI [of _ l'] exI [of _ "bs1 @ bs"]) simp
qed

text \<open>The framer announces a new table size first.\<close>

lemma Framer_init_ok:
  assumes "linked env c p l" "13 \<le> opt_max_frame_size opts" "opt_max_frame_size opts \<le> 16777215" "0 < dynamic_table_updates_allowed p"
  shows "\<exists>f c' p' bs. Framer_init opts pre c = Some (f, c') \<and> has_block pre bs f \<and> \<not> fr_seen_regular f \<and>
    fr_max_frame_size f = opt_max_frame_size opts \<and> fr_is_end_of_stream f = opt_is_end_of_stream opts \<and> fr_stream_id f = opt_stream_id opts \<and>
    parses set_md p bs p' \<and> block_delivered set_md [] p p' \<and> frame_length p' = frame_length p \<and> metadata_size_limit p' = metadata_size_limit p \<and>
    linked env c' p' l \<and> \<not> advertise_table_size_change c'"
proof -
  define f where "f = BeginFrame
        \<lparr>fr_max_frame_size = opt_max_frame_size opts, fr_is_first_frame = True, fr_true_binary = opt_true_binary opts,
         fr_is_end_of_stream = opt_is_end_of_stream opts, fr_stream_id = opt_stream_id opts, fr_seen_regular = False,
         fr_output = pre, fr_framing_bytes = 0, fr_header_bytes = 0, fr_header_at = 0, fr_start = 0\<rparr>"
  have fr: "framed pre [] [] f" using assms(2,3)
    by (simp add: f_def framed_def BeginFrame_def header_frames_def kDataFrameHeaderSize_def)
  then have b: "has_block pre [] f" by (auto simp: has_block_def)
  have fs: "\<not> fr_seen_regular f" "fr_max_frame_size f = opt_max_frame_size opts" "fr_is_end_of_stream f = opt_is_end_of_stream opts"
    "fr_stream_id f = opt_stream_id opts" by (simp_all add: f_def BeginFrame_def)
  have init: "Framer_init opts pre c = (if advertise_table_size_change c
      then emit_then (Emit_AdvertiseTableSizeChange (max_table_size (hc_table c))) Some (f, c\<lparr>advertise_table_size_change := False\<rparr>) else Some (f, c))"
    by (simp add: Framer_init_def f_def Let_def)
  show ?thesis
  proof (cases "advertise_table_size_change c")
    case False
    with b fs assms(1) show ?thesis unfolding init
      by (intro exI [of _ f] exI [of _ c] exI [of _ p] exI [of _ "[]"]) (simp add: block_delivered_def option.map_id0)
  next
    case True
    let ?n = "max_table_size (hc_table c)" and ?c = "c\<lparr>advertise_table_size_change := False\<rparr>"
    obtain g where g: "Emit_AdvertiseTableSizeChange ?n f = Some g" "has_block pre ([] @ VarintWriter_Write 0x20 (VarintWriter 3 (of_nat ?n))) g"
      "same_options f g" using AdvertiseTableSizeChange_emits [of ?n f] b unfolding emits_def by blast
    have m: "matched (pair_of c p l)" "static_metadata (hp_table p) = StaticMementos" "cached env c l" using assms(1) True by (simp_all add: linked_def)
    from matched_announce [OF m(1)] obtain d where d: "HPackTable_SetCurrentTableSize ?n (hp_table p) = Some (Inr d)"
      "coupled \<lparr>enc = hc_table c, dec = d, log = l\<rparr>" "max_bytes d = max_bytes (hp_table p)" "static_metadata d = static_metadata (hp_table p)" by auto
    have "enc_ok (hc_table c)" using m(1) by (simp add: matched_def)
    then have "unat (of_nat ?n :: u32) = ?n" by (intro unat_of_nat_u32) (simp add: enc_ok_def)
    then have ps: "parses set_md p (VarintWriter_Write 0x20 (VarintWriter 3 (of_nat ?n)))
      (p\<lparr>dynamic_table_updates_allowed := dynamic_table_updates_allowed p - 1, hp_table := d\<rparr>)"
      by (intro parses_size [OF assms(4)]) (simp add: d(1))
    let ?q = "p\<lparr>dynamic_table_updates_allowed := dynamic_table_updates_allowed p - 1, hp_table := d\<rparr>"
    have "linked env ?c ?q l" using d m by (simp add: linked_def cached_def)
    with g ps fs d(3) True show ?thesis unfolding init
      by (intro exI [of _ g] exI [of _ ?c] exI [of _ ?q] exI [of _ "VarintWriter_Write 0x20 (VarintWriter 3 (of_nat ?n))"])
        (simp add: emit_then_def block_delivered_def option.map_id0 same_frame_def same_options_def)
  qed
qed

end
