(* ===== verification/Hpack_Connection.thy ===== *)
theory Hpack_Connection
  imports Hpack_Link
begin

text \<open>
  Header blocks over a connection: an HPACK compressor (\<^verbatim>\<open>hpack_encoder.cc\<close>) on one side, the parser (\<^verbatim>\<open>hpack_parser.cc\<close>) on the other, and in
  between the frames.  A block that is sent in several frames is fed to the parser as consecutive slices.
\<close>

section \<open>Encoding and parsing a block\<close>

lemma EncodeHeaders_ok:
  assumes "linked env c p l" "length l + length xs < 2 ^ 32 - 64" "list_all (item_ok env) xs" "headers_ordered False xs" "accepting set_md"
    "room (sum_list (map (\<lambda>x. transport_size (item_md x)) xs)) p" "13 \<le> opt_max_frame_size opts" "opt_max_frame_size opts \<le> 16777215"
    "0 < dynamic_table_updates_allowed p"
  shows "\<exists>c' p' l' ps.
    EncodeHeaders opts xs pre c =
      Some (pre @ concat (map frame_bytes (header_frames (opt_is_end_of_stream opts) (opt_stream_id opts) True ps)), c') \<and>
    ps \<noteq> [] \<and> list_all (\<lambda>p. length p \<le> opt_max_frame_size opts) ps \<and> ([] \<in> set ps \<longrightarrow> ps = [[]]) \<and> parses set_md p (concat ps) p' \<and>
    block_delivered set_md (map item_md xs) p p' \<and> linked env c' p' l' \<and> length l' \<le> length l + length xs"
proof -
  obtain f c1 p1 bs1 where s1: "Framer_init opts pre c = Some (f, c1)" "has_block pre bs1 f" "\<not> fr_seen_regular f"
    "fr_max_frame_size f = opt_max_frame_size opts" "fr_is_end_of_stream f = opt_is_end_of_stream opts" "fr_stream_id f = opt_stream_id opts"
    "parses set_md p bs1 p1" "block_delivered set_md [] p p1" "frame_length p1 = frame_length p" "metadata_size_limit p1 = metadata_size_limit p"
    "linked env c1 p1 l" "\<not> advertise_table_size_change c1"
    using Framer_init_ok [OF assms(1,7-9), of pre set_md] by blast
  have r: "room (sum_list (map (\<lambda>x. transport_size (item_md x)) xs)) p1"
    using assms(6) s1(8-10) by (auto simp: room_def block_delivered_def option.map_id0)
  have seen: "fr_seen_regular f \<longrightarrow> False" using s1(3) by simp
  obtain g c2 p2 l2 bs2 where s2: "fold_opt Encode_item xs (f, c1) = Some (g, c2)" "has_block pre (bs1 @ bs2) g" "same_stream f g"
    "parses set_md p1 bs2 p2" "block_delivered set_md (map item_md xs) p1 p2" "linked env c2 p2 l2" "length l2 \<le> length l + length xs"
    using Encode_items [OF s1(11,12) assms(2-4) seen assms(5) r s1(2)] by blast
  obtain ps cur where fr: "framed pre ps cur g" "bs1 @ bs2 = concat ps @ cur" "cur = [] \<longrightarrow> ps = []" using s2(2) by (auto simp: has_block_def)
  obtain h where h: "FinishFrame True g = Some h"
    "fr_output h = pre @ concat (map frame_bytes (header_frames (fr_is_end_of_stream g) (fr_stream_id g) True (ps @ [cur])))"
    using FinishFrame_ok [OF fr(1), of True] by blast
  have same: "fr_is_end_of_stream g = opt_is_end_of_stream opts" "fr_stream_id g = opt_stream_id opts" "fr_max_frame_size g = opt_max_frame_size opts"
    using s1(4-6) s2(3) by (simp_all add: same_stream_def)
  have "EncodeHeaders opts xs pre c =
      Some (pre @ concat (map frame_bytes (header_frames (opt_is_end_of_stream opts) (opt_stream_id opts) True (ps @ [cur]))), c2)"
    using s1(1) s2(1) h same by (simp add: EncodeHeaders_def)
  moreover have "list_all (\<lambda>p. length p \<le> opt_max_frame_size opts) (ps @ [cur])" "[] \<in> set (ps @ [cur]) \<longrightarrow> ps @ [cur] = [[]]"
    using fr(1,3) same by (auto simp: framed_def list_all_iff)
  moreover have "parses set_md p (concat (ps @ [cur])) p2" using parses_append [OF s1(7) s2(4)] fr(2) by simp
  moreover have "block_delivered set_md (map item_md xs) p p2"
    using s1(8) s2(5) by (auto simp: block_delivered_def option.map_id0 same_frame_def)
  ultimately show ?thesis using s2(6,7) by (metis snoc_eq_iff_butlast)
qed

lemma parses_Parse:
  assumes "parses set_md p bs q" "unparsed_bytes p = []" "hp_priority p = PriorityNone"
  shows "HPackParser_Parse set_md bs True p = Some (None, q)"
  using assms spec [OF assms(1) [unfolded parses_def], of "[]"]
  by (simp add: HPackParser_Parse_def ParseInput_def ParseInputInner_def parse_loop_Nil)

text \<open>The frames are slices of the block.\<close>

lemma parses_frames:
  assumes "parses set_md p (concat ps) q" "unparsed_bytes p = []" "hp_priority p = PriorityNone" "ps \<noteq> []" "[] \<in> set ps \<longrightarrow> ps = [[]]"
  shows "feed_slices (HPackParser_Parse set_md) ps p = Some (None, q)"
proof (cases "[] \<in> set ps")
  case True
  then show ?thesis using assms parses_Parse [OF assms(1-3)] by simp
next
  case False
  then have "list_all (\<lambda>x. x \<noteq> []) ps" by (auto simp: list_all_iff)
  from hpp.feed_concat [OF assms(4) this, of set_md p] parses_Parse [OF assms(1-3)] show ?thesis by simp
qed

section \<open>Reading frames\<close>

text \<open>The frames in a sequence of bytes, by the layout of the frame header in RFC 7540.\<close>

fun unframe :: "bytes \<Rightarrow> h2_frame list option" where
  "unframe (l2 # l1 # l0 # ty # fl # i3 # i2 # i1 # i0 # bs) =
     (let n = unat l2 * 65536 + unat l1 * 256 + unat l0 in
      if length bs < n then None
      else map_option (Cons \<lparr>h2_type = ty, h2_flags = fl, h2_stream = rd32 i3 i2 i1 i0, h2_payload = take n bs\<rparr>) (unframe (drop n bs)))"
| "unframe [] = Some []"
| "unframe _ = None"

lemma length_bytes:
  assumes "n < 2 ^ 24"
  shows "unat (ucast (drop_bit 16 (of_nat n :: u32)) :: u8) * 65536 + unat (ucast (drop_bit 8 (of_nat n :: u32)) :: u8) * 256
    + unat (ucast (of_nat n :: u32) :: u8) = n"
proof -
  have b: "unat (ucast (drop_bit k (of_nat n :: u32)) :: u8) = n div 2 ^ k mod 256" for k
  proof -
    have "(ucast (drop_bit k (of_nat n :: u32)) :: u8) = of_nat (n div 2 ^ k)" using of_nat_div_byte [of n k] assms by simp
    then show ?thesis by (simp add: unat_of_nat take_bit_eq_mod)
  qed
  have a: "n div 65536 < 256" using assms by (intro less_mult_imp_div_less) simp
  have "n div 256 div 256 = n div 65536" by (simp add: div_mult2_eq [symmetric])
  then have "n div 256 = n div 65536 * 256 + n div 256 mod 256" using div_mult_mod_eq [of "n div 256" 256] by simp
  then have "n = n div 65536 * 65536 + n div 256 mod 256 * 256 + n mod 256" using div_mult_mod_eq [of n 256] by linarith
  with a b [of 16] b [of 8] b [of 0] show ?thesis by simp
qed

lemma unframe_frames:
  "list_all (\<lambda>h. length (h2_payload h) < 2 ^ 24) hs \<Longrightarrow> unframe (concat (map frame_bytes hs)) = Some hs"
proof (induction hs)
  case (Cons h hs)
  let ?n = "length (h2_payload h)"
  have n: "?n < 2 ^ 24" using Cons.prems by simp
  have "concat (map frame_bytes (h # hs)) =
      ucast (drop_bit 16 (of_nat ?n :: u32)) # ucast (drop_bit 8 (of_nat ?n :: u32)) # ucast (of_nat ?n :: u32) # h2_type h # h2_flags h #
      ucast (drop_bit 24 (h2_stream h)) # ucast (drop_bit 16 (h2_stream h)) # ucast (drop_bit 8 (h2_stream h)) # ucast (h2_stream h) #
      h2_payload h @ concat (map frame_bytes hs)"
    by (simp add: frame_bytes_def be24_def be32_def)
  then show ?case using Cons length_bytes [OF n] by (simp only: unframe.simps Let_def rd32_be32) simp
qed simp

section \<open>A connection\<close>

text \<open>The receiver collects the headers of each block in a list.\<close>

definition collect :: "md memento \<Rightarrow> md memento list \<Rightarrow> bool \<times> md memento list" where
  "collect m b = (True, b @ [m])"

record connection =
  cn_enc :: compressor
  cn_dec :: "md memento list hpack_parser"
  cn_received :: "md memento list list"

datatype conn_op = PeerLimit nat | UsableSize nat | TableSize nat | SendBlock encode_options "header_item list" nat

definition conn_init :: connection where
  "conn_init = \<lparr>cn_enc = HPackCompressor_init, cn_dec = HPackParser_init StaticMementos, cn_received = []\<rparr>"

fun conn_step :: "conn_op \<Rightarrow> connection \<Rightarrow> connection option" where
  "conn_step (PeerLimit n) k =
     map_option (\<lambda>t. k\<lparr>cn_dec := (cn_dec k)\<lparr>hp_table := t\<rparr>\<rparr>) (HPackTable_SetMaxBytes n (hp_table (cn_dec k)))"
| "conn_step (UsableSize n) k = map_option (\<lambda>c. k\<lparr>cn_enc := c\<rparr>) (SetMaxUsableSize n (cn_enc k))"
| "conn_step (TableSize n) k = map_option (\<lambda>c. k\<lparr>cn_enc := c\<rparr>) (HPackCompressor_SetMaxTableSize n (cn_enc k))"
| "conn_step (SendBlock opts headers limit) k = do {
     (out, c) \<leftarrow> EncodeHeaders opts headers [] (cn_enc k);
     frames \<leftarrow> unframe out;
     (err, p) \<leftarrow> feed_slices (HPackParser_Parse collect) (map h2_payload frames)
       (HPackParser_BeginFrame (Some []) limit EndOfHeaders PriorityNone (cn_dec k));
     block \<leftarrow> metadata_buffer p;
     if err = None
     then Some (k\<lparr>cn_enc := c, cn_dec := HPackParser_FinishFrame p, cn_received := cn_received k @ [block]\<rparr>)
     else None }"

text \<open>Abstractly: the decoder's limit and the blocks that were received.\<close>

type_synonym conn_state = "nat \<times> md memento list list"

definition conn_abs :: "connection \<Rightarrow> conn_state" where
  "conn_abs k = (max_bytes (hp_table (cn_dec k)), cn_received k)"

fun conn_spec :: "conn_op \<Rightarrow> conn_state \<Rightarrow> conn_state" where
  "conn_spec (PeerLimit n) (b, r) = (n, r)"
| "conn_spec (UsableSize n) (b, r) = (b, r)"
| "conn_spec (TableSize n) (b, r) = (b, r)"
| "conn_spec (SendBlock opts headers limit) (b, r) = (b, r @ [map item_md headers])"

text \<open>The decoder's limit is only raised and the encoder stays within it; the headers are well-formed, in order and within the size limit; a frame can hold the
  longest run of bytes that is not split; and the 32-bit indices last.\<close>

fun conn_valid :: "interning \<Rightarrow> conn_op \<Rightarrow> conn_state \<Rightarrow> bool" where
  "conn_valid env (PeerLimit n) (b, r) \<longleftrightarrow> b \<le> n"
| "conn_valid env (UsableSize n) (b, r) \<longleftrightarrow> True"
| "conn_valid env (TableSize n) (b, r) \<longleftrightarrow> n \<le> b \<and> n \<le> 2 ^ 32 - 32"
| "conn_valid env (SendBlock opts headers limit) (b, r) \<longleftrightarrow>
     list_all (item_ok env) headers \<and> headers_ordered False headers \<and> sum_list (map (\<lambda>x. transport_size (item_md x)) headers) \<le> limit \<and>
     limit < 2 ^ 32 \<and> 13 \<le> opt_max_frame_size opts \<and> opt_max_frame_size opts \<le> 16777215 \<and>
     length (concat r) + length headers < 2 ^ 32 - 64"

definition conn_ok :: "interning \<Rightarrow> connection \<Rightarrow> bool" where
  "conn_ok env k \<longleftrightarrow> unparsed_bytes (cn_dec k) = [] \<and>
     (\<exists>l. linked env (cn_enc k) (cn_dec k) l \<and> length l \<le> length (concat (cn_received k)))"

lemma conn_ok_init: "conn_ok env conn_init"
proof -
  have "coupled (peers_init StaticMementos)" using peer_ok_init [of StaticMementos] by (simp add: peer_ok_def)
  then have "coupled (pair_of HPackCompressor_init (cn_dec conn_init) [])"
    by (simp add: peers_init_def HPackCompressor_init_def conn_init_def HPackParser_init_def)
  moreover have "cuckoo.only h P (HPackEncoderIndex 64)" for h P
    unfolding cuckoo.only_def using index_init [of 64] by simp
  then have "cached env HPackCompressor_init []"
    by (simp add: cached_def HPackCompressor_init_def kNumFilterValues_def pop_ok_def PopularityCount_def pop_total_def list_all_iff)
  ultimately show ?thesis
    by (auto simp: conn_ok_def conn_init_def linked_def HPackCompressor_init_def HPackParser_init_def HPackTable_init_def)
qed

lemma linked_matched: "linked env c p l \<Longrightarrow> matched (pair_of c p l)"
  by (auto simp: linked_def coupled_iff split: if_splits)

lemma SetMaxTableSize_linked:
  assumes "linked env c p l" "min u n \<le> max_bytes (hp_table p)" "min u n \<le> 2 ^ 32 - 32"
  shows "\<exists>c'. HPackCompressor_SetMaxTableSize n (c\<lparr>max_usable_size := u\<rparr>) = Some c' \<and> linked env c' p l"
proof -
  have m: "matched (pair_of c p l)" by (rule linked_matched [OF assms(1)])
  from matched_resize [OF m] assms(2,3) obtain e where
    e: "SetMaxSize (min u n) (hc_table c) = Some (min u n \<noteq> max_table_size (hc_table c), e)" "matched \<lparr>enc = e, dec = hp_table p, log = l\<rparr>" by auto
  let ?c = "c\<lparr>max_usable_size := u, hc_table := e,
    advertise_table_size_change := advertise_table_size_change c \<or> min u n \<noteq> max_table_size (hc_table c)\<rparr>"
  have "HPackCompressor_SetMaxTableSize n (c\<lparr>max_usable_size := u\<rparr>) = Some ?c" using e(1) by (simp add: HPackCompressor_SetMaxTableSize_def)
  moreover have "e = hc_table c" if "min u n = max_table_size (hc_table c)" using e(1) that by (simp add: SetMaxSize_def)
  then have "linked env ?c p l" using e(2) assms(1) by (cases "min u n = max_table_size (hc_table c)") (auto simp: linked_def cached_def)
  ultimately show ?thesis by auto
qed

lemma same_usable: "c\<lparr>max_usable_size := max_usable_size c\<rparr> = c"
  by (cases c) simp

lemma PeerLimit_linked:
  assumes "linked env c p l" "max_bytes (hp_table p) \<le> n"
  shows "\<exists>t. HPackTable_SetMaxBytes n (hp_table p) = Some t \<and> linked env c (p\<lparr>hp_table := t\<rparr>) l \<and> max_bytes t = n"
proof -
  note ok = linked_matched [OF assms(1), unfolded matched_def, simplified]
  have "evict transport_size n (dec_abs (hp_table p)) = dec_abs (hp_table p)"
    using ok assms(2) by (intro evict_id) (auto simp: dec_ok_def)
  with SetMaxBytes_ok [of "hp_table p" n] ok obtain t where t: "HPackTable_SetMaxBytes n (hp_table p) = Some t" "dec_ok t" "max_bytes t = n"
    "dec_abs t = dec_abs (hp_table p)" "current_table_bytes t = current_table_bytes (hp_table p)" "static_metadata t = static_metadata (hp_table p)"
    by (auto split: if_splits)
  have "linked env c (p\<lparr>hp_table := t\<rparr>) l"
    using assms ok t by (auto simp: linked_def coupled_def matched_def live_def)
  with t show ?thesis by blast
qed

lemma SendBlock_ok:
  assumes "conn_ok env k" "conn_valid env (SendBlock opts headers limit) (conn_abs k)"
  shows "\<exists>k'. conn_step (SendBlock opts headers limit) k = Some k' \<and> conn_ok env k' \<and>
    conn_abs k' = conn_spec (SendBlock opts headers limit) (conn_abs k)"
proof -
  obtain l where l: "linked env (cn_enc k) (cn_dec k) l" "length l \<le> length (concat (cn_received k))" "unparsed_bytes (cn_dec k) = []"
    using assms(1) by (auto simp: conn_ok_def)
  let ?p = "HPackParser_BeginFrame (Some []) limit EndOfHeaders PriorityNone (cn_dec k)"
  have v: "list_all (item_ok env) headers" "headers_ordered False headers" "sum_list (map (\<lambda>x. transport_size (item_md x)) headers) \<le> limit"
    "limit < 2 ^ 32" "13 \<le> opt_max_frame_size opts" "opt_max_frame_size opts \<le> 16777215" "length l + length headers < 2 ^ 32 - 64"
    using assms(2) l(2) by (auto simp: conn_abs_def)
  have p: "linked env (cn_enc k) ?p l" "0 < dynamic_table_updates_allowed ?p" "unparsed_bytes ?p = []" "hp_priority ?p = PriorityNone"
    "metadata_buffer ?p = Some []" "max_bytes (hp_table ?p) = max_bytes (hp_table (cn_dec k))"
    using l by (simp_all add: linked_def HPackParser_BeginFrame_def)
  have r: "room (sum_list (map (\<lambda>x. transport_size (item_md x)) headers)) ?p" using v by (simp add: room_def HPackParser_BeginFrame_def)
  have acc: "accepting collect" by (simp add: accepting_def collect_def)
  obtain c' p' l' ps where e: "EncodeHeaders opts headers [] (cn_enc k) =
      Some ([] @ concat (map frame_bytes (header_frames (opt_is_end_of_stream opts) (opt_stream_id opts) True ps)), c')"
    "ps \<noteq> []" "list_all (\<lambda>p. length p \<le> opt_max_frame_size opts) ps" "[] \<in> set ps \<longrightarrow> ps = [[]]" "parses collect ?p (concat ps) p'"
    "block_delivered collect (map item_md headers) ?p p'" "linked env c' p' l'" "length l' \<le> length l + length headers"
    using EncodeHeaders_ok [OF p(1) v(7,1,2) acc r v(5,6) p(2), of "[]"] by blast
  let ?hs = "header_frames (opt_is_end_of_stream opts) (opt_stream_id opts) True ps"
  have pay: "map h2_payload ?hs = ps" by (rule nth_equalityI) (simp_all add: header_frames_def header_frame_def)
  then have "list_all (\<lambda>h. length (h2_payload h) < 2 ^ 24) ?hs"
    using e(3) v(6) list.pred_map [of "\<lambda>p. length p < 2 ^ 24" h2_payload ?hs] by (auto simp: list_all_iff comp_def)
  then have u: "unframe (concat (map frame_bytes ?hs)) = Some ?hs" by (rule unframe_frames)
  have f: "feed_slices (HPackParser_Parse collect) ps ?p = Some (None, p')" by (rule parses_frames [OF e(5) p(3,4) e(2,4)])
  have "fold (\<lambda>m b. snd (collect m b)) ms b = b @ ms" for ms b by (induction ms arbitrary: b) (simp_all add: collect_def)
  then have b: "metadata_buffer p' = Some (map item_md headers)" "unparsed_bytes p' = []" "max_bytes (hp_table p') = max_bytes (hp_table (cn_dec k))"
    using e(6) p(3,5,6) by (simp_all add: block_delivered_def same_frame_def)
  let ?k = "k\<lparr>cn_enc := c', cn_dec := HPackParser_FinishFrame p', cn_received := cn_received k @ [map item_md headers]\<rparr>"
  have "linked env c' (HPackParser_FinishFrame p') l'" using e(7) by (simp add: linked_def HPackParser_FinishFrame_def)
  then have "conn_ok env ?k" using b(2) e(8) l(2) by (auto simp: conn_ok_def HPackParser_FinishFrame_def)
  moreover have "conn_step (SendBlock opts headers limit) k = Some ?k" using e(1) u f b(1) pay by simp
  ultimately show ?thesis using b(3) by (auto simp: conn_abs_def HPackParser_FinishFrame_def)
qed

interpretation hpack_conn: refinement conn_step conn_spec "conn_valid env" conn_abs "conn_ok env"
  for env
proof
  fix k :: connection and x :: conn_op
  assume ok: "conn_ok env k" and v: "conn_valid env x (conn_abs k)"
  then obtain l where l: "linked env (cn_enc k) (cn_dec k) l" "length l \<le> length (concat (cn_received k))" "unparsed_bytes (cn_dec k) = []"
    by (auto simp: conn_ok_def)
  show "\<exists>k'. conn_step x k = Some k' \<and> conn_ok env k' \<and> conn_abs k' = conn_spec x (conn_abs k)"
  proof (cases x)
    case (PeerLimit n)
    with PeerLimit_linked [OF l(1), of n] v l(2,3) show ?thesis by (auto simp: conn_abs_def conn_ok_def)
  next
    case (UsableSize n)
    have "matched (pair_of (cn_enc k) (cn_dec k) l)" by (rule linked_matched [OF l(1)])
    then have m: "max_table_size (hc_table (cn_enc k)) \<le> max_bytes (hp_table (cn_dec k))" "max_table_size (hc_table (cn_enc k)) \<le> 2 ^ 32 - 32"
      by (simp_all add: matched_def enc_ok_def)
    then have "min n (min (max_table_size (hc_table (cn_enc k))) n) \<le> max_bytes (hp_table (cn_dec k))"
      "min n (min (max_table_size (hc_table (cn_enc k))) n) \<le> 2 ^ 32 - 32" by linarith+
    from SetMaxTableSize_linked [OF l(1) this] obtain c' where "SetMaxUsableSize n (cn_enc k) = Some c'" "linked env c' (cn_dec k) l"
      by (auto simp: SetMaxUsableSize_def)
    with UsableSize l(2,3) show ?thesis by (auto simp: conn_abs_def conn_ok_def)
  next
    case (TableSize n)
    then have "min (max_usable_size (cn_enc k)) n \<le> max_bytes (hp_table (cn_dec k))" "min (max_usable_size (cn_enc k)) n \<le> 2 ^ 32 - 32"
      using v by (auto simp: conn_abs_def)
    from SetMaxTableSize_linked [OF l(1) this] obtain c' where "HPackCompressor_SetMaxTableSize n (cn_enc k) = Some c'" "linked env c' (cn_dec k) l"
      by (auto simp: same_usable)
    with TableSize l(2,3) show ?thesis by (auto simp: conn_abs_def conn_ok_def)
  next
    case (SendBlock opts headers limit)
    show ?thesis using SendBlock_ok [OF ok] v unfolding SendBlock by blast
  qed
qed

fun sent_blocks :: "conn_op list \<Rightarrow> md memento list list" where
  "sent_blocks [] = []"
| "sent_blocks (SendBlock opts headers limit # ops) = map item_md headers # sent_blocks ops"
| "sent_blocks (x # ops) = sent_blocks ops"

text \<open>An interned element and a connection for concrete evaluations: the table is shrunk, and the element is sent twice with other headers.\<close>

definition sample_elem :: mdelem where
  "sample_elem =
     \<lparr>el_storage = INTERNED, el_payload = 7, el_static_index = 0, el_hash = 99, el_key_ref = 5, el_key_interned = True, el_key_hash = 98,
      el_key = [0x61, 0x2d, 0x62, 0x69, 0x6e], el_value = [0, 1, 2]\<rparr>"

definition sample_env :: interning where
  "sample_env =
     \<lparr>elem_of = \<lambda>_. ([0x61, 0x2d, 0x62, 0x69, 0x6e], [0, 1, 2]), elem_hash_of = \<lambda>_. 99, key_of = \<lambda>_. [0x61, 0x2d, 0x62, 0x69, 0x6e],
      key_hash_of = \<lambda>_. 98\<rparr>"

definition sample_options :: encode_options where
  "sample_options = \<lparr>opt_stream_id = 1, opt_is_end_of_stream = True, opt_true_binary = False, opt_max_frame_size = 16\<rparr>"

lemma sample_ok: "mdelem_ok sample_env sample_elem" "\<not> pseudo sample_elem" "transport_size (item_md (Md sample_elem)) = 40"
  "transport_size (item_md Te) = 42"
  by (simp_all add: mdelem_ok_def sample_env_def sample_elem_def pseudo_def GRPC_MDELEM_IS_INTERNED_def md_of_def mk_memento_def TransportSize_def
      te_key_def te_trailers_def)

section \<open>Properties\<close>

text \<open>C4: a header block is framed as HTTP/2 demands.  From any state of the encoder that is linked to a peer, encoding well-formed headers in order
  succeeds, and appends to the output one HEADERS frame and as many CONTINUATION frames as needed, on the given stream, with payloads of at
  most the maximum frame size; END_STREAM is on the first frame just when asked for, END_HEADERS on the last frame and on no other.\<close>

theorem hpack_framing:
  fixes p :: "'b hpack_parser"
  assumes "linked env c p l" "length l + length headers < 2 ^ 32 - 64" "list_all (item_ok env) headers" "headers_ordered False headers"
    "13 \<le> opt_max_frame_size opts" "opt_max_frame_size opts \<le> 16777215"
    "sum_list (map (\<lambda>x. transport_size (item_md x)) headers) < 2 ^ 32"
  shows "\<exists>c' ps. EncodeHeaders opts headers pre c =
      Some (pre @ concat (map frame_bytes (map (\<lambda>k.
        \<lparr>h2_type = (if k = 0 then 1 else 9),
         h2_flags = (if k = 0 \<and> opt_is_end_of_stream opts then 1 else 0) OR (if Suc k = length ps then 4 else 0),
         h2_stream = opt_stream_id opts, h2_payload = ps ! k\<rparr>) [0..<length ps])), c') \<and>
    ps \<noteq> [] \<and> list_all (\<lambda>p. length p \<le> opt_max_frame_size opts) ps"
proof -
  let ?q = "HPackParser_BeginFrame (Some undefined) (sum_list (map (\<lambda>x. transport_size (item_md x)) headers)) EndOfHeaders PriorityNone p"
  have q: "linked env c ?q l" "0 < dynamic_table_updates_allowed ?q" "room (sum_list (map (\<lambda>x. transport_size (item_md x)) headers)) ?q"
    using assms(1,7) by (simp_all add: linked_def room_def HPackParser_BeginFrame_def)
  have "accepting (\<lambda>m b. (True, b))" by (simp add: accepting_def)
  from EncodeHeaders_ok [OF q(1) assms(2-4) this q(3) assms(5,6) q(2), of pre] show ?thesis
    by (auto simp: header_frames_def header_frame_def)
qed

theorem hpack_framing_witness:
  "\<exists>c' ps. EncodeHeaders sample_options [Te, Md sample_elem] [7] HPackCompressor_init =
      Some ([7] @ concat (map frame_bytes (map (\<lambda>k.
        \<lparr>h2_type = (if k = 0 then 1 else 9),
         h2_flags = (if k = 0 \<and> opt_is_end_of_stream sample_options then 1 else 0) OR (if Suc k = length ps then 4 else 0),
         h2_stream = opt_stream_id sample_options, h2_payload = ps ! k\<rparr>) [0..<length ps])), c') \<and>
    ps \<noteq> [] \<and> list_all (\<lambda>p. length p \<le> opt_max_frame_size sample_options) ps"
proof -
  have L: "linked sample_env HPackCompressor_init (cn_dec conn_init) []"
    using conn_ok_init [of sample_env] by (auto simp: conn_ok_def conn_init_def)
  have "sum_list (map (\<lambda>x. transport_size (item_md x)) [Te, Md sample_elem]) < 2 ^ 32"
    using sample_ok(3,4) by simp
  then show ?thesis
    using sample_ok(1,2) by (intro hpack_framing [OF L]) (simp_all add: sample_options_def)
qed

text \<open>C1: HPACK end to end.  Over a connection on which the peer may raise its table limit and the encoder may resize its table between header blocks,
  every block of well-formed headers that is encoded, cut into frames of any admissible size, read back from the frames and parsed by the
  peer is received as exactly the headers that were sent, in order; neither end fails an assertion, reports an error or loops.\<close>

theorem hpack_end_to_end:
  assumes "valid_run (conn_valid env) conn_spec ops (4096, [])"
  shows "\<exists>k. fold_opt conn_step ops conn_init = Some k \<and> cn_received k = sent_blocks ops"
proof -
  have init: "conn_abs conn_init = (4096, [])"
    by (simp add: conn_abs_def conn_init_def HPackParser_init_def HPackTable_init_def kInitialTableSize_def)
  have "snd (fold conn_spec ops (b, r)) = r @ sent_blocks ops" for b r
  proof (induction ops arbitrary: b r)
    case (Cons x ops)
    then show ?case by (cases x) simp_all
  qed simp
  moreover obtain k where "fold_opt conn_step ops conn_init = Some k" "conn_abs k = fold conn_spec ops (4096, [])"
    using hpack_conn.run_ok [OF conn_ok_init, of env ops] assms unfolding init by blast
  moreover have "cn_received k = snd (conn_abs k)" for k by (simp add: conn_abs_def)
  ultimately show ?thesis by simp
qed

theorem hpack_end_to_end_witness:
  "\<exists>k. fold_opt conn_step [PeerLimit 8192, TableSize 100, SendBlock sample_options [Te, Md sample_elem] 1000, UsableSize 50,
       SendBlock sample_options [Md sample_elem, Te] 1000] conn_init = Some k \<and>
     cn_received k = [[item_md Te, item_md (Md sample_elem)], [item_md (Md sample_elem), item_md Te]]"
proof -
  have "valid_run (conn_valid sample_env) conn_spec [PeerLimit 8192, TableSize 100, SendBlock sample_options [Te, Md sample_elem] 1000, UsableSize 50,
       SendBlock sample_options [Md sample_elem, Te] 1000] (4096, [])"
    using sample_ok by (simp add: sample_options_def)
  from hpack_end_to_end [OF this] show ?thesis by simp
qed

end
