(* ===== verification/Stream_Lists.thy ===== *)
theory Stream_Lists
  imports Prelude "HOL-Library.Monad_Syntax"
begin

text \<open>
  The lists of streams that wait for something: \<^verbatim>\<open>src/core/ext/transport/chttp2/transport/stream_lists.cc\<close>.  A list is doubly linked
  through the streams themselves, with one pair of links and one membership flag per list in every stream.  A pointer to a stream is a
  natural number into the store of streams; a failed assertion is \<open>None\<close>.  The pointer operations simulate queues without
  duplicates.  Log messages are left out.
\<close>

section \<open>Definitions\<close>

datatype grpc_chttp2_stream_list_id =
  GRPC_CHTTP2_LIST_WRITABLE
| GRPC_CHTTP2_LIST_WRITING
| GRPC_CHTTP2_LIST_STALLED_BY_TRANSPORT
| GRPC_CHTTP2_LIST_STALLED_BY_STREAM
| GRPC_CHTTP2_LIST_WAITING_FOR_CONCURRENCY

type_synonym stream_ptr = nat

record grpc_chttp2_stream_list =
  list_head :: "stream_ptr option"
  list_tail :: "stream_ptr option"

record grpc_chttp2_stream_link =
  link_next :: "stream_ptr option"
  link_prev :: "stream_ptr option"

record list_stream =
  ls_id :: u32
  ls_links :: "grpc_chttp2_stream_list_id \<Rightarrow> grpc_chttp2_stream_link"
  ls_included :: "grpc_chttp2_stream_list_id \<Rightarrow> bool"

record list_transport =
  lt_flow_control_enabled :: bool
  lt_lists :: "grpc_chttp2_stream_list_id \<Rightarrow> grpc_chttp2_stream_list"
  lt_streams :: "stream_ptr \<Rightarrow> list_stream"

text \<open>The assignments \<open>s->links[id].next = p\<close>, \<open>s->links[id].prev = p\<close>, \<open>s->included[id] = b\<close>, \<open>t->lists[id].head = p\<close> and
  \<open>t->lists[id].tail = p\<close>.\<close>

definition set_next :: "stream_ptr \<Rightarrow> grpc_chttp2_stream_list_id \<Rightarrow> stream_ptr option \<Rightarrow> list_transport \<Rightarrow> list_transport" where
  "set_next s i p t = t\<lparr>lt_streams := (lt_streams t)(s := (lt_streams t s)\<lparr>ls_links :=
     (ls_links (lt_streams t s))(i := (ls_links (lt_streams t s) i)\<lparr>link_next := p\<rparr>)\<rparr>)\<rparr>"

definition set_prev :: "stream_ptr \<Rightarrow> grpc_chttp2_stream_list_id \<Rightarrow> stream_ptr option \<Rightarrow> list_transport \<Rightarrow> list_transport" where
  "set_prev s i p t = t\<lparr>lt_streams := (lt_streams t)(s := (lt_streams t s)\<lparr>ls_links :=
     (ls_links (lt_streams t s))(i := (ls_links (lt_streams t s) i)\<lparr>link_prev := p\<rparr>)\<rparr>)\<rparr>"

definition set_included :: "stream_ptr \<Rightarrow> grpc_chttp2_stream_list_id \<Rightarrow> bool \<Rightarrow> list_transport \<Rightarrow> list_transport" where
  "set_included s i b t = t\<lparr>lt_streams := (lt_streams t)(s := (lt_streams t s)\<lparr>ls_included := (ls_included (lt_streams t s))(i := b)\<rparr>)\<rparr>"

definition set_head :: "grpc_chttp2_stream_list_id \<Rightarrow> stream_ptr option \<Rightarrow> list_transport \<Rightarrow> list_transport" where
  "set_head i p t = t\<lparr>lt_lists := (lt_lists t)(i := (lt_lists t i)\<lparr>list_head := p\<rparr>)\<rparr>"

definition set_tail :: "grpc_chttp2_stream_list_id \<Rightarrow> stream_ptr option \<Rightarrow> list_transport \<Rightarrow> list_transport" where
  "set_tail i p t = t\<lparr>lt_lists := (lt_lists t)(i := (lt_lists t i)\<lparr>list_tail := p\<rparr>)\<rparr>"

abbreviation links_at :: "list_transport \<Rightarrow> stream_ptr \<Rightarrow> grpc_chttp2_stream_list_id \<Rightarrow> grpc_chttp2_stream_link" where
  "links_at t s i \<equiv> ls_links (lt_streams t s) i"

abbreviation included_at :: "list_transport \<Rightarrow> stream_ptr \<Rightarrow> grpc_chttp2_stream_list_id \<Rightarrow> bool" where
  "included_at t s i \<equiv> ls_included (lt_streams t s) i"

definition stream_list_empty :: "grpc_chttp2_stream_list_id \<Rightarrow> list_transport \<Rightarrow> bool" where
  "stream_list_empty i t \<longleftrightarrow> list_head (lt_lists t i) = None"

text \<open>The popped stream is \<open>None\<close> when the function returns false.\<close>

definition stream_list_pop :: "grpc_chttp2_stream_list_id \<Rightarrow> list_transport \<Rightarrow> (stream_ptr option \<times> list_transport) crashable" where
  "stream_list_pop i t =
     (case list_head (lt_lists t i) of
        None \<Rightarrow> Some (None, t)
      | Some s \<Rightarrow>
          let new_head = link_next (links_at t s i) in
          if \<not> included_at t s i then None
          else let t1 = (case new_head of
                           Some h \<Rightarrow> set_prev h i None (set_head i new_head t)
                         | None \<Rightarrow> set_tail i None (set_head i None t))
               in Some (Some s, set_included s i False t1))"

definition stream_list_remove :: "stream_ptr \<Rightarrow> grpc_chttp2_stream_list_id \<Rightarrow> list_transport \<Rightarrow> list_transport crashable" where
  "stream_list_remove s i t =
     (if \<not> included_at t s i then None
      else do {
        let t1 = set_included s i False t;
        t2 \<leftarrow> (case link_prev (links_at t1 s i) of
                  Some p \<Rightarrow> Some (set_next p i (link_next (links_at t1 s i)) t1)
                | None \<Rightarrow> if list_head (lt_lists t1 i) \<noteq> Some s then None
                          else Some (set_head i (link_next (links_at t1 s i)) t1));
        Some (case link_next (links_at t2 s i) of
                Some n \<Rightarrow> set_prev n i (link_prev (links_at t2 s i)) t2
              | None \<Rightarrow> set_tail i (link_prev (links_at t2 s i)) t2) })"

definition stream_list_maybe_remove :: "stream_ptr \<Rightarrow> grpc_chttp2_stream_list_id \<Rightarrow> list_transport \<Rightarrow> (bool \<times> list_transport) crashable" where
  "stream_list_maybe_remove s i t =
     (if included_at t s i then map_option (Pair True) (stream_list_remove s i t) else Some (False, t))"

definition stream_list_add_tail :: "stream_ptr \<Rightarrow> grpc_chttp2_stream_list_id \<Rightarrow> list_transport \<Rightarrow> list_transport crashable" where
  "stream_list_add_tail s i t =
     (if included_at t s i then None
      else let old_tail = list_tail (lt_lists t i);
               t1 = set_prev s i old_tail (set_next s i None t);
               t2 = (case old_tail of Some p \<Rightarrow> set_next p i (Some s) t1 | None \<Rightarrow> set_head i (Some s) t1)
           in Some (set_included s i True (set_tail i (Some s) t2)))"

definition stream_list_add :: "stream_ptr \<Rightarrow> grpc_chttp2_stream_list_id \<Rightarrow> list_transport \<Rightarrow> (bool \<times> list_transport) crashable" where
  "stream_list_add s i t =
     (if included_at t s i then Some (False, t) else map_option (Pair True) (stream_list_add_tail s i t))"

text \<open>The wrappers for the five lists.\<close>

definition grpc_chttp2_list_add_writable_stream :: "stream_ptr \<Rightarrow> list_transport \<Rightarrow> (bool \<times> list_transport) crashable" where
  "grpc_chttp2_list_add_writable_stream s t =
     (if \<not> ls_id (lt_streams t s) \<noteq> 0 then None else stream_list_add s GRPC_CHTTP2_LIST_WRITABLE t)"

definition grpc_chttp2_list_pop_writable_stream :: "list_transport \<Rightarrow> (stream_ptr option \<times> list_transport) crashable" where
  "grpc_chttp2_list_pop_writable_stream = stream_list_pop GRPC_CHTTP2_LIST_WRITABLE"

definition grpc_chttp2_list_remove_writable_stream :: "stream_ptr \<Rightarrow> list_transport \<Rightarrow> (bool \<times> list_transport) crashable" where
  "grpc_chttp2_list_remove_writable_stream s = stream_list_maybe_remove s GRPC_CHTTP2_LIST_WRITABLE"

definition grpc_chttp2_list_add_writing_stream :: "stream_ptr \<Rightarrow> list_transport \<Rightarrow> (bool \<times> list_transport) crashable" where
  "grpc_chttp2_list_add_writing_stream s = stream_list_add s GRPC_CHTTP2_LIST_WRITING"

definition grpc_chttp2_list_have_writing_streams :: "list_transport \<Rightarrow> bool" where
  "grpc_chttp2_list_have_writing_streams t \<longleftrightarrow> \<not> stream_list_empty GRPC_CHTTP2_LIST_WRITING t"

definition grpc_chttp2_list_pop_writing_stream :: "list_transport \<Rightarrow> (stream_ptr option \<times> list_transport) crashable" where
  "grpc_chttp2_list_pop_writing_stream = stream_list_pop GRPC_CHTTP2_LIST_WRITING"

definition grpc_chttp2_list_add_waiting_for_concurrency :: "stream_ptr \<Rightarrow> list_transport \<Rightarrow> list_transport crashable" where
  "grpc_chttp2_list_add_waiting_for_concurrency s t = map_option snd (stream_list_add s GRPC_CHTTP2_LIST_WAITING_FOR_CONCURRENCY t)"

definition grpc_chttp2_list_pop_waiting_for_concurrency :: "list_transport \<Rightarrow> (stream_ptr option \<times> list_transport) crashable" where
  "grpc_chttp2_list_pop_waiting_for_concurrency = stream_list_pop GRPC_CHTTP2_LIST_WAITING_FOR_CONCURRENCY"

definition grpc_chttp2_list_remove_waiting_for_concurrency :: "stream_ptr \<Rightarrow> list_transport \<Rightarrow> list_transport crashable" where
  "grpc_chttp2_list_remove_waiting_for_concurrency s t =
     map_option snd (stream_list_maybe_remove s GRPC_CHTTP2_LIST_WAITING_FOR_CONCURRENCY t)"

definition grpc_chttp2_list_add_stalled_by_transport :: "stream_ptr \<Rightarrow> list_transport \<Rightarrow> list_transport crashable" where
  "grpc_chttp2_list_add_stalled_by_transport s t =
     (if \<not> lt_flow_control_enabled t then None else map_option snd (stream_list_add s GRPC_CHTTP2_LIST_STALLED_BY_TRANSPORT t))"

definition grpc_chttp2_list_pop_stalled_by_transport :: "list_transport \<Rightarrow> (stream_ptr option \<times> list_transport) crashable" where
  "grpc_chttp2_list_pop_stalled_by_transport = stream_list_pop GRPC_CHTTP2_LIST_STALLED_BY_TRANSPORT"

definition grpc_chttp2_list_remove_stalled_by_transport :: "stream_ptr \<Rightarrow> list_transport \<Rightarrow> list_transport crashable" where
  "grpc_chttp2_list_remove_stalled_by_transport s t =
     map_option snd (stream_list_maybe_remove s GRPC_CHTTP2_LIST_STALLED_BY_TRANSPORT t)"

definition grpc_chttp2_list_add_stalled_by_stream :: "stream_ptr \<Rightarrow> list_transport \<Rightarrow> list_transport crashable" where
  "grpc_chttp2_list_add_stalled_by_stream s t =
     (if \<not> lt_flow_control_enabled t then None else map_option snd (stream_list_add s GRPC_CHTTP2_LIST_STALLED_BY_STREAM t))"

definition grpc_chttp2_list_pop_stalled_by_stream :: "list_transport \<Rightarrow> (stream_ptr option \<times> list_transport) crashable" where
  "grpc_chttp2_list_pop_stalled_by_stream = stream_list_pop GRPC_CHTTP2_LIST_STALLED_BY_STREAM"

definition grpc_chttp2_list_remove_stalled_by_stream :: "stream_ptr \<Rightarrow> list_transport \<Rightarrow> (bool \<times> list_transport) crashable" where
  "grpc_chttp2_list_remove_stalled_by_stream s = stream_list_maybe_remove s GRPC_CHTTP2_LIST_STALLED_BY_STREAM"

section \<open>Linked segments\<close>

lemma assignments [simp]:
  "links_at (set_next s i p t) x j = (if x = s \<and> j = i then (links_at t s i)\<lparr>link_next := p\<rparr> else links_at t x j)"
  "links_at (set_prev s i p t) x j = (if x = s \<and> j = i then (links_at t s i)\<lparr>link_prev := p\<rparr> else links_at t x j)"
  "links_at (set_included s i b t) x j = links_at t x j" "links_at (set_head i p t) x j = links_at t x j"
  "links_at (set_tail i p t) x j = links_at t x j"
  "included_at (set_included s i b t) x j = (if x = s \<and> j = i then b else included_at t x j)"
  "included_at (set_next s i p t) x j = included_at t x j" "included_at (set_prev s i p t) x j = included_at t x j"
  "included_at (set_head i p t) x j = included_at t x j" "included_at (set_tail i p t) x j = included_at t x j"
  "lt_lists (set_head i p t) j = (if j = i then (lt_lists t i)\<lparr>list_head := p\<rparr> else lt_lists t j)"
  "lt_lists (set_tail i p t) j = (if j = i then (lt_lists t i)\<lparr>list_tail := p\<rparr> else lt_lists t j)"
  "lt_lists (set_next s i p t) j = lt_lists t j" "lt_lists (set_prev s i p t) j = lt_lists t j"
  "lt_lists (set_included s i b t) j = lt_lists t j"
  by (auto simp: set_next_def set_prev_def set_included_def set_head_def set_tail_def)

lemma constants_kept [simp]:
  "ls_id (lt_streams (set_next s i p t) x) = ls_id (lt_streams t x)" "ls_id (lt_streams (set_prev s i p t) x) = ls_id (lt_streams t x)"
  "ls_id (lt_streams (set_included s i b t) x) = ls_id (lt_streams t x)" "ls_id (lt_streams (set_head i p t) x) = ls_id (lt_streams t x)"
  "ls_id (lt_streams (set_tail i p t) x) = ls_id (lt_streams t x)"
  "lt_flow_control_enabled (set_next s i p t) = lt_flow_control_enabled t"
  "lt_flow_control_enabled (set_prev s i p t) = lt_flow_control_enabled t"
  "lt_flow_control_enabled (set_included s i b t) = lt_flow_control_enabled t"
  "lt_flow_control_enabled (set_head i p t) = lt_flow_control_enabled t"
  "lt_flow_control_enabled (set_tail i p t) = lt_flow_control_enabled t"
  by (auto simp: set_next_def set_prev_def set_included_def set_head_def set_tail_def)

text \<open>The first pointer of a segment followed by \<open>q\<close>, and the last one of a segment that comes after \<open>p\<close>.\<close>

fun first_of :: "stream_ptr list \<Rightarrow> stream_ptr option \<Rightarrow> stream_ptr option" where
  "first_of [] q = q"
| "first_of (x # xs) q = Some x"

fun last_of :: "stream_ptr option \<Rightarrow> stream_ptr list \<Rightarrow> stream_ptr option" where
  "last_of p [] = p"
| "last_of p (x # xs) = last_of (Some x) xs"

fun linked :: "(stream_ptr \<Rightarrow> grpc_chttp2_stream_link) \<Rightarrow> stream_ptr option \<Rightarrow> stream_ptr list \<Rightarrow> stream_ptr option \<Rightarrow> bool" where
  "linked l p [] q \<longleftrightarrow> True"
| "linked l p (x # xs) q \<longleftrightarrow> link_prev (l x) = p \<and> link_next (l x) = first_of xs q \<and> linked l (Some x) xs q"

lemma linked_append: "linked l p (xs @ ys) q \<longleftrightarrow> linked l p xs (first_of ys q) \<and> linked l (last_of p xs) ys q"
proof (induction xs arbitrary: p)
  case (Cons x xs)
  then show ?case by (cases xs) auto
qed simp

lemma linked_cong: "(\<And>x. x \<in> set xs \<Longrightarrow> l x = l' x) \<Longrightarrow> linked l p xs q \<longleftrightarrow> linked l' p xs q"
  by (induction xs arbitrary: p) auto

lemma last_of_append [simp]: "last_of p (xs @ ys) = last_of (last_of p xs) ys"
  by (induction xs arbitrary: p) auto

lemma first_of_append [simp]: "first_of (xs @ ys) q = first_of xs (first_of ys q)"
  by (cases xs) auto

text \<open>A link outside of the segment does not matter.\<close>

lemma linked_off [simp]: "x \<notin> set xs \<Longrightarrow> linked (\<lambda>s. if s = x then v else l s) p xs q \<longleftrightarrow> linked l p xs q"
  by (rule linked_cong) auto

section \<open>Every list is a queue\<close>

definition queue_ok :: "list_transport \<Rightarrow> grpc_chttp2_stream_list_id \<Rightarrow> stream_ptr list \<Rightarrow> bool" where
  "queue_ok t i xs \<longleftrightarrow> distinct xs \<and> list_head (lt_lists t i) = first_of xs None \<and> list_tail (lt_lists t i) = last_of None xs \<and>
     linked (\<lambda>s. links_at t s i) None xs None \<and> (\<forall>s. included_at t s i \<longleftrightarrow> s \<in> set xs)"

text \<open>What an operation on the list \<open>i\<close> leaves alone.\<close>

definition others_kept :: "grpc_chttp2_stream_list_id \<Rightarrow> list_transport \<Rightarrow> list_transport \<Rightarrow> bool" where
  "others_kept i t t' \<longleftrightarrow> (\<forall>j. j \<noteq> i \<longrightarrow> lt_lists t' j = lt_lists t j \<and> (\<forall>s. links_at t' s j = links_at t s j \<and> included_at t' s j = included_at t s j)) \<and>
     (\<forall>s. ls_id (lt_streams t' s) = ls_id (lt_streams t s)) \<and> lt_flow_control_enabled t' = lt_flow_control_enabled t"

lemma queue_ok_kept: "others_kept i t t' \<Longrightarrow> j \<noteq> i \<Longrightarrow> queue_ok t' j xs \<longleftrightarrow> queue_ok t j xs"
  by (simp add: others_kept_def queue_ok_def)

lemma pop_queue:
  assumes "queue_ok t i (s # xs)"
  shows "\<exists>t'. stream_list_pop i t = Some (Some s, t') \<and> queue_ok t' i xs \<and> others_kept i t t'"
  using assms by (cases xs) (auto simp: stream_list_pop_def queue_ok_def others_kept_def)

lemma pop_empty: "queue_ok t i [] \<Longrightarrow> stream_list_pop i t = Some (None, t)"
  by (simp add: stream_list_pop_def queue_ok_def)

lemma add_tail_queue:
  assumes "queue_ok t i xs" "s \<notin> set xs"
  shows "\<exists>t'. stream_list_add_tail s i t = Some t' \<and> queue_ok t' i (xs @ [s]) \<and> others_kept i t t'"
proof (cases xs rule: rev_cases)
  case Nil
  then show ?thesis using assms by (auto simp: stream_list_add_tail_def queue_ok_def others_kept_def)
next
  case (snoc ys y)
  then show ?thesis using assms
    by (auto simp: stream_list_add_tail_def queue_ok_def others_kept_def linked_append)
qed

lemma remove_queue:
  assumes "queue_ok t i (xs @ s # ys)"
  shows "\<exists>t'. stream_list_remove s i t = Some t' \<and> queue_ok t' i (xs @ ys) \<and> others_kept i t t'"
  using assms
  by (cases xs rule: rev_cases; cases ys)
    (auto simp: stream_list_remove_def queue_ok_def others_kept_def linked_append)

lemma add_queue:
  assumes "queue_ok t i xs"
  shows "\<exists>t'. stream_list_add s i t = Some (s \<notin> set xs, t') \<and> queue_ok t' i (if s \<in> set xs then xs else xs @ [s]) \<and> others_kept i t t'"
proof (cases "s \<in> set xs")
  case True
  then show ?thesis using assms by (auto simp: stream_list_add_def queue_ok_def others_kept_def)
next
  case False
  then show ?thesis using assms add_tail_queue [OF assms False] by (auto simp: stream_list_add_def queue_ok_def)
qed

lemma maybe_remove_queue:
  assumes "queue_ok t i xs"
  shows "\<exists>t'. stream_list_maybe_remove s i t = Some (s \<in> set xs, t') \<and> queue_ok t' i (remove1 s xs) \<and> others_kept i t t'"
proof (cases "s \<in> set xs")
  case True
  then obtain ys zs where "xs = ys @ s # zs" "s \<notin> set ys" by (meson split_list_first)
  then show ?thesis using assms remove_queue [of t i ys s zs]
    by (auto simp: stream_list_maybe_remove_def remove1_append) (auto simp: queue_ok_def)
next
  case False
  then show ?thesis using assms by (auto simp: stream_list_maybe_remove_def queue_ok_def others_kept_def remove1_idem)
qed

section \<open>Runs\<close>

datatype list_op =
  AddWritable stream_ptr | PopWritable | RemoveWritable stream_ptr
| AddWriting stream_ptr | HaveWriting | PopWriting
| AddWaiting stream_ptr | PopWaiting | RemoveWaiting stream_ptr
| AddStalledByTransport stream_ptr | PopStalledByTransport | RemoveStalledByTransport stream_ptr
| AddStalledByStream stream_ptr | PopStalledByStream | RemoveStalledByStream stream_ptr

datatype list_result = Done | Flag bool | Popped "stream_ptr option"

text \<open>A run keeps the list of all results.\<close>

definition with_result :: "('r \<Rightarrow> list_result) \<Rightarrow> list_result list \<Rightarrow> ('r \<times> 't) crashable \<Rightarrow> ('t \<times> list_result list) crashable" where
  "with_result f rs o' = map_option (\<lambda>(r, t). (t, rs @ [f r])) o'"

definition without_result :: "list_result list \<Rightarrow> 't crashable \<Rightarrow> ('t \<times> list_result list) crashable" where
  "without_result rs o' = map_option (\<lambda>t. (t, rs @ [Done])) o'"

fun list_step :: "list_op \<Rightarrow> list_transport \<times> list_result list \<Rightarrow> (list_transport \<times> list_result list) crashable" where
  "list_step (AddWritable s) (t, rs) = with_result Flag rs (grpc_chttp2_list_add_writable_stream s t)"
| "list_step PopWritable (t, rs) = with_result Popped rs (grpc_chttp2_list_pop_writable_stream t)"
| "list_step (RemoveWritable s) (t, rs) = with_result Flag rs (grpc_chttp2_list_remove_writable_stream s t)"
| "list_step (AddWriting s) (t, rs) = with_result Flag rs (grpc_chttp2_list_add_writing_stream s t)"
| "list_step HaveWriting (t, rs) = Some (t, rs @ [Flag (grpc_chttp2_list_have_writing_streams t)])"
| "list_step PopWriting (t, rs) = with_result Popped rs (grpc_chttp2_list_pop_writing_stream t)"
| "list_step (AddWaiting s) (t, rs) = without_result rs (grpc_chttp2_list_add_waiting_for_concurrency s t)"
| "list_step PopWaiting (t, rs) = with_result Popped rs (grpc_chttp2_list_pop_waiting_for_concurrency t)"
| "list_step (RemoveWaiting s) (t, rs) = without_result rs (grpc_chttp2_list_remove_waiting_for_concurrency s t)"
| "list_step (AddStalledByTransport s) (t, rs) = without_result rs (grpc_chttp2_list_add_stalled_by_transport s t)"
| "list_step PopStalledByTransport (t, rs) = with_result Popped rs (grpc_chttp2_list_pop_stalled_by_transport t)"
| "list_step (RemoveStalledByTransport s) (t, rs) = without_result rs (grpc_chttp2_list_remove_stalled_by_transport s t)"
| "list_step (AddStalledByStream s) (t, rs) = without_result rs (grpc_chttp2_list_add_stalled_by_stream s t)"
| "list_step PopStalledByStream (t, rs) = with_result Popped rs (grpc_chttp2_list_pop_stalled_by_stream t)"
| "list_step (RemoveStalledByStream s) (t, rs) = with_result Flag rs (grpc_chttp2_list_remove_stalled_by_stream s t)"

text \<open>The specification: five queues without duplicates.\<close>

type_synonym queues = "grpc_chttp2_stream_list_id \<Rightarrow> stream_ptr list"

definition q_add :: "stream_ptr \<Rightarrow> grpc_chttp2_stream_list_id \<Rightarrow> (bool \<Rightarrow> list_result) \<Rightarrow> queues \<times> list_result list \<Rightarrow> queues \<times> list_result list" where
  "q_add s i f = (\<lambda>(q, rs). (q(i := if s \<in> set (q i) then q i else q i @ [s]), rs @ [f (s \<notin> set (q i))]))"

definition q_pop :: "grpc_chttp2_stream_list_id \<Rightarrow> queues \<times> list_result list \<Rightarrow> queues \<times> list_result list" where
  "q_pop i = (\<lambda>(q, rs). (q(i := tl (q i)), rs @ [Popped (first_of (q i) None)]))"

definition q_remove :: "stream_ptr \<Rightarrow> grpc_chttp2_stream_list_id \<Rightarrow> (bool \<Rightarrow> list_result) \<Rightarrow> queues \<times> list_result list \<Rightarrow> queues \<times> list_result list" where
  "q_remove s i f = (\<lambda>(q, rs). (q(i := remove1 s (q i)), rs @ [f (s \<in> set (q i))]))"

fun list_spec :: "list_op \<Rightarrow> queues \<times> list_result list \<Rightarrow> queues \<times> list_result list" where
  "list_spec (AddWritable s) = q_add s GRPC_CHTTP2_LIST_WRITABLE Flag"
| "list_spec PopWritable = q_pop GRPC_CHTTP2_LIST_WRITABLE"
| "list_spec (RemoveWritable s) = q_remove s GRPC_CHTTP2_LIST_WRITABLE Flag"
| "list_spec (AddWriting s) = q_add s GRPC_CHTTP2_LIST_WRITING Flag"
| "list_spec HaveWriting = (\<lambda>(q, rs). (q, rs @ [Flag (q GRPC_CHTTP2_LIST_WRITING \<noteq> [])]))"
| "list_spec PopWriting = q_pop GRPC_CHTTP2_LIST_WRITING"
| "list_spec (AddWaiting s) = q_add s GRPC_CHTTP2_LIST_WAITING_FOR_CONCURRENCY (\<lambda>_. Done)"
| "list_spec PopWaiting = q_pop GRPC_CHTTP2_LIST_WAITING_FOR_CONCURRENCY"
| "list_spec (RemoveWaiting s) = q_remove s GRPC_CHTTP2_LIST_WAITING_FOR_CONCURRENCY (\<lambda>_. Done)"
| "list_spec (AddStalledByTransport s) = q_add s GRPC_CHTTP2_LIST_STALLED_BY_TRANSPORT (\<lambda>_. Done)"
| "list_spec PopStalledByTransport = q_pop GRPC_CHTTP2_LIST_STALLED_BY_TRANSPORT"
| "list_spec (RemoveStalledByTransport s) = q_remove s GRPC_CHTTP2_LIST_STALLED_BY_TRANSPORT (\<lambda>_. Done)"
| "list_spec (AddStalledByStream s) = q_add s GRPC_CHTTP2_LIST_STALLED_BY_STREAM (\<lambda>_. Done)"
| "list_spec PopStalledByStream = q_pop GRPC_CHTTP2_LIST_STALLED_BY_STREAM"
| "list_spec (RemoveStalledByStream s) = q_remove s GRPC_CHTTP2_LIST_STALLED_BY_STREAM Flag"

text \<open>A stream becomes writable only once it has an id, and a stream stalls only under flow control.\<close>

fun list_valid :: "(stream_ptr \<Rightarrow> u32) \<Rightarrow> bool \<Rightarrow> list_op \<Rightarrow> queues \<times> list_result list \<Rightarrow> bool" where
  "list_valid ids fc (AddWritable s) a \<longleftrightarrow> ids s \<noteq> 0"
| "list_valid ids fc (AddStalledByTransport s) a \<longleftrightarrow> fc"
| "list_valid ids fc (AddStalledByStream s) a \<longleftrightarrow> fc"
| "list_valid ids fc _ a \<longleftrightarrow> True"

definition list_rel :: "(stream_ptr \<Rightarrow> u32) \<Rightarrow> bool \<Rightarrow> list_transport \<times> list_result list \<Rightarrow> queues \<times> list_result list \<Rightarrow> bool" where
  "list_rel ids fc st a \<longleftrightarrow> (\<forall>i. queue_ok (fst st) i (fst a i)) \<and> snd st = snd a \<and>
     (\<forall>s. ls_id (lt_streams (fst st) s) = ids s) \<and> lt_flow_control_enabled (fst st) = fc"

lemma list_rel_step:
  assumes "list_rel ids fc (t, rs) (q, rs)" "queue_ok t' i xs" "others_kept i t t'"
  shows "list_rel ids fc (t', rs @ [r]) (q(i := xs), rs @ [r])"
  using assms queue_ok_kept [OF assms(3)] by (auto simp: list_rel_def) (auto simp: others_kept_def)

lemma add_sim:
  assumes "list_rel ids fc (t, rs) (q, rs)"
  shows "\<exists>s'. with_result f rs (stream_list_add s i t) = Some s' \<and> list_rel ids fc s' (q_add s i f (q, rs))"
proof -
  have "queue_ok t i (q i)" using assms by (simp add: list_rel_def)
  from add_queue [OF this, of s] obtain t' where t': "stream_list_add s i t = Some (s \<notin> set (q i), t')"
    "queue_ok t' i (if s \<in> set (q i) then q i else q i @ [s])" "others_kept i t t'" by blast
  from list_rel_step [OF assms t'(2,3)] t'(1) show ?thesis by (simp add: q_add_def with_result_def)
qed

lemma pop_sim:
  assumes "list_rel ids fc (t, rs) (q, rs)"
  shows "\<exists>s'. with_result Popped rs (stream_list_pop i t) = Some s' \<and> list_rel ids fc s' (q_pop i (q, rs))"
proof (cases "q i")
  case Nil
  have "queue_ok t i (q i)" using assms by (simp add: list_rel_def)
  then have "queue_ok t i []" "others_kept i t t" by (simp_all add: Nil others_kept_def)
  from list_rel_step [OF assms this] pop_empty [OF this(1)] Nil show ?thesis by (simp add: q_pop_def with_result_def)
next
  case (Cons s xs)
  have "queue_ok t i (q i)" using assms by (simp add: list_rel_def)
  from pop_queue [OF this [unfolded Cons]] obtain t' where t': "stream_list_pop i t = Some (Some s, t')" "queue_ok t' i xs" "others_kept i t t'"
    by blast
  from list_rel_step [OF assms t'(2,3)] t'(1) Cons show ?thesis by (simp add: q_pop_def with_result_def)
qed

lemma remove_sim:
  assumes "list_rel ids fc (t, rs) (q, rs)"
  shows "\<exists>s'. with_result f rs (stream_list_maybe_remove s i t) = Some s' \<and> list_rel ids fc s' (q_remove s i f (q, rs))"
proof -
  have "queue_ok t i (q i)" using assms by (simp add: list_rel_def)
  from maybe_remove_queue [OF this, of s] obtain t' where t': "stream_list_maybe_remove s i t = Some (s \<in> set (q i), t')"
    "queue_ok t' i (remove1 s (q i))" "others_kept i t t'" by blast
  from list_rel_step [OF assms t'(2,3)] t'(1) show ?thesis by (simp add: q_remove_def with_result_def)
qed

lemma without_is_with: "without_result rs (map_option snd r) = with_result (\<lambda>_. Done) rs r"
  by (cases r) (auto simp: without_result_def with_result_def)

lemmas list_wrappers = grpc_chttp2_list_add_writable_stream_def grpc_chttp2_list_pop_writable_stream_def
  grpc_chttp2_list_remove_writable_stream_def grpc_chttp2_list_add_writing_stream_def grpc_chttp2_list_have_writing_streams_def
  grpc_chttp2_list_pop_writing_stream_def grpc_chttp2_list_add_waiting_for_concurrency_def
  grpc_chttp2_list_pop_waiting_for_concurrency_def grpc_chttp2_list_remove_waiting_for_concurrency_def
  grpc_chttp2_list_add_stalled_by_transport_def grpc_chttp2_list_pop_stalled_by_transport_def
  grpc_chttp2_list_remove_stalled_by_transport_def grpc_chttp2_list_add_stalled_by_stream_def
  grpc_chttp2_list_pop_stalled_by_stream_def grpc_chttp2_list_remove_stalled_by_stream_def

interpretation sls: simulation list_step list_spec "list_valid ids fc" "list_rel ids fc" for ids fc
proof
  fix st a x
  assume rel: "list_rel ids fc st a" and v: "list_valid ids fc x a"
  obtain t rs q where [simp]: "st = (t, rs)" "a = (q, rs)" using rel by (cases st; cases a) (auto simp: list_rel_def)
  have r: "list_rel ids fc (t, rs) (q, rs)" and c: "ls_id (lt_streams t s) = ids s" "lt_flow_control_enabled t = fc" for s
    using rel by (auto simp: list_rel_def)
  have w: "grpc_chttp2_list_have_writing_streams t \<longleftrightarrow> q GRPC_CHTTP2_LIST_WRITING \<noteq> []"
  proof -
    have "queue_ok t GRPC_CHTTP2_LIST_WRITING (q GRPC_CHTTP2_LIST_WRITING)" using r by (simp add: list_rel_def)
    then show ?thesis by (cases "q GRPC_CHTTP2_LIST_WRITING") (auto simp: queue_ok_def list_wrappers stream_list_empty_def)
  qed
  show "\<exists>s'. list_step x st = Some s' \<and> list_rel ids fc s' (list_spec x a)"
  proof (cases x)
    case HaveWriting
    then show ?thesis using w r by (simp add: list_rel_def)
  next
    case (AddStalledByTransport s)
    then show ?thesis using add_sim [OF r, of "\<lambda>_. Done" s] v c by (simp add: list_wrappers without_is_with del: split_paired_Ex)
  next
    case (AddStalledByStream s)
    then show ?thesis using add_sim [OF r, of "\<lambda>_. Done" s] v c by (simp add: list_wrappers without_is_with del: split_paired_Ex)
  qed (use v c in \<open>simp_all add: list_wrappers without_is_with add_sim [OF r] pop_sim [OF r] remove_sim [OF r] del: split_paired_Ex\<close>)
qed

text \<open>A transport without streams on its lists, as it is constructed.\<close>

definition empty_lists :: "(stream_ptr \<Rightarrow> u32) \<Rightarrow> bool \<Rightarrow> list_transport" where
  "empty_lists ids fc = \<lparr>lt_flow_control_enabled = fc, lt_lists = (\<lambda>_. \<lparr>list_head = None, list_tail = None\<rparr>),
     lt_streams = (\<lambda>s. \<lparr>ls_id = ids s, ls_links = (\<lambda>_. \<lparr>link_next = None, link_prev = None\<rparr>), ls_included = (\<lambda>_. False)\<rparr>)\<rparr>"

text \<open>C14: stream lists.  From empty lists, every sequence of additions, removals and pops on the five intrusive lists runs without a failed
  assertion and returns exactly what five duplicate-free queues return: an addition tells whether the stream was new, a removal from
  the middle whether it was there, a pop gives the stream that waits longest.  Afterwards every stream is flagged as a member
  of exactly the lists that hold it, and the links run through each list in both directions.\<close>

theorem stream_lists_run_exact:
  assumes "valid_run (list_valid ids fc) list_spec ops ((\<lambda>_. []), [])" "fold list_spec ops ((\<lambda>_. []), []) = (q, results)"
  shows "\<exists>t. fold_opt list_step ops (empty_lists ids fc, []) = Some (t, results) \<and>
    (\<forall>i s. ls_included (lt_streams t s) i \<longleftrightarrow> s \<in> set (q i)) \<and>
    (\<forall>i. distinct (q i) \<and> linked (\<lambda>s. ls_links (lt_streams t s) i) None (q i) None \<and>
      list_head (lt_lists t i) = first_of (q i) None \<and> list_tail (lt_lists t i) = last_of None (q i))"
proof -
  have "list_rel ids fc (empty_lists ids fc, []) ((\<lambda>_. []), [])" by (simp add: list_rel_def empty_lists_def queue_ok_def)
  from sls.run_sim [OF this assms(1)] assms(2) obtain st where st: "fold_opt list_step ops (empty_lists ids fc, []) = Some st" "list_rel ids fc st (q, results)"
    by auto
  from st(2) have "snd st = results" "\<forall>i. queue_ok (fst st) i (q i)" by (auto simp: list_rel_def)
  with st(1) show ?thesis by (intro exI [of _ "fst st"]) (auto simp: queue_ok_def)
qed

theorem stream_lists_run_exact_witness:
  "\<exists>t. fold_opt list_step [AddWritable 1, AddWritable 2, AddWritable 3, AddWritable 2, RemoveWritable 2, AddWriting 2, HaveWriting, PopWritable, AddStalledByStream 1]
       (empty_lists (\<lambda>_. 5) True, []) =
     Some (t, [Flag True, Flag True, Flag True, Flag False, Flag True, Flag True, Flag True, Popped (Some 1), Done]) \<and>
     ls_included (lt_streams t 3) GRPC_CHTTP2_LIST_WRITABLE \<and> \<not> ls_included (lt_streams t 1) GRPC_CHTTP2_LIST_WRITABLE"
  using stream_lists_run_exact [of "\<lambda>_. 5" True
      "[AddWritable 1, AddWritable 2, AddWritable 3, AddWritable 2, RemoveWritable 2, AddWriting 2, HaveWriting, PopWritable, AddStalledByStream 1]"
      _ "[Flag True, Flag True, Flag True, Flag False, Flag True, Flag True, Flag True, Popped (Some 1), Done]"]
  by (fastforce simp: q_add_def q_pop_def q_remove_def)

end
