(* ===== verification/Frame_Data.thy ===== *)
theory Frame_Data
  imports Frame_Codec "HOL-Library.Monad_Syntax" "HOL-Library.Sublist"
begin

text \<open>
  DATA frames and the messages in them: \<^verbatim>\<open>frame_data.{h,cc}\<close>, the incoming byte stream and the receive path of
  \<^verbatim>\<open>chttp2_transport.cc\<close> (all under \<^verbatim>\<open>src/core/ext/transport/chttp2/transport/\<close>) and the loop of \<^verbatim>\<open>src/core/lib/surface/call.cc\<close> that collects
  a message.  A message travels as five bytes of header and a payload; the transport cuts the bytes of all messages into DATA frames and
  slices as it likes.  Slices wait in two buffers; the call asks for a message, gets a byte stream and pulls its slices.

  The transport's combiner and the execution context are queues: what the code schedules on them is appended, and an event runs
  the first entry.  Arrivals, the application and both queues interleave freely.  A slice buffer is the list of its slices, without the merging
  of small slices that \<open>grpc_slice_buffer_add\<close> does.  Stream decompression is the identity method.  Reference counts and
  statistics counters other than the byte counts are left out; a failed assertion is \<open>None\<close>.
\<close>

section \<open>Definitions\<close>

definition GRPC_WRITE_INTERNAL_COMPRESS :: u32 where "GRPC_WRITE_INTERNAL_COMPRESS = 0x80000000"
definition GRPC_HEADER_SIZE_IN_BYTES_nat :: nat where "GRPC_HEADER_SIZE_IN_BYTES_nat = 5"

datatype data_error =
  UnsupportedDataFlags u8
| BadGrpcFrameType u8 "u8 list" nat
| TooManyBytes
| TruncatedMessage

datatype grpc_chttp2_stream_state =
  GRPC_CHTTP2_DATA_FH_0
| GRPC_CHTTP2_DATA_FH_1
| GRPC_CHTTP2_DATA_FH_2
| GRPC_CHTTP2_DATA_FH_3
| GRPC_CHTTP2_DATA_FH_4
| GRPC_CHTTP2_DATA_FRAME
| GRPC_CHTTP2_DATA_ERROR

text \<open>There is one incoming byte stream at a time; \<open>parsing_frame\<close> tells whether the parser still points to it.\<close>

record grpc_chttp2_data_parser =
  dp_state :: grpc_chttp2_stream_state
  dp_frame_type :: u8
  dp_frame_size :: u32
  dp_error :: "data_error option"
  is_frame_compressed :: bool
  parsing_frame :: bool

record incoming_byte_stream =
  bs_length :: u32
  bs_flags :: u32
  remaining_bytes :: u32

datatype grpc_published_metadata_method =
  GRPC_METADATA_NOT_PUBLISHED
| GRPC_METADATA_SYNTHESIZED_FROM_FAKE
| GRPC_METADATA_PUBLISHED_FROM_WIRE
| GRPC_METADATA_PUBLISHED_AT_CLOSE

datatype combiner_action =
  NextLockedAction nat
| OrphanLockedAction
| ResetByteStreamAction data_error
| RecvMessageOp

datatype exec_closure =
  RecvMessageReady
| OnNext "data_error option"
| ContinueReceiving
| RecvTrailingMetadataFinished

datatype data_call =
  IncomingByteStreamUpdateCall nat nat
| MarkStreamClosedCall "string option"
| CancelStreamCall data_error

record data_stream =
  ds_is_client :: bool
  ds_id :: u32
  data_parser :: grpc_chttp2_data_parser
  byte_stream :: incoming_byte_stream
  byte_stream_error :: "data_error option"
  frame_storage :: "u8 list list"
  unprocessed_incoming_frames_buffer :: "u8 list list"
  unprocessed_cached_length :: nat
  pending_byte_stream :: bool
  on_next :: bool
  recv_message_ready :: bool
  recv_message :: "(u32 \<times> u32) option"
  call_failed_before_recv_message :: "bool option"
  received_last_frame :: bool
  eos_received :: bool
  read_closed :: bool
  write_closed :: bool
  seen_error :: bool
  final_metadata_requested :: bool
  published_trailing_metadata :: grpc_published_metadata_method
  recv_trailing_metadata_finished :: bool
  framing_bytes :: nat
  data_bytes :: nat
  combiner_queue :: "combiner_action list"
  exec_queue :: "exec_closure list"
  data_calls :: "data_call list"
  receiving_stream :: "(u32 \<times> u32) option"
  receiving_buffer :: "u8 list"
  received_messages :: "(u32 \<times> u8 list) list"
  failed_messages :: nat

abbreviation combiner_run :: "combiner_action \<Rightarrow> data_stream \<Rightarrow> data_stream" where
  "combiner_run c s \<equiv> s\<lparr>combiner_queue := combiner_queue s @ [c]\<rparr>"

abbreviation exec_run :: "exec_closure \<Rightarrow> data_stream \<Rightarrow> data_stream" where
  "exec_run c s \<equiv> s\<lparr>exec_queue := exec_queue s @ [c]\<rparr>"

abbreviation slices_length :: "u8 list list \<Rightarrow> nat" where
  "slices_length xs \<equiv> length (concat xs)"

text \<open>The flags of a frame are checked when it begins; the error carries the stream id, so it closes the stream only.\<close>

definition grpc_chttp2_data_parser_begin_frame :: "u8 \<Rightarrow> data_stream \<Rightarrow> data_error option \<times> data_stream" where
  "grpc_chttp2_data_parser_begin_frame flags s =
     (if flags AND NOT GRPC_CHTTP2_DATA_FLAG_END_STREAM \<noteq> 0 then (Some (UnsupportedDataFlags flags), s)
      else if flags AND GRPC_CHTTP2_DATA_FLAG_END_STREAM \<noteq> 0 then (None, s\<lparr>received_last_frame := True, eos_received := True\<rparr>)
      else (None, s\<lparr>received_last_frame := False\<rparr>))"

text \<open>Writes the first bytes of the input buffer as a frame: the rest of the input and the output.\<close>

definition grpc_chttp2_encode_data :: "u32 \<Rightarrow> u8 list \<Rightarrow> u32 \<Rightarrow> bool \<Rightarrow> (u8 list \<times> u8 list) crashable" where
  "grpc_chttp2_encode_data sid inbuf write_bytes is_eof =
     (if \<not> write_bytes < 2 ^ 24 \<or> length inbuf < unat write_bytes then None
      else Some (drop (unat write_bytes) inbuf,
                 be24 write_bytes @ [GRPC_CHTTP2_FRAME_DATA, if is_eof then GRPC_CHTTP2_DATA_FLAG_END_STREAM else 0] @ be32 sid @
                 take (unat write_bytes) inbuf))"

text \<open>The header that \<open>perform_stream_op_locked\<close> puts before a message of the given length.\<close>

definition message_header :: "u32 \<Rightarrow> u64 \<Rightarrow> u8 list" where
  "message_header flags len =
     [of_bool (flags AND GRPC_WRITE_INTERNAL_COMPRESS \<noteq> 0),
      ucast (drop_bit 24 len), ucast (drop_bit 16 len), ucast (drop_bit 8 len), ucast len]"

subsection \<open>The byte stream\<close>

definition Push :: "u8 list \<Rightarrow> data_stream \<Rightarrow> data_error option \<times> data_stream" where
  "Push sl s =
     (if unat (remaining_bytes (byte_stream s)) < length sl
      then (Some TooManyBytes, combiner_run (ResetByteStreamAction TooManyBytes) s)
      else (None, s\<lparr>byte_stream := (byte_stream s)\<lparr>remaining_bytes := remaining_bytes (byte_stream s) - of_nat (length sl)\<rparr>\<rparr>))"

definition Finished :: "data_error option \<Rightarrow> bool \<Rightarrow> data_stream \<Rightarrow> data_error option \<times> data_stream" where
  "Finished error reset_on_error s =
     (let e = (if error = None \<and> remaining_bytes (byte_stream s) \<noteq> 0 then Some TruncatedMessage else error) in
      (e, case e of Some x \<Rightarrow> if reset_on_error then combiner_run (ResetByteStreamAction x) s else s | None \<Rightarrow> s))"

definition new_byte_stream :: "u32 \<Rightarrow> u32 \<Rightarrow> data_stream \<Rightarrow> data_stream" where
  "new_byte_stream len flags s =
     s\<lparr>byte_stream := \<lparr>bs_length = len, bs_flags = flags, remaining_bytes = len\<rparr>, byte_stream_error := None\<rparr>"

subsection \<open>Messages out of slices\<close>

text \<open>What the switch does with the first slice: go on with the next slice, or return an error, a slice of payload, a byte stream (its length
  and flags) and what remains of the slice.\<close>

datatype deframe_outcome =
  Continue data_stream
| Return "data_error option" "u8 list option" "(u32 \<times> u32) option" "u8 list option" data_stream

abbreviation upd_parser :: "(grpc_chttp2_data_parser \<Rightarrow> grpc_chttp2_data_parser) \<Rightarrow> data_stream \<Rightarrow> data_stream" where
  "upd_parser f s \<equiv> s\<lparr>data_parser := f (data_parser s)\<rparr>"

abbreviation framed :: "data_stream \<Rightarrow> data_stream" where
  "framed s \<equiv> s\<lparr>framing_bytes := framing_bytes s + 1\<rparr>"

definition data_fh_4 :: "bool \<Rightarrow> u8 list \<Rightarrow> data_stream \<Rightarrow> deframe_outcome crashable" where
  "data_fh_4 want_stream cur s =
     (if \<not> want_stream \<or> parsing_frame (data_parser s) then None
      else let p = (data_parser s)\<lparr>dp_frame_size := dp_frame_size (data_parser s) OR ucast (hd cur), dp_state := GRPC_CHTTP2_DATA_FRAME\<rparr>;
               message_flags = (if is_frame_compressed p then GRPC_WRITE_INTERNAL_COMPRESS else 0);
               s1 = new_byte_stream (dp_frame_size p) message_flags (framed s\<lparr>data_parser := p\<lparr>parsing_frame := True\<rparr>\<rparr>);
               s2 = (if remaining_bytes (byte_stream s1) = 0
                     then upd_parser (\<lambda>p. p\<lparr>parsing_frame := False, dp_state := GRPC_CHTTP2_DATA_FH_0\<rparr>) (snd (Finished None True s1))
                     else s1);
               s3 = s2\<lparr>pending_byte_stream := True\<rparr>
           in Some (Return None None (Some (dp_frame_size p, message_flags)) (if tl cur \<noteq> [] then Some (tl cur) else None) s3))"

definition data_fh_3 :: "bool \<Rightarrow> u8 list \<Rightarrow> data_stream \<Rightarrow> deframe_outcome crashable" where
  "data_fh_3 want_stream cur s =
     (let s1 = upd_parser (\<lambda>p. p\<lparr>dp_frame_size := dp_frame_size p OR push_bit 8 (ucast (hd cur))\<rparr>) (framed s) in
      if tl cur = [] then Some (Continue (upd_parser (\<lambda>p. p\<lparr>dp_state := GRPC_CHTTP2_DATA_FH_4\<rparr>) s1)) else data_fh_4 want_stream (tl cur) s1)"

definition data_fh_2 :: "bool \<Rightarrow> u8 list \<Rightarrow> data_stream \<Rightarrow> deframe_outcome crashable" where
  "data_fh_2 want_stream cur s =
     (let s1 = upd_parser (\<lambda>p. p\<lparr>dp_frame_size := dp_frame_size p OR push_bit 16 (ucast (hd cur))\<rparr>) (framed s) in
      if tl cur = [] then Some (Continue (upd_parser (\<lambda>p. p\<lparr>dp_state := GRPC_CHTTP2_DATA_FH_3\<rparr>) s1)) else data_fh_3 want_stream (tl cur) s1)"

definition data_fh_1 :: "bool \<Rightarrow> u8 list \<Rightarrow> data_stream \<Rightarrow> deframe_outcome crashable" where
  "data_fh_1 want_stream cur s =
     (let s1 = upd_parser (\<lambda>p. p\<lparr>dp_frame_size := push_bit 24 (ucast (hd cur))\<rparr>) (framed s) in
      if tl cur = [] then Some (Continue (upd_parser (\<lambda>p. p\<lparr>dp_state := GRPC_CHTTP2_DATA_FH_2\<rparr>) s1)) else data_fh_2 want_stream (tl cur) s1)"

definition data_fh_0 :: "bool \<Rightarrow> u8 list \<Rightarrow> data_stream \<Rightarrow> deframe_outcome crashable" where
  "data_fh_0 want_stream cur s =
     (let s1 = upd_parser (\<lambda>p. p\<lparr>dp_frame_type := hd cur\<rparr>) (framed s) in
      if hd cur \<noteq> 0 \<and> hd cur \<noteq> 1
      then let e = BadGrpcFrameType (hd cur) cur 0 in
           Some (Return (Some e) None None None (upd_parser (\<lambda>p. p\<lparr>dp_error := Some e, dp_state := GRPC_CHTTP2_DATA_ERROR\<rparr>) s1))
      else let s2 = upd_parser (\<lambda>p. p\<lparr>is_frame_compressed := hd cur = 1\<rparr>) s1 in
           if tl cur = [] then Some (Continue (upd_parser (\<lambda>p. p\<lparr>dp_state := GRPC_CHTTP2_DATA_FH_1\<rparr>) s2)) else data_fh_1 want_stream (tl cur) s2)"

text \<open>In the last branch the error of \<open>Push\<close> is not stored, and the function returns without one.\<close>

definition data_frame :: "bool \<Rightarrow> u8 list \<Rightarrow> data_stream \<Rightarrow> deframe_outcome crashable" where
  "data_frame want_slice cur s =
     (if \<not> parsing_frame (data_parser s) \<or> \<not> want_slice then None
      else let remaining = (of_nat (length cur) :: u32); size = dp_frame_size (data_parser s) in
      if remaining = size then
        (case Push cur (s\<lparr>data_bytes := data_bytes s + unat remaining\<rparr>) of
           (Some e, s1) \<Rightarrow> Some (Return (Some e) None None None s1)
         | (None, s1) \<Rightarrow>
             (case Finished None True s1 of
                (Some e, s2) \<Rightarrow> Some (Return (Some e) (Some cur) None None s2)
              | (None, s2) \<Rightarrow> Some (Return None (Some cur) None None
                  (upd_parser (\<lambda>p. p\<lparr>parsing_frame := False, dp_state := GRPC_CHTTP2_DATA_FH_0\<rparr>) s2))))
      else if remaining < size then
        (case Push cur (s\<lparr>data_bytes := data_bytes s + unat remaining\<rparr>) of
           (Some e, s1) \<Rightarrow> Some (Return (Some e) None None (Some cur) s1)
         | (None, s1) \<Rightarrow> Some (Return None (Some cur) None None (upd_parser (\<lambda>p. p\<lparr>dp_frame_size := size - remaining\<rparr>) s1)))
      else
        (case Push (take (unat size) cur) (s\<lparr>data_bytes := data_bytes s + unat size\<rparr>) of
           (Some e, s1) \<Rightarrow> Some (Return None None None None s1)
         | (None, s1) \<Rightarrow>
             (case Finished None True s1 of
                (Some e, s2) \<Rightarrow> Some (Return (Some e) (Some (take (unat size) cur)) None None s2)
              | (None, s2) \<Rightarrow> Some (Return None (Some (take (unat size) cur)) None (Some (drop (unat size) cur))
                  (upd_parser (\<lambda>p. p\<lparr>parsing_frame := False, dp_state := GRPC_CHTTP2_DATA_FH_0\<rparr>) s2)))))"

definition deframe_switch :: "bool \<Rightarrow> bool \<Rightarrow> u8 list \<Rightarrow> data_stream \<Rightarrow> deframe_outcome crashable" where
  "deframe_switch want_slice want_stream cur s =
     (case dp_state (data_parser s) of
        GRPC_CHTTP2_DATA_ERROR \<Rightarrow> Some (Return (dp_error (data_parser s)) None None None s)
      | GRPC_CHTTP2_DATA_FH_0 \<Rightarrow> data_fh_0 want_stream cur s
      | GRPC_CHTTP2_DATA_FH_1 \<Rightarrow> data_fh_1 want_stream cur s
      | GRPC_CHTTP2_DATA_FH_2 \<Rightarrow> data_fh_2 want_stream cur s
      | GRPC_CHTTP2_DATA_FH_3 \<Rightarrow> data_fh_3 want_stream cur s
      | GRPC_CHTTP2_DATA_FH_4 \<Rightarrow> data_fh_4 want_stream cur s
      | GRPC_CHTTP2_DATA_FRAME \<Rightarrow> data_frame want_slice cur s)"

fun grpc_deframe_unprocessed_incoming_frames ::
    "bool \<Rightarrow> bool \<Rightarrow> u8 list list \<Rightarrow> data_stream
      \<Rightarrow> (data_error option \<times> u8 list option \<times> (u32 \<times> u32) option \<times> u8 list list \<times> data_stream) crashable" where
  "grpc_deframe_unprocessed_incoming_frames want_slice want_stream [] s = Some (None, None, None, [], s)"
| "grpc_deframe_unprocessed_incoming_frames want_slice want_stream (cur # slices) s =
     (if cur = [] then grpc_deframe_unprocessed_incoming_frames want_slice want_stream slices s
      else case deframe_switch want_slice want_stream cur s of
        None \<Rightarrow> None
      | Some (Continue s1) \<Rightarrow> grpc_deframe_unprocessed_incoming_frames want_slice want_stream slices s1
      | Some (Return e sl st rest s1) \<Rightarrow> Some (e, sl, st, (case rest of None \<Rightarrow> slices | Some r \<Rightarrow> r # slices), s1))"

subsection \<open>Receiving\<close>

text \<open>The loop of \<open>maybe_complete_recv_message\<close>; it ends because a call that gives no message empties the buffer.\<close>

partial_function (option) recv_message_loop :: "data_stream \<Rightarrow> (data_error option \<times> data_stream) option" where
  "recv_message_loop s =
     (if \<not> (0 < slices_length (unprocessed_incoming_frames_buffer s) \<or> 0 < slices_length (frame_storage s)) then Some (None, s)
      else
        let s1 = (if slices_length (unprocessed_incoming_frames_buffer s) = 0
                  then s\<lparr>unprocessed_incoming_frames_buffer := frame_storage s, frame_storage := unprocessed_incoming_frames_buffer s\<rparr>
                  else s) in
        (case grpc_deframe_unprocessed_incoming_frames False True (unprocessed_incoming_frames_buffer s1) s1 of
           None \<Rightarrow> None
         | Some (error, sl, stream, rest, s2) \<Rightarrow>
             let s3 = s2\<lparr>unprocessed_incoming_frames_buffer := rest, recv_message := (case stream of None \<Rightarrow> recv_message s2 | Some x \<Rightarrow> Some x)\<rparr> in
             if error \<noteq> None
             then Some (error, s3\<lparr>seen_error := True, frame_storage := [], unprocessed_incoming_frames_buffer := []\<rparr>)
             else if recv_message s3 \<noteq> None then Some (None, s3)
             else recv_message_loop s3))"

definition grpc_chttp2_maybe_complete_recv_message :: "data_stream \<Rightarrow> data_stream crashable" where
  "grpc_chttp2_maybe_complete_recv_message s =
     (if \<not> recv_message_ready s then Some s
      else do {
        let s1 = s\<lparr>recv_message := None\<rparr>;
        let s2 = (if final_metadata_requested s1 \<and> seen_error s1
                  then let s' = s1\<lparr>frame_storage := []\<rparr> in
                       if \<not> pending_byte_stream s' then s'\<lparr>unprocessed_incoming_frames_buffer := []\<rparr> else s'
                  else s1);
        (error, s3) \<leftarrow> (if \<not> pending_byte_stream s2 then recv_message_loop s2 else Some (None, s2));
        let s4 = s3\<lparr>unprocessed_cached_length := slices_length (unprocessed_incoming_frames_buffer s3)\<rparr>;
        Some (if error = None \<and> recv_message s4 \<noteq> None then exec_run RecvMessageReady (s4\<lparr>recv_message_ready := False\<rparr>)
              else if published_trailing_metadata s4 \<noteq> GRPC_METADATA_NOT_PUBLISHED
              then exec_run RecvMessageReady
                (s4\<lparr>recv_message := None, recv_message_ready := False,
                   call_failed_before_recv_message :=
                     Some (published_trailing_metadata s4 \<noteq> GRPC_METADATA_PUBLISHED_AT_CLOSE)\<rparr>)
              else s4) })"

definition move_first :: "nat \<Rightarrow> u8 list list \<Rightarrow> u8 list list \<times> u8 list list" where
  "move_first n src = ([take n (concat src)], [drop n (concat src)])"

definition grpc_chttp2_maybe_complete_recv_trailing_metadata :: "data_stream \<Rightarrow> data_stream crashable" where
  "grpc_chttp2_maybe_complete_recv_trailing_metadata s = do {
     s1 \<leftarrow> grpc_chttp2_maybe_complete_recv_message s;
     if \<not> (recv_trailing_metadata_finished s1 \<and> read_closed s1 \<and> write_closed s1) then Some s1
     else
       let s2 = (if seen_error s1 \<or> \<not> ds_is_client s1
                 then let s' = s1\<lparr>frame_storage := []\<rparr> in
                      if \<not> pending_byte_stream s' then s'\<lparr>unprocessed_incoming_frames_buffer := []\<rparr> else s'
                 else s1);
           pending_data = (pending_byte_stream s2 \<or> 0 < slices_length (unprocessed_incoming_frames_buffer s2));
           (s3, pending_data) =
             (if read_closed s2 \<and> 0 < slices_length (frame_storage s2) \<and> \<not> pending_data \<and> \<not> seen_error s2 \<and> recv_trailing_metadata_finished s2
              then let (moved, rest) = move_first (min (slices_length (frame_storage s2)) GRPC_HEADER_SIZE_IN_BYTES_nat) (frame_storage s2);
                       s' = s2\<lparr>frame_storage := rest, unprocessed_incoming_frames_buffer := unprocessed_incoming_frames_buffer s2 @ moved\<rparr> in
                   (s', if 0 < slices_length (unprocessed_incoming_frames_buffer s') then True else pending_data)
              else (s2, pending_data))
       in Some (if read_closed s3 \<and> slices_length (frame_storage s3) = 0 \<and> \<not> pending_data \<and> recv_trailing_metadata_finished s3
                then exec_run RecvTrailingMetadataFinished (s3\<lparr>recv_trailing_metadata_finished := False\<rparr>) else s3) }"

text \<open>A slice of a DATA frame arrives.\<close>

definition grpc_chttp2_data_parser_parse :: "u8 list \<Rightarrow> bool \<Rightarrow> data_stream \<Rightarrow> data_stream crashable" where
  "grpc_chttp2_data_parser_parse sl is_last s = do {
     s1 \<leftarrow> (if \<not> pending_byte_stream s then grpc_chttp2_maybe_complete_recv_message (s\<lparr>frame_storage := frame_storage s @ [sl]\<rparr>)
            else if on_next s then
              (if slices_length (frame_storage s) \<noteq> 0 then None
               else Some (exec_run (OnNext None)
                 (s\<lparr>unprocessed_incoming_frames_buffer := unprocessed_incoming_frames_buffer s @ [sl], on_next := False\<rparr>)))
            else Some (s\<lparr>frame_storage := frame_storage s @ [sl]\<rparr>));
     Some (if is_last \<and> received_last_frame s1
           then s1\<lparr>data_calls := data_calls s1 @
             [MarkStreamClosedCall (if ds_is_client s1 then Some ''Data frame with END_STREAM flag received'' else None)]\<rparr>
           else s1) }"

text \<open>The \<open>recv_message\<close> part of \<open>perform_stream_op_locked\<close>.\<close>

definition recv_message_op :: "data_stream \<Rightarrow> data_stream crashable" where
  "recv_message_op s =
     (if recv_message_ready s \<or> pending_byte_stream s then None
      else do {
        let before = (if ds_id s \<noteq> 0 \<and> \<not> read_closed s
                      then slices_length (frame_storage s) + slices_length (unprocessed_incoming_frames_buffer s) else 0);
        s1 \<leftarrow> grpc_chttp2_maybe_complete_recv_message (s\<lparr>recv_message_ready := True\<rparr>);
        Some (if ds_id s1 \<noteq> 0 \<and> \<not> read_closed s1 \<and> slices_length (frame_storage s1) = 0
              then s1\<lparr>data_calls := data_calls s1 @
                [IncomingByteStreamUpdateCall GRPC_HEADER_SIZE_IN_BYTES_nat (before - unprocessed_cached_length s1)]\<rparr>
              else s1) })"

definition NextLocked :: "nat \<Rightarrow> data_stream \<Rightarrow> data_stream crashable" where
  "NextLocked max_size_hint s0 =
     (let cur_length = slices_length (frame_storage s0);
          s = (if \<not> read_closed s0 then s0\<lparr>data_calls := data_calls s0 @ [IncomingByteStreamUpdateCall max_size_hint cur_length]\<rparr> else s0) in
      if slices_length (unprocessed_incoming_frames_buffer s) \<noteq> 0 then None
      else if 0 < slices_length (frame_storage s) then
        Some (exec_run (OnNext None)
          (s\<lparr>unprocessed_incoming_frames_buffer := frame_storage s, frame_storage := unprocessed_incoming_frames_buffer s\<rparr>))
      else if byte_stream_error s \<noteq> None then
        Some (upd_parser (\<lambda>p. p\<lparr>parsing_frame := False\<rparr>) (exec_run (OnNext (byte_stream_error s)) s))
      else if read_closed s then
        (if remaining_bytes (byte_stream s) \<noteq> 0
         then Some (upd_parser (\<lambda>p. p\<lparr>parsing_frame := False\<rparr>)
                (exec_run (OnNext (Some TruncatedMessage)) (s\<lparr>byte_stream_error := Some TruncatedMessage\<rparr>)))
         else None)
      else Some (s\<lparr>on_next := True\<rparr>))"

definition ByteStream_Next :: "nat \<Rightarrow> data_stream \<Rightarrow> bool \<times> data_stream" where
  "ByteStream_Next max_size_hint s =
     (if 0 < slices_length (unprocessed_incoming_frames_buffer s) then (True, s)
      else (False, combiner_run (NextLockedAction max_size_hint) s))"

definition Pull :: "data_stream \<Rightarrow> (data_error option \<times> u8 list option \<times> data_stream) crashable" where
  "Pull s =
     (if 0 < slices_length (unprocessed_incoming_frames_buffer s)
      then (case grpc_deframe_unprocessed_incoming_frames True False (unprocessed_incoming_frames_buffer s) s of
              None \<Rightarrow> None
            | Some (e, sl, st, rest, s1) \<Rightarrow> Some (e, sl, s1\<lparr>unprocessed_incoming_frames_buffer := rest\<rparr>))
      else Some (Some TruncatedMessage, None, combiner_run (ResetByteStreamAction TruncatedMessage) s))"

definition OrphanLocked :: "data_stream \<Rightarrow> data_stream crashable" where
  "OrphanLocked s = do {
     s1 \<leftarrow> grpc_chttp2_maybe_complete_recv_message (s\<lparr>pending_byte_stream := False\<rparr>);
     grpc_chttp2_maybe_complete_recv_trailing_metadata s1 }"

text \<open>Scheduled only with an error, by \<open>Push\<close>, \<open>Finished\<close> and \<open>Pull\<close>.\<close>

definition reset_byte_stream :: "data_error \<Rightarrow> data_stream \<Rightarrow> data_stream" where
  "reset_byte_stream error s =
     (let s1 = s\<lparr>pending_byte_stream := False\<rparr>;
          s2 = (if on_next s1 then exec_run (OnNext (Some error)) s1 else s1)\<lparr>on_next := False, byte_stream_error := None\<rparr>
      in s2\<lparr>data_calls := data_calls s2 @ [CancelStreamCall error], byte_stream_error := Some error\<rparr>)"

subsection \<open>The call\<close>

definition Orphan :: "data_stream \<Rightarrow> data_stream" where
  "Orphan s = combiner_run OrphanLockedAction (s\<lparr>receiving_stream := None\<rparr>)"

text \<open>A pulled slice is appended to the message; on an error the message is dropped.\<close>

definition take_slice :: "u8 list option \<Rightarrow> data_stream \<Rightarrow> data_stream" where
  "take_slice sl s = s\<lparr>receiving_buffer := receiving_buffer s @ (case sl of None \<Rightarrow> [] | Some x \<Rightarrow> x)\<rparr>"

definition drop_message :: "data_stream \<Rightarrow> data_stream" where
  "drop_message s = (Orphan s)\<lparr>receiving_buffer := [], failed_messages := failed_messages s + 1\<rparr>"

text \<open>One turn of the loop; the next turn is a closure of its own, so that the transport may run in between.\<close>

definition continue_receiving_slices :: "data_stream \<Rightarrow> data_stream crashable" where
  "continue_receiving_slices s =
     (case receiving_stream s of
        None \<Rightarrow> None
      | Some (len, flags) \<Rightarrow>
          if unat len = length (receiving_buffer s)
          then Some ((Orphan s)\<lparr>received_messages := received_messages s @ [(flags, receiving_buffer s)], receiving_buffer := []\<rparr>)
          else (case ByteStream_Next (unat len - length (receiving_buffer s)) s of
                  (False, s1) \<Rightarrow> Some s1
                | (True, s1) \<Rightarrow>
                    (case Pull s1 of
                       None \<Rightarrow> None
                     | Some (None, sl, s2) \<Rightarrow> Some (exec_run ContinueReceiving (take_slice sl s2))
                     | Some (Some e, sl, s2) \<Rightarrow> Some (drop_message s2))))"

definition receiving_slice_ready :: "data_error option \<Rightarrow> data_stream \<Rightarrow> data_stream crashable" where
  "receiving_slice_ready error s =
     (case error of
        None \<Rightarrow>
          (case Pull s of
             None \<Rightarrow> None
           | Some (None, sl, s1) \<Rightarrow> continue_receiving_slices (take_slice sl s1)
           | Some (Some e, sl, s1) \<Rightarrow> Some (drop_message s1))
      | Some e \<Rightarrow> Some (drop_message s))"

definition process_data_after_md :: "data_stream \<Rightarrow> data_stream crashable" where
  "process_data_after_md s =
     (case recv_message s of
        None \<Rightarrow> Some s
      | Some st \<Rightarrow> continue_receiving_slices (s\<lparr>receiving_stream := Some st, receiving_buffer := []\<rparr>))"

section \<open>Events\<close>

datatype recv_event = ArriveSlice "u8 list" bool | StartReceive | RunCombiner | RunExec

fun combiner_step :: "combiner_action \<Rightarrow> data_stream \<Rightarrow> data_stream crashable" where
  "combiner_step (NextLockedAction n) s = NextLocked n s"
| "combiner_step OrphanLockedAction s = OrphanLocked s"
| "combiner_step RecvMessageOp s = recv_message_op s"
| "combiner_step (ResetByteStreamAction e) s = Some (reset_byte_stream e s)"

fun exec_step :: "exec_closure \<Rightarrow> data_stream \<Rightarrow> data_stream crashable" where
  "exec_step RecvMessageReady s = process_data_after_md s"
| "exec_step (OnNext e) s = receiving_slice_ready e s"
| "exec_step ContinueReceiving s = continue_receiving_slices s"
| "exec_step RecvTrailingMetadataFinished s = Some s"

fun recv_step :: "recv_event \<Rightarrow> data_stream \<Rightarrow> data_stream crashable" where
  "recv_step (ArriveSlice sl is_last) s = grpc_chttp2_data_parser_parse sl is_last s"
| "recv_step StartReceive s = Some (combiner_run RecvMessageOp s)"
| "recv_step RunCombiner s = (case combiner_queue s of [] \<Rightarrow> Some s | c # cs \<Rightarrow> combiner_step c (s\<lparr>combiner_queue := cs\<rparr>))"
| "recv_step RunExec s = (case exec_queue s of [] \<Rightarrow> Some s | c # cs \<Rightarrow> exec_step c (s\<lparr>exec_queue := cs\<rparr>))"

end
