(* ===== verification/Message_Delivery.thy ===== *)
theory Message_Delivery
  imports Frame_Data
begin

text \<open>
  Correctness of the receive path of \<open>Frame_Data\<close>.  First the deframer: whatever the slices, a call that may return a byte stream
  absorbs a message header byte by byte, and a call that may return payload gives a non-empty piece of the message.  Then the
  invariant of the interleaved machine, by induction over its runs: the messages that the call has collected are the first ones that were sent,
  and it waits only when every byte that has arrived is used up.
\<close>

section \<open>Message headers\<close>

text \<open>What one header byte does to the parser.\<close>

definition absorb_header :: "u8 \<Rightarrow> data_stream \<Rightarrow> data_stream" where
  "absorb_header b s = upd_parser (\<lambda>p. case dp_state p of
       GRPC_CHTTP2_DATA_FH_0 \<Rightarrow> p\<lparr>dp_frame_type := b, is_frame_compressed := b = 1, dp_state := GRPC_CHTTP2_DATA_FH_1\<rparr>
     | GRPC_CHTTP2_DATA_FH_1 \<Rightarrow> p\<lparr>dp_frame_size := push_bit 24 (ucast b), dp_state := GRPC_CHTTP2_DATA_FH_2\<rparr>
     | GRPC_CHTTP2_DATA_FH_2 \<Rightarrow> p\<lparr>dp_frame_size := dp_frame_size p OR push_bit 16 (ucast b), dp_state := GRPC_CHTTP2_DATA_FH_3\<rparr>
     | _ \<Rightarrow> p\<lparr>dp_frame_size := dp_frame_size p OR push_bit 8 (ucast b), dp_state := GRPC_CHTTP2_DATA_FH_4\<rparr>) (framed s)"

text \<open>A stale state in the parser does not matter to the code that a case falls through to.\<close>

lemma fallthrough:
  "data_fh_4 w cur (upd_parser (\<lambda>p. p\<lparr>dp_state := x\<rparr>) s) = data_fh_4 w cur s"
  "data_fh_3 w cur (upd_parser (\<lambda>p. p\<lparr>dp_state := x\<rparr>) s) = data_fh_3 w cur s"
  "data_fh_2 w cur (upd_parser (\<lambda>p. p\<lparr>dp_state := x\<rparr>) s) = data_fh_2 w cur s"
  "data_fh_1 w cur (upd_parser (\<lambda>p. p\<lparr>dp_state := x\<rparr>) s) = data_fh_1 w cur s"
proof -
  show 4: "data_fh_4 w cur (upd_parser (\<lambda>p. p\<lparr>dp_state := x\<rparr>) s) = data_fh_4 w cur s" for cur s
    by (simp add: data_fh_4_def new_byte_stream_def Finished_def)
  show 3: "data_fh_3 w cur (upd_parser (\<lambda>p. p\<lparr>dp_state := x\<rparr>) s) = data_fh_3 w cur s" for cur s
    using 4 [of "tl cur" "upd_parser (\<lambda>p. p\<lparr>dp_frame_size := dp_frame_size p OR push_bit 8 (ucast (hd cur))\<rparr>) (framed s)"]
    by (cases "data_parser s") (simp add: data_fh_3_def Let_def)
  show 2: "data_fh_2 w cur (upd_parser (\<lambda>p. p\<lparr>dp_state := x\<rparr>) s) = data_fh_2 w cur s" for cur s
    using 3 [of "tl cur" "upd_parser (\<lambda>p. p\<lparr>dp_frame_size := dp_frame_size p OR push_bit 16 (ucast (hd cur))\<rparr>) (framed s)"]
    by (cases "data_parser s") (simp add: data_fh_2_def Let_def)
  show "data_fh_1 w cur (upd_parser (\<lambda>p. p\<lparr>dp_state := x\<rparr>) s) = data_fh_1 w cur s"
    using 2 [of "tl cur" "upd_parser (\<lambda>p. p\<lparr>dp_frame_size := push_bit 24 (ucast (hd cur))\<rparr>) (framed s)"]
    by (cases "data_parser s") (simp add: data_fh_1_def Let_def)
qed

abbreviation deframe :: "bool \<Rightarrow> bool \<Rightarrow> u8 list list \<Rightarrow> data_stream
      \<Rightarrow> (data_error option \<times> u8 list option \<times> (u32 \<times> u32) option \<times> u8 list list \<times> data_stream) crashable" where
  "deframe \<equiv> grpc_deframe_unprocessed_incoming_frames"

lemma deframe_header_byte:
  assumes "dp_state (data_parser s) \<in> {GRPC_CHTTP2_DATA_FH_0, GRPC_CHTTP2_DATA_FH_1, GRPC_CHTTP2_DATA_FH_2, GRPC_CHTTP2_DATA_FH_3}"
    and "dp_state (data_parser s) = GRPC_CHTTP2_DATA_FH_0 \<Longrightarrow> b = 0 \<or> b = 1"
  shows "deframe ws wst ((b # bs) # xs) s = deframe ws wst (bs # xs) (absorb_header b s)"
proof (cases bs)
  case Nil
  then show ?thesis using assms
    by (auto simp: deframe_switch_def absorb_header_def data_fh_0_def data_fh_1_def data_fh_2_def data_fh_3_def)
next
  case (Cons c cs)
  from assms(1) have "deframe_switch ws wst (b # bs) s = deframe_switch ws wst bs (absorb_header b s)"
  proof safe
    assume st: "dp_state (data_parser s) = GRPC_CHTTP2_DATA_FH_0"
    show ?thesis using st assms(2) Cons
        fallthrough(4) [of wst bs GRPC_CHTTP2_DATA_FH_1 "upd_parser (\<lambda>p. p\<lparr>dp_frame_type := b, is_frame_compressed := b = 1\<rparr>) (framed s)"]
      by (cases "data_parser s") (auto simp: deframe_switch_def absorb_header_def data_fh_0_def Let_def)
  next
    assume st: "dp_state (data_parser s) = GRPC_CHTTP2_DATA_FH_1"
    show ?thesis using st Cons
        fallthrough(3) [of wst bs GRPC_CHTTP2_DATA_FH_2 "upd_parser (\<lambda>p. p\<lparr>dp_frame_size := push_bit 24 (ucast b)\<rparr>) (framed s)"]
      by (cases "data_parser s") (simp add: deframe_switch_def absorb_header_def data_fh_1_def Let_def)
  next
    assume st: "dp_state (data_parser s) = GRPC_CHTTP2_DATA_FH_2"
    show ?thesis using st Cons
        fallthrough(2) [of wst bs GRPC_CHTTP2_DATA_FH_3
          "upd_parser (\<lambda>p. p\<lparr>dp_frame_size := dp_frame_size p OR push_bit 16 (ucast b)\<rparr>) (framed s)"]
      by (cases "data_parser s") (simp add: deframe_switch_def absorb_header_def data_fh_2_def Let_def)
  next
    assume st: "dp_state (data_parser s) = GRPC_CHTTP2_DATA_FH_3"
    show ?thesis using st Cons
        fallthrough(1) [of wst bs GRPC_CHTTP2_DATA_FH_4
          "upd_parser (\<lambda>p. p\<lparr>dp_frame_size := dp_frame_size p OR push_bit 8 (ucast b)\<rparr>) (framed s)"]
      by (cases "data_parser s") (simp add: deframe_switch_def absorb_header_def data_fh_3_def Let_def)
  qed
  then show ?thesis using Cons by simp
qed

text \<open>The parser after some bytes of a header.\<close>

fun hdr_state :: "u8 list \<Rightarrow> grpc_chttp2_data_parser \<Rightarrow> bool" where
  "hdr_state [] p \<longleftrightarrow> dp_state p = GRPC_CHTTP2_DATA_FH_0"
| "hdr_state [c] p \<longleftrightarrow> dp_state p = GRPC_CHTTP2_DATA_FH_1 \<and> is_frame_compressed p = (c = 1)"
| "hdr_state [c, a] p \<longleftrightarrow> dp_state p = GRPC_CHTTP2_DATA_FH_2 \<and> is_frame_compressed p = (c = 1) \<and> dp_frame_size p = push_bit 24 (ucast a)"
| "hdr_state [c, a, b] p \<longleftrightarrow> dp_state p = GRPC_CHTTP2_DATA_FH_3 \<and> is_frame_compressed p = (c = 1) \<and>
     dp_frame_size p = push_bit 24 (ucast a) OR push_bit 16 (ucast b)"
| "hdr_state [c, a, b, d] p \<longleftrightarrow> dp_state p = GRPC_CHTTP2_DATA_FH_4 \<and> is_frame_compressed p = (c = 1) \<and>
     dp_frame_size p = push_bit 24 (ucast a) OR push_bit 16 (ucast b) OR push_bit 8 (ucast d)"
| "hdr_state _ p \<longleftrightarrow> False"

definition stream_flags :: "u8 \<Rightarrow> u32" where
  "stream_flags c = (if c = 1 then GRPC_WRITE_INTERNAL_COMPRESS else 0)"

text \<open>The parser inside of a message of which \<open>n\<close> bytes are missing.\<close>

definition body_state :: "u32 \<Rightarrow> grpc_chttp2_data_parser \<Rightarrow> bool" where
  "body_state n p \<longleftrightarrow> (if n = 0 then dp_state p = GRPC_CHTTP2_DATA_FH_0 \<and> \<not> parsing_frame p
     else dp_state p = GRPC_CHTTP2_DATA_FRAME \<and> parsing_frame p \<and> dp_frame_size p = n)"

lemma hdr_state_length: "hdr_state hdr p \<Longrightarrow> length hdr < 5"
  by (cases "(hdr, p)" rule: hdr_state.cases) auto

lemma absorb_header_frame:
  "absorb_header b s = s\<lparr>data_parser := data_parser (absorb_header b s), framing_bytes := framing_bytes s + 1\<rparr>"
  "parsing_frame (data_parser (absorb_header b s)) = parsing_frame (data_parser s)"
  by (simp_all add: absorb_header_def split: grpc_chttp2_stream_state.split)

lemma short_header:
  "length hdr < 4 \<Longrightarrow> hdr = [] \<or> (\<exists>c. hdr = [c]) \<or> (\<exists>c a. hdr = [c, a]) \<or> (\<exists>c a b. hdr = [c, a, b])" for hdr :: "u8 list"
  by (auto simp: less_Suc_eq numeral_eq_Suc length_Suc_conv)

lemma absorb_header:
  assumes "hdr_state hdr (data_parser s)" "length hdr < 4"
  shows "hdr_state (hdr @ [b]) (data_parser (absorb_header b s))"
    and "dp_state (data_parser s) \<in> {GRPC_CHTTP2_DATA_FH_0, GRPC_CHTTP2_DATA_FH_1, GRPC_CHTTP2_DATA_FH_2, GRPC_CHTTP2_DATA_FH_3}"
    and "dp_state (data_parser s) = GRPC_CHTTP2_DATA_FH_0 \<longleftrightarrow> hdr = []"
  using short_header [OF assms(2)] assms(1) by (elim disjE exE; simp add: absorb_header_def or.assoc)+

lemma deframe_header_last:
  assumes "hdr_state [c, a, b, d] (data_parser s)" "\<not> parsing_frame (data_parser s)"
  shows "\<exists>p n. deframe ws True ((e # bs) # xs) s =
      Some (None, None, Some (rd32 a b d e, stream_flags c), if bs = [] then xs else bs # xs,
        s\<lparr>data_parser := p, framing_bytes := n, byte_stream := \<lparr>bs_length = rd32 a b d e, bs_flags = stream_flags c, remaining_bytes = rd32 a b d e\<rparr>,
          byte_stream_error := None, pending_byte_stream := True\<rparr>) \<and> body_state (rd32 a b d e) p"
  using assms
  by (intro exI [of _ "(data_parser s)\<lparr>dp_frame_size := rd32 a b d e, parsing_frame := rd32 a b d e \<noteq> 0,
        dp_state := if rd32 a b d e = 0 then GRPC_CHTTP2_DATA_FH_0 else GRPC_CHTTP2_DATA_FRAME\<rparr>"] exI [of _ "framing_bytes s + 1"],
      cases "data_parser s")
    (auto simp: deframe_switch_def data_fh_4_def Let_def new_byte_stream_def Finished_def rd32_def stream_flags_def body_state_def or.assoc)

text \<open>A call that may return a byte stream absorbs the bytes of a header; with the last one it returns the stream that the header describes.\<close>

definition small_slices :: "u8 list list \<Rightarrow> bool" where
  "small_slices xs \<longleftrightarrow> list_all (\<lambda>x. length x < 2 ^ 32) xs"

definition header_result :: "u8 list list \<Rightarrow> u8 list \<Rightarrow> data_stream
      \<Rightarrow> (data_error option \<times> u8 list option \<times> (u32 \<times> u32) option \<times> u8 list list \<times> data_stream) crashable \<Rightarrow> bool" where
  "header_result slices bytes s r \<longleftrightarrow>
     length bytes < 5 \<and> (\<exists>p n. r = Some (None, None, None, [], s\<lparr>data_parser := p, framing_bytes := n\<rparr>) \<and> hdr_state bytes p \<and> \<not> parsing_frame p) \<or>
     (\<exists>c a b d e rest p n. bytes = [c, a, b, d, e] @ concat rest \<and> (small_slices slices \<longrightarrow> small_slices rest) \<and>
        r = Some (None, None, Some (rd32 a b d e, stream_flags c), rest,
           s\<lparr>data_parser := p, framing_bytes := n,
             byte_stream := \<lparr>bs_length = rd32 a b d e, bs_flags = stream_flags c, remaining_bytes = rd32 a b d e\<rparr>,
             byte_stream_error := None, pending_byte_stream := True\<rparr>) \<and> body_state (rd32 a b d e) p)"

lemma header_result_mono: "header_result xs bytes s r \<Longrightarrow> (small_slices ys \<Longrightarrow> small_slices xs) \<Longrightarrow> header_result ys bytes s r"
  unfolding header_result_def by blast

lemma header_result_env: "header_result xs bytes (s\<lparr>data_parser := p, framing_bytes := n\<rparr>) r \<longleftrightarrow> header_result xs bytes s r"
  by (simp add: header_result_def)

lemma deframe_header:
  assumes "hdr_state hdr (data_parser s)" "\<not> parsing_frame (data_parser s)"
    and "\<And>c. prefix [c] (hdr @ concat slices) \<Longrightarrow> c = 0 \<or> c = 1"
  shows "header_result slices (hdr @ concat slices) s (deframe ws True slices s)"
  using assms
proof (induction "length slices + length (concat slices)" arbitrary: slices hdr s rule: less_induct)
  case less
  consider "slices = []" | xs where "slices = [] # xs" | b bs xs where "slices = (b # bs) # xs" by (metis list.exhaust)
  then show ?case
  proof cases
    case 1
    then show ?thesis using less(2,3) hdr_state_length [OF less(2)] unfolding header_result_def
      by (intro disjI1 conjI exI [of _ "data_parser s"] exI [of _ "framing_bytes s"]) auto
  next
    case 2
    then show ?thesis using less(1) [OF _ less(2,3), of xs] less(4) by (auto intro: header_result_mono simp: small_slices_def)
  next
    case 3
    show ?thesis
    proof (cases "length hdr < 4")
      case True
      note a = absorb_header [OF less(2) True]
      have b: "dp_state (data_parser s) = GRPC_CHTTP2_DATA_FH_0 \<Longrightarrow> b = 0 \<or> b = 1" using a(3) less(4) [of b] 3 by auto
      have "\<not> parsing_frame (data_parser (absorb_header b s))" using less(3) by (simp add: absorb_header_frame(2))
      then have "header_result (bs # xs) ((hdr @ [b]) @ concat (bs # xs)) (absorb_header b s) (deframe ws True (bs # xs) (absorb_header b s))"
        using less(4) by (intro less(1) a(1)) (auto simp: 3)
      moreover have "deframe ws True slices s = deframe ws True (bs # xs) (absorb_header b s)"
        unfolding 3 by (rule deframe_header_byte [OF a(2) b])
      moreover obtain p n where "absorb_header b s = s\<lparr>data_parser := p, framing_bytes := n\<rparr>" using absorb_header_frame(1) by metis
      ultimately have "header_result (bs # xs) (hdr @ concat slices) s (deframe ws True slices s)" by (simp add: 3 header_result_env)
      then show ?thesis by (rule header_result_mono) (simp add: 3 small_slices_def)
    next
      case False
      then have "length hdr = 4" using hdr_state_length [OF less(2)] by simp
      then obtain c a1 a2 a3 where hdr: "hdr = [c, a1, a2, a3]" by (auto simp: numeral_eq_Suc length_Suc_conv)
      have "hdr @ concat slices = [c, a1, a2, a3, b] @ concat (if bs = [] then xs else bs # xs)"
        and "small_slices slices \<longrightarrow> small_slices (if bs = [] then xs else bs # xs)" by (simp_all add: hdr 3 small_slices_def)
      with deframe_header_last [OF less(2) [unfolded hdr] less(3), of ws b bs xs] show ?thesis unfolding 3 header_result_def by blast
    qed
  qed
qed

section \<open>Message payload\<close>

lemma Push_ok:
  "length sl \<le> unat (remaining_bytes (byte_stream s)) \<Longrightarrow>
   Push sl s = (None, s\<lparr>byte_stream := (byte_stream s)\<lparr>remaining_bytes := remaining_bytes (byte_stream s) - of_nat (length sl)\<rparr>\<rparr>)"
  by (simp add: Push_def)

lemma Finished_ok: "remaining_bytes (byte_stream s) = 0 \<Longrightarrow> Finished None b s = (None, s)"
  by (simp add: Finished_def)

lemma of_nat_less_u32:
  assumes "k < 2 ^ 32"
  shows "(of_nat k :: u32) < n \<longleftrightarrow> k < unat n" "(of_nat k :: u32) = n \<longleftrightarrow> k = unat n"
  using assms by (simp_all add: word_less_nat_alt unat_of_nat word_unat_eq_iff)

text \<open>One slice of payload.\<close>

definition body_result :: "u32 \<Rightarrow> u8 list list \<Rightarrow> data_stream
      \<Rightarrow> (data_error option \<times> u8 list option \<times> (u32 \<times> u32) option \<times> u8 list list \<times> data_stream) crashable \<Rightarrow> bool" where
  "body_result n slices s r \<longleftrightarrow> (\<exists>chunk rest p db. r = Some (None, Some chunk, None, rest,
       s\<lparr>data_parser := p, data_bytes := db, byte_stream := (byte_stream s)\<lparr>remaining_bytes := n - of_nat (length chunk)\<rparr>\<rparr>) \<and>
     chunk \<noteq> [] \<and> length chunk \<le> unat n \<and> chunk @ concat rest = concat slices \<and> small_slices rest \<and> body_state (n - of_nat (length chunk)) p)"

lemma data_frame_body:
  assumes "body_state n (data_parser s)" "n \<noteq> 0" "remaining_bytes (byte_stream s) = n" "cur \<noteq> []" "small_slices (cur # xs)"
  shows "body_result n (cur # xs) s (deframe True wst (cur # xs) s)"
proof -
  have p: "dp_state (data_parser s) = GRPC_CHTTP2_DATA_FRAME" "parsing_frame (data_parser s)" "dp_frame_size (data_parser s) = n"
    using assms(1,2) by (auto simp: body_state_def)
  have small: "length cur < 2 ^ 32" "small_slices xs" using assms(5) by (auto simp: small_slices_def)
  note cmp = of_nat_less_u32 [OF small(1)]
  consider "length cur = unat n" | "length cur < unat n" | "unat n < length cur" by linarith
  then show ?thesis
  proof cases
    case 1
    then have n: "(of_nat (length cur) :: u32) = n" using cmp(2) by simp
    show ?thesis unfolding body_result_def
      by (rule exI [of _ cur], rule exI [of _ xs],
          rule exI [of _ "(data_parser s)\<lparr>parsing_frame := False, dp_state := GRPC_CHTTP2_DATA_FH_0\<rparr>"], rule exI [of _ "data_bytes s + unat n"])
        (use 1 n p assms small in \<open>simp add: deframe_switch_def data_frame_def Push_ok Finished_ok body_state_def Let_def\<close>)
  next
    case 2
    then have n: "(of_nat (length cur) :: u32) < n" "(of_nat (length cur) :: u32) \<noteq> n" using cmp by simp_all
    show ?thesis unfolding body_result_def
      by (rule exI [of _ cur], rule exI [of _ xs],
          rule exI [of _ "(data_parser s)\<lparr>dp_frame_size := n - of_nat (length cur)\<rparr>"], rule exI [of _ "data_bytes s + unat (of_nat (length cur) :: u32)"])
        (use 2 n p assms small in \<open>simp add: deframe_switch_def data_frame_def Push_ok Finished_ok body_state_def Let_def\<close>)
  next
    case 3
    then have n: "\<not> (of_nat (length cur) :: u32) < n" "(of_nat (length cur) :: u32) \<noteq> n" using cmp by simp_all
    have "unat n \<noteq> 0" using assms(2) by (simp add: unat_eq_zero)
    moreover have "length (drop (unat n) cur) < 2 ^ 32" using small(1) by simp
    ultimately show ?thesis unfolding body_result_def
      by (intro exI [of _ "take (unat n) cur"], intro exI [of _ "drop (unat n) cur # xs"],
          intro exI [of _ "(data_parser s)\<lparr>parsing_frame := False, dp_state := GRPC_CHTTP2_DATA_FH_0\<rparr>"], intro exI [of _ "data_bytes s + unat n"])
        (use 3 n p assms small in \<open>simp add: deframe_switch_def data_frame_def Push_ok Finished_ok body_state_def small_slices_def Let_def\<close>)
  qed
qed

lemma deframe_body:
  assumes "body_state n (data_parser s)" "n \<noteq> 0" "remaining_bytes (byte_stream s) = n" "small_slices slices" "concat slices \<noteq> []"
  shows "body_result n slices s (deframe True wst slices s)"
  using assms(4,5)
proof (induction slices)
  case (Cons cur xs)
  show ?case
  proof (cases "cur = []")
    case True
    then show ?thesis using Cons by (simp add: small_slices_def body_result_def)
  next
    case False
    then show ?thesis using data_frame_body [OF assms(1-3) False] Cons.prems by blast
  qed
qed simp

section \<open>Asking for a message\<close>

abbreviation buffered :: "data_stream \<Rightarrow> u8 list" where
  "buffered s \<equiv> concat (unprocessed_incoming_frames_buffer s) @ concat (frame_storage s)"

text \<open>The part of the state that looking for a message leaves alone.\<close>

definition recv_env :: "data_stream \<Rightarrow> _" where
  "recv_env s = (ds_id s, on_next s, recv_message_ready s, combiner_queue s, exec_queue s, receiving_stream s, receiving_buffer s,
     received_messages s, failed_messages s, read_closed s, seen_error s, published_trailing_metadata s, byte_stream_error s)"

text \<open>Looking for a message uses up what is buffered as header bytes, or finds a complete header.\<close>

definition searched :: "u8 list \<Rightarrow> data_stream \<Rightarrow> data_stream \<Rightarrow> bool" where
  "searched bytes s s' \<longleftrightarrow> recv_env s' = recv_env s \<and> small_slices (unprocessed_incoming_frames_buffer s') \<and> small_slices (frame_storage s') \<and>
     (recv_message s' = None \<and> buffered s' = [] \<and> \<not> pending_byte_stream s' \<and> \<not> parsing_frame (data_parser s') \<and> hdr_state bytes (data_parser s') \<or>
      (\<exists>c a b d e. recv_message s' = Some (rd32 a b d e, stream_flags c) \<and> bytes = [c, a, b, d, e] @ buffered s' \<and> pending_byte_stream s' \<and>
         remaining_bytes (byte_stream s') = rd32 a b d e \<and> body_state (rd32 a b d e) (data_parser s')))"

lemma recv_message_loop_correct:
  assumes "hdr_state hdr (data_parser s)" "\<not> parsing_frame (data_parser s)" "\<not> pending_byte_stream s" "recv_message s = None"
    and "byte_stream_error s = None" "small_slices (unprocessed_incoming_frames_buffer s)" "small_slices (frame_storage s)"
    and "\<And>c. prefix [c] (hdr @ buffered s) \<Longrightarrow> c = 0 \<or> c = 1"
  shows "\<exists>s'. recv_message_loop s = Some (None, s') \<and> searched (hdr @ buffered s) s s'"
  using assms
proof (induction "length (buffered s)" arbitrary: s hdr rule: less_induct)
  case less
  show ?case
  proof (cases "buffered s = []")
    case True
    then have "recv_message_loop s = Some (None, s)" by (subst recv_message_loop.simps) simp
    moreover have "searched (hdr @ buffered s) s s" unfolding searched_def True append_Nil2 using less(2-8) by blast
    ultimately show ?thesis by blast
  next
    case False
    define s1 where "s1 = (if slices_length (unprocessed_incoming_frames_buffer s) = 0
      then s\<lparr>unprocessed_incoming_frames_buffer := frame_storage s, frame_storage := unprocessed_incoming_frames_buffer s\<rparr> else s)"
    have s1: "buffered s1 = buffered s" "concat (unprocessed_incoming_frames_buffer s1) \<noteq> []" "data_parser s1 = data_parser s"
      "\<not> pending_byte_stream s1" "recv_message s1 = None" "recv_env s1 = recv_env s" "byte_stream_error s1 = None"
      "small_slices (unprocessed_incoming_frames_buffer s1)" "small_slices (frame_storage s1)"
      using False less(4-8) by (cases "concat (unprocessed_incoming_frames_buffer s) = []"; simp add: s1_def recv_env_def del: concat_eq_Nil_conv)+
    let ?d = "deframe False True (unprocessed_incoming_frames_buffer s1) s1"
    have unfold: "recv_message_loop s = (case ?d of None \<Rightarrow> None | Some (error, sl, stream, rest, s2) \<Rightarrow>
        let s3 = s2\<lparr>unprocessed_incoming_frames_buffer := rest, recv_message := (case stream of None \<Rightarrow> recv_message s2 | Some x \<Rightarrow> Some x)\<rparr> in
        if error \<noteq> None then Some (error, s3\<lparr>seen_error := True, frame_storage := [], unprocessed_incoming_frames_buffer := []\<rparr>)
        else if recv_message s3 \<noteq> None then Some (None, s3) else recv_message_loop s3)"
      using False by (subst recv_message_loop.simps) (simp add: s1_def)
    have "header_result (unprocessed_incoming_frames_buffer s1) (hdr @ concat (unprocessed_incoming_frames_buffer s1)) s1 ?d"
    proof (rule deframe_header)
      show "hdr_state hdr (data_parser s1)" "\<not> parsing_frame (data_parser s1)" using less(2,3) s1(3) by simp_all
      show "c = 0 \<or> c = 1" if "prefix [c] (hdr @ concat (unprocessed_incoming_frames_buffer s1))" for c
        using less(9) [of c] that s1(1) by (metis append.assoc prefix_order.trans prefixI)
    qed
    then consider
      p n where "?d = Some (None, None, None, [], s1\<lparr>data_parser := p, framing_bytes := n\<rparr>)"
        "hdr_state (hdr @ concat (unprocessed_incoming_frames_buffer s1)) p" "\<not> parsing_frame p"
    | c a b d e rest p n where "hdr @ concat (unprocessed_incoming_frames_buffer s1) = [c, a, b, d, e] @ concat rest" "small_slices rest"
        "?d = Some (None, None, Some (rd32 a b d e, stream_flags c), rest,
           s1\<lparr>data_parser := p, framing_bytes := n,
             byte_stream := \<lparr>bs_length = rd32 a b d e, bs_flags = stream_flags c, remaining_bytes = rd32 a b d e\<rparr>,
             byte_stream_error := None, pending_byte_stream := True\<rparr>)" "body_state (rd32 a b d e) p"
      using s1(8) unfolding header_result_def by blast
    then show ?thesis
    proof cases
      case 1
      define s3 where "s3 = s1\<lparr>data_parser := p, framing_bytes := n, unprocessed_incoming_frames_buffer := []\<rparr>"
      have loop: "recv_message_loop s = recv_message_loop s3" unfolding unfold 1(1) using s1(5) by (simp add: s3_def)
      have "\<exists>s'. recv_message_loop s3 = Some (None, s') \<and> searched ((hdr @ concat (unprocessed_incoming_frames_buffer s1)) @ buffered s3) s3 s'"
      proof (rule less(1))
        show "length (buffered s3) < length (buffered s)" using s1(1,2) by (simp add: s3_def flip: s1(1))
        show "c = 0 \<or> c = 1" if "prefix [c] ((hdr @ concat (unprocessed_incoming_frames_buffer s1)) @ buffered s3)" for c
          using less(9) [of c] that s1(1) by (simp add: s3_def)
      qed (use 1 s1 in \<open>simp_all add: s3_def small_slices_def\<close>)
      moreover have "(hdr @ concat (unprocessed_incoming_frames_buffer s1)) @ buffered s3 = hdr @ buffered s" "recv_env s3 = recv_env s"
        using s1(1,6) by (simp_all add: s3_def recv_env_def)
      ultimately show ?thesis unfolding loop searched_def by metis
    next
      case 2
      have "hdr @ buffered s = [c, a, b, d, e] @ concat rest @ concat (frame_storage s1)"
        using 2(1) s1(1) by (metis append.assoc)
      then show ?thesis unfolding unfold 2(3) using s1 2(2,4) by (simp add: searched_def recv_env_def)
    qed
  qed
qed

text \<open>On a stream that nobody has closed, \<open>maybe_complete_recv_message\<close> passes a found message on to the call.\<close>

lemma maybe_complete_no_request: "\<not> recv_message_ready s \<Longrightarrow> grpc_chttp2_maybe_complete_recv_message s = Some s"
  by (simp add: grpc_chttp2_maybe_complete_recv_message_def)

lemma maybe_complete_request:
  assumes "hdr_state hdr (data_parser s)" "\<not> parsing_frame (data_parser s)" "\<not> pending_byte_stream s"
    and "byte_stream_error s = None" "small_slices (unprocessed_incoming_frames_buffer s)" "small_slices (frame_storage s)"
    and "\<And>c. prefix [c] (hdr @ buffered s) \<Longrightarrow> c = 0 \<or> c = 1"
    and "recv_message_ready s" "\<not> seen_error s" "published_trailing_metadata s = GRPC_METADATA_NOT_PUBLISHED"
  shows "\<exists>s' n. searched (hdr @ buffered s) s s' \<and> grpc_chttp2_maybe_complete_recv_message s =
    Some (if recv_message s' = None then s'\<lparr>unprocessed_cached_length := n\<rparr>
          else s'\<lparr>unprocessed_cached_length := n, recv_message_ready := False, exec_queue := exec_queue s @ [RecvMessageReady]\<rparr>)"
proof -
  have "\<exists>s'. recv_message_loop (s\<lparr>recv_message := None\<rparr>) = Some (None, s') \<and>
      searched (hdr @ buffered (s\<lparr>recv_message := None\<rparr>)) (s\<lparr>recv_message := None\<rparr>) s'"
    by (rule recv_message_loop_correct) (use assms in simp_all)
  then obtain s' where s': "recv_message_loop (s\<lparr>recv_message := None\<rparr>) = Some (None, s')" "searched (hdr @ buffered s) s s'"
    by (auto simp: searched_def recv_env_def)
  have env: "published_trailing_metadata s' = GRPC_METADATA_NOT_PUBLISHED" "exec_queue s' = exec_queue s"
    using s'(2) assms(10) by (simp_all add: searched_def recv_env_def)
  show ?thesis
    by (rule exI [of _ s'], rule exI [of _ "slices_length (unprocessed_incoming_frames_buffer s')"])
      (use s' env assms(3,8,9) in \<open>simp add: grpc_chttp2_maybe_complete_recv_message_def\<close>)
qed

section \<open>Messages on the wire\<close>

definition wire_message :: "u32 \<times> u8 list \<Rightarrow> u8 list" where
  "wire_message m = message_header (fst m) (of_nat (length (snd m))) @ snd m"

text \<open>Of the flags only the compression bit travels.\<close>

definition as_received :: "u32 \<times> u8 list \<Rightarrow> u32 \<times> u8 list" where
  "as_received m = (fst m AND GRPC_WRITE_INTERNAL_COMPRESS, snd m)"

lemma message_header_be32: "message_header flags w = of_bool (flags AND GRPC_WRITE_INTERNAL_COMPRESS \<noteq> 0) # be32 (ucast w)"
proof -
  have "(ucast (drop_bit k w) :: u8) = ucast (drop_bit k (ucast w :: u32))" if "k \<le> 24" for k
    by (rule bit_word_eqI) (use that in \<open>auto simp: bit_ucast_iff bit_drop_bit_eq\<close>)
  from this [of 24] this [of 16] this [of 8] this [of 0] show ?thesis by (simp add: message_header_def be32_def)
qed

lemma and_single_bit: "k < LENGTH('a) \<Longrightarrow> w AND 2 ^ k = (if bit w k then 2 ^ k else 0)" for w :: "'a::len word"
  by (rule bit_word_eqI) (auto simp: bit_and_iff)

lemma header_flags: "stream_flags (of_bool (flags AND GRPC_WRITE_INTERNAL_COMPRESS \<noteq> 0)) = flags AND GRPC_WRITE_INTERNAL_COMPRESS"
proof -
  have c: "GRPC_WRITE_INTERNAL_COMPRESS = 2 ^ 31" by (simp add: GRPC_WRITE_INTERNAL_COMPRESS_def)
  show ?thesis using and_single_bit [of 31 flags] by (auto simp: stream_flags_def c split: if_splits)
qed

text \<open>Five bytes at the front of a message are its header.\<close>

lemma wire_message_header:
  assumes "[c, a, b, d, e] @ rest = wire_message m @ ys" "length (snd m) < 2 ^ 32"
  shows "rest = snd m @ ys" "rd32 a b d e = of_nat (length (snd m))" "stream_flags c = fst m AND GRPC_WRITE_INTERNAL_COMPRESS"
proof -
  let ?n = "of_nat (length (snd m)) :: u32"
  have n: "ucast (of_nat (length (snd m)) :: u64) = ?n"
    using assms(2) by (simp add: unsigned_of_nat take_bit_nat_eq_self)
  have "[c, a, b, d, e] @ rest = (of_bool (fst m AND GRPC_WRITE_INTERNAL_COMPRESS \<noteq> 0) # be32 ?n) @ snd m @ ys"
    using assms(1) by (simp add: wire_message_def message_header_be32 n)
  then show "rest = snd m @ ys" "rd32 a b d e = ?n" "stream_flags c = fst m AND GRPC_WRITE_INTERNAL_COMPRESS"
    using header_flags [of "fst m"] rd32_be32 [of ?n] by (auto simp: be32_def)
qed

lemma wire_first_byte: "prefix [c] (concat (map wire_message ms)) \<Longrightarrow> c = 0 \<or> c = 1"
  by (cases ms) (auto simp: wire_message_def message_header_def of_bool_def split: if_splits)

lemma wire_short:
  assumes "length (hdr @ rest) \<le> 4" "hdr @ rest = concat (map wire_message ms)"
  shows "ms = [] \<and> hdr = [] \<and> rest = []"
  using assms by (cases ms) (auto simp: wire_message_def message_header_def)

section \<open>The invariant\<close>

text \<open>Nobody has closed the stream or hit an error.\<close>

definition undisturbed :: "data_stream \<Rightarrow> bool" where
  "undisturbed s \<longleftrightarrow> \<not> read_closed s \<and> \<not> seen_error s \<and> published_trailing_metadata s = GRPC_METADATA_NOT_PUBLISHED \<and>
     byte_stream_error s = None \<and> failed_messages s = 0 \<and>
     small_slices (unprocessed_incoming_frames_buffer s) \<and> small_slices (frame_storage s)"

text \<open>Between two messages: the parser is in the header of the next one.  The stream of the last message may still wait to be
  destroyed; a request waits for its turn, or for more bytes.\<close>

definition between_messages :: "(u32 \<times> u8 list) list \<Rightarrow> nat \<Rightarrow> u8 list \<Rightarrow> data_stream \<Rightarrow> bool" where
  "between_messages ms n fut s \<longleftrightarrow> receiving_stream s = None \<and> exec_queue s = [] \<and> \<not> on_next s \<and> \<not> parsing_frame (data_parser s) \<and>
     (\<exists>hdr. hdr_state hdr (data_parser s) \<and> hdr @ buffered s @ fut = concat (map wire_message (drop n ms))) \<and>
     (combiner_queue s, pending_byte_stream s, recv_message_ready s) \<in>
       {([], False, False), ([OrphanLockedAction], True, False), ([OrphanLockedAction, RecvMessageOp], True, False),
        ([RecvMessageOp], False, False), ([], False, True)} \<and>
     (recv_message_ready s \<longrightarrow> buffered s = [])"

text \<open>Who has to move next while a message is being read, of which \<open>got\<close> bytes are collected.\<close>

definition reading :: "u32 \<times> u8 list \<Rightarrow> u8 list \<Rightarrow> data_stream \<Rightarrow> bool" where
  "reading m got s \<longleftrightarrow>
     (exec_queue s = [RecvMessageReady] \<and> combiner_queue s = [] \<and> \<not> on_next s \<and> got = [] \<and> receiving_stream s = None \<and>
        recv_message s = Some (of_nat (length (snd m)), fst (as_received m))) \<or>
     receiving_stream s = Some (of_nat (length (snd m)), fst (as_received m)) \<and> receiving_buffer s = got \<and>
       (exec_queue s = [ContinueReceiving] \<and> combiner_queue s = [] \<and> \<not> on_next s \<or>
        length got < length (snd m) \<and>
          (exec_queue s = [] \<and> (\<exists>k. combiner_queue s = [NextLockedAction k]) \<and> \<not> on_next s \<and> concat (unprocessed_incoming_frames_buffer s) = [] \<or>
           exec_queue s = [] \<and> combiner_queue s = [] \<and> on_next s \<and> buffered s = [] \<or>
           exec_queue s = [OnNext None] \<and> combiner_queue s = [] \<and> \<not> on_next s \<and> concat (unprocessed_incoming_frames_buffer s) \<noteq> []))"

definition missing :: "u32 \<times> u8 list \<Rightarrow> u8 list \<Rightarrow> u32" where
  "missing m got = of_nat (length (snd m) - length got)"

definition inside_message :: "(u32 \<times> u8 list) list \<Rightarrow> nat \<Rightarrow> u8 list \<Rightarrow> u8 list \<Rightarrow> data_stream \<Rightarrow> bool" where
  "inside_message ms n got fut s \<longleftrightarrow> n < length ms \<and> pending_byte_stream s \<and> \<not> recv_message_ready s \<and> length got \<le> length (snd (ms ! n)) \<and>
     got @ buffered s @ fut = snd (ms ! n) @ concat (map wire_message (drop (Suc n) ms)) \<and>
     remaining_bytes (byte_stream s) = missing (ms ! n) got \<and> body_state (missing (ms ! n) got) (data_parser s)"

definition recv_inv :: "(u32 \<times> u8 list) list \<Rightarrow> u8 list \<Rightarrow> data_stream \<Rightarrow> bool" where
  "recv_inv ms fut s \<longleftrightarrow> undisturbed s \<and> (\<exists>n \<le> length ms. received_messages s = map as_received (take n ms) \<and>
     (between_messages ms n fut s \<or> (\<exists>got. inside_message ms n got fut s \<and> reading (ms ! n) got s)))"

text \<open>Messages are shorter than 4 GiB: their length has four bytes.\<close>

definition messages_fit :: "(u32 \<times> u8 list) list \<Rightarrow> bool" where
  "messages_fit ms \<longleftrightarrow> list_all (\<lambda>m. length (snd m) < 2 ^ 32) ms"

lemma drop_nth_Cons: "drop n ms = m # ms' \<Longrightarrow> n < length ms \<and> m = ms ! n \<and> ms' = drop (Suc n) ms"
  by (metis Cons_nth_drop_Suc drop_all list.distinct(1) list.inject not_le)

text \<open>A found header begins the next message.\<close>

lemma open_message:
  assumes fit: "messages_fit ms" and n: "n \<le> length ms" and rec: "received_messages s = map as_received (take n ms)"
    and "searched bytes s0 s" "recv_message s \<noteq> None" "bytes @ fut = concat (map wire_message (drop n ms))" "undisturbed s"
    and "combiner_queue s0 = []" "exec_queue s0 = []" "\<not> on_next s0" "receiving_stream s0 = None"
  shows "recv_inv ms fut (s\<lparr>unprocessed_cached_length := k, recv_message_ready := False, exec_queue := [RecvMessageReady]\<rparr>)"
proof -
  obtain c a b d e where h: "recv_message s = Some (rd32 a b d e, stream_flags c)" "bytes = [c, a, b, d, e] @ buffered s" "pending_byte_stream s"
    "remaining_bytes (byte_stream s) = rd32 a b d e" "body_state (rd32 a b d e) (data_parser s)"
    using assms(4,5) by (auto simp: searched_def)
  obtain m ms' where "drop n ms = m # ms'" using assms(6) h(2) by (cases "drop n ms") auto
  then have m: "n < length ms" "m = ms ! n" "drop n ms = ms ! n # drop (Suc n) ms" using drop_nth_Cons [of n ms m ms'] by auto
  have len: "length (snd (ms ! n)) < 2 ^ 32" using fit m(1) by (simp add: messages_fit_def list_all_length)
  have "[c, a, b, d, e] @ buffered s @ fut = wire_message (ms ! n) @ concat (map wire_message (drop (Suc n) ms))"
    using assms(6) h(2) m(3) by simp
  note w = wire_message_header [OF this len]
  have env: "combiner_queue s = []" "exec_queue s = []" "\<not> on_next s" "receiving_stream s = None"
    using assms(4,8-11) by (simp_all add: searched_def recv_env_def)
  let ?s = "s\<lparr>unprocessed_cached_length := k, recv_message_ready := False, exec_queue := [RecvMessageReady]\<rparr>"
  have "inside_message ms n [] fut ?s" using m(1) h(3-5) w by (simp add: inside_message_def missing_def)
  moreover have "reading (ms ! n) [] ?s" using env h(1) w(2,3) by (simp add: reading_def as_received_def)
  moreover have "undisturbed ?s" using assms(7) by (simp add: undisturbed_def)
  ultimately show ?thesis unfolding recv_inv_def using n rec by (intro conjI exI [of _ n]) auto
qed

lemmas inv_defs = recv_inv_def undisturbed_def between_messages_def inside_message_def reading_def

lemma recv_inv_data_calls: "recv_inv ms fut (s\<lparr>data_calls := x\<rparr>) \<longleftrightarrow> recv_inv ms fut s"
  by (simp add: inv_defs)

text \<open>Answering a request.\<close>

lemma request_inv:
  assumes "messages_fit ms" "n \<le> length ms" "received_messages s = map as_received (take n ms)" "undisturbed s"
    and "receiving_stream s = None" "exec_queue s = []" "\<not> on_next s" "\<not> parsing_frame (data_parser s)" "hdr_state hdr (data_parser s)"
    and "hdr @ buffered s @ fut = concat (map wire_message (drop n ms))" "combiner_queue s = []" "\<not> pending_byte_stream s" "recv_message_ready s"
  shows "\<exists>s'. grpc_chttp2_maybe_complete_recv_message s = Some s' \<and> recv_inv ms fut s'"
proof -
  have "\<exists>s' k. searched (hdr @ buffered s) s s' \<and> grpc_chttp2_maybe_complete_recv_message s =
    Some (if recv_message s' = None then s'\<lparr>unprocessed_cached_length := k\<rparr>
          else s'\<lparr>unprocessed_cached_length := k, recv_message_ready := False, exec_queue := exec_queue s @ [RecvMessageReady]\<rparr>)"
  proof (rule maybe_complete_request)
    show "c = 0 \<or> c = 1" if "prefix [c] (hdr @ buffered s)" for c
    proof (rule wire_first_byte)
      show "prefix [c] (concat (map wire_message (drop n ms)))" using that assms(10) by (metis append.assoc prefix_def)
    qed
  qed (use assms in \<open>simp_all add: undisturbed_def\<close>)
  then obtain s' k where s': "searched (hdr @ buffered s) s s'" "grpc_chttp2_maybe_complete_recv_message s =
    Some (if recv_message s' = None then s'\<lparr>unprocessed_cached_length := k\<rparr>
          else s'\<lparr>unprocessed_cached_length := k, recv_message_ready := False, exec_queue := [RecvMessageReady]\<rparr>)"
    unfolding assms(6) append_Nil by blast
  have env: "recv_env s' = recv_env s" and und: "undisturbed s'"
    using s'(1) assms(4) by (auto simp: searched_def undisturbed_def recv_env_def)
  show ?thesis
  proof (cases "recv_message s' = None")
    case True
    then have h: "buffered s' = []" "\<not> pending_byte_stream s'" "\<not> parsing_frame (data_parser s')" "hdr_state (hdr @ buffered s) (data_parser s')"
      using s'(1) by (auto simp: searched_def)
    then have e: "concat (unprocessed_incoming_frames_buffer s') = []" "concat (frame_storage s') = []" by simp_all
    have "between_messages ms n fut (s'\<lparr>unprocessed_cached_length := k\<rparr>)"
      unfolding between_messages_def using h(2-4) e env assms(5-7,10-13)
      by (intro conjI exI [of _ "hdr @ buffered s"]) (simp_all add: recv_env_def del: concat_eq_Nil_conv)
    then have "recv_inv ms fut (s'\<lparr>unprocessed_cached_length := k\<rparr>)"
      unfolding recv_inv_def using und env assms(2,3) by (intro conjI exI [of _ n] disjI1) (simp_all add: undisturbed_def recv_env_def)
    with True s'(2) show ?thesis by simp
  next
    case False
    have "received_messages s' = map as_received (take n ms)" using env assms(3) by (simp add: recv_env_def)
    from open_message [OF assms(1,2) this s'(1) False _ und] assms s'(2) False show ?thesis by simp
  qed
qed

text \<open>A slice that is only stored.\<close>

abbreviation store_slice :: "u8 list \<Rightarrow> data_stream \<Rightarrow> data_stream" where
  "store_slice sl s \<equiv> s\<lparr>frame_storage := frame_storage s @ [sl]\<rparr>"

lemma store_slice_inv:
  assumes "recv_inv ms (sl @ fut) s" "length sl < 2 ^ 32" "\<not> recv_message_ready s" "\<not> on_next s"
  shows "recv_inv ms fut (store_slice sl s)"
proof -
  obtain n where n: "undisturbed s" "n \<le> length ms" "received_messages s = map as_received (take n ms)"
    "between_messages ms n (sl @ fut) s \<or> (\<exists>got. inside_message ms n got (sl @ fut) s \<and> reading (ms ! n) got s)"
    using assms(1) by (auto simp: recv_inv_def)
  have "undisturbed (store_slice sl s)" using n(1) assms(2) by (simp add: undisturbed_def small_slices_def)
  moreover have "between_messages ms n fut (store_slice sl s)" if "between_messages ms n (sl @ fut) s"
    using that assms(3) by (simp add: between_messages_def)
  moreover have "inside_message ms n got fut (store_slice sl s)" if "inside_message ms n got (sl @ fut) s" for got
    using that by (simp add: inside_message_def)
  moreover have "reading (ms ! n) got (store_slice sl s)" if "reading (ms ! n) got s" for got
    using that assms(4) by (simp add: reading_def)
  ultimately show ?thesis using n(2-4) unfolding recv_inv_def by (intro conjI exI [of _ n]) auto
qed

lemma arrive_inv:
  assumes fit: "messages_fit ms" and inv: "recv_inv ms (sl @ fut) s" and sl: "length sl < 2 ^ 32" "on_next s \<longrightarrow> sl \<noteq> []"
  shows "\<exists>s'. grpc_chttp2_data_parser_parse sl is_last s = Some s' \<and> recv_inv ms fut s'"
proof -
  obtain n where n: "undisturbed s" "n \<le> length ms" "received_messages s = map as_received (take n ms)"
    "between_messages ms n (sl @ fut) s \<or> (\<exists>got. inside_message ms n got (sl @ fut) s \<and> reading (ms ! n) got s)"
    using inv by (auto simp: recv_inv_def)
  let ?body = "if \<not> pending_byte_stream s then grpc_chttp2_maybe_complete_recv_message (store_slice sl s)
     else if on_next s then
       (if slices_length (frame_storage s) \<noteq> 0 then None
        else Some (exec_run (OnNext None) (s\<lparr>unprocessed_incoming_frames_buffer := unprocessed_incoming_frames_buffer s @ [sl], on_next := False\<rparr>)))
     else Some (store_slice sl s)"
  have "\<exists>s'. ?body = Some s' \<and> recv_inv ms fut s'"
  proof (cases "recv_message_ready s")
    case True
    then have b: "between_messages ms n (sl @ fut) s" using n(4) by (auto simp: inside_message_def)
    then obtain hdr where hdr: "hdr_state hdr (data_parser s)" "hdr @ buffered s @ sl @ fut = concat (map wire_message (drop n ms))"
      by (auto simp: between_messages_def)
    have "\<exists>s'. grpc_chttp2_maybe_complete_recv_message (store_slice sl s) = Some s' \<and> recv_inv ms fut s'"
      by (rule request_inv [of _ n _ hdr, OF fit n(2)])
        (use n b hdr True sl in \<open>auto simp: between_messages_def undisturbed_def small_slices_def\<close>)
    then show ?thesis using b True by (auto simp: between_messages_def)
  next
    case False
    show ?thesis
    proof (cases "on_next s")
      case True
      then obtain got where got: "inside_message ms n got (sl @ fut) s" "reading (ms ! n) got s"
        using n(4) by (auto simp: between_messages_def)
      have r: "exec_queue s = []" "combiner_queue s = []" "buffered s = []" "length got < length (snd (ms ! n))"
        "receiving_stream s = Some (of_nat (length (snd (ms ! n))), fst (as_received (ms ! n)))" "receiving_buffer s = got"
        using got(2) True unfolding reading_def by blast+
      then have "slices_length (frame_storage s) = 0" "concat (unprocessed_incoming_frames_buffer s) = []" "concat (frame_storage s) = []" by auto
      moreover have "recv_inv ms fut (exec_run (OnNext None)
          (s\<lparr>unprocessed_incoming_frames_buffer := unprocessed_incoming_frames_buffer s @ [sl], on_next := False\<rparr>))"
        unfolding recv_inv_def
        using n(1-3) got(1) r sl True
        by (intro conjI exI [of _ n] disjI2 exI [of _ got])
          (simp_all add: undisturbed_def inside_message_def reading_def small_slices_def del: concat_eq_Nil_conv)
      ultimately show ?thesis using got(1) True by (simp add: inside_message_def)
    next
      case False
      then show ?thesis using store_slice_inv [OF inv sl(1) \<open>\<not> recv_message_ready s\<close>] maybe_complete_no_request [of "store_slice sl s"]
        \<open>\<not> recv_message_ready s\<close> by auto
    qed
  qed
  then obtain s' where "?body = Some s'" "recv_inv ms fut s'" by blast
  then show ?thesis unfolding grpc_chttp2_data_parser_parse_def by (simp add: recv_inv_data_calls)
qed

text \<open>Pulling a slice adds to what is collected.\<close>

lemma pull_inv:
  assumes "messages_fit ms" "undisturbed s" "inside_message ms n got fut s" "concat (unprocessed_incoming_frames_buffer s) \<noteq> []"
    and "length got < length (snd (ms ! n))"
  shows "\<exists>chunk s'. Pull s = Some (None, Some chunk, s') \<and> inside_message ms n (got @ chunk) fut s' \<and> recv_env s' = recv_env s \<and> undisturbed s'"
proof -
  let ?n = "missing (ms ! n) got"
  have len: "length (snd (ms ! n)) < 2 ^ 32" using assms(1,3) by (simp add: messages_fit_def list_all_length inside_message_def)
  then have u: "unat ?n = length (snd (ms ! n)) - length got"
    unfolding missing_def unsigned_of_nat by (simp add: take_bit_nat_eq_self)
  have n: "unat ?n = length (snd (ms ! n)) - length got" "?n \<noteq> 0" using u assms(5) by auto
  have "body_result ?n (unprocessed_incoming_frames_buffer s) s (deframe True False (unprocessed_incoming_frames_buffer s) s)"
    by (rule deframe_body) (use assms n in \<open>simp_all add: inside_message_def undisturbed_def\<close>)
  then obtain chunk rest p db where d: "deframe True False (unprocessed_incoming_frames_buffer s) s = Some (None, Some chunk, None, rest,
       s\<lparr>data_parser := p, data_bytes := db, byte_stream := (byte_stream s)\<lparr>remaining_bytes := ?n - of_nat (length chunk)\<rparr>\<rparr>)"
     "chunk \<noteq> []" "length chunk \<le> unat ?n" "chunk @ concat rest = concat (unprocessed_incoming_frames_buffer s)" "small_slices rest"
     "body_state (?n - of_nat (length chunk)) p"
    unfolding body_result_def by blast
  have m: "?n - of_nat (length chunk) = missing (ms ! n) (got @ chunk)"
    using d(3) n(1) assms(5) by (simp add: missing_def)
  define s' where "s' = s\<lparr>data_parser := p, data_bytes := db, byte_stream := (byte_stream s)\<lparr>remaining_bytes := missing (ms ! n) (got @ chunk)\<rparr>,
    unprocessed_incoming_frames_buffer := rest\<rparr>"
  have "Pull s = Some (None, Some chunk, s')" using assms(4) d(1) m by (simp add: Pull_def s'_def)
  moreover have "got @ chunk @ concat rest @ concat (frame_storage s) @ fut = snd (ms ! n) @ concat (map wire_message (drop (Suc n) ms))"
    using assms(3) unfolding inside_message_def d(4) [symmetric] by simp
  then have "inside_message ms n (got @ chunk) fut s'"
    using assms(3,5) d(3,6) n(1) unfolding m by (simp add: inside_message_def s'_def)
  moreover have "recv_env s' = recv_env s" "undisturbed s'" using assms(2) d(5) by (simp_all add: s'_def recv_env_def undisturbed_def)
  ultimately show ?thesis by blast
qed

text \<open>A turn of the call's loop.\<close>

lemma continue_inv:
  assumes fit: "messages_fit ms" and und: "undisturbed s" and ins: "inside_message ms n got fut s"
    and rec: "received_messages s = map as_received (take n ms)"
    and st: "receiving_stream s = Some (of_nat (length (snd (ms ! n))), fst (as_received (ms ! n)))" "receiving_buffer s = got"
    and q: "exec_queue s = []" "combiner_queue s = []" "\<not> on_next s"
  shows "\<exists>s'. continue_receiving_slices s = Some s' \<and> recv_inv ms fut s'"
proof -
  have n: "n < length ms" "length got \<le> length (snd (ms ! n))" "pending_byte_stream s" "\<not> recv_message_ready s"
    "got @ buffered s @ fut = snd (ms ! n) @ concat (map wire_message (drop (Suc n) ms))" using ins by (simp_all add: inside_message_def)
  have "length (snd (ms ! n)) < 2 ^ 32" using fit n(1) by (simp add: messages_fit_def list_all_length)
  then have u: "unat (of_nat (length (snd (ms ! n))) :: u32) = length (snd (ms ! n))" by (simp add: unsigned_of_nat take_bit_nat_eq_self)
  show ?thesis
  proof (cases "length got = length (snd (ms ! n))")
    case True
    then have got: "got = snd (ms ! n)" "buffered s @ fut = concat (map wire_message (drop (Suc n) ms))"
      using n(5) by (metis append_eq_append_conv)+
    define s' where "s' = (Orphan s)\<lparr>received_messages := received_messages s @ [as_received (ms ! n)], receiving_buffer := []\<rparr>"
    have "continue_receiving_slices s = Some s'"
      using st u True got(1) by (simp add: continue_receiving_slices_def s'_def Orphan_def as_received_def)
    moreover have "received_messages s' = map as_received (take (Suc n) ms)"
      using rec n(1) by (simp add: s'_def Orphan_def take_Suc_conv_app_nth)
    moreover have "between_messages ms (Suc n) fut s'"
      unfolding between_messages_def
      by (intro conjI exI [of _ "[]"]) (use ins True n q got(2) in \<open>simp_all add: s'_def Orphan_def inside_message_def missing_def body_state_def\<close>)
    moreover have "undisturbed s'" using und by (simp add: s'_def Orphan_def undisturbed_def)
    ultimately show ?thesis using n(1) unfolding recv_inv_def by (intro exI [of _ s'] conjI exI [of _ "Suc n"]) auto
  next
    case False
    then have less: "length got < length (snd (ms ! n))" using n(2) by simp
    show ?thesis
    proof (cases "concat (unprocessed_incoming_frames_buffer s) = []")
      case True
      let ?s = "combiner_run (NextLockedAction (length (snd (ms ! n)) - length got)) s"
      have "continue_receiving_slices s = Some ?s"
        using st u False True by (simp add: continue_receiving_slices_def ByteStream_Next_def del: concat_eq_Nil_conv)
      moreover have "undisturbed ?s" "inside_message ms n got fut ?s" using und ins by (simp_all add: undisturbed_def inside_message_def)
      moreover have "reading (ms ! n) got ?s" using st q less True by (simp add: reading_def del: concat_eq_Nil_conv)
      ultimately show ?thesis using n(1) rec unfolding recv_inv_def by (intro exI [of _ ?s] conjI exI [of _ n]) auto
    next
      case nonempty: False
      obtain chunk s1 where p: "Pull s = Some (None, Some chunk, s1)" "inside_message ms n (got @ chunk) fut s1" "recv_env s1 = recv_env s" "undisturbed s1"
        using pull_inv [OF fit und ins nonempty less] by blast
      define s' where "s' = exec_run ContinueReceiving (take_slice (Some chunk) s1)"
      have "continue_receiving_slices s = Some s'"
        using st u False nonempty p(1) by (simp add: continue_receiving_slices_def ByteStream_Next_def s'_def)
      moreover have "undisturbed s'" "inside_message ms n (got @ chunk) fut s'"
        using p(2,4) by (simp_all add: s'_def take_slice_def undisturbed_def inside_message_def)
      moreover have "reading (ms ! n) (got @ chunk) s'" "received_messages s' = map as_received (take n ms)"
        using st q p(3) rec by (simp_all add: reading_def s'_def take_slice_def recv_env_def)
      ultimately show ?thesis using n(1) unfolding recv_inv_def by (intro exI [of _ s'] conjI exI [of _ n]) auto
    qed
  qed
qed

lemma exec_inv:
  assumes fit: "messages_fit ms" and inv: "recv_inv ms fut s"
  shows "\<exists>s'. recv_step RunExec s = Some s' \<and> recv_inv ms fut s'"
proof (cases "exec_queue s")
  case Nil
  then show ?thesis using inv by simp
next
  case (Cons c cs)
  from inv Cons obtain n got where n: "undisturbed s" "n \<le> length ms" "received_messages s = map as_received (take n ms)"
    "inside_message ms n got fut s" "reading (ms ! n) got s" by (auto simp: recv_inv_def between_messages_def)
  let ?s = "s\<lparr>exec_queue := cs\<rparr>"
  have s: "undisturbed ?s" "inside_message ms n got fut ?s" "received_messages ?s = map as_received (take n ms)"
    using n by (simp_all add: undisturbed_def inside_message_def)
  from n(5) Cons consider
    "c = RecvMessageReady" "cs = []" "combiner_queue s = []" "\<not> on_next s" "got = []"
      "recv_message s = Some (of_nat (length (snd (ms ! n))), fst (as_received (ms ! n)))"
  | "c = ContinueReceiving" "cs = []" "combiner_queue s = []" "\<not> on_next s" "receiving_buffer s = got"
      "receiving_stream s = Some (of_nat (length (snd (ms ! n))), fst (as_received (ms ! n)))"
  | "c = OnNext None" "cs = []" "combiner_queue s = []" "\<not> on_next s" "receiving_buffer s = got"
      "receiving_stream s = Some (of_nat (length (snd (ms ! n))), fst (as_received (ms ! n)))"
      "length got < length (snd (ms ! n))" "concat (unprocessed_incoming_frames_buffer s) \<noteq> []"
    unfolding reading_def by auto
  then show ?thesis
  proof cases
    case 1
    let ?s' = "?s\<lparr>receiving_stream := Some (of_nat (length (snd (ms ! n))), fst (as_received (ms ! n))), receiving_buffer := []\<rparr>"
    have "\<exists>s'. continue_receiving_slices ?s' = Some s' \<and> recv_inv ms fut s'"
      by (rule continue_inv [OF fit, of _ n got]) (use 1 s in \<open>simp_all add: undisturbed_def inside_message_def\<close>)
    then show ?thesis using Cons 1 by (simp add: process_data_after_md_def)
  next
    case 2
    have "\<exists>s'. continue_receiving_slices ?s = Some s' \<and> recv_inv ms fut s'"
      by (rule continue_inv [OF fit s(1,2,3)]) (use 2 in simp_all)
    then show ?thesis using Cons 2 by simp
  next
    case 3
    obtain chunk s1 where p: "Pull ?s = Some (None, Some chunk, s1)" "inside_message ms n (got @ chunk) fut s1" "recv_env s1 = recv_env ?s" "undisturbed s1"
      using pull_inv [OF fit s(1,2)] 3(7,8) by auto
    let ?s' = "take_slice (Some chunk) s1"
    have "\<exists>s'. continue_receiving_slices ?s' = Some s' \<and> recv_inv ms fut s'"
      by (rule continue_inv [OF fit, of _ n "got @ chunk"])
        (use p 3 n(3) in \<open>simp_all add: take_slice_def undisturbed_def inside_message_def recv_env_def\<close>)
    then show ?thesis using Cons 3(1) p(1) by (simp add: receiving_slice_ready_def)
  qed
qed

lemma next_locked_inv:
  assumes inv: "recv_inv ms fut s" and q: "combiner_queue s = NextLockedAction k # cs"
  shows "\<exists>s'. NextLocked k (s\<lparr>combiner_queue := cs\<rparr>) = Some s' \<and> recv_inv ms fut s'"
proof -
  from inv q obtain n got where n: "undisturbed s" "n \<le> length ms" "received_messages s = map as_received (take n ms)"
    "inside_message ms n got fut s" "reading (ms ! n) got s" by (auto simp: recv_inv_def between_messages_def)
  from n(5) q have r: "cs = []" "exec_queue s = []" "\<not> on_next s" "concat (unprocessed_incoming_frames_buffer s) = []" "length got < length (snd (ms ! n))"
    "receiving_buffer s = got" "receiving_stream s = Some (of_nat (length (snd (ms ! n))), fst (as_received (ms ! n)))"
    unfolding reading_def by auto
  define s1 where "s1 = s\<lparr>combiner_queue := [], data_calls := data_calls s @ [IncomingByteStreamUpdateCall k (slices_length (frame_storage s))]\<rparr>"
  have s1: "concat (unprocessed_incoming_frames_buffer s1) = []" "frame_storage s1 = frame_storage s" "byte_stream_error s1 = None" "\<not> read_closed s1"
    using r(4) n(1) by (simp_all add: s1_def undisturbed_def del: concat_eq_Nil_conv)
  show ?thesis
  proof (cases "concat (frame_storage s) = []")
    case True
    have "NextLocked k (s\<lparr>combiner_queue := cs\<rparr>) = Some (s1\<lparr>on_next := True\<rparr>)"
      using r(1) s1 n(1) True unfolding NextLocked_def s1_def by (simp add: undisturbed_def Let_def del: concat_eq_Nil_conv)
    moreover have "recv_inv ms fut (s1\<lparr>on_next := True\<rparr>)"
      unfolding recv_inv_def by (intro conjI exI [of _ n] disjI2 exI [of _ got])
        (use n r True in \<open>simp_all add: s1_def undisturbed_def inside_message_def reading_def del: concat_eq_Nil_conv\<close>)
    ultimately show ?thesis by blast
  next
    case False
    let ?s = "exec_run (OnNext None) (s1\<lparr>unprocessed_incoming_frames_buffer := frame_storage s, frame_storage := unprocessed_incoming_frames_buffer s\<rparr>)"
    have "NextLocked k (s\<lparr>combiner_queue := cs\<rparr>) = Some ?s"
      using r(1) s1 n(1) False unfolding NextLocked_def s1_def by (simp add: undisturbed_def Let_def del: concat_eq_Nil_conv)
    moreover have "recv_inv ms fut ?s"
      unfolding recv_inv_def by (intro conjI exI [of _ n] disjI2 exI [of _ got])
        (use n r False in \<open>simp_all add: s1_def undisturbed_def inside_message_def reading_def del: concat_eq_Nil_conv\<close>)
    ultimately show ?thesis by blast
  qed
qed

lemma combiner_inv:
  assumes fit: "messages_fit ms" and inv: "recv_inv ms fut s"
  shows "\<exists>s'. recv_step RunCombiner s = Some s' \<and> recv_inv ms fut s'"
proof (cases "combiner_queue s")
  case Nil
  then show ?thesis using inv by simp
next
  case (Cons c cs)
  show ?thesis
  proof (cases "\<exists>k. c = NextLockedAction k")
    case True
    then show ?thesis using next_locked_inv [OF inv] Cons by auto
  next
    case False
    then obtain n hdr where n: "undisturbed s" "n \<le> length ms" "received_messages s = map as_received (take n ms)" "between_messages ms n fut s"
      "hdr_state hdr (data_parser s)" "hdr @ buffered s @ fut = concat (map wire_message (drop n ms))"
      using inv Cons unfolding recv_inv_def by (auto simp: reading_def between_messages_def)
    from n(4) Cons consider "c = OrphanLockedAction" "cs = [] \<or> cs = [RecvMessageOp]" "\<not> recv_message_ready s"
      | "c = RecvMessageOp" "cs = []" "\<not> recv_message_ready s" "\<not> pending_byte_stream s" unfolding between_messages_def by auto
    then show ?thesis
    proof cases
      case 1
      let ?s = "s\<lparr>combiner_queue := cs, pending_byte_stream := False\<rparr>"
      have "recv_step RunCombiner s = Some ?s"
        using Cons 1 n(1) by (simp add: OrphanLocked_def maybe_complete_no_request grpc_chttp2_maybe_complete_recv_trailing_metadata_def undisturbed_def)
      moreover have "recv_inv ms fut ?s"
        unfolding recv_inv_def by (intro conjI exI [of _ n] disjI1) (use n 1 in \<open>auto simp: undisturbed_def between_messages_def\<close>)
      ultimately show ?thesis by blast
    next
      case 2
      have "\<exists>s'. grpc_chttp2_maybe_complete_recv_message (s\<lparr>combiner_queue := [], recv_message_ready := True\<rparr>) = Some s' \<and> recv_inv ms fut s'"
        by (rule request_inv [OF fit n(2), of _ hdr]) (use n 2 in \<open>simp_all add: undisturbed_def between_messages_def\<close>)
      then show ?thesis using Cons 2 by (auto simp: recv_message_op_def recv_inv_data_calls)
    qed
  qed
qed

section \<open>Runs\<close>

text \<open>A state of the receive path and the bytes that have arrived.  The call asks for a message only when it is idle; while the transport owes it
  a slice, an empty slice must not arrive (the theorem at the end shows why).\<close>

definition recv_enabled :: "recv_event \<Rightarrow> data_stream \<Rightarrow> bool" where
  "recv_enabled ev s \<longleftrightarrow> (case ev of
       ArriveSlice sl is_last \<Rightarrow> length sl < 2 ^ 32 \<and> (on_next s \<longrightarrow> sl \<noteq> [])
     | StartReceive \<Rightarrow> receiving_stream s = None \<and> exec_queue s = [] \<and> \<not> recv_message_ready s \<and> RecvMessageOp \<notin> set (combiner_queue s)
     | _ \<Rightarrow> True)"

fun arrived_bytes :: "recv_event \<Rightarrow> u8 list" where
  "arrived_bytes (ArriveSlice sl is_last) = sl"
| "arrived_bytes _ = []"

definition fresh_data_stream :: data_stream where
  "fresh_data_stream =
     \<lparr>ds_is_client = True, ds_id = 1,
      data_parser = \<lparr>dp_state = GRPC_CHTTP2_DATA_FH_0, dp_frame_type = 0, dp_frame_size = 0, dp_error = None, is_frame_compressed = False, parsing_frame = False\<rparr>,
      byte_stream = \<lparr>bs_length = 0, bs_flags = 0, remaining_bytes = 0\<rparr>, byte_stream_error = None, frame_storage = [],
      unprocessed_incoming_frames_buffer = [], unprocessed_cached_length = 0, pending_byte_stream = False, on_next = False,
      recv_message_ready = False, recv_message = None, call_failed_before_recv_message = None, received_last_frame = False,
      eos_received = False, read_closed = False, write_closed = False, seen_error = False, final_metadata_requested = False,
      published_trailing_metadata = GRPC_METADATA_NOT_PUBLISHED, recv_trailing_metadata_finished = False, framing_bytes = 0, data_bytes = 0,
      combiner_queue = [], exec_queue = [], data_calls = [], receiving_stream = None, receiving_buffer = [], received_messages = [],
      failed_messages = 0\<rparr>"

inductive recv_reachable :: "u8 list \<Rightarrow> data_stream crashable \<Rightarrow> bool" where
  fresh: "recv_reachable [] (Some fresh_data_stream)"
| event: "recv_reachable bytes (Some s) \<Longrightarrow> recv_enabled ev s \<Longrightarrow> recv_reachable (bytes @ arrived_bytes ev) (recv_step ev s)"

lemma start_inv:
  assumes "recv_inv ms fut s" "recv_enabled StartReceive s"
  shows "recv_inv ms fut (combiner_run RecvMessageOp s)"
  using assms unfolding recv_inv_def
  by (auto simp: recv_enabled_def undisturbed_def between_messages_def reading_def)

lemma step_inv:
  assumes "messages_fit ms" "recv_inv ms (arrived_bytes ev @ fut) s" "recv_enabled ev s"
  shows "\<exists>s'. recv_step ev s = Some s' \<and> recv_inv ms fut s'"
  using assms arrive_inv exec_inv combiner_inv start_inv by (cases ev) (auto simp: recv_enabled_def)

lemma reachable_inv:
  assumes "recv_reachable bytes r" "messages_fit ms" "bytes @ fut = concat (map wire_message ms)"
  shows "\<exists>s. r = Some s \<and> recv_inv ms fut s"
  using assms
proof (induction arbitrary: fut rule: recv_reachable.induct)
  case fresh
  have "recv_inv ms fut fresh_data_stream" unfolding recv_inv_def
    by (intro conjI exI [of _ 0] disjI1) (use fresh in \<open>auto simp: fresh_data_stream_def undisturbed_def between_messages_def small_slices_def intro: exI [of _ "[]"]\<close>)
  then show ?case by blast
next
  case (event bytes s ev)
  then show ?case using step_inv [of ms ev fut s] by auto
qed

lemma inside_prefix:
  assumes "got @ xs = pl @ ys" "length got \<le> length pl"
  shows "prefix got pl"
  using assms by (metis prefixI prefix_length_prefix)


text \<open>Runs of enabled events, for concrete evaluations.\<close>

definition recv_run :: "recv_event list \<Rightarrow> data_stream \<Rightarrow> data_stream crashable" where
  "recv_run = fold_opt (\<lambda>ev s. if recv_enabled ev s then recv_step ev s else None)"

lemma recv_run_reachable:
  assumes "recv_reachable bytes (Some s)" "recv_run evs s = Some s'"
  shows "recv_reachable (bytes @ concat (map arrived_bytes evs)) (Some s')"
  using assms
proof (induction evs arbitrary: bytes s)
  case (Cons ev evs)
  then obtain s1 where "recv_enabled ev s" "recv_step ev s = Some s1" "recv_run evs s1 = Some s'"
    by (auto simp: recv_run_def split: if_splits option.splits)
  then show ?case using Cons.IH [of "bytes @ arrived_bytes ev" s1] recv_reachable.event [OF Cons.prems(1)] by force
qed (simp add: recv_run_def)

definition demo_events :: "recv_event list" where
  "demo_events = [StartReceive, ArriveSlice [1, 0, 0] False, RunCombiner, ArriveSlice [0, 3, 7] False, RunExec, RunExec, RunCombiner,
     ArriveSlice [8, 9, 0, 0] True, RunExec, RunCombiner, StartReceive, RunCombiner]"

lemma demo_run:
  "\<exists>s. recv_run demo_events fresh_data_stream = Some s \<and> received_messages s = [(0x80000000, [7, 8, 9])] \<and> recv_message_ready s"
  by (simp add: demo_events_def recv_run_def recv_enabled_def fresh_data_stream_def grpc_chttp2_data_parser_parse_def recv_message_op_def
     grpc_chttp2_maybe_complete_recv_message_def recv_message_loop.simps deframe_switch_def data_fh_0_def data_fh_1_def data_fh_2_def data_fh_3_def
     data_fh_4_def data_frame_def new_byte_stream_def Finished_def Push_def process_data_after_md_def continue_receiving_slices_def ByteStream_Next_def Pull_def
     take_slice_def NextLocked_def receiving_slice_ready_def Orphan_def OrphanLocked_def grpc_chttp2_maybe_complete_recv_trailing_metadata_def
     GRPC_HEADER_SIZE_IN_BYTES_nat_def GRPC_WRITE_INTERNAL_COMPRESS_def Let_def)

lemma demo_reachable:
  "\<exists>s. recv_run demo_events fresh_data_stream = Some s \<and> recv_reachable [1, 0, 0, 0, 3, 7, 8, 9, 0, 0] (Some s) \<and> recv_message_ready s"
  using demo_run recv_run_reachable [OF recv_reachable.fresh, of demo_events] by (force simp: demo_events_def)


section \<open>An empty DATA frame\<close>

text \<open>When the call waits for the next slice of a message, a DATA frame without payload wakes it with nothing to pull, although more of the
  message may follow: the pull reports a truncated message, the message is dropped and a reset of the byte stream, which cancels the
  call, is scheduled.\<close>

theorem empty_frame_truncates:
  assumes "on_next s" "pending_byte_stream s" "buffered s = []" "exec_queue s = []" "\<not> received_last_frame s"
  shows "\<exists>s1 s2. grpc_chttp2_data_parser_parse [] True s = Some s1 \<and> recv_step RunExec s1 = Some s2 \<and>
    failed_messages s2 = failed_messages s + 1 \<and> ResetByteStreamAction TruncatedMessage \<in> set (combiner_queue s2)"
proof -
  have "concat (frame_storage s) = []" "concat (unprocessed_incoming_frames_buffer s) = []" using assms(3) by simp_all
  then show ?thesis using assms(1,2,4,5)
    by (simp add: grpc_chttp2_data_parser_parse_def receiving_slice_ready_def Pull_def drop_message_def Orphan_def)
qed

end
