(* ===== verification/Deframer.thy ===== *)
theory Deframer
  imports Frame_Codec
begin

text \<open>
  The read loop \<open>grpc_chttp2_perform_read\<close> of \<^verbatim>\<open>src/core/ext/transport/chttp2/transport/parsing.cc\<close>: it finds the connection preface and the
  frames in the slices that the endpoint delivers, whatever their sizes.  The loop is a function of what it calls: \<open>init_frame_parser\<close>
  at the end of a frame header, \<open>parse_frame_slice\<close> for every piece of payload, the limit on the frame size that the acknowledged
  settings give (none without flow control), and the reset of \<open>incoming_stream\<close>; the theory \<open>Frame_Dispatch\<close> has the code of the
  first two.  Both may fail an assertion (\<open>None\<close>) or return an error, and they leave the fields of the read loop alone.

  The specification reads frames instead of bytes.  The theorem says that every way of cutting the bytes of some frames into slices is a run of it.
\<close>

section \<open>Definitions\<close>

datatype deframe_state =
  GRPC_DTS_CLIENT_PREFIX nat
| GRPC_DTS_FH_0 | GRPC_DTS_FH_1 | GRPC_DTS_FH_2 | GRPC_DTS_FH_3 | GRPC_DTS_FH_4
| GRPC_DTS_FH_5 | GRPC_DTS_FH_6 | GRPC_DTS_FH_7 | GRPC_DTS_FH_8
| GRPC_DTS_FRAME

record frame_header =
  incoming_frame_size :: u32
  incoming_frame_type :: u8
  incoming_frame_flags :: u8
  incoming_frame_stream :: u32

text \<open>\<open>"PRI * HTTP/2.0\r\n\r\nSM\r\n\r\n"\<close>.\<close>

definition GRPC_CHTTP2_CLIENT_CONNECT_STRING :: "u8 list" where
  "GRPC_CHTTP2_CLIENT_CONNECT_STRING =
     [80, 82, 73, 32, 42, 32, 72, 84, 84, 80, 47, 50, 46, 48, 13, 10, 13, 10, 83, 77, 13, 10, 13, 10]"

datatype 'e read_error =
  ConnectStringMismatch nat u8
| FrameTooLarge u32 u32
| FrameError 'e

record ('e, 'x) read_ops =
  init_frame :: "frame_header \<Rightarrow> 'x \<Rightarrow> ('e option \<times> 'x) crashable"
  parse_slice :: "frame_header \<Rightarrow> u8 list \<Rightarrow> bool \<Rightarrow> 'x \<Rightarrow> ('e option \<times> 'x) crashable"
  max_frame_size :: "'x \<Rightarrow> u32 option"
  forget_stream :: "'x \<Rightarrow> 'x"

type_synonym ('e, 'x) read_result = "('e read_error option \<times> deframe_state \<times> frame_header \<times> 'x) crashable"

definition next_prefix_state :: "nat \<Rightarrow> deframe_state" where
  "next_prefix_state i = (if i + 1 < length GRPC_CHTTP2_CLIENT_CONNECT_STRING then GRPC_DTS_CLIENT_PREFIX (i + 1) else GRPC_DTS_FH_0)"

text \<open>The code at a label: the bytes from \<open>cur\<close> on, the stored state and header, and the rest of the transport.  The stored state is only
  written where the source writes it.\<close>

function (sequential) read_at ::
    "('e, 'x) read_ops \<Rightarrow> deframe_state \<Rightarrow> u8 list \<Rightarrow> deframe_state \<Rightarrow> frame_header \<Rightarrow> 'x \<Rightarrow> ('e, 'x) read_result" where
  "read_at ops (GRPC_DTS_CLIENT_PREFIX i) [] st h x = Some (None, st, h, x)"
| "read_at ops (GRPC_DTS_CLIENT_PREFIX i) (b # bs) st h x =
     (if b \<noteq> GRPC_CHTTP2_CLIENT_CONNECT_STRING ! i then Some (Some (ConnectStringMismatch i b), st, h, x)
      else if next_prefix_state i = GRPC_DTS_FH_0 \<and> bs = [] then Some (None, GRPC_DTS_FH_0, h, x)
      else read_at ops (next_prefix_state i) bs (next_prefix_state i) h x)"
| "read_at ops pos [] st h x = None"
| "read_at ops GRPC_DTS_FH_0 (b # bs) st h x =
     (let h = h\<lparr>incoming_frame_size := push_bit 16 (ucast b)\<rparr> in
      if bs = [] then Some (None, GRPC_DTS_FH_1, h, x) else read_at ops GRPC_DTS_FH_1 bs st h x)"
| "read_at ops GRPC_DTS_FH_1 (b # bs) st h x =
     (let h = h\<lparr>incoming_frame_size := incoming_frame_size h OR push_bit 8 (ucast b)\<rparr> in
      if bs = [] then Some (None, GRPC_DTS_FH_2, h, x) else read_at ops GRPC_DTS_FH_2 bs st h x)"
| "read_at ops GRPC_DTS_FH_2 (b # bs) st h x =
     (let h = h\<lparr>incoming_frame_size := incoming_frame_size h OR ucast b\<rparr> in
      if bs = [] then Some (None, GRPC_DTS_FH_3, h, x) else read_at ops GRPC_DTS_FH_3 bs st h x)"
| "read_at ops GRPC_DTS_FH_3 (b # bs) st h x =
     (let h = h\<lparr>incoming_frame_type := b\<rparr> in
      if bs = [] then Some (None, GRPC_DTS_FH_4, h, x) else read_at ops GRPC_DTS_FH_4 bs st h x)"
| "read_at ops GRPC_DTS_FH_4 (b # bs) st h x =
     (let h = h\<lparr>incoming_frame_flags := b\<rparr> in
      if bs = [] then Some (None, GRPC_DTS_FH_5, h, x) else read_at ops GRPC_DTS_FH_5 bs st h x)"
| "read_at ops GRPC_DTS_FH_5 (b # bs) st h x =
     (let h = h\<lparr>incoming_frame_stream := push_bit 24 (ucast b AND 0x7f)\<rparr> in
      if bs = [] then Some (None, GRPC_DTS_FH_6, h, x) else read_at ops GRPC_DTS_FH_6 bs st h x)"
| "read_at ops GRPC_DTS_FH_6 (b # bs) st h x =
     (let h = h\<lparr>incoming_frame_stream := incoming_frame_stream h OR push_bit 16 (ucast b)\<rparr> in
      if bs = [] then Some (None, GRPC_DTS_FH_7, h, x) else read_at ops GRPC_DTS_FH_7 bs st h x)"
| "read_at ops GRPC_DTS_FH_7 (b # bs) st h x =
     (let h = h\<lparr>incoming_frame_stream := incoming_frame_stream h OR push_bit 8 (ucast b)\<rparr> in
      if bs = [] then Some (None, GRPC_DTS_FH_8, h, x) else read_at ops GRPC_DTS_FH_8 bs st h x)"
| "read_at ops GRPC_DTS_FH_8 (b # bs) st h x =
     (let h = h\<lparr>incoming_frame_stream := incoming_frame_stream h OR ucast b\<rparr> in
      case init_frame ops h x of
        None \<Rightarrow> None
      | Some (Some e, x1) \<Rightarrow> Some (Some (FrameError e), GRPC_DTS_FRAME, h, x1)
      | Some (None, x1) \<Rightarrow>
          if incoming_frame_size h = 0 then
            (case parse_slice ops h [] True x1 of
               None \<Rightarrow> None
             | Some (Some e, x2) \<Rightarrow> Some (Some (FrameError e), GRPC_DTS_FRAME, h, x2)
             | Some (None, x2) \<Rightarrow>
                 if bs = [] then Some (None, GRPC_DTS_FH_0, h, forget_stream ops x2)
                 else read_at ops GRPC_DTS_FH_0 bs GRPC_DTS_FRAME h (forget_stream ops x2))
          else (case max_frame_size ops x1 of
                  Some m \<Rightarrow>
                    if m < incoming_frame_size h then Some (Some (FrameTooLarge (incoming_frame_size h) m), GRPC_DTS_FRAME, h, x1)
                    else if bs = [] then Some (None, GRPC_DTS_FRAME, h, x1) else read_at ops GRPC_DTS_FRAME bs GRPC_DTS_FRAME h x1
                | None \<Rightarrow> if bs = [] then Some (None, GRPC_DTS_FRAME, h, x1) else read_at ops GRPC_DTS_FRAME bs GRPC_DTS_FRAME h x1))"
| "read_at ops GRPC_DTS_FRAME (b # bs) st h x =
     (let n = (of_nat (length (b # bs)) :: u32); size = incoming_frame_size h in
      if n = size then
        (case parse_slice ops h (b # bs) True x of
           None \<Rightarrow> None
         | Some (Some e, x1) \<Rightarrow> Some (Some (FrameError e), st, h, x1)
         | Some (None, x1) \<Rightarrow> Some (None, GRPC_DTS_FH_0, h, forget_stream ops x1))
      else if size < n then
        (case parse_slice ops h (take (unat size) (b # bs)) True x of
           None \<Rightarrow> None
         | Some (Some e, x1) \<Rightarrow> Some (Some (FrameError e), st, h, x1)
         | Some (None, x1) \<Rightarrow> read_at ops GRPC_DTS_FH_0 (drop (unat size) (b # bs)) st h (forget_stream ops x1))
      else
        (case parse_slice ops h (b # bs) False x of
           None \<Rightarrow> None
         | Some (Some e, x1) \<Rightarrow> Some (Some (FrameError e), st, h, x1)
         | Some (None, x1) \<Rightarrow> Some (None, st, h\<lparr>incoming_frame_size := size - n\<rparr>, x1)))"
  by pat_completeness auto
termination
  by (relation "measure (\<lambda>(ops, pos, bs, st, h, x). 2 * length bs + (if pos = GRPC_DTS_FRAME then 1 else 0))")
    auto

definition grpc_chttp2_perform_read ::
    "('e, 'x) read_ops \<Rightarrow> u8 list \<Rightarrow> deframe_state \<Rightarrow> frame_header \<Rightarrow> 'x \<Rightarrow> ('e, 'x) read_result" where
  "grpc_chttp2_perform_read ops sl st h x = (if sl = [] then Some (None, st, h, x) else read_at ops st sl st h x)"

text \<open>The loop of \<open>read_action_locked\<close> over the slices of a read; it stops at an error.\<close>

fun read_slices :: "('e, 'x) read_ops \<Rightarrow> u8 list list \<Rightarrow> deframe_state \<Rightarrow> frame_header \<Rightarrow> 'x \<Rightarrow> ('e, 'x) read_result" where
  "read_slices ops [] st h x = Some (None, st, h, x)"
| "read_slices ops (sl # sls) st h x =
     (case grpc_chttp2_perform_read ops sl st h x of
        None \<Rightarrow> None
      | Some (Some e, st1, h1, x1) \<Rightarrow> Some (Some e, st1, h1, x1)
      | Some (None, st1, h1, x1) \<Rightarrow> read_slices ops sls st1 h1 x1)"

section \<open>Reading frames\<close>

record http2_frame =
  fr_type :: u8
  fr_flags :: u8
  fr_stream :: u32
  fr_payload :: "u8 list"

definition frame_head :: "http2_frame \<Rightarrow> u8 list" where
  "frame_head f = be24 (of_nat (length (fr_payload f))) @ [fr_type f, fr_flags f] @ be32 (fr_stream f)"

definition frame_bytes :: "http2_frame \<Rightarrow> u8 list" where
  "frame_bytes f = frame_head f @ fr_payload f"

text \<open>The reserved bit of the stream id is ignored.\<close>

definition header_of :: "http2_frame \<Rightarrow> frame_header" where
  "header_of f = \<lparr>incoming_frame_size = of_nat (length (fr_payload f)), incoming_frame_type = fr_type f, incoming_frame_flags = fr_flags f,
     incoming_frame_stream = fr_stream f AND 0x7fffffff\<rparr>"

text \<open>A payload in pieces: only the last one is announced as such.  The size in the header is what remains.\<close>

fun run_payload :: "('e, 'x) read_ops \<Rightarrow> frame_header \<Rightarrow> u8 list list \<Rightarrow> 'x \<Rightarrow> ('e option \<times> 'x) crashable" where
  "run_payload ops h [] x = Some (None, x)"
| "run_payload ops h (c # cs) x =
     (case parse_slice ops h c (cs = []) x of
        None \<Rightarrow> None
      | Some (Some e, x1) \<Rightarrow> Some (Some e, x1)
      | Some (None, x1) \<Rightarrow> if cs = [] then Some (None, x1)
                           else run_payload ops (h\<lparr>incoming_frame_size := incoming_frame_size h - of_nat (length c)\<rparr>) cs x1)"

definition run_frame :: "('e, 'x) read_ops \<Rightarrow> http2_frame \<Rightarrow> u8 list list \<Rightarrow> 'x \<Rightarrow> ('e read_error option \<times> 'x) crashable" where
  "run_frame ops f chunks x =
     (case init_frame ops (header_of f) x of
        None \<Rightarrow> None
      | Some (Some e, x1) \<Rightarrow> Some (Some (FrameError e), x1)
      | Some (None, x1) \<Rightarrow>
          (case (if fr_payload f = [] then None else max_frame_size ops x1) of
             Some m \<Rightarrow> if m < of_nat (length (fr_payload f)) then Some (Some (FrameTooLarge (of_nat (length (fr_payload f))) m), x1)
                       else map_option (map_prod (map_option FrameError) id) (run_payload ops (header_of f) chunks x1)
           | None \<Rightarrow> map_option (map_prod (map_option FrameError) id) (run_payload ops (header_of f) chunks x1)))"

fun run_frames :: "('e, 'x) read_ops \<Rightarrow> (http2_frame \<times> u8 list list) list \<Rightarrow> 'x \<Rightarrow> ('e read_error option \<times> 'x) crashable" where
  "run_frames ops [] x = Some (None, x)"
| "run_frames ops ((f, chunks) # fs) x =
     (case run_frame ops f chunks x of
        None \<Rightarrow> None
      | Some (Some e, x1) \<Rightarrow> Some (Some e, x1)
      | Some (None, x1) \<Rightarrow> run_frames ops fs (forget_stream ops x1))"

text \<open>The pieces that are handed to the parser: for an empty payload one empty piece, otherwise non-empty pieces.\<close>

definition cut_into :: "u8 list \<Rightarrow> u8 list list \<Rightarrow> bool" where
  "cut_into payload chunks \<longleftrightarrow> concat chunks = payload \<and> chunks \<noteq> [] \<and> (payload \<noteq> [] \<longrightarrow> [] \<notin> set chunks) \<and> (payload = [] \<longrightarrow> chunks = [[]])"

lemma cut_into_whole: "cut_into p [p]"
  by (simp add: cut_into_def)

section \<open>Header bytes\<close>

definition fh :: "nat \<Rightarrow> deframe_state" where
  "fh k = [GRPC_DTS_FH_0, GRPC_DTS_FH_1, GRPC_DTS_FH_2, GRPC_DTS_FH_3, GRPC_DTS_FH_4, GRPC_DTS_FH_5, GRPC_DTS_FH_6, GRPC_DTS_FH_7, GRPC_DTS_FH_8] ! k"

definition absorb_fh :: "nat \<Rightarrow> u8 \<Rightarrow> frame_header \<Rightarrow> frame_header" where
  "absorb_fh k b h =
     [h\<lparr>incoming_frame_size := push_bit 16 (ucast b)\<rparr>,
      h\<lparr>incoming_frame_size := incoming_frame_size h OR push_bit 8 (ucast b)\<rparr>,
      h\<lparr>incoming_frame_size := incoming_frame_size h OR ucast b\<rparr>,
      h\<lparr>incoming_frame_type := b\<rparr>,
      h\<lparr>incoming_frame_flags := b\<rparr>,
      h\<lparr>incoming_frame_stream := push_bit 24 (ucast b AND 0x7f)\<rparr>,
      h\<lparr>incoming_frame_stream := incoming_frame_stream h OR push_bit 16 (ucast b)\<rparr>,
      h\<lparr>incoming_frame_stream := incoming_frame_stream h OR push_bit 8 (ucast b)\<rparr>,
      h\<lparr>incoming_frame_stream := incoming_frame_stream h OR ucast b\<rparr>] ! k"

lemma less_8_cases: "(k :: nat) < 8 \<Longrightarrow> k = 0 \<or> k = 1 \<or> k = 2 \<or> k = 3 \<or> k = 4 \<or> k = 5 \<or> k = 6 \<or> k = 7"
  by linarith

lemma read_at_fh:
  "k < 8 \<Longrightarrow> read_at ops (fh k) (b # bs) st h x =
     (if bs = [] then Some (None, fh (Suc k), absorb_fh k b h, x) else read_at ops (fh (Suc k)) bs st (absorb_fh k b h) x)"
  by (drule less_8_cases, elim disjE) (simp_all add: fh_def absorb_fh_def numeral_eq_Suc)

fun absorb_from :: "nat \<Rightarrow> u8 list \<Rightarrow> frame_header \<Rightarrow> frame_header" where
  "absorb_from k [] h = h"
| "absorb_from k (b # bs) h = absorb_from (Suc k) bs (absorb_fh k b h)"

lemma absorb_from_snoc: "absorb_from k (bs @ [b]) h = absorb_fh (k + length bs) b (absorb_from k bs h)"
  by (induction bs arbitrary: k h) auto

lemma length_frame_head [simp]: "length (frame_head f) = 9"
  by (simp add: frame_head_def)

lemma rd24_be24:
  assumes "w < 2 ^ 24"
  shows "push_bit 16 (ucast (ucast (drop_bit 16 w) :: u8)) OR push_bit 8 (ucast (ucast (drop_bit 8 w) :: u8)) OR ucast (ucast w :: u8) = (w :: u32)"
proof -
  have "unat w < 2 ^ 24" using assms by (simp add: word_less_nat_alt)
  then have small: "bit w n \<Longrightarrow> n < 24" for n using bit_nat_less [of "unat w" 24 n] by (simp add: bit_unsigned_iff)
  show ?thesis
  proof (rule bit_word_eqI)
    fix n assume "n < LENGTH(32)"
    show "bit (push_bit 16 (ucast (ucast (drop_bit 16 w) :: u8)) OR push_bit 8 (ucast (ucast (drop_bit 8 w) :: u8)) OR ucast (ucast w :: u8) :: u32) n = bit w n"
      using small [of n] by (auto simp: byte_simps)
  qed
qed

lemma rd31_be32:
  "push_bit 24 (ucast (ucast (drop_bit 24 w) :: u8) AND 0x7f) OR push_bit 16 (ucast (ucast (drop_bit 16 w) :: u8)) OR
    push_bit 8 (ucast (ucast (drop_bit 8 w) :: u8)) OR ucast (ucast w :: u8) = w AND 0x7fffffff" for w :: u32
proof -
  have m: "(0x7f :: u32) = mask 7" "(0x7fffffff :: u32) = mask 31" by (simp_all add: mask_eq_exp_minus_1)
  have top: "bit (push_bit 24 (mask 7) :: u32) n \<longleftrightarrow> 24 \<le> n \<and> n < 31" for n by (auto simp: bit_push_bit_iff bit_mask_iff)
  show ?thesis unfolding m by (rule bit_word_eqI) (auto simp: bit_or_iff top bit_shifted_byte bit_low_byte bit_and_iff bit_mask_iff)
qed

lemma absorb_frame_head:
  assumes "length (fr_payload f) < 2 ^ 24"
  shows "absorb_from 0 (frame_head f) h = header_of f"
proof -
  have "(of_nat (length (fr_payload f)) :: u32) < 2 ^ 24"
    using assms by (simp add: word_less_nat_alt unsigned_of_nat take_bit_nat_eq_self)
  from rd24_be24 [OF this] rd31_be32 [of "fr_stream f"] show ?thesis
    by (simp add: frame_head_def header_of_def be24_def be32_def absorb_fh_def numeral_eq_Suc or.assoc)
qed

section \<open>Simulation\<close>

text \<open>The rest of the current slice and the slices after it.\<close>

definition read_on ::
    "('e, 'x) read_ops \<Rightarrow> deframe_state \<Rightarrow> u8 list \<Rightarrow> u8 list list \<Rightarrow> deframe_state \<Rightarrow> frame_header \<Rightarrow> 'x \<Rightarrow> ('e read_error option \<times> 'x) crashable" where
  "read_on ops pos bs sls st h x =
     (case (if bs = [] then Some (None, pos, h, x) else read_at ops pos bs st h x) of
        None \<Rightarrow> None
      | Some (Some e, st1, h1, x1) \<Rightarrow> Some (Some e, x1)
      | Some (None, st1, h1, x1) \<Rightarrow> map_option (\<lambda>(e, st2, h2, x2). (e, x2)) (read_slices ops sls st1 h1 x1))"

lemma read_slices_on: "map_option (\<lambda>(e, st, h, x). (e, x)) (read_slices ops (sl # sls) st h x) = read_on ops st sl sls st h x"
  by (auto simp: read_on_def grpc_chttp2_perform_read_def split: option.splits prod.splits)

text \<open>At the end of a slice the next non-empty one is read.\<close>

lemma read_on_next:
  "concat sls \<noteq> [] \<Longrightarrow> \<exists>sl sls'. sl \<noteq> [] \<and> sl @ concat sls' = concat sls \<and> set (sl # sls') \<subseteq> set sls \<and>
     (\<forall>pos h x. read_on ops pos [] sls st h x = read_on ops pos sl sls' pos h x)"
proof (induction sls)
  case (Cons s ss)
  show ?case
  proof (cases "s = []")
    case True
    then have "read_on ops pos [] (s # ss) st h x = read_on ops pos [] ss st h x" for pos h x
      by (simp add: read_on_def grpc_chttp2_perform_read_def)
    then show ?thesis using Cons True by simp (metis subset_insertI2)
  next
    case False
    have "read_on ops pos [] (s # ss) st h x = read_on ops pos s ss pos h x" for pos h x
      using read_slices_on [of ops s ss pos h x] by (simp add: read_on_def)
    then show ?thesis using False by (intro exI [of _ s] exI [of _ ss]) auto
  qed
qed simp

lemma read_on_end: "concat sls = [] \<Longrightarrow> read_on ops pos [] sls st h x = Some (None, x)"
  by (induction sls) (auto simp: read_on_def grpc_chttp2_perform_read_def)

text \<open>What a state of the read loop still has to read: the rest of a frame header and frames, or the rest of a payload and frames.\<close>

definition frames_ok :: "http2_frame list \<Rightarrow> bool" where
  "frames_ok fs \<longleftrightarrow> list_all (\<lambda>f. length (fr_payload f) < 2 ^ 24) fs"

abbreviation all_bytes :: "http2_frame list \<Rightarrow> u8 list" where
  "all_bytes fs \<equiv> concat (map frame_bytes fs)"

definition cuts :: "http2_frame list \<Rightarrow> u8 list list list \<Rightarrow> bool" where
  "cuts fs css \<longleftrightarrow> list_all2 (\<lambda>f cs. cut_into (fr_payload f) cs) fs css"

lemma cuts_exist: "cuts fs (map (\<lambda>f. [fr_payload f]) fs)"
  by (induction fs) (auto simp: cuts_def cut_into_whole)

lemma cuts_Cons: "cut_into (fr_payload f) cs \<Longrightarrow> cuts fs css \<Longrightarrow> cuts (f # fs) (cs # css)"
  by (simp add: cuts_def)

text \<open>The payload that remains of a frame, then the other frames.\<close>

definition payload_then ::
    "('e, 'x) read_ops \<Rightarrow> frame_header \<Rightarrow> u8 list list \<Rightarrow> (http2_frame \<times> u8 list list) list \<Rightarrow> 'x \<Rightarrow> ('e read_error option \<times> 'x) crashable" where
  "payload_then ops h cs fs x =
     (case run_payload ops h cs x of
        None \<Rightarrow> None
      | Some (Some e, x1) \<Rightarrow> Some (Some (FrameError e), x1)
      | Some (None, x1) \<Rightarrow> run_frames ops fs (forget_stream ops x1))"

definition reads_header :: "('e, 'x) read_ops \<Rightarrow> u8 list \<Rightarrow> u8 list list \<Rightarrow> bool" where
  "reads_header ops bs sls \<longleftrightarrow> (\<forall>k f fs h0 st x. k \<le> 8 \<longrightarrow> frames_ok (f # fs) \<longrightarrow>
     bs @ concat sls = drop k (frame_head f) @ fr_payload f @ all_bytes fs \<longrightarrow>
     (\<exists>css. cuts (f # fs) css \<and>
        read_on ops (fh k) bs sls st (absorb_from 0 (take k (frame_head f)) h0) x = run_frames ops (zip (f # fs) css) x))"

definition reads_payload :: "('e, 'x) read_ops \<Rightarrow> u8 list \<Rightarrow> u8 list list \<Rightarrow> bool" where
  "reads_payload ops bs sls \<longleftrightarrow> (\<forall>left fs h x. left \<noteq> [] \<longrightarrow> length left < 2 ^ 24 \<longrightarrow> incoming_frame_size h = of_nat (length left) \<longrightarrow> frames_ok fs \<longrightarrow>
     bs @ concat sls = left @ all_bytes fs \<longrightarrow>
     (\<exists>cs css. cut_into left cs \<and> cuts fs css \<and> read_on ops GRPC_DTS_FRAME bs sls GRPC_DTS_FRAME h x = payload_then ops h cs (zip fs css) x))"

definition small_slices :: "u8 list list \<Rightarrow> bool" where
  "small_slices sls \<longleftrightarrow> list_all (\<lambda>s. length s < 2 ^ 32) sls"

text \<open>After the last header byte.\<close>

lemma start_of_frames:
  assumes "reads_header ops bs sls" "frames_ok fs" "bs @ concat sls = all_bytes fs"
  shows "\<exists>css. cuts fs css \<and> read_on ops GRPC_DTS_FH_0 bs sls st h x = run_frames ops (zip fs css) x"
proof (cases fs)
  case Nil
  then have "bs = []" "concat sls = []" using assms(3) by simp_all
  then show ?thesis using Nil read_on_end [of sls ops GRPC_DTS_FH_0 st h x] by (simp add: cuts_def)
next
  case (Cons f fs')
  have "bs @ concat sls = drop 0 (frame_head f) @ fr_payload f @ all_bytes fs'" using assms(3) Cons by (simp add: frame_bytes_def)
  then have "\<exists>css. cuts (f # fs') css \<and> read_on ops (fh 0) bs sls st (absorb_from 0 (take 0 (frame_head f)) h) x = run_frames ops (zip (f # fs') css) x"
    using assms(1,2) Cons unfolding reads_header_def by blast
  then show ?thesis using Cons by (simp add: fh_def)
qed

lemma read_on_payload:
  assumes "bs \<noteq> []" "length bs < 2 ^ 32" "length left < 2 ^ 24" "incoming_frame_size h = of_nat (length left)"
  shows "read_on ops GRPC_DTS_FRAME bs sls GRPC_DTS_FRAME h x =
    (if length left \<le> length bs
     then (case parse_slice ops h (take (length left) bs) True x of
             None \<Rightarrow> None
           | Some (Some e, x1) \<Rightarrow> Some (Some (FrameError e), x1)
           | Some (None, x1) \<Rightarrow> read_on ops GRPC_DTS_FH_0 (drop (length left) bs) sls GRPC_DTS_FRAME h (forget_stream ops x1))
     else (case parse_slice ops h bs False x of
             None \<Rightarrow> None
           | Some (Some e, x1) \<Rightarrow> Some (Some (FrameError e), x1)
           | Some (None, x1) \<Rightarrow>
               read_on ops GRPC_DTS_FRAME [] sls GRPC_DTS_FRAME (h\<lparr>incoming_frame_size := of_nat (length left - length bs)\<rparr>) x1))"
proof -
  obtain b bs' where bs: "bs = b # bs'" using assms(1) by (cases bs) auto
  let ?n = "of_nat (length bs) :: u32" and ?s = "of_nat (length left) :: u32"
  have u: "unat ?n = length bs" "unat ?s = length left" using assms(2,3) by (simp_all add: unsigned_of_nat take_bit_nat_eq_self)
  then have cmp: "?n = ?s \<longleftrightarrow> length bs = length left" "?s < ?n \<longleftrightarrow> length left < length bs"
    by (metis, simp add: word_less_nat_alt)
  consider "length bs = length left" | "length left < length bs" | "length bs < length left" by linarith
  then show ?thesis
  proof cases
    case 1
    then show ?thesis using bs cmp assms(4) by (simp add: read_on_def split: option.splits prod.splits)
  next
    case 2
    then show ?thesis using bs cmp assms(4) u by (simp add: read_on_def split: option.splits prod.splits)
  next
    case 3
    then have "?s - ?n = of_nat (length left - length bs)" by simp
    then show ?thesis using bs cmp assms(4) 3 by (simp add: read_on_def split: option.splits prod.splits)
  qed
qed

lemma payload_step:
  assumes IH: "\<And>bs' sls'. length (bs' @ concat sls') < length (bs @ concat sls) \<Longrightarrow> small_slices (bs' # sls') \<Longrightarrow> reads_header ops bs' sls' \<and> reads_payload ops bs' sls'"
    and bs: "bs \<noteq> []" "small_slices (bs # sls)"
    and left: "left \<noteq> []" "length left < 2 ^ 24" "incoming_frame_size h = of_nat (length left)" "frames_ok fs" "bs @ concat sls = left @ all_bytes fs"
  shows "\<exists>cs css. cut_into left cs \<and> cuts fs css \<and> read_on ops GRPC_DTS_FRAME bs sls GRPC_DTS_FRAME h x = payload_then ops h cs (zip fs css) x"
proof -
  have "length bs < 2 ^ 32" using bs(2) by (simp add: small_slices_def)
  note on = read_on_payload [OF bs(1) this left(2,3), of ops sls x]
  show ?thesis
  proof (cases "length left \<le> length bs")
    case True
    then have split: "take (length left) bs = left" "drop (length left) bs @ concat sls = all_bytes fs"
      using left(5) by (metis append_eq_append_conv_if)+
    have "length (drop (length left) bs @ concat sls) < length (bs @ concat sls)" "small_slices (drop (length left) bs # sls)"
      using left(1) bs by (auto simp: small_slices_def)
    then have "reads_header ops (drop (length left) bs) sls" using IH by blast
    note next_frames = start_of_frames [OF this left(4) split(2)]
    show ?thesis
    proof (cases "parse_slice ops h left True x")
      case None
      then show ?thesis using on True split(1) cuts_exist [of fs]
        by (intro exI [of _ "[left]"] exI [of _ "map (\<lambda>f. [fr_payload f]) fs"]) (simp add: payload_then_def cut_into_whole)
    next
      case (Some r)
      obtain e x1 where r: "r = (e, x1)" by (cases r)
      obtain css where "cuts fs css" "e = None \<longrightarrow>
          read_on ops GRPC_DTS_FH_0 (drop (length left) bs) sls GRPC_DTS_FRAME h (forget_stream ops x1) = run_frames ops (zip fs css) (forget_stream ops x1)"
        using next_frames by blast
      then show ?thesis using on True split(1) Some r
        by (intro exI [of _ "[left]"] exI [of _ css]) (auto simp: payload_then_def cut_into_whole split: option.split)
    qed
  next
    case False
    obtain left' where lf: "left = bs @ left'" "concat sls = left' @ all_bytes fs" using left(5) False by (auto simp: append_eq_append_conv2)
    then have l: "left = bs @ left'" "left' \<noteq> []" "concat sls = left' @ all_bytes fs" "length left' < 2 ^ 24" "length left - length bs = length left'"
      using left(2) False by auto
    have "length ([] @ concat sls) < length (bs @ concat sls)" "small_slices ([] # sls)" using bs by (auto simp: small_slices_def)
    then have "reads_payload ops [] sls" using IH by blast
    then have rest: "\<exists>cs css. cut_into left' cs \<and> cuts fs css \<and>
        read_on ops GRPC_DTS_FRAME [] sls GRPC_DTS_FRAME (h\<lparr>incoming_frame_size := of_nat (length left')\<rparr>) x1 =
        payload_then ops (h\<lparr>incoming_frame_size := of_nat (length left')\<rparr>) cs (zip fs css) x1" for x1
      using l left(4) unfolding reads_payload_def by simp
    have size: "incoming_frame_size h - of_nat (length bs) = of_nat (length left')" using left(3) l(1) by simp
    have cut: "cut_into left (bs # cs)" "cs \<noteq> []" if "cut_into left' cs" for cs using that l(1,2) bs(1) by (auto simp: cut_into_def)
    show ?thesis
    proof (cases "parse_slice ops h bs False x")
      case None
      then show ?thesis using on False cuts_exist [of fs] cut [OF cut_into_whole]
        by (intro exI [of _ "[bs, left']"] exI [of _ "map (\<lambda>f. [fr_payload f]) fs"]) (simp add: payload_then_def)
    next
      case (Some r)
      obtain e x1 where r: "r = (e, x1)" by (cases r)
      obtain cs css where "cut_into left' cs" "cuts fs css"
        "read_on ops GRPC_DTS_FRAME [] sls GRPC_DTS_FRAME (h\<lparr>incoming_frame_size := of_nat (length left')\<rparr>) x1 =
         payload_then ops (h\<lparr>incoming_frame_size := of_nat (length left')\<rparr>) cs (zip fs css) x1" using rest by blast
      then show ?thesis using on False Some r cut [of cs] l(5) size
        by (intro exI [of _ "bs # cs"] exI [of _ css]) (auto simp: payload_then_def split: option.split)
    qed
  qed
qed

lemma read_on_header_byte:
  assumes "k < 8"
  shows "read_on ops (fh k) (b # bs) sls st h x = read_on ops (fh (Suc k)) bs sls st (absorb_fh k b h) x"
  using assms by (cases bs) (simp_all add: read_on_def read_at_fh)

text \<open>The last header byte starts the frame.\<close>

lemma read_on_last_byte:
  "read_on ops (fh 8) (b # bs) sls st h x =
     (let h' = absorb_fh 8 b h in
      case init_frame ops h' x of
        None \<Rightarrow> None
      | Some (Some e, x1) \<Rightarrow> Some (Some (FrameError e), x1)
      | Some (None, x1) \<Rightarrow>
          if incoming_frame_size h' = 0 then
            (case parse_slice ops h' [] True x1 of
               None \<Rightarrow> None
             | Some (Some e, x2) \<Rightarrow> Some (Some (FrameError e), x2)
             | Some (None, x2) \<Rightarrow> read_on ops GRPC_DTS_FH_0 bs sls GRPC_DTS_FRAME h' (forget_stream ops x2))
          else if case max_frame_size ops x1 of Some m \<Rightarrow> m < incoming_frame_size h' | None \<Rightarrow> False
          then Some (Some (FrameTooLarge (incoming_frame_size h') (the (max_frame_size ops x1))), x1)
          else read_on ops GRPC_DTS_FRAME bs sls GRPC_DTS_FRAME h' x1)"
proof -
  have "fh 8 = GRPC_DTS_FH_8" "absorb_fh 8 b h = h\<lparr>incoming_frame_stream := incoming_frame_stream h OR ucast b\<rparr>"
    by (simp_all add: fh_def absorb_fh_def)
  then show ?thesis
    by (cases bs) (auto simp: read_on_def Let_def split: option.splits prod.splits)
qed

lemma header_step:
  assumes IH: "\<And>bs' sls'. length (bs' @ concat sls') < length (bs @ concat sls) \<Longrightarrow> small_slices (bs' # sls') \<Longrightarrow> reads_header ops bs' sls' \<and> reads_payload ops bs' sls'"
    and bs: "bs \<noteq> []" "small_slices (bs # sls)"
    and k: "k \<le> 8" "frames_ok (f # fs)" "bs @ concat sls = drop k (frame_head f) @ fr_payload f @ all_bytes fs"
  shows "\<exists>css. cuts (f # fs) css \<and>
    read_on ops (fh k) bs sls st (absorb_from 0 (take k (frame_head f)) h0) x = run_frames ops (zip (f # fs) css) x"
proof -
  obtain b bs' where b: "bs = b # bs'" using bs(1) by (cases bs) auto
  have at: "drop k (frame_head f) = frame_head f ! k # drop (Suc k) (frame_head f)" using k(1) by (simp add: Cons_nth_drop_Suc)
  then have rest: "b = frame_head f ! k" "bs' @ concat sls = drop (Suc k) (frame_head f) @ fr_payload f @ all_bytes fs" using k(3) b by simp_all
  have "take (Suc k) (frame_head f) = take k (frame_head f) @ [b]" using k(1) rest(1) by (simp add: take_Suc_conv_app_nth)
  then have absorbed: "absorb_fh k b (absorb_from 0 (take k (frame_head f)) h0) = absorb_from 0 (take (Suc k) (frame_head f)) h0"
    using k(1) by (simp add: absorb_from_snoc)
  have IHs: "reads_header ops bs' sls" "reads_payload ops bs' sls" using IH [of bs' sls] b bs(2) by (auto simp: small_slices_def)
  show ?thesis
  proof (cases "k < 8")
    case True
    then show ?thesis using IHs(1) k(2) rest(2) unfolding reads_header_def b read_on_header_byte [OF True] absorbed by auto
  next
    case False
    then have k8: "k = 8" using k(1) by simp
    have ok: "length (fr_payload f) < 2 ^ 24" "frames_ok fs" using k(2) by (auto simp: frames_ok_def)
    have h: "absorb_fh 8 b (absorb_from 0 (take k (frame_head f)) h0) = header_of f"
      using absorbed absorb_frame_head [OF ok(1)] k8 by simp
    have more: "bs' @ concat sls = fr_payload f @ all_bytes fs" using rest(2) k8 by simp
    have size: "incoming_frame_size (header_of f) = of_nat (length (fr_payload f))" by (simp add: header_of_def)
    have zero: "(of_nat (length (fr_payload f)) :: u32) = 0 \<longleftrightarrow> fr_payload f = []"
    proof -
      have "unat (of_nat (length (fr_payload f)) :: u32) = length (fr_payload f)" using ok(1) by (simp add: unsigned_of_nat take_bit_nat_eq_self)
      then show ?thesis by (metis unat_eq_zero length_0_conv)
    qed
    note on = read_on_last_byte [of ops b bs' sls st "absorb_from 0 (take k (frame_head f)) h0" x, unfolded h Let_def size zero]
    show ?thesis
    proof (cases "\<exists>x1. init_frame ops (header_of f) x = Some (None, x1)")
      case False
      then show ?thesis using on cuts_exist [of "f # fs"] unfolding b k8
        by (intro exI [of _ "map (\<lambda>f. [fr_payload f]) (f # fs)"]) (auto simp: run_frame_def split: option.splits prod.splits)
    next
      case True
      then obtain x1 where x1: "init_frame ops (header_of f) x = Some (None, x1)" by blast
      show ?thesis
      proof (cases "fr_payload f = []")
        case True
        then have "bs' @ concat sls = all_bytes fs" using more by simp
        then have "\<exists>css. cuts fs css \<and> read_on ops GRPC_DTS_FH_0 bs' sls GRPC_DTS_FRAME (header_of f) (forget_stream ops x2) =
            run_frames ops (zip fs css) (forget_stream ops x2)" for x2
          using start_of_frames [OF IHs(1) ok(2)] by blast
        then obtain css where "cuts fs css" "\<forall>x2. parse_slice ops (header_of f) [] True x1 = Some (None, x2) \<longrightarrow>
            read_on ops GRPC_DTS_FH_0 bs' sls GRPC_DTS_FRAME (header_of f) (forget_stream ops x2) = run_frames ops (zip fs css) (forget_stream ops x2)"
          by (metis option.inject prod.inject)
        then show ?thesis using on x1 True unfolding b k8
          by (intro exI [of _ "[[]] # css"]) (auto simp: run_frame_def cuts_def cut_into_def split: option.splits prod.splits)
      next
        case False
        obtain cs css where pl: "cut_into (fr_payload f) cs" "cuts fs css" "read_on ops GRPC_DTS_FRAME bs' sls GRPC_DTS_FRAME (header_of f) x1 =
            payload_then ops (header_of f) cs (zip fs css) x1"
          using IHs(2) False ok size more unfolding reads_payload_def by metis
        have "run_frames ops (zip (f # fs) (cs # css)) x =
            (if case max_frame_size ops x1 of Some m \<Rightarrow> m < of_nat (length (fr_payload f)) | None \<Rightarrow> False
             then Some (Some (FrameTooLarge (of_nat (length (fr_payload f))) (the (max_frame_size ops x1))), x1)
             else payload_then ops (header_of f) cs (zip fs css) x1)"
          using x1 False by (auto simp: run_frame_def payload_then_def split: option.splits prod.splits)
        then show ?thesis using on x1 False pl unfolding b k8
          by (intro exI [of _ "cs # css"]) (simp add: cuts_Cons del: zip_Cons_Cons)
      qed
    qed
  qed
qed

text \<open>Reading goes on in a non-empty slice; the stored state is the position when it was before.\<close>

lemma read_on_slice:
  assumes "bs @ concat sls \<noteq> []" "small_slices (bs # sls)"
  shows "\<exists>sl sls'. sl \<noteq> [] \<and> small_slices (sl # sls') \<and> sl @ concat sls' = bs @ concat sls \<and>
    (\<forall>pos h x. \<exists>st'. read_on ops pos bs sls st h x = read_on ops pos sl sls' st' h x \<and> (st = pos \<longrightarrow> st' = pos))"
proof (cases "bs = []")
  case True
  then have "concat sls \<noteq> []" using assms(1) by simp
  from read_on_next [OF this, of ops st] obtain sl sls' where s: "sl \<noteq> []" "sl @ concat sls' = concat sls" "set (sl # sls') \<subseteq> set sls"
    "\<forall>pos h x. read_on ops pos [] sls st h x = read_on ops pos sl sls' pos h x" by blast
  have "small_slices (sl # sls')" using s(3) assms(2) by (auto simp: small_slices_def list_all_iff)
  then show ?thesis using s True by (intro exI [of _ sl] exI [of _ sls']) auto
next
  case False
  then show ?thesis using assms by (intro exI [of _ bs] exI [of _ sls]) auto
qed

lemma reads_all: "small_slices (bs # sls) \<Longrightarrow> reads_header ops bs sls \<and> reads_payload ops bs sls"
proof (induction "length (bs @ concat sls)" arbitrary: bs sls rule: less_induct)
  case less
  have "reads_header ops bs sls" unfolding reads_header_def
  proof (intro allI impI)
    fix k f fs h0 st x
    assume k: "k \<le> 8" "frames_ok (f # fs)" "bs @ concat sls = drop k (frame_head f) @ fr_payload f @ all_bytes fs"
    then have "length (bs @ concat sls) \<noteq> 0" by simp
    then have ne: "bs @ concat sls \<noteq> []" by auto
    obtain sl sls' where s: "sl \<noteq> []" "small_slices (sl # sls')" "sl @ concat sls' = bs @ concat sls"
      "\<forall>pos h x. \<exists>st'. read_on ops pos bs sls st h x = read_on ops pos sl sls' st' h x \<and> (st = pos \<longrightarrow> st' = pos)"
      using read_on_slice [OF ne less.prems, of ops st] by blast
    then obtain st' where "read_on ops (fh k) bs sls st (absorb_from 0 (take k (frame_head f)) h0) x =
        read_on ops (fh k) sl sls' st' (absorb_from 0 (take k (frame_head f)) h0) x" by blast
    then show "\<exists>css. cuts (f # fs) css \<and> read_on ops (fh k) bs sls st (absorb_from 0 (take k (frame_head f)) h0) x = run_frames ops (zip (f # fs) css) x"
      using header_step [OF _ s(1,2) k(1,2), of ops st' h0 x] less(1) k(3) s(3) by metis
  qed
  moreover have "reads_payload ops bs sls" unfolding reads_payload_def
  proof (intro allI impI)
    fix left fs and h :: frame_header and x
    assume l: "left \<noteq> []" "length left < 2 ^ 24" "incoming_frame_size h = of_nat (length left)" "frames_ok fs" "bs @ concat sls = left @ all_bytes fs"
    then have ne: "bs @ concat sls \<noteq> []" by simp
    obtain sl sls' where s: "sl \<noteq> []" "small_slices (sl # sls')" "sl @ concat sls' = bs @ concat sls"
      "read_on ops GRPC_DTS_FRAME bs sls GRPC_DTS_FRAME h x = read_on ops GRPC_DTS_FRAME sl sls' GRPC_DTS_FRAME h x"
      using read_on_slice [OF ne less.prems, of ops GRPC_DTS_FRAME] by metis
    then show "\<exists>cs css. cut_into left cs \<and> cuts fs css \<and> read_on ops GRPC_DTS_FRAME bs sls GRPC_DTS_FRAME h x = payload_then ops h cs (zip fs css) x"
      using payload_step [OF _ s(1,2) l(1-4), of ops x] less(1) l(5) by metis
  qed
  ultimately show ?case ..
qed

section \<open>The connection preface\<close>

lemma read_on_preface_byte:
  "read_on ops (GRPC_DTS_CLIENT_PREFIX i) (GRPC_CHTTP2_CLIENT_CONNECT_STRING ! i # bs) sls st h x =
   read_on ops (next_prefix_state i) bs sls (next_prefix_state i) h x"
  by (cases bs) (auto simp: read_on_def next_prefix_state_def)

lemma reads_preface:
  assumes "i < 24" "frames_ok fs" "bs @ concat sls = drop i GRPC_CHTTP2_CLIENT_CONNECT_STRING @ all_bytes fs" "small_slices (bs # sls)"
  shows "\<exists>css. cuts fs css \<and> read_on ops (GRPC_DTS_CLIENT_PREFIX i) bs sls (GRPC_DTS_CLIENT_PREFIX i) h x = run_frames ops (zip fs css) x"
  using assms
proof (induction "24 - i" arbitrary: i bs sls)
  case (Suc n)
  let ?c = GRPC_CHTTP2_CLIENT_CONNECT_STRING
  have len: "length ?c = 24" by (simp add: GRPC_CHTTP2_CLIENT_CONNECT_STRING_def)
  have d: "drop i ?c = ?c ! i # drop (Suc i) ?c" using Suc.prems(1) len by (simp add: Cons_nth_drop_Suc)
  then have "bs @ concat sls \<noteq> []" using Suc.prems(3) by simp
  from read_on_slice [OF this Suc.prems(4), of ops "GRPC_DTS_CLIENT_PREFIX i"] obtain sl sls' where s: "sl \<noteq> []" "small_slices (sl # sls')"
    "sl @ concat sls' = bs @ concat sls"
    "read_on ops (GRPC_DTS_CLIENT_PREFIX i) bs sls (GRPC_DTS_CLIENT_PREFIX i) h x = read_on ops (GRPC_DTS_CLIENT_PREFIX i) sl sls' (GRPC_DTS_CLIENT_PREFIX i) h x"
    by metis
  then obtain sl' where sl: "sl = ?c ! i # sl'" "sl' @ concat sls' = drop (Suc i) ?c @ all_bytes fs" using Suc.prems(3) d by (cases sl) auto
  have small: "small_slices (sl' # sls')" using s(2) sl(1) by (simp add: small_slices_def)
  have eq: "read_on ops (GRPC_DTS_CLIENT_PREFIX i) bs sls (GRPC_DTS_CLIENT_PREFIX i) h x = read_on ops (next_prefix_state i) sl' sls' (next_prefix_state i) h x"
    unfolding s(4) sl(1) by (rule read_on_preface_byte)
  show ?case
  proof (cases "i + 1 < 24")
    case True
    then show ?thesis using Suc.hyps(1) [of "Suc i" sl' sls'] Suc.hyps(2) Suc.prems(2) sl(2) small unfolding eq by (simp add: next_prefix_state_def len)
  next
    case False
    then have fs: "sl' @ concat sls' = all_bytes fs" using sl(2) len by simp
    have "reads_header ops sl' sls'" using reads_all [OF small] by blast
    from start_of_frames [OF this Suc.prems(2) fs, of GRPC_DTS_FH_0 h x] False show ?thesis unfolding eq by (simp add: next_prefix_state_def len)
  qed
qed simp

lemma read_slices_frames:
  assumes "frames_ok fs" "small_slices slices"
    and "concat slices = (if is_client_preface then GRPC_CHTTP2_CLIENT_CONNECT_STRING else []) @ all_bytes fs"
  shows "\<exists>css. cuts fs css \<and>
    map_option (\<lambda>(e, st, h, x). (e, x))
      (read_slices ops slices (if is_client_preface then GRPC_DTS_CLIENT_PREFIX 0 else GRPC_DTS_FH_0) h x) = run_frames ops (zip fs css) x"
proof -
  have r: "map_option (\<lambda>(e, st, h, x). (e, x)) (read_slices ops slices st h x) = read_on ops st [] slices st h x" for st
    by (simp add: read_on_def)
  have small: "small_slices ([] # slices)" using assms(2) by (simp add: small_slices_def)
  show ?thesis
  proof (cases is_client_preface)
    case True
    then show ?thesis using reads_preface [of 0 fs "[]" slices ops h x, OF _ assms(1) _ small] assms(3) r by simp
  next
    case False
    then show ?thesis using start_of_frames [of ops "[]" slices fs GRPC_DTS_FH_0 h x, OF conjunct1 [OF reads_all [OF small]] assms(1)] assms(3) r
      by simp
  qed
qed

text \<open>C7: reading frames.  However the endpoint cuts the bytes of some frames (of a client also the connection preface before them) into slices,
  empty ones included, the read loop does exactly what reading the frames one by one does: each frame header is decoded once and given to the
  frame's initialisation, its payload reaches the parser in pieces that together are the payload, with the last piece and only that one
  marked, a frame above the size limit is refused before any payload is parsed, and the first error ends the reading.\<close>

theorem perform_read_frames:
  assumes "frames_ok fs" "small_slices slices"
    and "concat slices = (if is_client_preface then GRPC_CHTTP2_CLIENT_CONNECT_STRING else []) @ all_bytes fs"
  shows "\<exists>css. list_all2 (\<lambda>f cs. cut_into (fr_payload f) cs) fs css \<and>
    map_option (\<lambda>(e, st, h, x). (e, x))
      (read_slices ops slices (if is_client_preface then GRPC_DTS_CLIENT_PREFIX 0 else GRPC_DTS_FH_0) h x) = run_frames ops (zip fs css) x"
  using read_slices_frames [OF assms, of ops h x] unfolding cuts_def .

text \<open>A recorder: every call, in order.\<close>

definition demo_ops :: "(unit, (u8 list + frame_header) list) read_ops" where
  "demo_ops = \<lparr>init_frame = (\<lambda>h x. Some (None, x @ [Inr h])), parse_slice = (\<lambda>h c is_last x. Some (None, x @ [Inl (of_bool is_last # c)])),
     max_frame_size = (\<lambda>x. Some 16384), forget_stream = id\<rparr>"

theorem perform_read_frames_witness:
  "\<exists>css. list_all2 (\<lambda>f cs. cut_into (fr_payload f) cs) [\<lparr>fr_type = 6, fr_flags = 1, fr_stream = 0, fr_payload = [7, 8, 9]\<rparr>] css \<and>
     map_option (\<lambda>(e, st, h, x). (e, x)) (read_slices demo_ops [[0, 0], [], [3, 6, 1, 0, 0, 0, 0, 7], [8, 9]] GRPC_DTS_FH_0 (\<lparr>incoming_frame_size = 0, incoming_frame_type = 0, incoming_frame_flags = 0, incoming_frame_stream = 0\<rparr>) []) =
     run_frames demo_ops (zip [\<lparr>fr_type = 6, fr_flags = 1, fr_stream = 0, fr_payload = [7, 8, 9]\<rparr>] css) []"
  using perform_read_frames [of "[\<lparr>fr_type = 6, fr_flags = 1, fr_stream = 0, fr_payload = [7, 8, 9]\<rparr>]"
      "[[0, 0], [], [3, 6, 1, 0, 0, 0, 0, 7], [8, 9]]" False demo_ops "\<lparr>incoming_frame_size = 0, incoming_frame_type = 0, incoming_frame_flags = 0, incoming_frame_stream = 0\<rparr>" "[]"]
  by (simp add: frames_ok_def small_slices_def frame_bytes_def frame_head_def be24_def be32_def)

end
