(* ===== verification/Stream_Map.thy ===== *)
theory Stream_Map
  imports Prelude "HOL-Library.Monad_Syntax"
begin

text \<open>
  The map from stream ids to streams of a connection: \<^verbatim>\<open>src/core/ext/transport/chttp2/transport/stream_map.cc\<close>.  Ids only grow, so the map is a sorted array
  that is searched by bisection; a deletion leaves a hole (a null value), and holes are squeezed out when the array is full or a random
  element is wanted.  The arrays are lists of the length of their capacity; a failed assertion, also a debug one, is \<open>None\<close>.  The map
  refines the list of its live entries.
\<close>

section \<open>Definitions\<close>

record 'v stream_map =
  sm_keys :: "u32 list"
  sm_values :: "'v option list"
  sm_count :: nat
  sm_free :: nat
  sm_capacity :: nat

definition grpc_chttp2_stream_map_init :: "nat \<Rightarrow> 'v stream_map crashable" where
  "grpc_chttp2_stream_map_init initial_capacity =
     (if \<not> 1 < initial_capacity then None
      else Some \<lparr>sm_keys = replicate initial_capacity 0, sm_values = replicate initial_capacity None, sm_count = 0, sm_free = 0,
                 sm_capacity = initial_capacity\<rparr>)"

fun compact_step :: "nat \<Rightarrow> u32 list \<times> 'v option list \<times> nat \<Rightarrow> u32 list \<times> 'v option list \<times> nat" where
  "compact_step i (keys, values, out) =
     (if values ! i \<noteq> None then (keys[out := keys ! i], values[out := values ! i], out + 1) else (keys, values, out))"

definition compact :: "u32 list \<Rightarrow> 'v option list \<Rightarrow> nat \<Rightarrow> u32 list \<times> 'v option list \<times> nat" where
  "compact keys values count = fold compact_step [0..<count] (keys, values, 0)"

function find_loop :: "u32 list \<Rightarrow> u32 \<Rightarrow> nat \<Rightarrow> nat \<Rightarrow> nat option" where
  "find_loop keys key min_idx max_idx =
     (if min_idx < max_idx then
        let mid_idx = min_idx + (max_idx - min_idx) div 2; mid_key = keys ! mid_idx in
        if mid_key < key then find_loop keys key (mid_idx + 1) max_idx
        else if key < mid_key then find_loop keys key min_idx mid_idx
        else Some mid_idx
      else None)"
  by pat_completeness auto
termination by (relation "measure (\<lambda>(keys, key, lo, hi). hi - lo)") auto

declare find_loop.simps [simp del]

text \<open>The index instead of the address of the value.\<close>

definition find_lax :: "'v stream_map \<Rightarrow> u32 \<Rightarrow> nat option" where
  "find_lax m key = (if sm_count m = 0 then None else find_loop (sm_keys m) key 0 (sm_count m))"

definition find_strict :: "'v stream_map \<Rightarrow> u32 \<Rightarrow> nat crashable" where
  "find_strict m key = (if \<not> 0 < sm_count m then None else find_loop (sm_keys m) key 0 (sm_count m))"

definition grpc_chttp2_stream_map_find :: "'v stream_map \<Rightarrow> u32 \<Rightarrow> 'v option" where
  "grpc_chttp2_stream_map_find m key = (case find_lax m key of None \<Rightarrow> None | Some i \<Rightarrow> sm_values m ! i)"

definition grpc_chttp2_stream_map_size :: "'v stream_map \<Rightarrow> nat" where
  "grpc_chttp2_stream_map_size m = sm_count m - sm_free m"

definition grpc_chttp2_stream_map_add :: "u32 \<Rightarrow> 'v \<Rightarrow> 'v stream_map \<Rightarrow> 'v stream_map crashable" where
  "grpc_chttp2_stream_map_add key v m =
     (if \<not> (sm_count m = 0 \<or> sm_keys m ! (sm_count m - 1) < key) \<or> grpc_chttp2_stream_map_find m key \<noteq> None then None
      else
        let m1 =
          (if sm_count m = sm_capacity m then
             (if sm_capacity m div 4 < sm_free m then
                (case compact (sm_keys m) (sm_values m) (sm_count m) of
                   (ks, vs, n) \<Rightarrow> m\<lparr>sm_keys := ks, sm_values := vs, sm_count := n, sm_free := 0\<rparr>)
              else m\<lparr>sm_capacity := 2 * sm_capacity m, sm_keys := sm_keys m @ replicate (sm_capacity m) 0,
                     sm_values := sm_values m @ replicate (sm_capacity m) None\<rparr>)
           else m) in
        if length (sm_keys m1) \<le> sm_count m1 then None
        else Some (m1\<lparr>sm_keys := (sm_keys m1)[sm_count m1 := key], sm_values := (sm_values m1)[sm_count m1 := Some v],
                      sm_count := sm_count m1 + 1\<rparr>))"

definition grpc_chttp2_stream_map_delete :: "u32 \<Rightarrow> 'v stream_map \<Rightarrow> ('v \<times> 'v stream_map) crashable" where
  "grpc_chttp2_stream_map_delete key m = do {
     i \<leftarrow> find_strict m key;
     out \<leftarrow> sm_values m ! i;
     let m1 = m\<lparr>sm_values := (sm_values m)[i := None], sm_free := sm_free m + 1\<rparr>;
     let m2 = (if sm_free m1 = sm_count m1 then m1\<lparr>sm_free := 0, sm_count := 0\<rparr> else m1);
     if grpc_chttp2_stream_map_find m2 key \<noteq> None then None else Some (out, m2) }"

text \<open>The number \<open>r\<close> is what \<open>rand()\<close> returns.\<close>

definition grpc_chttp2_stream_map_rand :: "nat \<Rightarrow> 'v stream_map \<Rightarrow> ('v option \<times> 'v stream_map) crashable" where
  "grpc_chttp2_stream_map_rand r m =
     (if sm_count m = sm_free m then Some (None, m)
      else
        let m1 =
          (if sm_free m \<noteq> 0 then
             (case compact (sm_keys m) (sm_values m) (sm_count m) of
                (ks, vs, n) \<Rightarrow> m\<lparr>sm_keys := ks, sm_values := vs, sm_count := n, sm_free := 0\<rparr>)
           else m) in
        if sm_count m1 = 0 then None else Some (sm_values m1 ! (r mod sm_count m1), m1))"

definition grpc_chttp2_stream_map_for_each :: "(u32 \<Rightarrow> 'v \<Rightarrow> 's \<Rightarrow> 's) \<Rightarrow> 'v stream_map \<Rightarrow> 's \<Rightarrow> 's" where
  "grpc_chttp2_stream_map_for_each f m =
     fold (\<lambda>i s. case sm_values m ! i of None \<Rightarrow> s | Some v \<Rightarrow> f (sm_keys m ! i) v s) [0..<sm_count m]"

section \<open>The live entries\<close>

text \<open>The live entries of the first slots, in order.\<close>

fun live_pairs :: "u32 list \<Rightarrow> 'v option list \<Rightarrow> (u32 \<times> 'v) list" where
  "live_pairs (k # ks) (Some v # vs) = (k, v) # live_pairs ks vs"
| "live_pairs (k # ks) (None # vs) = live_pairs ks vs"
| "live_pairs _ _ = []"

definition sm_entries :: "'v stream_map \<Rightarrow> (u32 \<times> 'v) list" where
  "sm_entries m = live_pairs (take (sm_count m) (sm_keys m)) (take (sm_count m) (sm_values m))"

definition sm_ok :: "'v stream_map \<Rightarrow> bool" where
  "sm_ok m \<longleftrightarrow> 1 < sm_capacity m \<and> length (sm_keys m) = sm_capacity m \<and> length (sm_values m) = sm_capacity m \<and> sm_count m \<le> sm_capacity m \<and>
     sorted_wrt (<) (take (sm_count m) (sm_keys m)) \<and> sm_free m + length (sm_entries m) = sm_count m \<and> (sm_count m \<noteq> 0 \<longrightarrow> sm_entries m \<noteq> [])"

lemma live_pairs_append:
  "length ks = length vs \<Longrightarrow> live_pairs (ks @ ks') (vs @ vs') = live_pairs ks vs @ live_pairs ks' vs'"
  by (induction ks vs rule: live_pairs.induct) auto

lemma live_pairs_snoc: "length ks = length vs \<Longrightarrow> live_pairs (ks @ [k]) (vs @ [v]) = live_pairs ks vs @ (case v of None \<Rightarrow> [] | Some x \<Rightarrow> [(k, x)])"
  by (simp add: live_pairs_append split: option.split)

lemma live_pairs_keys: "fst ` set (live_pairs ks vs) \<subseteq> set ks"
  by (induction ks vs rule: live_pairs.induct) auto

lemma live_pairs_length: "length (live_pairs ks vs) \<le> length ks"
  by (induction ks vs rule: live_pairs.induct) auto

lemma live_pairs_sorted: "sorted_wrt (<) ks \<Longrightarrow> sorted_wrt (<) (map fst (live_pairs ks vs))"
  using live_pairs_keys by (induction ks vs rule: live_pairs.induct) fastforce+

text \<open>The entry at an index of distinct keys.\<close>

lemma live_pairs_lookup:
  "distinct ks \<Longrightarrow> i < length ks \<Longrightarrow> length ks = length vs \<Longrightarrow> map_of (live_pairs ks vs) (ks ! i) = vs ! i"
proof (induction ks vs arbitrary: i rule: live_pairs.induct)
  case (1 k ks v vs)
  then show ?case by (cases i) auto
next
  case (2 k ks vs)
  have "map_of (live_pairs ks vs) k = None" using 2 live_pairs_keys [of ks vs] by (auto simp: map_of_eq_None_iff)
  with 2 show ?case by (cases i) auto
qed auto

lemma live_pairs_clear:
  "distinct ks \<Longrightarrow> i < length ks \<Longrightarrow> length ks = length vs \<Longrightarrow>
   live_pairs ks (vs[i := None]) = filter (\<lambda>e. fst e \<noteq> ks ! i) (live_pairs ks vs)"
proof (induction ks vs arbitrary: i rule: live_pairs.induct)
  case (1 k ks v vs)
  have "filter (\<lambda>e. fst e \<noteq> k) (live_pairs ks vs) = live_pairs ks vs"
    using 1(2) live_pairs_keys [of ks vs] by (auto simp: filter_id_conv)
  with 1 show ?case by (cases i) auto
next
  case (2 k ks vs)
  have "filter (\<lambda>e. fst e \<noteq> k) (live_pairs ks vs) = live_pairs ks vs"
    using 2(2) live_pairs_keys [of ks vs] by (auto simp: filter_id_conv)
  with 2 show ?case by (cases i) auto
qed auto

lemma live_pairs_clear_length:
  "i < length ks \<Longrightarrow> length ks = length vs \<Longrightarrow> vs ! i \<noteq> None \<Longrightarrow>
   Suc (length (live_pairs ks (vs[i := None]))) = length (live_pairs ks vs)"
proof (induction ks vs arbitrary: i rule: live_pairs.induct)
  case (1 k ks v vs)
  then show ?case by (cases i) auto
next
  case (2 k ks vs)
  then show ?case by (cases i) auto
qed auto

lemma take_update_Suc: "n < length xs \<Longrightarrow> take (Suc n) (xs[n := x]) = take n xs @ [x]"
  by (simp add: take_Suc_conv_app_nth)

lemma live_pairs_full: "live_pairs (map fst es) (map (Some \<circ> snd) es) = es"
  by (induction es) auto

text \<open>The entries of one more slot.\<close>

lemma live_pairs_take_Suc:
  assumes "n < length ks" "length vs = length ks"
  shows "live_pairs (take (Suc n) ks) (take (Suc n) vs) =
    live_pairs (take n ks) (take n vs) @ (case vs ! n of None \<Rightarrow> [] | Some x \<Rightarrow> [(ks ! n, x)])"
  using assms live_pairs_snoc [of "take n ks" "take n vs"] by (simp add: take_Suc_conv_app_nth)

section \<open>Bisection and compaction\<close>

text \<open>On strictly sorted keys the bisection finds the index of a key that is there.\<close>

lemma find_loop_correct:
  assumes "sorted_wrt (<) (take n keys)" "hi \<le> n" "n \<le> length keys"
  shows "case find_loop keys key lo hi of Some i \<Rightarrow> lo \<le> i \<and> i < hi \<and> keys ! i = key | None \<Rightarrow> \<forall>i. lo \<le> i \<and> i < hi \<longrightarrow> keys ! i \<noteq> key"
  using assms
proof (induction keys key lo hi rule: find_loop.induct)
  case (1 keys key lo hi)
  define mid where "mid = lo + (hi - lo) div 2"
  have sorted: "keys ! i < keys ! j" if "i < j" "j < n" for i j
    using sorted_wrt_nth_less [OF 1(3), of i j] that 1(5) by simp
  consider "\<not> lo < hi" | "lo < hi" "keys ! mid < key" | "lo < hi" "key < keys ! mid" | "lo < hi" "keys ! mid = key" by fastforce
  then show ?case
  proof cases
    case 1
    then show ?thesis by (subst find_loop.simps) auto
  next
    case 2
    have *: "find_loop keys key lo hi = find_loop keys key (mid + 1) hi"
      using 2 by (subst find_loop.simps) (simp add: mid_def Let_def)
    have "mid < hi" using 2 by (auto simp: mid_def)
    have low: "keys ! i \<noteq> key" if "i \<le> mid" for i
      using sorted [of i mid] that 2 1(4) \<open>mid < hi\<close> by (cases "i = mid") auto
    from 1(1) [OF 2(1) mid_def refl _ 1(3-5)] 2 show ?thesis
      using low by (auto simp: * mid_def split: option.splits) (metis Suc_leI not_less)+
  next
    case 3
    have *: "find_loop keys key lo hi = find_loop keys key lo mid"
      using 3 by (subst find_loop.simps) (auto simp: mid_def Let_def)
    have high: "keys ! i \<noteq> key" if "mid \<le> i" "i < hi" for i
      using sorted [of mid i] that 3 1(4) by (cases "i = mid") auto
    have "mid < hi" using 3 by (auto simp: mid_def)
    then have "mid \<le> n" using 1(4) by simp
    then have "case find_loop keys key lo mid of Some i \<Rightarrow> lo \<le> i \<and> i < mid \<and> keys ! i = key
        | None \<Rightarrow> \<forall>i. lo \<le> i \<and> i < mid \<longrightarrow> keys ! i \<noteq> key"
      using 1(2) [OF 3(1) mid_def refl] 3(2) 1(3,5) by auto
    then show ?thesis using high \<open>mid < hi\<close> unfolding * by (cases "find_loop keys key lo mid") (auto, metis not_less)
  next
    case 4
    then show ?thesis by (subst find_loop.simps) (auto simp: mid_def Let_def)
  qed
qed

text \<open>Compaction moves the live entries to the front and touches nothing behind the slots it has read.\<close>

lemma compact_correct:
  assumes "n \<le> length ks" "length vs = length ks"
  shows "\<exists>ks' vs'. compact ks vs n = (ks', vs', length (live_pairs (take n ks) (take n vs))) \<and> length ks' = length ks \<and> length vs' = length vs \<and>
    take (length (live_pairs (take n ks) (take n vs))) ks' = map fst (live_pairs (take n ks) (take n vs)) \<and>
    take (length (live_pairs (take n ks) (take n vs))) vs' = map (Some \<circ> snd) (live_pairs (take n ks) (take n vs)) \<and>
    drop n ks' = drop n ks \<and> drop n vs' = drop n vs"
  using assms(1)
proof (induction n)
  case 0
  then show ?case by (simp add: compact_def)
next
  case (Suc n)
  let ?es = "live_pairs (take n ks) (take n vs)"
  obtain ks' vs' where IH: "compact ks vs n = (ks', vs', length ?es)" "length ks' = length ks" "length vs' = length vs"
    "take (length ?es) ks' = map fst ?es" "take (length ?es) vs' = map (Some \<circ> snd) ?es" "drop n ks' = drop n ks" "drop n vs' = drop n vs"
    using Suc by auto
  have le: "length ?es \<le> n" using live_pairs_length [of "take n ks" "take n vs"] Suc(2) by simp
  have at: "ks' ! n = ks ! n" "vs' ! n = vs ! n" using IH(2,3,6,7) Suc(2) assms(2) by (metis Cons_nth_drop_Suc Suc_le_lessD list.inject)+
  have drops: "drop (Suc n) ks' = drop (Suc n) ks" "drop (Suc n) vs' = drop (Suc n) vs"
    using IH(6,7) by (metis drop_drop plus_1_eq_Suc)+
  have step: "compact ks vs (Suc n) = compact_step n (ks', vs', length ?es)" using IH(1) by (simp add: compact_def)
  show ?case
  proof (cases "vs ! n")
    case None
    with IH at drops Suc(2) assms(2) show ?thesis by (simp add: step live_pairs_take_Suc)
  next
    case (Some v)
    with IH at drops Suc(2) assms(2) le show ?thesis
      by (simp add: step live_pairs_take_Suc take_update_Suc)
  qed
qed

section \<open>The operations on the live entries\<close>

lemma sm_entries_distinct:
  "sm_ok m \<Longrightarrow> sorted_wrt (<) (map fst (sm_entries m))"
  by (simp add: sm_ok_def sm_entries_def live_pairs_sorted)

lemma find_index:
  assumes "sm_ok m" "find_loop (sm_keys m) k 0 (sm_count m) = Some i"
  shows "i < sm_count m" "sm_keys m ! i = k" "sm_values m ! i = map_of (sm_entries m) k"
proof -
  show i: "i < sm_count m" "sm_keys m ! i = k"
    using find_loop_correct [of "sm_count m" "sm_keys m" "sm_count m" 0 k] assms by (auto simp: sm_ok_def)
  then show "sm_values m ! i = map_of (sm_entries m) k"
    using assms(1) live_pairs_lookup [of "take (sm_count m) (sm_keys m)" i "take (sm_count m) (sm_values m)"]
    by (simp add: sm_ok_def sm_entries_def strict_sorted_iff)
qed

lemma find_absent:
  assumes "sm_ok m" "find_loop (sm_keys m) k 0 (sm_count m) = None"
  shows "map_of (sm_entries m) k = None"
proof -
  have "k \<notin> set (take (sm_count m) (sm_keys m))"
    using find_loop_correct [of "sm_count m" "sm_keys m" "sm_count m" 0 k] assms by (auto simp: sm_ok_def in_set_conv_nth)
  with live_pairs_keys show ?thesis by (fastforce simp: sm_entries_def map_of_eq_None_iff)
qed

lemma find_is_map_of: "sm_ok m \<Longrightarrow> grpc_chttp2_stream_map_find m k = map_of (sm_entries m) k"
  using find_absent [of m k] find_index(3) [of m k]
  by (auto simp: grpc_chttp2_stream_map_find_def find_lax_def sm_entries_def split: option.split)

lemma size_is_length: "sm_ok m \<Longrightarrow> grpc_chttp2_stream_map_size m = length (sm_entries m)"
  by (auto simp: sm_ok_def grpc_chttp2_stream_map_size_def)

lemma for_each_is_fold:
  assumes "sm_ok m"
  shows "grpc_chttp2_stream_map_for_each f m s = fold (\<lambda>(k, v). f k v) (sm_entries m) s"
proof -
  have "fold (\<lambda>i s. case sm_values m ! i of None \<Rightarrow> s | Some v \<Rightarrow> f (sm_keys m ! i) v s) [0..<n] s =
      fold (\<lambda>(k, v). f k v) (live_pairs (take n (sm_keys m)) (take n (sm_values m))) s" if "n \<le> sm_count m" for n
    using that
  proof (induction n)
    case (Suc n)
    then show ?case using assms by (auto simp: live_pairs_take_Suc sm_ok_def split: option.split)
  qed simp
  then show ?thesis by (simp add: grpc_chttp2_stream_map_for_each_def sm_entries_def)
qed

text \<open>A compacted map has no holes; the same entries, and its last key is the last live one.\<close>

definition sm_compacted :: "'v stream_map \<Rightarrow> 'v stream_map" where
  "sm_compacted m = (case compact (sm_keys m) (sm_values m) (sm_count m) of
     (ks, vs, n) \<Rightarrow> m\<lparr>sm_keys := ks, sm_values := vs, sm_count := n, sm_free := 0\<rparr>)"

lemma sm_compacted:
  assumes "sm_ok m"
  shows "sm_ok (sm_compacted m)" "sm_entries (sm_compacted m) = sm_entries m" "sm_count (sm_compacted m) = length (sm_entries m)"
    "sm_free (sm_compacted m) = 0" "take (length (sm_entries m)) (sm_keys (sm_compacted m)) = map fst (sm_entries m)"
    "take (length (sm_entries m)) (sm_values (sm_compacted m)) = map (Some \<circ> snd) (sm_entries m)"
    "sm_capacity (sm_compacted m) = sm_capacity m"
proof -
  obtain ks vs where c: "compact (sm_keys m) (sm_values m) (sm_count m) = (ks, vs, length (sm_entries m))"
    "length ks = length (sm_keys m)" "length vs = length (sm_values m)" "take (length (sm_entries m)) ks = map fst (sm_entries m)"
    "take (length (sm_entries m)) vs = map (Some \<circ> snd) (sm_entries m)"
    using compact_correct [of "sm_count m" "sm_keys m" "sm_values m"] assms unfolding sm_ok_def sm_entries_def by auto
  show es: "sm_entries (sm_compacted m) = sm_entries m"
    using c live_pairs_full [of "sm_entries m"] by (simp add: sm_compacted_def sm_entries_def [of "_\<lparr>sm_count := _\<rparr>"] sm_entries_def [of "_\<lparr>sm_free := _\<rparr>"])
  show "sm_count (sm_compacted m) = length (sm_entries m)" "sm_free (sm_compacted m) = 0"
    "take (length (sm_entries m)) (sm_keys (sm_compacted m)) = map fst (sm_entries m)"
    "take (length (sm_entries m)) (sm_values (sm_compacted m)) = map (Some \<circ> snd) (sm_entries m)"
    "sm_capacity (sm_compacted m) = sm_capacity m"
    using c by (simp_all add: sm_compacted_def)
  then show "sm_ok (sm_compacted m)"
    using assms es c sm_entries_distinct [OF assms] by (auto simp: sm_ok_def) (simp_all add: sm_compacted_def)
qed

text \<open>Room for one more entry.\<close>

definition sm_grown :: "'v stream_map \<Rightarrow> 'v stream_map" where
  "sm_grown m = m\<lparr>sm_capacity := 2 * sm_capacity m, sm_keys := sm_keys m @ replicate (sm_capacity m) 0,
     sm_values := sm_values m @ replicate (sm_capacity m) None\<rparr>"

lemma sm_grown: "sm_ok m \<Longrightarrow> sm_ok (sm_grown m)" "sm_ok m \<Longrightarrow> sm_entries (sm_grown m) = sm_entries m"
  by (simp_all add: sm_ok_def sm_grown_def sm_entries_def)

definition sm_push :: "u32 \<Rightarrow> 'v \<Rightarrow> 'v stream_map \<Rightarrow> 'v stream_map" where
  "sm_push k v m = m\<lparr>sm_keys := (sm_keys m)[sm_count m := k], sm_values := (sm_values m)[sm_count m := Some v], sm_count := sm_count m + 1\<rparr>"

definition sm_last :: "'v stream_map \<Rightarrow> u32 option" where
  "sm_last m = (if sm_count m = 0 then None else Some (sm_keys m ! (sm_count m - 1)))"

abbreviation above :: "u32 \<Rightarrow> u32 option \<Rightarrow> bool" where
  "above k l \<equiv> (case l of None \<Rightarrow> True | Some x \<Rightarrow> x < k)"

lemma sorted_snoc_last:
  "sorted_wrt (<) xs \<Longrightarrow> xs = [] \<or> last xs < x \<Longrightarrow> sorted_wrt (<) (xs @ [x])" for x :: u32
  by (cases xs rule: rev_cases) (auto simp: sorted_wrt_append)

lemma last_of_take: "0 < n \<Longrightarrow> n \<le> length xs \<Longrightarrow> last (take n xs) = xs ! (n - 1)"
  by (subst last_conv_nth) (auto simp: min_def)

lemma sm_push:
  assumes "sm_ok m" "sm_count m < sm_capacity m" "above k (sm_last m)"
  shows "sm_ok (sm_push k v m)" "sm_entries (sm_push k v m) = sm_entries m @ [(k, v)]" "sm_last (sm_push k v m) = Some k"
proof -
  have es: "live_pairs (take (sm_count m) (sm_keys m) @ [k]) (take (sm_count m) (sm_values m) @ [Some v]) = sm_entries m @ [(k, v)]"
    using assms by (simp add: live_pairs_snoc sm_entries_def sm_ok_def)
  then show "sm_entries (sm_push k v m) = sm_entries m @ [(k, v)]"
    using assms by (simp add: sm_push_def sm_entries_def [of "_\<lparr>sm_count := _\<rparr>"] take_update_Suc sm_ok_def)
  moreover have "sorted_wrt (<) (take (sm_count m) (sm_keys m) @ [k])"
    using assms by (intro sorted_snoc_last) (auto simp: sm_ok_def sm_last_def last_of_take split: if_splits)
  ultimately show "sm_ok (sm_push k v m)" "sm_last (sm_push k v m) = Some k"
    using assms by (auto simp: sm_ok_def sm_push_def sm_last_def take_update_Suc)
qed

text \<open>Without holes the arrays hold exactly the entries.\<close>

definition sm_dense :: "'v stream_map \<Rightarrow> bool" where
  "sm_dense m \<longleftrightarrow> sm_count m = length (sm_entries m) \<and> take (length (sm_entries m)) (sm_keys m) = map fst (sm_entries m) \<and>
     take (length (sm_entries m)) (sm_values m) = map (Some \<circ> snd) (sm_entries m)"

lemma live_pairs_all:
  "length ks = length vs \<Longrightarrow> length (live_pairs ks vs) = length ks \<Longrightarrow>
   ks = map fst (live_pairs ks vs) \<and> vs = map (Some \<circ> snd) (live_pairs ks vs)"
proof (induction ks vs rule: live_pairs.induct)
  case (2 k ks vs)
  then show ?case using live_pairs_length [of ks vs] by simp
qed auto

lemma sm_dense_compacted: "sm_ok m \<Longrightarrow> sm_dense (sm_compacted m)"
  using sm_compacted [of m] by (simp add: sm_dense_def)

lemma sm_dense_no_free:
  assumes "sm_ok m" "sm_free m = 0"
  shows "sm_dense m"
proof -
  have n: "length (sm_entries m) = sm_count m" "sm_count m \<le> length (sm_keys m)" "length (sm_values m) = length (sm_keys m)"
    using assms by (auto simp: sm_ok_def)
  from n(1) live_pairs_all [of "take (sm_count m) (sm_keys m)" "take (sm_count m) (sm_values m)"] n(2,3) show ?thesis
    unfolding sm_dense_def by (simp add: sm_entries_def)
qed

lemma sm_dense_last:
  assumes "sm_ok m" "sm_dense m" "sm_entries m \<noteq> []"
  shows "sm_last m = Some (fst (last (sm_entries m)))"
proof -
  have "last (take (length (sm_entries m)) (sm_keys m)) = sm_keys m ! (length (sm_entries m) - 1)"
    using assms by (intro last_of_take) (auto simp: sm_dense_def sm_ok_def)
  with assms(2,3) show ?thesis by (simp add: sm_last_def last_map sm_dense_def)
qed

lemma sm_dense_value:
  assumes "sm_dense m" "j < length (sm_entries m)"
  shows "sm_values m ! j = Some (snd (sm_entries m ! j))"
proof -
  have "sm_values m ! j = take (length (sm_entries m)) (sm_values m) ! j" using assms(2) by simp
  also have "\<dots> = map (Some \<circ> snd) (sm_entries m) ! j" using assms(1) unfolding sm_dense_def by metis
  finally show ?thesis using assms(2) by simp
qed

lemma sm_last_compacted:
  "sm_ok m \<Longrightarrow> sm_entries m \<noteq> [] \<Longrightarrow> sm_last (sm_compacted m) = Some (fst (last (sm_entries m)))"
  using sm_dense_last [of "sm_compacted m"] sm_compacted(1,2) [of m] sm_dense_compacted [of m] by simp

text \<open>No live key exceeds the last key.\<close>

lemma sm_last_max:
  assumes "sm_ok m" "sm_entries m \<noteq> []"
  shows "\<exists>l. sm_last m = Some l \<and> fst (last (sm_entries m)) \<le> l"
proof -
  have n: "0 < sm_count m" "sm_count m \<le> length (sm_keys m)" using assms by (cases "sm_entries m"; auto simp: sm_ok_def)+
  have "fst (last (sm_entries m)) \<in> fst ` set (sm_entries m)" using assms(2) by simp
  then have "fst (last (sm_entries m)) \<in> set (take (sm_count m) (sm_keys m))"
    using live_pairs_keys unfolding sm_entries_def by blast
  then obtain i where i: "i < sm_count m" "fst (last (sm_entries m)) = sm_keys m ! i"
    using n by (auto simp: in_set_conv_nth)
  have "sm_keys m ! i \<le> sm_keys m ! (sm_count m - 1)"
  proof (cases "i = sm_count m - 1")
    case False
    then show ?thesis using i sorted_wrt_nth_less [of "(<)" "take (sm_count m) (sm_keys m)" i "sm_count m - 1"] assms(1) n
      by (simp add: sm_ok_def order_less_imp_le)
  qed simp
  then show ?thesis using n i by (simp add: sm_last_def)
qed

lemma above_compacted:
  assumes "sm_ok m" "above k (sm_last m)"
  shows "above k (sm_last (sm_compacted m))"
proof (cases "sm_entries m = []")
  case True
  then show ?thesis using sm_compacted(3) [OF assms(1)] by (simp add: sm_last_def)
next
  case False
  then show ?thesis using sm_last_compacted [OF assms(1)] sm_last_max [OF assms(1)] assms(2) by auto
qed

lemma above_not_live:
  assumes "sm_ok m" "above k (sm_last m)"
  shows "map_of (sm_entries m) k = None"
proof (cases "sm_entries m = []")
  case False
  then obtain l where l: "sm_last m = Some l" "fst (last (sm_entries m)) \<le> l" using sm_last_max [OF assms(1)] by auto
  have "x \<le> fst (last (sm_entries m))" if "x \<in> fst ` set (sm_entries m)" for x
    using sm_entries_distinct [OF assms(1)] that False
    by (cases "sm_entries m" rule: rev_cases) (auto simp: sorted_wrt_append intro: order_less_imp_le)
  then show ?thesis using l assms(2) by (fastforce simp: map_of_eq_None_iff)
qed simp

lemma add_cases:
  "grpc_chttp2_stream_map_add k v m =
     (if \<not> above k (sm_last m) \<or> grpc_chttp2_stream_map_find m k \<noteq> None then None
      else let m1 = (if sm_count m = sm_capacity m then if sm_capacity m div 4 < sm_free m then sm_compacted m else sm_grown m else m) in
           if length (sm_keys m1) \<le> sm_count m1 then None else Some (sm_push k v m1))"
proof -
  have "above k (sm_last m) \<longleftrightarrow> sm_count m = 0 \<or> sm_keys m ! (sm_count m - 1) < k" by (simp add: sm_last_def)
  then show ?thesis unfolding grpc_chttp2_stream_map_add_def sm_compacted_def sm_grown_def sm_push_def by simp
qed

lemma add_refines:
  assumes "sm_ok m" "above k (sm_last m)"
  shows "\<exists>m'. grpc_chttp2_stream_map_add k v m = Some m' \<and> sm_ok m' \<and> sm_entries m' = sm_entries m @ [(k, v)] \<and> sm_last m' = Some k"
proof -
  let ?m1 = "if sm_count m = sm_capacity m then if sm_capacity m div 4 < sm_free m then sm_compacted m else sm_grown m else m"
  have room: "sm_ok ?m1 \<and> sm_entries ?m1 = sm_entries m \<and> sm_count ?m1 < sm_capacity ?m1 \<and> above k (sm_last ?m1)"
    using assms sm_compacted [OF assms(1)] sm_grown [OF assms(1)] above_compacted [OF assms]
    by (auto simp: sm_ok_def) (auto simp: sm_grown_def sm_last_def nth_append split: if_splits)
  then have push: "sm_ok (sm_push k v ?m1)" "sm_entries (sm_push k v ?m1) = sm_entries m @ [(k, v)]" "sm_last (sm_push k v ?m1) = Some k"
    using sm_push [of ?m1 k v] by simp_all
  have "length (sm_keys ?m1) = sm_capacity ?m1" using room by (simp only: sm_ok_def)
  then have "grpc_chttp2_stream_map_add k v m = Some (sm_push k v ?m1)"
    unfolding add_cases Let_def using assms room find_is_map_of [OF assms(1), of k] above_not_live [OF assms] by simp
  with push show ?thesis by blast
qed

lemma find_strict_live:
  assumes "sm_ok m" "map_of (sm_entries m) k = Some v"
  shows "\<exists>i. find_strict m k = Some i \<and> i < sm_count m \<and> sm_keys m ! i = k \<and> sm_values m ! i = Some v"
proof (cases "find_loop (sm_keys m) k 0 (sm_count m)")
  case None
  then show ?thesis using find_absent [OF assms(1)] assms(2) by simp
next
  case (Some i)
  then show ?thesis using find_index [OF assms(1) Some] assms by (simp add: find_strict_def)
qed

lemma delete_refines:
  assumes "sm_ok m" "map_of (sm_entries m) k = Some v"
  shows "\<exists>m'. grpc_chttp2_stream_map_delete k m = Some (v, m') \<and> sm_ok m' \<and> sm_entries m' = filter (\<lambda>e. fst e \<noteq> k) (sm_entries m) \<and>
    sm_last m' = (if sm_entries m' = [] then None else sm_last m)"
proof -
  obtain i where i: "find_strict m k = Some i" "i < sm_count m" "sm_keys m ! i = k" "sm_values m ! i = Some v"
    using find_strict_live [OF assms] by blast
  define m1 where "m1 = m\<lparr>sm_values := (sm_values m)[i := None], sm_free := sm_free m + 1\<rparr>"
  define m2 where "m2 = (if sm_free m1 = sm_count m1 then m1\<lparr>sm_free := 0, sm_count := 0\<rparr> else m1)"
  have len: "sm_count m \<le> length (sm_keys m)" "length (sm_values m) = length (sm_keys m)" "distinct (take (sm_count m) (sm_keys m))"
    using assms(1) by (auto simp: sm_ok_def strict_sorted_iff)
  have e1: "sm_entries m1 = filter (\<lambda>e. fst e \<noteq> k) (sm_entries m)"
    using live_pairs_clear [of "take (sm_count m) (sm_keys m)" i "take (sm_count m) (sm_values m)"] i len
    by (simp add: m1_def sm_entries_def take_update_swap)
  have "Suc (length (sm_entries m1)) = length (sm_entries m)"
    using live_pairs_clear_length [of i "take (sm_count m) (sm_keys m)" "take (sm_count m) (sm_values m)"] i len
    by (simp add: m1_def sm_entries_def take_update_swap)
  then have n: "sm_free m1 + length (sm_entries m1) = sm_count m1" using assms(1) by (simp add: sm_ok_def m1_def)
  then have empty: "sm_free m1 = sm_count m1 \<longleftrightarrow> sm_entries m1 = []" by auto
  then have e2: "sm_entries m2 = sm_entries m1" by (simp add: m2_def sm_entries_def)
  have ok: "sm_ok m2"
    using assms(1) n empty e2 by (auto simp: sm_ok_def) (auto simp: m2_def m1_def)
  have "grpc_chttp2_stream_map_find m2 k = None"
    unfolding find_is_map_of [OF ok] e2 e1 by (auto simp: map_of_eq_None_iff)
  then have "grpc_chttp2_stream_map_delete k m = Some (v, m2)"
    unfolding grpc_chttp2_stream_map_delete_def i(1) option.simps Option.bind.simps i(4) m1_def [symmetric] Let_def m2_def [symmetric]
    by simp
  moreover have "sm_last m2 = (if sm_entries m2 = [] then None else sm_last m)"
    using empty i(2) unfolding e2 by (simp add: m2_def sm_last_def) (simp add: m1_def)
  ultimately show ?thesis using ok e1 e2 by metis
qed

text \<open>A deletion of an id that is not there fails an assertion (or dereferences a null pointer, without debug assertions).\<close>

lemma delete_absent:
  assumes "sm_ok m" "map_of (sm_entries m) k = None"
  shows "grpc_chttp2_stream_map_delete k m = None"
proof (cases "find_strict m k")
  case None
  then show ?thesis by (simp add: grpc_chttp2_stream_map_delete_def)
next
  case (Some i)
  then have "sm_values m ! i = None" using find_index(3) [OF assms(1), of k i] assms(2) by (simp add: find_strict_def split: if_splits)
  then show ?thesis using Some by (simp add: grpc_chttp2_stream_map_delete_def)
qed

lemma rand_refines:
  assumes "sm_ok m"
  shows "\<exists>m'. grpc_chttp2_stream_map_rand r m =
      Some (if sm_entries m = [] then None else Some (snd (sm_entries m ! (r mod length (sm_entries m)))), m') \<and> sm_ok m' \<and>
    sm_entries m' = sm_entries m \<and> sm_last m' = (if sm_entries m = [] then None else Some (fst (last (sm_entries m))))"
proof (cases "sm_entries m = []")
  case True
  then show ?thesis using assms by (auto simp: grpc_chttp2_stream_map_rand_def sm_ok_def sm_last_def)
next
  case False
  define m1 where "m1 = (if sm_free m \<noteq> 0 then sm_compacted m else m)"
  have m1: "sm_ok m1" "sm_entries m1 = sm_entries m" "sm_dense m1"
    using assms sm_compacted [OF assms] sm_dense_compacted [OF assms] sm_dense_no_free [OF assms] by (auto simp: m1_def)
  then have "sm_values m1 ! (r mod sm_count m1) = Some (snd (sm_entries m ! (r mod length (sm_entries m))))" "sm_count m1 \<noteq> 0"
    using sm_dense_value [of m1 "r mod length (sm_entries m)"] False by (simp_all add: sm_dense_def)
  moreover have "sm_count m \<noteq> sm_free m" using assms False by (auto simp: sm_ok_def)
  ultimately have "grpc_chttp2_stream_map_rand r m = Some (Some (snd (sm_entries m ! (r mod length (sm_entries m)))), m1)"
    unfolding grpc_chttp2_stream_map_rand_def sm_compacted_def [symmetric] m1_def [symmetric] Let_def by simp
  then show ?thesis using m1 sm_dense_last [OF m1(1,3)] False by simp
qed

section \<open>Runs\<close>

text \<open>The operations that change a map, and what they do to the list of live entries and the largest key that the array still holds.\<close>

datatype 'v sm_op = SmAdd u32 'v | SmDelete u32 | SmRand nat

fun sm_step :: "'v sm_op \<Rightarrow> 'v stream_map \<Rightarrow> 'v stream_map crashable" where
  "sm_step (SmAdd k v) m = grpc_chttp2_stream_map_add k v m"
| "sm_step (SmDelete k) m = map_option snd (grpc_chttp2_stream_map_delete k m)"
| "sm_step (SmRand r) m = map_option snd (grpc_chttp2_stream_map_rand r m)"

fun sm_spec :: "'v sm_op \<Rightarrow> (u32 \<times> 'v) list \<times> u32 option \<Rightarrow> (u32 \<times> 'v) list \<times> u32 option" where
  "sm_spec (SmAdd k v) (es, l) = (es @ [(k, v)], Some k)"
| "sm_spec (SmDelete k) (es, l) = (let es' = filter (\<lambda>e. fst e \<noteq> k) es in (es', if es' = [] then None else l))"
| "sm_spec (SmRand r) (es, l) = (es, if es = [] then None else Some (fst (last es)))"

fun sm_valid :: "'v sm_op \<Rightarrow> (u32 \<times> 'v) list \<times> u32 option \<Rightarrow> bool" where
  "sm_valid (SmAdd k v) (es, l) \<longleftrightarrow> above k l"
| "sm_valid (SmDelete k) (es, l) \<longleftrightarrow> k \<in> fst ` set es"
| "sm_valid (SmRand r) (es, l) \<longleftrightarrow> True"

definition sm_abs :: "'v stream_map \<Rightarrow> (u32 \<times> 'v) list \<times> u32 option" where
  "sm_abs m = (sm_entries m, sm_last m)"

interpretation smr: refinement sm_step sm_spec sm_valid sm_abs sm_ok
proof
  fix m :: "'a stream_map" and x :: "'a sm_op"
  assume ok: "sm_ok m" and v: "sm_valid x (sm_abs m)"
  show "\<exists>m'. sm_step x m = Some m' \<and> sm_ok m' \<and> sm_abs m' = sm_spec x (sm_abs m)"
  proof (cases x)
    case (SmAdd k w)
    then show ?thesis using add_refines [OF ok, of k w] v by (auto simp: sm_abs_def)
  next
    case (SmDelete k)
    then obtain w where "map_of (sm_entries m) k = Some w"
      using v map_of_eq_None_iff [of "sm_entries m" k] by (auto simp: sm_abs_def)
    then show ?thesis using delete_refines [OF ok] SmDelete by (fastforce simp: sm_abs_def Let_def)
  next
    case (SmRand r)
    then show ?thesis using rand_refines [OF ok, of r] by (auto simp: sm_abs_def)
  qed
qed

lemma init_ok:
  assumes "1 < c"
  shows "\<exists>m. grpc_chttp2_stream_map_init c = Some m \<and> sm_ok m \<and> sm_abs m = ([], None)"
  using assms by (simp add: grpc_chttp2_stream_map_init_def sm_ok_def sm_abs_def sm_last_def sm_entries_def)

text \<open>C13: stream map.  From an initial map of any capacity above one, every sequence of additions with growing ids, deletions of present
  ids and random choices runs without a failed assertion.  Afterwards a lookup finds exactly the live entries, the size is their number, a
  traversal visits them in the order of their ids, a deletion of a present id returns its value, a random choice returns a live value exactly
  when there is one, and an addition fails exactly when the id is not above every id the array still holds.\<close>

theorem stream_map_run_exact:
  fixes ops :: "'v sm_op list"
  assumes "1 < initial_capacity" "valid_run sm_valid sm_spec ops ([], None)" "fold sm_spec ops ([], None) = (es, l)"
  shows "\<exists>m0 m. grpc_chttp2_stream_map_init initial_capacity = Some m0 \<and> fold_opt sm_step ops m0 = Some m \<and>
    sorted_wrt (<) (map fst es) \<and>
    (\<forall>k. grpc_chttp2_stream_map_find m k = map_of es k) \<and>
    grpc_chttp2_stream_map_size m = length es \<and>
    (\<forall>f s. grpc_chttp2_stream_map_for_each f m s = fold (\<lambda>(k, v). f k v) es s) \<and>
    (\<forall>k v. map_of es k = Some v \<longrightarrow> (\<exists>m'. grpc_chttp2_stream_map_delete k m = Some (v, m'))) \<and>
    (\<forall>r. \<exists>m'. grpc_chttp2_stream_map_rand r m = Some (if es = [] then None else Some (snd (es ! (r mod length es))), m')) \<and>
    (\<forall>k v. grpc_chttp2_stream_map_add k v m = None \<longleftrightarrow> \<not> above k l)"
proof -
  obtain m0 :: "'v stream_map" where m0: "grpc_chttp2_stream_map_init initial_capacity = Some m0" "sm_ok m0" "sm_abs m0 = ([], None)"
    using init_ok [OF assms(1)] by blast
  then obtain m where m: "fold_opt sm_step ops m0 = Some m" "sm_ok m" "sm_abs m = (es, l)"
    using smr.run_ok [of m0 ops] assms(2,3) by auto
  then have es: "sm_entries m = es" "sm_last m = l" by (simp_all add: sm_abs_def)
  have "grpc_chttp2_stream_map_add k v m = None \<longleftrightarrow> \<not> above k l" for k v
  proof (cases "above k l")
    case True
    then show ?thesis using add_refines [OF m(2), of k v] unfolding es by force
  next
    case False
    then show ?thesis unfolding add_cases es by simp
  qed
  with m0(1) m(1) sm_entries_distinct [OF m(2)] find_is_map_of [OF m(2)] size_is_length [OF m(2)] for_each_is_fold [OF m(2)]
    delete_refines [OF m(2)] rand_refines [OF m(2)] show ?thesis
    unfolding es by (intro exI [of _ m0] exI [of _ m]) blast
qed

theorem stream_map_run_exact_witness:
  "\<exists>m0 m. grpc_chttp2_stream_map_init 2 = Some m0 \<and>
     fold_opt sm_step [SmAdd 1 ''a'', SmAdd 3 ''b'', SmDelete 1, SmAdd 5 ''c'', SmRand 4, SmAdd 9 ''d'', SmDelete 5] m0 = Some m \<and>
     grpc_chttp2_stream_map_find m 3 = Some ''b'' \<and> grpc_chttp2_stream_map_find m 5 = None \<and> grpc_chttp2_stream_map_size m = 2 \<and>
     grpc_chttp2_stream_map_add 9 ''e'' m = None"
  using stream_map_run_exact [of 2 "[SmAdd 1 ''a'', SmAdd 3 ''b'', SmDelete 1, SmAdd 5 ''c'', SmRand 4, SmAdd 9 ''d'', SmDelete 5]"
      "[(3, ''b''), (9, ''d'')]" "Some 9"]
  by fastforce

end
