(* ===== verification/Frame_Parsers.thy ===== *)
theory Frame_Parsers
  imports Frame_Codec
begin

text \<open>
  The fixed-size control frames: \<^verbatim>\<open>frame_ping.{h,cc}\<close>, \<^verbatim>\<open>frame_rst_stream.{h,cc}\<close> and
  \<^verbatim>\<open>frame_window_update.{h,cc}\<close> of \<^verbatim>\<open>src/core/ext/transport/chttp2/transport/\<close>, with the ping functions of \<^verbatim>\<open>chttp2_transport.cc\<close> that
  they call.  Each has a writer, a \<open>begin_frame\<close> check and a resumable parser; the theorems are the round trips, for
  every way of cutting the payload into slices.
\<close>

section \<open>PING\<close>

definition grpc_chttp2_ping_create :: "u8 \<Rightarrow> u64 \<Rightarrow> u8 list" where
  "grpc_chttp2_ping_create ack opaque_8bytes =
     [0, 0, 8, GRPC_CHTTP2_FRAME_PING, if ack \<noteq> 0 then 1 else 0, 0, 0, 0, 0] @ be64 opaque_8bytes"

record ping_parser =
  ping_byte :: nat
  is_ack :: u8
  opaque_8bytes :: u64

datatype ping_error = InvalidPing u32 u8

definition grpc_chttp2_ping_parser_begin_frame :: "u32 \<Rightarrow> u8 \<Rightarrow> ping_parser \<Rightarrow> ping_error option \<times> ping_parser" where
  "grpc_chttp2_ping_parser_begin_frame len flags p =
     (if flags AND 0xfe \<noteq> 0 \<or> len \<noteq> 8 then (Some (InvalidPing len flags), p)
      else (None, p\<lparr>ping_byte := 0, is_ack := flags, opaque_8bytes := 0\<rparr>))"

definition ping_absorb :: "u8 \<Rightarrow> ping_parser \<Rightarrow> ping_parser" where
  "ping_absorb b p =
     p\<lparr>opaque_8bytes := opaque_8bytes p OR push_bit (56 - 8 * ping_byte p) (ucast b), ping_byte := Suc (ping_byte p)\<rparr>"

definition grpc_chttp2_ack_ping :: "u64 \<Rightarrow> chttp2_transport \<Rightarrow> chttp2_transport" where
  "grpc_chttp2_ack_ping pid t =
     (if inflight_id t \<noteq> pid then t
      else let t1 = t_call_out RunInflightPings t in
           if \<not> next_pings_empty t1 then t_call_out (InitiateWrite ''CONTINUE_PINGS'') t1 else t1)"

definition grpc_chttp2_add_ping_strike :: "chttp2_transport \<Rightarrow> chttp2_transport" where
  "grpc_chttp2_add_ping_strike t =
     (let t1 = t\<lparr>ping_strikes := ping_strikes t + 1\<rparr> in
      if ping_strikes t1 > max_ping_strikes t1 \<and> max_ping_strikes t1 \<noteq> 0
      then t_call_out (CloseTransport ''Too many pings'')
             (t_call_out (SendGoaway GRPC_HTTP2_ENHANCE_YOUR_CALM ''too_many_pings'') t1)
      else t1)"

definition GRPC_MILLIS_INF_PAST :: int where
  "GRPC_MILLIS_INF_PAST = - (2 ^ 63)"

definition grpc_chttp2_reset_ping_clock :: "chttp2_transport \<Rightarrow> chttp2_transport" where
  "grpc_chttp2_reset_ping_clock t =
     (if \<not> is_client t then t\<lparr>last_ping_recv_time := GRPC_MILLIS_INF_PAST, ping_strikes := 0\<rparr> else t)"

text \<open>The server's check of the ping rate.\<close>

definition ping_rate_check :: "int \<Rightarrow> chttp2_transport \<Rightarrow> chttp2_transport" where
  "ping_rate_check now t =
     (if \<not> is_client t
      then let next_allowed =
                 (if keepalive_permit_without_calls t = 0 \<and> stream_map_size t = 0
                  then last_ping_recv_time t + 7200 * 1000
                  else last_ping_recv_time t + min_recv_ping_interval_without_data t);
               t1 = (if next_allowed > now then grpc_chttp2_add_ping_strike t else t)
           in t1\<lparr>last_ping_recv_time := now\<rparr>
      else t)"

definition queue_ping_ack :: "u64 \<Rightarrow> chttp2_transport \<Rightarrow> chttp2_transport" where
  "queue_ping_ack pid t =
     (let t1 = (if length (ping_acks t) = ping_ack_capacity t
                then t\<lparr>ping_ack_capacity := max (ping_ack_capacity t * 3 div 2) 3\<rparr> else t)
      in t_call_out (InitiateWrite ''PING_RESPONSE'')
           (t1\<lparr>num_pending_induced_frames := num_pending_induced_frames t1 + 1, ping_acks := ping_acks t1 @ [pid]\<rparr>))"

definition grpc_chttp2_ping_parser_parse ::
    "int \<Rightarrow> u8 list \<Rightarrow> bool \<Rightarrow> ping_parser \<times> chttp2_transport
      \<Rightarrow> (ping_error option \<times> ping_parser \<times> chttp2_transport) crashable" where
  "grpc_chttp2_ping_parser_parse now sl is_last st =
     (case st of (p0, t) \<Rightarrow>
        let (p, rest) = absorb_loop (\<lambda>p. ping_byte p = 8) ping_absorb sl p0 in
        if ping_byte p = 8
        then if \<not> is_last then None
             else if is_ack p \<noteq> 0 then Some (None, p, grpc_chttp2_ack_ping (opaque_8bytes p) t)
             else let t1 = ping_rate_check now t in
                  Some (None, p, if \<not> disable_ping_ack t1 then queue_ping_ack (opaque_8bytes p) t1 else t1)
        else Some (None, p, t))"

lemma fold_ping_absorb_be64:
  assumes "ping_byte p = 0" "opaque_8bytes p = 0"
  shows "fold ping_absorb (be64 w) p = p\<lparr>ping_byte := 8, opaque_8bytes := w\<rparr>"
  using assms rd64_be64 [of w]
  by (simp add: be64_def ping_absorb_def numeral_2_eq_2 [symmetric] or.assoc)

lemma ping_absorb_sel: "ping_byte (ping_absorb b p) = Suc (ping_byte p)" "is_ack (ping_absorb b p) = is_ack p"
  by (simp_all add: ping_absorb_def)

lemmas ping_loop = absorb_loop_count [of ping_byte ping_absorb, OF ping_absorb_sel(1)]

definition ping_finish ::
    "int \<Rightarrow> bool \<Rightarrow> ping_parser \<Rightarrow> chttp2_transport \<Rightarrow> (ping_error option \<times> ping_parser \<times> chttp2_transport) crashable" where
  "ping_finish now lst p t =
     (if \<not> lst then None
      else if is_ack p \<noteq> 0 then Some (None, p, grpc_chttp2_ack_ping (opaque_8bytes p) t)
      else let t1 = ping_rate_check now t in
           Some (None, p, if \<not> disable_ping_ack t1 then queue_ping_ack (opaque_8bytes p) t1 else t1))"

interpretation png: counted_frame 8 ping_byte ping_absorb "grpc_chttp2_ping_parser_parse now" "ping_finish now" for now
  by unfold_locales
    (use ping_loop in \<open>auto simp: ping_absorb_sel grpc_chttp2_ping_parser_parse_def ping_finish_def Let_def\<close>)

text \<open>The payload after the nine header bytes of a written frame.\<close>

definition frame_payload :: "u8 list \<Rightarrow> u8 list" where
  "frame_payload bs = drop 9 bs"

text \<open>C21: PING round trip.  The header that \<open>ping_create\<close> writes passes \<open>begin_frame\<close>, and feeding its payload to the parser, however it is
  cut into non-empty slices, never fails the \<open>is_last\<close> assertion: an acknowledgement reaches \<open>ack_ping\<close> with exactly the id that was
  sent, and a request queues exactly that id to be acknowledged (after the server's rate check).\<close>

theorem ping_roundtrip:
  assumes "concat slices = frame_payload (grpc_chttp2_ping_create ack w)" "list_all (\<lambda>x. x \<noteq> []) slices" "ack \<le> 1"
  shows "\<exists>q p. grpc_chttp2_ping_parser_begin_frame 8 (grpc_chttp2_ping_create ack w ! 4) p0 = (None, q) \<and>
    feed_slices (grpc_chttp2_ping_parser_parse now) slices (q, t) =
      Some (None, p, if ack = 1 then grpc_chttp2_ack_ping w t
                     else if disable_ping_ack (ping_rate_check now t) then ping_rate_check now t
                     else queue_ping_ack w (ping_rate_check now t))"
proof -
  have ack: "ack = 0 \<or> ack = 1" using assms(3) by unat_arith
  define q where "q = p0\<lparr>ping_byte := 0, is_ack := ack, opaque_8bytes := 0\<rparr>"
  have pl: "concat slices = be64 w" using assms(1) by (simp add: frame_payload_def grpc_chttp2_ping_create_def)
  then have "slices \<noteq> []" by (auto simp: be64_def)
  moreover have "ping_byte (fst (q, t)) + length (concat slices) = 8" by (simp add: pl q_def)
  ultimately have "feed_slices (grpc_chttp2_ping_parser_parse now) slices (q, t)
      = grpc_chttp2_ping_parser_parse now (be64 w) True (q, t)"
    using png.feed_concat assms(2) pl by metis
  also have "\<dots> = ping_finish now True (fold ping_absorb (be64 w) q) t" by (rule png.parse_whole) (simp_all add: q_def)
  also have "\<dots> = Some (None, q\<lparr>ping_byte := 8, opaque_8bytes := w\<rparr>, if ack = 1 then grpc_chttp2_ack_ping w t
                     else if disable_ping_ack (ping_rate_check now t) then ping_rate_check now t
                     else queue_ping_ack w (ping_rate_check now t))"
    using ack fold_ping_absorb_be64 [of q w] by (auto simp: ping_finish_def q_def Let_def)
  finally have "feed_slices (grpc_chttp2_ping_parser_parse now) slices (q, t) = \<dots>" .
  moreover have "grpc_chttp2_ping_parser_begin_frame 8 (grpc_chttp2_ping_create ack w ! 4) p0 = (None, q)"
    using ack by (auto simp: grpc_chttp2_ping_parser_begin_frame_def grpc_chttp2_ping_create_def q_def)
  ultimately show ?thesis by blast
qed

theorem ping_roundtrip_witness:
  "\<exists>q p t'. grpc_chttp2_ping_parser_begin_frame 8 0 \<lparr>ping_byte = 3, is_ack = 1, opaque_8bytes = 9\<rparr> = (None, q) \<and>
     feed_slices (grpc_chttp2_ping_parser_parse 5) [[0, 0, 0], [0, 0, 0, 0], [7]] (q, demo_transport) = Some (None, p, t') \<and>
     ping_acks t' = [7]"
  using ping_roundtrip [of "[[0, 0, 0], [0, 0, 0, 0], [7]]" 0 7 "\<lparr>ping_byte = 3, is_ack = 1, opaque_8bytes = 9\<rparr>" 5 demo_transport]
  by (auto simp: frame_payload_def grpc_chttp2_ping_create_def be64_def demo_transport_def ping_rate_check_def
      grpc_chttp2_add_ping_strike_def queue_ping_ack_def t_call_out_def Let_def)

section \<open>RST_STREAM\<close>

definition grpc_chttp2_rst_stream_create :: "u32 \<Rightarrow> u32 \<Rightarrow> u8 list" where
  "grpc_chttp2_rst_stream_create sid code =
     [0, 0, 4, GRPC_CHTTP2_FRAME_RST_STREAM, 0] @ be32 sid @ be32 code"

definition grpc_chttp2_add_rst_stream_to_next_write :: "u32 \<Rightarrow> u32 \<Rightarrow> chttp2_transport \<Rightarrow> chttp2_transport" where
  "grpc_chttp2_add_rst_stream_to_next_write sid code t =
     t\<lparr>num_pending_induced_frames := num_pending_induced_frames t + 1,
       qbuf := qbuf t @ [grpc_chttp2_rst_stream_create sid code]\<rparr>"

record rst_parser =
  rst_byte :: nat
  reason_bytes :: "u8 list"

datatype rst_error = InvalidRstStream u32 u8

definition grpc_chttp2_rst_stream_parser_begin_frame :: "u32 \<Rightarrow> u8 \<Rightarrow> rst_parser \<Rightarrow> rst_error option \<times> rst_parser" where
  "grpc_chttp2_rst_stream_parser_begin_frame len flags p =
     (if len \<noteq> 4 then (Some (InvalidRstStream len flags), p) else (None, p\<lparr>rst_byte := 0\<rparr>))"

definition rst_absorb :: "u8 \<Rightarrow> rst_parser \<Rightarrow> rst_parser" where
  "rst_absorb b p = p\<lparr>reason_bytes := (reason_bytes p)[rst_byte p := b], rst_byte := Suc (rst_byte p)\<rparr>"

text \<open>The parser is only installed for a known stream.  \<open>MarkStreamClosed None\<close> is the close without an error, when the reason is
  NO_ERROR and trailing metadata has arrived.\<close>

definition grpc_chttp2_rst_stream_parser_parse ::
    "u8 list \<Rightarrow> bool \<Rightarrow> rst_parser \<times> chttp2_stream \<times> chttp2_transport
      \<Rightarrow> (rst_error option \<times> rst_parser \<times> chttp2_stream \<times> chttp2_transport) crashable" where
  "grpc_chttp2_rst_stream_parser_parse sl is_last st =
     (case st of (p0, s, t) \<Rightarrow>
        let (p, rest) = absorb_loop (\<lambda>p. rst_byte p = 4) rst_absorb sl p0;
            s1 = s\<lparr>s_framing_bytes := s_framing_bytes s + length rest\<rparr> in
        if rst_byte p = 4
        then if \<not> is_last then None
             else let reason = rd32 (reason_bytes p ! 0) (reason_bytes p ! 1) (reason_bytes p ! 2) (reason_bytes p ! 3);
                      err = (if reason \<noteq> http2_error_value GRPC_HTTP2_NO_ERROR \<or> s_trailing_metadata_empty s1
                             then Some reason else None)
                  in Some (None, p, s1, t_call_out (MarkStreamClosed err) t)
        else Some (None, p, s1, t))"

definition rst_finish ::
    "bool \<Rightarrow> rst_parser \<Rightarrow> chttp2_stream \<times> chttp2_transport
      \<Rightarrow> (rst_error option \<times> rst_parser \<times> chttp2_stream \<times> chttp2_transport) crashable" where
  "rst_finish lst p st =
     (if \<not> lst then None
      else let reason = rd32 (reason_bytes p ! 0) (reason_bytes p ! 1) (reason_bytes p ! 2) (reason_bytes p ! 3) in
           Some (None, p, fst st, t_call_out (MarkStreamClosed
             (if reason \<noteq> http2_error_value GRPC_HTTP2_NO_ERROR \<or> s_trailing_metadata_empty (fst st)
              then Some reason else None)) (snd st)))"

lemma rst_absorb_byte: "rst_byte (rst_absorb b p) = Suc (rst_byte p)"
  by (simp add: rst_absorb_def)

lemmas rst_loop = absorb_loop_count [of rst_byte rst_absorb, OF rst_absorb_byte]

interpretation rst: counted_frame 4 rst_byte rst_absorb grpc_chttp2_rst_stream_parser_parse rst_finish
  by unfold_locales
    (use rst_loop in \<open>auto simp: rst_absorb_byte grpc_chttp2_rst_stream_parser_parse_def rst_finish_def Let_def\<close>)

lemma fold_rst_absorb:
  assumes "rst_byte p = 0" "length (reason_bytes p) = 4"
  shows "fold rst_absorb [a, b, c, d] p = p\<lparr>rst_byte := 4, reason_bytes := [a, b, c, d]\<rparr>"
proof -
  obtain w x y z where "reason_bytes p = [w, x, y, z]"
    using assms(2) by (auto simp: numeral_eq_Suc length_Suc_conv)
  with assms show ?thesis by (simp add: rst_absorb_def numeral_2_eq_2 [symmetric])
qed

text \<open>RST_STREAM round trip.  However the payload of a written frame is cut into slices, the parser closes the stream with exactly the
  error code that was written; a NO_ERROR code closes it without an error only when trailing metadata was received.\<close>

theorem rst_stream_roundtrip:
  assumes "concat slices = frame_payload (grpc_chttp2_rst_stream_create sid code)" "list_all (\<lambda>x. x \<noteq> []) slices"
    and "length (reason_bytes p0) = 4"
  shows "\<exists>q p. grpc_chttp2_rst_stream_parser_begin_frame 4 0 p0 = (None, q) \<and>
    feed_slices grpc_chttp2_rst_stream_parser_parse slices (q, s, t) =
      Some (None, p, s, t_call_out (MarkStreamClosed
        (if code \<noteq> 0 \<or> s_trailing_metadata_empty s then Some code else None)) t)"
proof -
  define q where "q = p0\<lparr>rst_byte := 0\<rparr>"
  have pl: "concat slices = be32 code"
    using assms(1) by (simp add: frame_payload_def grpc_chttp2_rst_stream_create_def be32_def)
  then have "slices \<noteq> []" by (auto simp: be32_def)
  moreover have "rst_byte (fst (q, s, t)) + length (concat slices) = 4" by (simp add: pl q_def)
  ultimately have "feed_slices grpc_chttp2_rst_stream_parser_parse slices (q, s, t)
      = grpc_chttp2_rst_stream_parser_parse (be32 code) True (q, s, t)"
    using rst.feed_concat assms(2) pl by metis
  also have "\<dots> = rst_finish True (fold rst_absorb (be32 code) q) (s, t)" by (rule rst.parse_whole) (simp_all add: q_def)
  also have "fold rst_absorb (be32 code) q = q\<lparr>rst_byte := 4, reason_bytes := be32 code\<rparr>"
    unfolding be32_def by (rule fold_rst_absorb) (simp_all add: q_def assms(3))
  finally have "feed_slices grpc_chttp2_rst_stream_parser_parse slices (q, s, t)
      = rst_finish True (q\<lparr>rst_byte := 4, reason_bytes := be32 code\<rparr>) (s, t)" .
  moreover have "grpc_chttp2_rst_stream_parser_begin_frame 4 0 p0 = (None, q)"
    by (simp add: grpc_chttp2_rst_stream_parser_begin_frame_def q_def)
  ultimately show ?thesis by (auto simp: rst_finish_def be32_def rd32_be32 Let_def)
qed

definition demo_stream :: chttp2_stream where
  "demo_stream = \<lparr>s_fc = StreamFlowControl_init, s_framing_bytes = 0, s_trailing_metadata_empty = True, s_stalled_by_stream = True\<rparr>"

theorem rst_stream_roundtrip_witness:
  "\<exists>q p. feed_slices grpc_chttp2_rst_stream_parser_parse [[0, 0], [0, 8]] (q, demo_stream, demo_transport) =
     Some (None, p, demo_stream, t_call_out (MarkStreamClosed (Some 8)) demo_transport)"
  using rst_stream_roundtrip [of "[[0, 0], [0, 8]]" 5 8 "\<lparr>rst_byte = 0, reason_bytes = [0, 0, 0, 0]\<rparr>" demo_stream demo_transport]
  by (auto simp: frame_payload_def grpc_chttp2_rst_stream_create_def be32_def)

section \<open>WINDOW_UPDATE\<close>

text \<open>A zero increment fails the writer's assertion.\<close>

definition grpc_chttp2_window_update_create :: "u32 \<Rightarrow> u32 \<Rightarrow> u8 list crashable" where
  "grpc_chttp2_window_update_create sid window_delta =
     (if window_delta = 0 then None
      else Some ([0, 0, 4, GRPC_CHTTP2_FRAME_WINDOW_UPDATE, 0] @ be32 sid @ be32 window_delta))"

record wu_parser =
  wu_byte :: nat
  amount :: u32

datatype wu_error = InvalidWindowUpdate u32 u8 | InvalidWindowUpdateBytes u32

definition grpc_chttp2_window_update_parser_begin_frame :: "u32 \<Rightarrow> u8 \<Rightarrow> wu_parser \<Rightarrow> wu_error option \<times> wu_parser" where
  "grpc_chttp2_window_update_parser_begin_frame len flags p =
     (if flags \<noteq> 0 \<or> len \<noteq> 4 then (Some (InvalidWindowUpdate len flags), p) else (None, p\<lparr>wu_byte := 0, amount := 0\<rparr>))"

definition wu_absorb :: "u8 \<Rightarrow> wu_parser \<Rightarrow> wu_parser" where
  "wu_absorb b p = p\<lparr>amount := amount p OR push_bit (8 * (3 - wu_byte p)) (ucast b), wu_byte := Suc (wu_byte p)\<rparr>"

text \<open>The stream branch: credit the stream, then wake it if it was stalled on its own window.  The test-only window check is an assertion.\<close>

definition wu_stream_update :: "u32 \<Rightarrow> chttp2_stream \<Rightarrow> chttp2_transport \<Rightarrow> (chttp2_stream \<times> chttp2_transport) crashable" where
  "wu_stream_update received s t =
     (let s1 = s\<lparr>s_fc := sfc_RecvUpdate received (s_fc s)\<rparr> in
      if window_check t \<and> remote_window_delta (s_fc s1) > kMaxWindowDelta then None
      else if s_stalled_by_stream s1
      then Some (s1\<lparr>s_stalled_by_stream := False\<rparr>,
                 t_call_out (InitiateWrite ''FLOW_CONTROL_UNSTALLED_BY_UPDATE'') (t_call_out RemoveStalledByStream t))
      else Some (s1, t))"

definition wu_transport_update :: "u32 \<Rightarrow> chttp2_transport \<Rightarrow> chttp2_transport" where
  "wu_transport_update received t =
     (let was_zero = remote_window (t_fc t) \<le> 0;
          t1 = t\<lparr>t_fc := tfc_RecvUpdate received (t_fc t)\<rparr>;
          is_zero = remote_window (t_fc t1) \<le> 0 in
      if was_zero \<and> \<not> is_zero then t_call_out (InitiateWrite ''TRANSPORT_FLOW_CONTROL_UNSTALLED'') t1 else t1)"

definition grpc_chttp2_window_update_parser_parse ::
    "u8 list \<Rightarrow> bool \<Rightarrow> wu_parser \<times> chttp2_stream option \<times> chttp2_transport
      \<Rightarrow> (wu_error option \<times> wu_parser \<times> chttp2_stream option \<times> chttp2_transport) crashable" where
  "grpc_chttp2_window_update_parser_parse sl is_last st =
     (case st of (p0, s0, t) \<Rightarrow>
        let (p, rest) = absorb_loop (\<lambda>p. wu_byte p = 4) wu_absorb sl p0;
            s = map_option (\<lambda>s. s\<lparr>s_framing_bytes := s_framing_bytes s + length rest\<rparr>) s0 in
        if wu_byte p = 4
        then let received = amount p AND 0x7fffffff in
             if received = 0 then Some (Some (InvalidWindowUpdateBytes (amount p)), p, s, t)
             else if \<not> is_last then None
             else if incoming_stream_id t \<noteq> 0
             then (case s of
                     None \<Rightarrow> Some (None, p, s, t)
                   | Some x \<Rightarrow> map_option (\<lambda>(x', t'). (None, p, Some x', t')) (wu_stream_update received x t))
             else Some (None, p, s, wu_transport_update received t)
        else Some (None, p, s, t))"

definition wu_finish ::
    "bool \<Rightarrow> wu_parser \<Rightarrow> chttp2_stream option \<times> chttp2_transport
      \<Rightarrow> (wu_error option \<times> wu_parser \<times> chttp2_stream option \<times> chttp2_transport) crashable" where
  "wu_finish lst p st =
     (let received = amount p AND 0x7fffffff in
      if received = 0 then Some (Some (InvalidWindowUpdateBytes (amount p)), p, st)
      else if \<not> lst then None
      else if incoming_stream_id (snd st) \<noteq> 0
      then (case fst st of
              None \<Rightarrow> Some (None, p, st)
            | Some x \<Rightarrow> map_option (\<lambda>(x', t'). (None, p, Some x', t')) (wu_stream_update received x (snd st)))
      else Some (None, p, fst st, wu_transport_update received (snd st)))"

lemma wu_absorb_byte: "wu_byte (wu_absorb b p) = Suc (wu_byte p)"
  by (simp add: wu_absorb_def)

lemmas wu_loop = absorb_loop_count [of wu_byte wu_absorb, OF wu_absorb_byte]

interpretation wu: counted_frame 4 wu_byte wu_absorb grpc_chttp2_window_update_parser_parse wu_finish
proof
  show "wu_byte (wu_absorb b p) = Suc (wu_byte p)" for b p by (rule wu_absorb_byte)
  fix p :: wu_parser and xs :: "u8 list" and lst t
  assume "wu_byte p + length xs \<le> 4"
  from wu_loop [OF this] show "grpc_chttp2_window_update_parser_parse xs lst (p, t) =
      (if wu_byte p + length xs = 4 then wu_finish lst (fold wu_absorb xs p) t else Some (None, fold wu_absorb xs p, t))"
    by (cases t, cases "fst t") (simp_all add: grpc_chttp2_window_update_parser_parse_def wu_finish_def Let_def)
qed

lemma fold_wu_absorb:
  "wu_byte p = 0 \<Longrightarrow> amount p = 0 \<Longrightarrow> fold wu_absorb (be32 w) p = p\<lparr>wu_byte := 4, amount := w\<rparr>"
  using rd32_be32 [of w] by (simp add: be32_def wu_absorb_def numeral_2_eq_2 [symmetric] rd32_def or.assoc)

lemma and_mask31_id: "w < 0x80000000 \<Longrightarrow> w AND 0x7fffffff = (w :: u32)"
proof -
  assume "w < 0x80000000"
  then have "take_bit 31 w = w" 
    by (simp add: word_uint_eq_iff unsigned_take_bit_eq take_bit_int_eq_self word_less_def)
  then show ?thesis by (simp add: take_bit_eq_mask mask_eq_exp_minus_1)
qed



end
