(* ===== verification/Frame_Goaway.thy ===== *)
theory Frame_Goaway
  imports Frame_Parsers
begin

text \<open>
  GOAWAY frames: \<^verbatim>\<open>src/core/ext/transport/chttp2/transport/frame_goaway.{h,cc}\<close>.  The parser is a byte-wise state machine followed by a
  debug-data buffer allocated when the frame begins.  A byte of that buffer is \<open>None\<close> until it is written; a \<open>memcpy\<close> past the end
  of the buffer, a failed assertion and the use of an unwritten byte are faults (\<open>None\<close>).
\<close>

section \<open>Definitions\<close>

datatype goaway_parse_state =
  GRPC_CHTTP2_GOAWAY_LSI0 | GRPC_CHTTP2_GOAWAY_LSI1 | GRPC_CHTTP2_GOAWAY_LSI2 | GRPC_CHTTP2_GOAWAY_LSI3
| GRPC_CHTTP2_GOAWAY_ERR0 | GRPC_CHTTP2_GOAWAY_ERR1 | GRPC_CHTTP2_GOAWAY_ERR2 | GRPC_CHTTP2_GOAWAY_ERR3
| GRPC_CHTTP2_GOAWAY_DEBUG

record goaway_parser =
  ga_state :: goaway_parse_state
  ga_last_stream_id :: u32
  ga_error_code :: u32
  debug_data :: "u8 option list option"
  debug_length :: nat
  debug_pos :: nat

definition grpc_chttp2_goaway_parser_init :: "goaway_parser \<Rightarrow> goaway_parser" where
  "grpc_chttp2_goaway_parser_init p = p\<lparr>debug_data := None\<rparr>"

datatype goaway_error = GoawayTooShort u32

definition grpc_chttp2_goaway_parser_begin_frame :: "u32 \<Rightarrow> u8 \<Rightarrow> goaway_parser \<Rightarrow> goaway_error option \<times> goaway_parser" where
  "grpc_chttp2_goaway_parser_begin_frame len flags p =
     (if len < 8 then (Some (GoawayTooShort len), p)
      else let n = unat (len - 8) in
           (None, p\<lparr>debug_length := n, debug_data := Some (replicate n None), debug_pos := 0,
                    ga_state := GRPC_CHTTP2_GOAWAY_LSI0\<rparr>))"

text \<open>One byte of the fixed part.  The state is left at the next byte, which is what the source stores when the slice ends there.\<close>

fun goaway_byte :: "goaway_parse_state \<Rightarrow> u8 \<Rightarrow> goaway_parser \<Rightarrow> goaway_parser" where
  "goaway_byte GRPC_CHTTP2_GOAWAY_LSI0 b p =
     p\<lparr>ga_last_stream_id := push_bit 24 (ucast b), ga_state := GRPC_CHTTP2_GOAWAY_LSI1\<rparr>"
| "goaway_byte GRPC_CHTTP2_GOAWAY_LSI1 b p =
     p\<lparr>ga_last_stream_id := ga_last_stream_id p OR push_bit 16 (ucast b), ga_state := GRPC_CHTTP2_GOAWAY_LSI2\<rparr>"
| "goaway_byte GRPC_CHTTP2_GOAWAY_LSI2 b p =
     p\<lparr>ga_last_stream_id := ga_last_stream_id p OR push_bit 8 (ucast b), ga_state := GRPC_CHTTP2_GOAWAY_LSI3\<rparr>"
| "goaway_byte GRPC_CHTTP2_GOAWAY_LSI3 b p =
     p\<lparr>ga_last_stream_id := ga_last_stream_id p OR ucast b, ga_state := GRPC_CHTTP2_GOAWAY_ERR0\<rparr>"
| "goaway_byte GRPC_CHTTP2_GOAWAY_ERR0 b p =
     p\<lparr>ga_error_code := push_bit 24 (ucast b), ga_state := GRPC_CHTTP2_GOAWAY_ERR1\<rparr>"
| "goaway_byte GRPC_CHTTP2_GOAWAY_ERR1 b p =
     p\<lparr>ga_error_code := ga_error_code p OR push_bit 16 (ucast b), ga_state := GRPC_CHTTP2_GOAWAY_ERR2\<rparr>"
| "goaway_byte GRPC_CHTTP2_GOAWAY_ERR2 b p =
     p\<lparr>ga_error_code := ga_error_code p OR push_bit 8 (ucast b), ga_state := GRPC_CHTTP2_GOAWAY_ERR3\<rparr>"
| "goaway_byte GRPC_CHTTP2_GOAWAY_ERR3 b p =
     p\<lparr>ga_error_code := ga_error_code p OR ucast b, ga_state := GRPC_CHTTP2_GOAWAY_DEBUG\<rparr>"
| "goaway_byte GRPC_CHTTP2_GOAWAY_DEBUG b p = p"

text \<open>The switch up to the DEBUG label: \<open>None\<close> when the slice ended before it, else what is left of the slice.\<close>

fun goaway_header :: "u8 list \<Rightarrow> goaway_parser \<Rightarrow> goaway_parser \<times> u8 list option" where
  "goaway_header xs p =
     (if ga_state p = GRPC_CHTTP2_GOAWAY_DEBUG then (p, Some xs)
      else case xs of [] \<Rightarrow> (p, None) | b # bs \<Rightarrow> goaway_header bs (goaway_byte (ga_state p) b p))"

declare goaway_header.simps [simp del]

text \<open>The DEBUG label.\<close>

definition goaway_debug ::
    "u8 list \<Rightarrow> bool \<Rightarrow> goaway_parser \<Rightarrow> chttp2_transport \<Rightarrow> (goaway_error option \<times> goaway_parser \<times> chttp2_transport) crashable" where
  "goaway_debug rest is_last p t =
     (case debug_data p of
        None \<Rightarrow> None
      | Some d \<Rightarrow>
          if debug_pos p + length rest > debug_length p then None
          else if \<not> length rest < 2 ^ 32 - 1 - debug_pos p then None
          else
            let d' = take (debug_pos p) d @ map Some rest @ drop (debug_pos p + length rest) d;
                p1 = p\<lparr>debug_data := Some d', debug_pos := debug_pos p + length rest, ga_state := GRPC_CHTTP2_GOAWAY_DEBUG\<rparr> in
            if is_last
            then if None \<in> set d' then None
                 else Some (None, p1\<lparr>debug_data := None\<rparr>,
                            t_call_out (AddIncomingGoaway (ga_error_code p1) (ga_last_stream_id p1) (map the d')) t)
            else Some (None, p1, t))"

definition grpc_chttp2_goaway_parser_parse ::
    "u8 list \<Rightarrow> bool \<Rightarrow> goaway_parser \<times> chttp2_transport \<Rightarrow> (goaway_error option \<times> goaway_parser \<times> chttp2_transport) crashable" where
  "grpc_chttp2_goaway_parser_parse sl is_last st =
     (case st of (p, t) \<Rightarrow>
        (case goaway_header sl p of
           (p1, None) \<Rightarrow> Some (None, p1, t)
         | (p1, Some rest) \<Rightarrow> goaway_debug rest is_last p1 t))"

text \<open>The two slices that \<open>goaway_append\<close> adds, with its assertion on the length.\<close>

definition grpc_chttp2_goaway_append :: "u32 \<Rightarrow> u32 \<Rightarrow> u8 list \<Rightarrow> u8 list list \<Rightarrow> u8 list list crashable" where
  "grpc_chttp2_goaway_append last_stream_id error_code debug slice_buffer =
     (if \<not> length debug < 2 ^ 32 - 1 - 4 - 4 then None
      else let frame_length = 4 + 4 + of_nat (length debug) :: u32 in
           Some (slice_buffer @
             [be24 frame_length @ [GRPC_CHTTP2_FRAME_GOAWAY, 0, 0, 0, 0, 0] @ be32 last_stream_id @ be32 error_code, debug]))"

section \<open>Suspending the parser\<close>

fun goaway_index :: "goaway_parse_state \<Rightarrow> nat" where
  "goaway_index GRPC_CHTTP2_GOAWAY_LSI0 = 0" | "goaway_index GRPC_CHTTP2_GOAWAY_LSI1 = 1"
| "goaway_index GRPC_CHTTP2_GOAWAY_LSI2 = 2" | "goaway_index GRPC_CHTTP2_GOAWAY_LSI3 = 3"
| "goaway_index GRPC_CHTTP2_GOAWAY_ERR0 = 4" | "goaway_index GRPC_CHTTP2_GOAWAY_ERR1 = 5"
| "goaway_index GRPC_CHTTP2_GOAWAY_ERR2 = 6" | "goaway_index GRPC_CHTTP2_GOAWAY_ERR3 = 7"
| "goaway_index GRPC_CHTTP2_GOAWAY_DEBUG = 8"

definition goaway_room :: "goaway_parser \<times> chttp2_transport \<Rightarrow> nat" where
  "goaway_room st = (8 - goaway_index (ga_state (fst st))) + (debug_length (fst st) - debug_pos (fst st))"

lemma goaway_byte_frame:
  "s \<noteq> GRPC_CHTTP2_GOAWAY_DEBUG \<Longrightarrow> goaway_index (ga_state (goaway_byte s b p)) = Suc (goaway_index s)"
  "debug_data (goaway_byte s b p) = debug_data p" "debug_length (goaway_byte s b p) = debug_length p"
  "debug_pos (goaway_byte s b p) = debug_pos p"
  by (cases s; simp)+

lemma goaway_index_less: "goaway_index s < 8 \<longleftrightarrow> s \<noteq> GRPC_CHTTP2_GOAWAY_DEBUG" "goaway_index s \<le> 8"
  by (cases s; simp)+

lemma goaway_header_append:
  "goaway_header (xs @ ys) p =
     (case goaway_header xs p of (p1, None) \<Rightarrow> goaway_header ys p1 | (p1, Some rest) \<Rightarrow> (p1, Some (rest @ ys)))"
  by (induction xs arbitrary: p) (auto simp: goaway_header.simps)

lemma goaway_header_frame:
  "goaway_header xs p = (p1, r) \<Longrightarrow>
   debug_data p1 = debug_data p \<and> debug_length p1 = debug_length p \<and> debug_pos p1 = debug_pos p \<and>
   (case r of None \<Rightarrow> goaway_index (ga_state p1) = goaway_index (ga_state p) + length xs \<and> ga_state p1 \<noteq> GRPC_CHTTP2_GOAWAY_DEBUG
    | Some rest \<Rightarrow> ga_state p1 = GRPC_CHTTP2_GOAWAY_DEBUG \<and> length rest + 8 = length xs + goaway_index (ga_state p))"
proof (induction xs arbitrary: p)
  case Nil
  then show ?case by (auto simp: goaway_header.simps split: if_splits)
next
  case (Cons b bs)
  show ?case
  proof (cases "ga_state p = GRPC_CHTTP2_GOAWAY_DEBUG")
    case True
    with Cons.prems show ?thesis by (auto simp: goaway_header.simps)
  next
    case False
    with Cons.prems have "goaway_header bs (goaway_byte (ga_state p) b p) = (p1, r)"
      by (subst (asm) goaway_header.simps) simp
    from Cons.IH [OF this] goaway_byte_frame [of "ga_state p" b p] False show ?thesis
      by (auto split: option.splits)
  qed
qed

lemma goaway_header_DEBUG: "ga_state p = GRPC_CHTTP2_GOAWAY_DEBUG \<Longrightarrow> goaway_header ys p = (p, Some ys)"
  by (simp add: goaway_header.simps)

lemma goaway_debug_split:
  assumes "ga_state p = GRPC_CHTTP2_GOAWAY_DEBUG"
    and "debug_pos p + length xs + length ys = debug_length p"
    and "\<And>d. debug_data p = Some d \<Longrightarrow> length d = debug_length p"
  shows "goaway_debug (xs @ ys) True p t =
    (case goaway_debug xs False p t of
       None \<Rightarrow> None | Some (Some e, s') \<Rightarrow> Some (Some e, s')
     | Some (None, s') \<Rightarrow> grpc_chttp2_goaway_parser_parse ys True s')"
proof (cases "debug_data p")
  case None
  then show ?thesis by (simp add: goaway_debug_def)
next
  case (Some d)
  show ?thesis
  proof (cases "length xs + length ys < 2 ^ 32 - 1 - debug_pos p")
    case True
    then have "length xs < 2 ^ 32 - 1 - debug_pos p" "length ys < 2 ^ 32 - 1 - (debug_pos p + length xs)" by auto
    with True Some assms show ?thesis
      by (simp add: goaway_debug_def grpc_chttp2_goaway_parser_parse_def goaway_header_DEBUG Let_def)
  next
    case False
    with Some assms show ?thesis
      by (auto simp: goaway_debug_def grpc_chttp2_goaway_parser_parse_def goaway_header_DEBUG Let_def)
  qed
qed

definition goaway_parser_ok :: "goaway_parser \<times> chttp2_transport \<Rightarrow> bool" where
  "goaway_parser_ok st \<longleftrightarrow>
     (\<exists>d. debug_data (fst st) = Some d \<and> length d = debug_length (fst st) \<and> debug_pos (fst st) \<le> length d \<and>
          None \<notin> set (take (debug_pos (fst st)) d)) \<and>
     (ga_state (fst st) \<noteq> GRPC_CHTTP2_GOAWAY_DEBUG \<longrightarrow> debug_pos (fst st) = 0) \<and>
     debug_length (fst st) < 2 ^ 32 - 1"

lemma goaway_debug_more:
  assumes "goaway_parser_ok (p, t)" "debug_pos p + length xs \<le> debug_length p" "ga_state p = GRPC_CHTTP2_GOAWAY_DEBUG"
  obtains p' where "goaway_debug xs False p t = Some (None, p', t)" "goaway_parser_ok (p', t)"
    "ga_state p' = GRPC_CHTTP2_GOAWAY_DEBUG" "debug_pos p' = debug_pos p + length xs" "debug_length p' = debug_length p"
proof -
  obtain d where d: "debug_data p = Some d" "length d = debug_length p" "None \<notin> set (take (debug_pos p) d)"
    using assms(1) by (auto simp: goaway_parser_ok_def)
  have "length xs < 2 ^ 32 - 1 - debug_pos p" using assms(1,2) by (auto simp: goaway_parser_ok_def)
  then show thesis
    using that assms d by (auto simp: goaway_debug_def goaway_parser_ok_def Let_def)
qed

interpretation ga: resumable grpc_chttp2_goaway_parser_parse "\<lambda>k s. goaway_parser_ok s \<and> goaway_room s = k"
proof
  fix xs ys :: "u8 list" and s
  assume ne: "xs \<noteq> []" "ys \<noteq> []" and okl: "goaway_parser_ok s \<and> goaway_room s = length xs + length ys"
  then have ok: "goaway_parser_ok s" and len: "length (xs @ ys) = goaway_room s" by simp_all
  obtain p t where s: "s = (p, t)" by fastforce
  obtain p1 r where h: "goaway_header xs p = (p1, r)" by fastforce
  note fr = goaway_header_frame [OF h]
  show "grpc_chttp2_goaway_parser_parse (xs @ ys) True s =
      (case grpc_chttp2_goaway_parser_parse xs False s of
         None \<Rightarrow> None | Some (Some e, s') \<Rightarrow> Some (Some e, s') | Some (None, s') \<Rightarrow> grpc_chttp2_goaway_parser_parse ys True s')"
  proof (cases r)
    case None
    then show ?thesis using h s by (simp add: grpc_chttp2_goaway_parser_parse_def goaway_header_append)
  next
    case (Some rest)
    have "debug_pos p1 + length rest + length ys = debug_length p1"
      using fr Some len ok ne s goaway_index_less [of "ga_state p"]
      by (cases "ga_state p = GRPC_CHTTP2_GOAWAY_DEBUG") (auto simp: goaway_room_def goaway_parser_ok_def)
    moreover have "length d = debug_length p1" if "debug_data p1 = Some d" for d
      using that fr ok s by (auto simp: goaway_parser_ok_def)
    moreover have "ga_state p1 = GRPC_CHTTP2_GOAWAY_DEBUG" using fr Some by simp
    ultimately have "goaway_debug (rest @ ys) True p1 t =
      (case goaway_debug rest False p1 t of
         None \<Rightarrow> None | Some (Some e, s') \<Rightarrow> Some (Some e, s') | Some (None, s') \<Rightarrow> grpc_chttp2_goaway_parser_parse ys True s')"
      using goaway_debug_split [of p1 rest ys t] by blast
    then show ?thesis using h s Some by (simp add: grpc_chttp2_goaway_parser_parse_def goaway_header_append)
  qed
next
  fix xs :: "u8 list" and m and s s'
  assume ne: "xs \<noteq> []" and m: "0 < m" and okm: "goaway_parser_ok s \<and> goaway_room s = length xs + m"
    and pr: "grpc_chttp2_goaway_parser_parse xs False s = Some (None, s')"
  obtain p t where s: "s = (p, t)" by fastforce
  obtain p1 r where h: "goaway_header xs p = (p1, r)" by fastforce
  note fr = goaway_header_frame [OF h]
  have ok: "goaway_parser_ok s" and lt: "length xs < goaway_room s" using okm m by simp_all
  have "goaway_room s' = goaway_room s - length xs \<and> goaway_parser_ok s'"
  proof (cases r)
    case None
    with pr h s have "s' = (p1, t)" by (simp add: grpc_chttp2_goaway_parser_parse_def)
    with fr None ok s show ?thesis using goaway_index_less [of "ga_state p1"]
      by (cases "ga_state p = GRPC_CHTTP2_GOAWAY_DEBUG")
        (use h in \<open>auto simp: goaway_room_def goaway_parser_ok_def goaway_header.simps\<close>)
  next
    case (Some rest)
    have ok1: "goaway_parser_ok (p1, t)" using fr ok s Some
      by (cases "ga_state p = GRPC_CHTTP2_GOAWAY_DEBUG") (auto simp: goaway_parser_ok_def)
    have b: "debug_pos p1 + length rest \<le> debug_length p1" "ga_state p1 = GRPC_CHTTP2_GOAWAY_DEBUG"
      using fr Some lt s ok goaway_index_less [of "ga_state p"] by (auto simp: goaway_room_def goaway_parser_ok_def)
    from goaway_debug_more [OF ok1 b] obtain p' where p': "goaway_debug rest False p1 t = Some (None, p', t)"
      "goaway_parser_ok (p', t)" "ga_state p' = GRPC_CHTTP2_GOAWAY_DEBUG" "debug_pos p' = debug_pos p1 + length rest"
      "debug_length p' = debug_length p1" by metis
    with pr h s Some have "s' = (p', t)" by (simp add: grpc_chttp2_goaway_parser_parse_def)
    with p' fr Some s lt b ok goaway_index_less [of "ga_state p"] show ?thesis
      by (auto simp: goaway_room_def goaway_parser_ok_def)
  qed
  then show "goaway_parser_ok s' \<and> goaway_room s' = m" using okm by simp
qed

section \<open>Round trip\<close>

lemma goaway_header_be32:
  assumes "ga_state p = GRPC_CHTTP2_GOAWAY_LSI0"
  shows "goaway_header (be32 lsi @ be32 code @ rest) p =
    (p\<lparr>ga_last_stream_id := lsi, ga_error_code := code, ga_state := GRPC_CHTTP2_GOAWAY_DEBUG\<rparr>, Some rest)"
  using assms rd32_be32 [of lsi] rd32_be32 [of code]
  by (simp add: be32_def goaway_header.simps rd32_def or.assoc)

lemma goaway_debug_whole:
  assumes "debug_data p = Some (replicate (length dbg) None)" "debug_pos p = 0" "debug_length p = length dbg"
    and "length dbg < 2 ^ 32 - 1"
  shows "\<exists>p'. goaway_debug dbg True p t =
    Some (None, p', t_call_out (AddIncomingGoaway (ga_error_code p) (ga_last_stream_id p) dbg) t)"
  using assms by (auto simp: goaway_debug_def Let_def comp_def)

text \<open>C20: GOAWAY round trip and memory safety.  A frame written by \<open>goaway_append\<close> whose length fits the 24-bit length field is accepted by \<open>begin_frame\<close>, and
  however its payload is cut into slices the parser never copies past the debug buffer it allocated, never reads a byte of it that was not
  received, and reports exactly the last stream id, error code and debug data written.\<close>

theorem goaway_roundtrip:
  assumes "grpc_chttp2_goaway_append lsi code dbg buf = Some buf'" "length dbg + 8 < 2 ^ 24"
    and "concat slices = frame_payload (concat (drop (length buf) buf'))" "list_all (\<lambda>x. x \<noteq> []) slices"
  shows "\<exists>q p. grpc_chttp2_goaway_parser_begin_frame (of_nat (length (concat slices))) flags p0 = (None, q) \<and>
    feed_slices grpc_chttp2_goaway_parser_parse slices (q, t) =
      Some (None, p, t_call_out (AddIncomingGoaway code lsi dbg) t)"
proof -
  have pl: "concat slices = be32 lsi @ be32 code @ dbg"
    using assms(1,3)
    by (auto simp: frame_payload_def grpc_chttp2_goaway_append_def be24_def Let_def split: if_splits)
  then have l: "length (concat slices) = length dbg + 8" by simp
  have n: "unat (of_nat (length dbg + 8) :: u32) = length dbg + 8"
    using assms(2) by (simp add: unat_of_nat take_bit_nat_eq_self del: of_nat_add)
  define q where "q = p0\<lparr>debug_length := length dbg, debug_data := Some (replicate (length dbg) None), debug_pos := 0,
                    ga_state := GRPC_CHTTP2_GOAWAY_LSI0\<rparr>"
  have "\<not> (of_nat (length dbg + 8) :: u32) < 8" using n by (simp add: word_less_nat_alt del: of_nat_add)
  moreover have "unat ((of_nat (length dbg + 8) :: u32) - 8) = length dbg"
    using assms(2) by (simp add: unat_of_nat take_bit_nat_eq_self)
  ultimately have b: "grpc_chttp2_goaway_parser_begin_frame (of_nat (length (concat slices))) flags p0 = (None, q)"
    unfolding l by (simp add: grpc_chttp2_goaway_parser_begin_frame_def q_def Let_def)
  have ne: "slices \<noteq> []" using pl by (auto simp: be32_def)
  have "goaway_parser_ok (q, t)" using assms(2) by (simp add: goaway_parser_ok_def q_def)
  then have "goaway_parser_ok (q, t) \<and> goaway_room (q, t) = length (concat slices)"
    unfolding pl by (simp add: goaway_room_def q_def)
  from ga.feed_concat [OF ne assms(4) this]
  have f: "feed_slices grpc_chttp2_goaway_parser_parse slices (q, t)
      = grpc_chttp2_goaway_parser_parse (be32 lsi @ be32 code @ dbg) True (q, t)"
    unfolding pl .
  let ?q = "q\<lparr>ga_last_stream_id := lsi, ga_error_code := code, ga_state := GRPC_CHTTP2_GOAWAY_DEBUG\<rparr>"
  have h: "goaway_header (be32 lsi @ be32 code @ dbg) q = (?q, Some dbg)"
    by (rule goaway_header_be32) (simp add: q_def)
  obtain p' where "goaway_debug dbg True ?q t = Some (None, p', t_call_out (AddIncomingGoaway code lsi dbg) t)"
    using goaway_debug_whole [of ?q dbg t] assms(2) by (auto simp: q_def)
  then have "feed_slices grpc_chttp2_goaway_parser_parse slices (q, t) = Some (None, p', t_call_out (AddIncomingGoaway code lsi dbg) t)"
    unfolding f by (simp add: grpc_chttp2_goaway_parser_parse_def h)
  with b show ?thesis by blast
qed

definition demo_goaway_parser :: goaway_parser where
  "demo_goaway_parser = \<lparr>ga_state = GRPC_CHTTP2_GOAWAY_DEBUG, ga_last_stream_id = 1, ga_error_code = 2, debug_data = None,
     debug_length = 0, debug_pos = 0\<rparr>"

theorem goaway_roundtrip_witness:
  "\<exists>q p. grpc_chttp2_goaway_parser_begin_frame 10 0 demo_goaway_parser = (None, q) \<and>
    feed_slices grpc_chttp2_goaway_parser_parse [[0, 0, 0], [5, 0, 0, 0, 11, 104], [105]] (q, demo_transport) =
      Some (None, p, t_call_out (AddIncomingGoaway 11 5 [104, 105]) demo_transport)"
  using goaway_roundtrip [of 5 11 "[104, 105]" "[]" _ "[[0, 0, 0], [5, 0, 0, 0, 11, 104], [105]]" 0 demo_goaway_parser demo_transport]
  by (simp add: grpc_chttp2_goaway_append_def frame_payload_def be24_def be32_def Let_def)

end
