(* ===== verification/Frame_Settings.thy ===== *)
theory Frame_Settings
  imports Frame_Goaway
begin

text \<open>
  SETTINGS frames: \<^verbatim>\<open>src/core/ext/transport/chttp2/transport/frame_settings.{h,cc}\<close>.  The writer sends the difference between two settings arrays; the
  parser is a byte-wise state machine over six-byte entries that validates each value against the parameter table of
  \<open>Http2_Settings\<close> and commits all of them when the frame ends.
\<close>

section \<open>Writer\<close>

definition fill_header :: "u32 \<Rightarrow> u8 \<Rightarrow> u8 list" where
  "fill_header len flags = be24 len @ [GRPC_CHTTP2_FRAME_SETTINGS, flags, 0, 0, 0, 0]"

definition must_send :: "u32 list \<Rightarrow> u32 list \<Rightarrow> u32 \<Rightarrow> nat \<Rightarrow> bool" where
  "must_send old new force_mask i \<longleftrightarrow> new ! i \<noteq> old ! i \<or> force_mask AND push_bit i 1 \<noteq> 0"

definition setting_entry :: "u32 list \<Rightarrow> nat \<Rightarrow> u8 list" where
  "setting_entry new i = be16 (grpc_setting_id_to_wire_id ! i) @ be32 (new ! i)"

text \<open>The frame and the updated \<open>old_settings\<close>; \<open>None\<close> when the buffer was not filled exactly.\<close>

definition grpc_chttp2_settings_create ::
    "u32 list \<Rightarrow> u32 list \<Rightarrow> u32 \<Rightarrow> nat \<Rightarrow> (u8 list \<times> u32 list) crashable" where
  "grpc_chttp2_settings_create old new force_mask count =
     (let n = length (filter (must_send old new force_mask) [0..<count]);
          hdr = fill_header (of_nat (6 * n)) 0;
          entries = concat (map (\<lambda>i. if must_send old new force_mask i then setting_entry new i else []) [0..<count]);
          old' = fold (\<lambda>i o'. if must_send old new force_mask i then o'[i := new ! i] else o') [0..<count] old in
      if length (hdr @ entries) = 9 + 6 * n then Some (hdr @ entries, old') else None)"

definition grpc_chttp2_settings_ack_create :: "u8 list" where
  "grpc_chttp2_settings_ack_create = fill_header 0 GRPC_CHTTP2_FLAG_ACK"

section \<open>Parser\<close>

datatype settings_parse_state =
  GRPC_CHTTP2_SPS_ID0 | GRPC_CHTTP2_SPS_ID1 | GRPC_CHTTP2_SPS_VAL0 | GRPC_CHTTP2_SPS_VAL1
| GRPC_CHTTP2_SPS_VAL2 | GRPC_CHTTP2_SPS_VAL3

record settings_parser =
  sps_state :: settings_parse_state
  target_settings :: setting_set
  sps_is_ack :: bool
  sps_id :: u16
  sps_value :: u32
  incoming_settings :: "u32 list"

datatype settings_error =
  NonEmptySettingsAck | InvalidSettingsFlags | SettingsNotMultipleOfSix | InvalidSettingValue u32 string

text \<open>A row of the settings table as the C array.\<close>

definition settings_row :: "settings_table \<Rightarrow> setting_set \<Rightarrow> u32 list" where
  "settings_row st which = map (st which) setting_ids"

definition set_settings_row :: "setting_set \<Rightarrow> u32 list \<Rightarrow> settings_table \<Rightarrow> settings_table" where
  "set_settings_row which vs st = st(which := (\<lambda>sid. vs ! setting_index sid))"

definition grpc_chttp2_settings_parser_begin_frame ::
    "u32 \<Rightarrow> u8 \<Rightarrow> setting_set \<Rightarrow> settings_table \<Rightarrow> settings_parser \<Rightarrow> settings_error option \<times> settings_parser" where
  "grpc_chttp2_settings_parser_begin_frame len flags which st p =
     (let p1 = p\<lparr>target_settings := which, incoming_settings := settings_row st which, sps_is_ack := False,
                 sps_state := GRPC_CHTTP2_SPS_ID0\<rparr> in
      if flags = GRPC_CHTTP2_FLAG_ACK
      then (if len \<noteq> 0 then Some NonEmptySettingsAck else None, p1\<lparr>sps_is_ack := True\<rparr>)
      else if flags \<noteq> 0 then (Some InvalidSettingsFlags, p1)
      else if len mod 6 \<noteq> 0 then (Some SettingsNotMultipleOfSix, p1)
      else (None, p1))"

definition StreamFlowControlWindowCheck :: "chttp2_transport \<Rightarrow> int \<Rightarrow> bool" where
  "StreamFlowControlWindowCheck t delta \<longleftrightarrow>
     uint (t_settings t GRPC_PEER_SETTINGS GRPC_CHTTP2_SETTINGS_INITIAL_WINDOW_SIZE) + initial_window_update t + delta > 2 ^ 31 - 1"

definition settings_goaway :: "setting_parameters \<Rightarrow> chttp2_transport \<Rightarrow> chttp2_transport crashable" where
  "settings_goaway sp t =
     map_option (\<lambda>q. t\<lparr>qbuf := q\<rparr>)
       (grpc_chttp2_goaway_append (last_new_stream_id t) (error_value sp)
          (map (of_nat \<circ> of_char) ''HTTP2 settings error'') (qbuf t))"

text \<open>What a change of the peer's initial window does to the transport.\<close>

definition initial_window_change :: "setting_parameters \<Rightarrow> u32 \<Rightarrow> u32 \<Rightarrow> chttp2_transport \<Rightarrow> chttp2_transport crashable" where
  "initial_window_change sp old_value new_value t =
     (let t1 = t\<lparr>initial_window_update := initial_window_update t + (uint new_value - uint old_value)\<rparr> in
      if window_check t1 \<and>
         (uint new_value > kMaxInitialWindowSize \<or> uint new_value < kMinInitialWindowSize \<or>
          list_ex (StreamFlowControlWindowCheck t1) (stream_remote_deltas t1))
      then settings_goaway sp t1 else Some t1)"

text \<open>The end of an entry: look the id up, validate, clamp or disconnect, store.\<close>

definition settings_entry_done ::
    "settings_parser \<times> chttp2_transport \<Rightarrow> (settings_error option \<times> settings_parser \<times> chttp2_transport) crashable" where
  "settings_entry_done st =
     (case st of (p, t) \<Rightarrow>
        let (known, h) = grpc_wire_id_to_setting_id (ucast (sps_id p)); i = unat h in
        if \<not> known then Some (None, p, t)
        else
          let sp = grpc_chttp2_settings_parameters ! i; sid = setting_ids ! i; v = sps_value p in
          if \<not> flow_control_enabled t \<and>
             (sid = GRPC_CHTTP2_SETTINGS_INITIAL_WINDOW_SIZE \<or> sid = GRPC_CHTTP2_SETTINGS_MAX_FRAME_SIZE)
          then Some (None, p, t)
          else if (v < min_value sp \<or> v > max_value sp) \<and> invalid_behavior sp = GRPC_CHTTP2_DISCONNECT_ON_INVALID_VALUE
          then map_option (\<lambda>t'. (Some (InvalidSettingValue v (sp_name sp)), p, t')) (settings_goaway sp t)
          else
            let v1 = (if v < min_value sp \<or> v > max_value sp then Clamp v (min_value sp) (max_value sp) else v);
                old = incoming_settings p ! i in
            map_option (\<lambda>t'. (None, p\<lparr>sps_value := v1, incoming_settings := (incoming_settings p)[i := v1]\<rparr>, t'))
              (if sid = GRPC_CHTTP2_SETTINGS_INITIAL_WINDOW_SIZE \<and> old \<noteq> v1
               then initial_window_change sp old v1 t else Some t))"

fun settings_byte ::
    "settings_parse_state \<Rightarrow> u8 \<Rightarrow> settings_parser \<times> chttp2_transport
      \<Rightarrow> (settings_error option \<times> settings_parser \<times> chttp2_transport) crashable" where
  "settings_byte GRPC_CHTTP2_SPS_ID0 b (p, t) =
     Some (None, p\<lparr>sps_id := push_bit 8 (ucast b), sps_state := GRPC_CHTTP2_SPS_ID1\<rparr>, t)"
| "settings_byte GRPC_CHTTP2_SPS_ID1 b (p, t) =
     Some (None, p\<lparr>sps_id := sps_id p OR ucast b, sps_state := GRPC_CHTTP2_SPS_VAL0\<rparr>, t)"
| "settings_byte GRPC_CHTTP2_SPS_VAL0 b (p, t) =
     Some (None, p\<lparr>sps_value := push_bit 24 (ucast b), sps_state := GRPC_CHTTP2_SPS_VAL1\<rparr>, t)"
| "settings_byte GRPC_CHTTP2_SPS_VAL1 b (p, t) =
     Some (None, p\<lparr>sps_value := sps_value p OR push_bit 16 (ucast b), sps_state := GRPC_CHTTP2_SPS_VAL2\<rparr>, t)"
| "settings_byte GRPC_CHTTP2_SPS_VAL2 b (p, t) =
     Some (None, p\<lparr>sps_value := sps_value p OR push_bit 8 (ucast b), sps_state := GRPC_CHTTP2_SPS_VAL3\<rparr>, t)"
| "settings_byte GRPC_CHTTP2_SPS_VAL3 b (p, t) =
     settings_entry_done (p\<lparr>sps_value := sps_value p OR ucast b, sps_state := GRPC_CHTTP2_SPS_ID0\<rparr>, t)"

fun settings_loop ::
    "u8 list \<Rightarrow> settings_parser \<times> chttp2_transport \<Rightarrow> (settings_error option \<times> settings_parser \<times> chttp2_transport) crashable" where
  "settings_loop [] st = Some (None, st)"
| "settings_loop (b # bs) st =
     (case settings_byte (sps_state (fst st)) b st of
        None \<Rightarrow> None | Some (Some e, st') \<Rightarrow> Some (Some e, st') | Some (None, st') \<Rightarrow> settings_loop bs st')"

definition settings_commit :: "settings_parser \<times> chttp2_transport \<Rightarrow> settings_parser \<times> chttp2_transport" where
  "settings_commit st =
     (case st of (p, t) \<Rightarrow>
        let t1 = t\<lparr>t_settings := set_settings_row (target_settings p) (incoming_settings p) (t_settings t),
                   num_pending_induced_frames := num_pending_induced_frames t + 1,
                   qbuf := qbuf t @ [grpc_chttp2_settings_ack_create]\<rparr> in
        (p, if notify_on_receive_settings t1
            then (t_call_out NotifyOnReceiveSettings t1)\<lparr>notify_on_receive_settings := False\<rparr> else t1))"

definition grpc_chttp2_settings_parser_parse ::
    "u8 list \<Rightarrow> bool \<Rightarrow> settings_parser \<times> chttp2_transport
      \<Rightarrow> (settings_error option \<times> settings_parser \<times> chttp2_transport) crashable" where
  "grpc_chttp2_settings_parser_parse sl is_last st =
     (if sps_is_ack (fst st) then Some (None, st)
      else case settings_loop sl st of
             None \<Rightarrow> None
           | Some (Some e, st') \<Rightarrow> Some (Some e, st')
           | Some (None, st') \<Rightarrow>
               Some (None, if sps_state (fst st') = GRPC_CHTTP2_SPS_ID0 \<and> is_last then settings_commit st' else st'))"

section \<open>Suspending the parser\<close>

lemma settings_loop_append:
  "settings_loop (xs @ ys) st =
     (case settings_loop xs st of
        None \<Rightarrow> None | Some (Some e, st') \<Rightarrow> Some (Some e, st') | Some (None, st') \<Rightarrow> settings_loop ys st')"
  by (induction xs arbitrary: st) (auto split: option.splits)

lemma settings_entry_done_ack:
  "settings_entry_done (p, t) = Some (e, p', t') \<Longrightarrow> sps_is_ack p' = sps_is_ack p \<and> target_settings p' = target_settings p"
  by (auto simp: settings_entry_done_def Let_def split: if_splits prod.splits)

lemma settings_byte_ack:
  "settings_byte s b (p, t) = Some (e, p', t') \<Longrightarrow> sps_is_ack p' = sps_is_ack p \<and> target_settings p' = target_settings p"
  by (cases s) (auto dest!: settings_entry_done_ack)

lemma settings_loop_ack:
  "settings_loop xs st = Some (e, st') \<Longrightarrow> sps_is_ack (fst st') = sps_is_ack (fst st) \<and> target_settings (fst st') = target_settings (fst st)"
proof (induction xs arbitrary: st)
  case (Cons b bs)
  then show ?case
    using settings_byte_ack [of "sps_state (fst st)" b "fst st" "snd st"] by (fastforce split: option.splits)
qed simp

text \<open>The parser may be suspended anywhere; the bytes left in the frame are not part of its state.\<close>

lemma settings_parse_split:
  "grpc_chttp2_settings_parser_parse (xs @ ys) True s =
     (case grpc_chttp2_settings_parser_parse xs False s of
        None \<Rightarrow> None | Some (Some e, s') \<Rightarrow> Some (Some e, s') | Some (None, s') \<Rightarrow> grpc_chttp2_settings_parser_parse ys True s')"
proof (cases "sps_is_ack (fst s)")
  case False
  show ?thesis
  proof (cases "settings_loop xs s")
    case None
    with False show ?thesis by (simp add: grpc_chttp2_settings_parser_parse_def settings_loop_append)
  next
    case (Some r)
    obtain e s' where "r = (e, s')" by (cases r)
    with Some False settings_loop_ack [of xs s e s'] show ?thesis
      by (cases e) (simp_all add: grpc_chttp2_settings_parser_parse_def settings_loop_append)
  qed
qed (simp add: grpc_chttp2_settings_parser_parse_def)

interpretation sps: resumable grpc_chttp2_settings_parser_parse "\<lambda>_ _. True"
  by unfold_locales (simp_all add: settings_parse_split)

section \<open>Round trip\<close>

definition setting_in_range :: "nat \<Rightarrow> u32 \<Rightarrow> bool" where
  "setting_in_range i v \<longleftrightarrow>
     min_value (grpc_chttp2_settings_parameters ! i) \<le> v \<and> v \<le> max_value (grpc_chttp2_settings_parameters ! i)"

lemma rd16_be16: "push_bit 8 (ucast (ucast (drop_bit 8 w) :: u8)) OR ucast (ucast w :: u8) = (w :: u16)"
  by (rule bit_word_eqI) (auto simp: byte_simps)

lemma settings_loop_entry:
  assumes "sps_state p = GRPC_CHTTP2_SPS_ID0"
  shows "settings_loop (setting_entry new i) (p, t) =
    settings_entry_done (p\<lparr>sps_id := grpc_setting_id_to_wire_id ! i, sps_value := new ! i\<rparr>, t)"
  using assms rd16_be16 [of "grpc_setting_id_to_wire_id ! i"] rd32_be32 [of "new ! i"]
  by (cases p) (auto simp: setting_entry_def be16_def be32_def rd32_def or.assoc split: option.split)

text \<open>What a run of valid entries leaves of the parser and the transport.\<close>

definition entries_effect :: "(nat \<Rightarrow> bool) \<Rightarrow> u32 list \<Rightarrow> nat list \<Rightarrow> u32 list \<Rightarrow> u32 list" where
  "entries_effect send new js vs = fold (\<lambda>i o'. if send i then o'[i := new ! i] else o') js vs"

lemma length_entries_effect [simp]: "length (entries_effect send new js vs) = length vs"
  unfolding entries_effect_def by (induction js arbitrary: vs) auto

lemma settings_entry_valid:
  assumes "i < GRPC_CHTTP2_NUM_SETTINGS" "sps_id p = grpc_setting_id_to_wire_id ! i" "setting_in_range i (sps_value p)"
    and "flow_control_enabled t" "\<not> window_check t" "length (incoming_settings p) = GRPC_CHTTP2_NUM_SETTINGS"
  shows "settings_entry_done (p, t) =
    Some (None, p\<lparr>incoming_settings := (incoming_settings p)[i := sps_value p]\<rparr>,
      t\<lparr>initial_window_update := initial_window_update t +
          (uint ((incoming_settings p)[i := sps_value p] ! 3) - uint (incoming_settings p ! 3))\<rparr>)"
proof -
  have k: "grpc_wire_id_to_setting_id (ucast (sps_id p)) = (True, of_nat i)"
    using wire_id_roundtrip_index assms(1,2) by simp
  have i: "unat (of_nat i :: u32) = i" using assms(1) by (simp add: GRPC_CHTTP2_NUM_SETTINGS_def unat_of_nat)
  have sid: "setting_ids ! i = GRPC_CHTTP2_SETTINGS_INITIAL_WINDOW_SIZE \<longleftrightarrow> i = 3"
    using assms(1) by (auto simp: setting_ids_def GRPC_CHTTP2_NUM_SETTINGS_def less_Suc_eq numeral_eq_Suc)
  have sid3: "setting_ids ! 3 = GRPC_CHTTP2_SETTINGS_INITIAL_WINDOW_SIZE" by (simp add: setting_ids_def)
  have r: "\<not> (sps_value p < min_value (grpc_chttp2_settings_parameters ! i) \<or> max_value (grpc_chttp2_settings_parameters ! i) < sps_value p)"
    using assms(3) by (auto simp: setting_in_range_def)
  have same: "initial_window_update t + (uint ((incoming_settings p)[i := sps_value p] ! 3) - uint (incoming_settings p ! 3))
      = initial_window_update t" if "\<not> (i = 3 \<and> incoming_settings p ! 3 \<noteq> sps_value p)"
    using that assms(6) by (cases "i = 3") (auto simp: GRPC_CHTTP2_NUM_SETTINGS_def)
  have p0: "p\<lparr>sps_value := sps_value p, incoming_settings := l\<rparr> = p\<lparr>incoming_settings := l\<rparr>" for l by (cases p) simp
  have t0: "t\<lparr>initial_window_update := initial_window_update t\<rparr> = t" by (cases t) simp
  have "settings_entry_done (p, t) = map_option (\<lambda>t'. (None, p\<lparr>incoming_settings := (incoming_settings p)[i := sps_value p]\<rparr>, t'))
      (if i = 3 \<and> incoming_settings p ! 3 \<noteq> sps_value p
       then initial_window_change (grpc_chttp2_settings_parameters ! i) (incoming_settings p ! i) (sps_value p) t else Some t)"
    using assms(4) r by (cases "i = 3") (simp_all add: settings_entry_done_def k i sid sid3 Let_def p0)
  then show ?thesis
    using assms(5,6) same t0
    by (cases "i = 3 \<and> incoming_settings p ! 3 \<noteq> sps_value p")
      (auto simp: initial_window_change_def Let_def GRPC_CHTTP2_NUM_SETTINGS_def)
qed

lemma settings_loop_entries:
  assumes "sps_state p = GRPC_CHTTP2_SPS_ID0" "flow_control_enabled t" "\<not> window_check t"
    and "length (incoming_settings p) = GRPC_CHTTP2_NUM_SETTINGS"
    and "\<And>i. i \<in> set js \<Longrightarrow> send i \<Longrightarrow> i < GRPC_CHTTP2_NUM_SETTINGS \<and> setting_in_range i (new ! i)"
  shows "\<exists>a v. settings_loop (concat (map (\<lambda>i. if send i then setting_entry new i else []) js)) (p, t) =
    Some (None, p\<lparr>sps_id := a, sps_value := v, incoming_settings := entries_effect send new js (incoming_settings p)\<rparr>,
      t\<lparr>initial_window_update := initial_window_update t +
          (uint (entries_effect send new js (incoming_settings p) ! 3) - uint (incoming_settings p ! 3))\<rparr>)"
  using assms
proof (induction js arbitrary: p t)
  case Nil
  show ?case by (intro exI [of _ "sps_id p"] exI [of _ "sps_value p"], cases p, cases t) (simp add: entries_effect_def)
next
  case (Cons i js)
  show ?case
  proof (cases "send i")
    case False
    then show ?thesis using Cons.IH [OF Cons.prems(1-4)] Cons.prems(5) by (simp add: entries_effect_def)
  next
    case True
    let ?p = "p\<lparr>sps_id := grpc_setting_id_to_wire_id ! i, sps_value := new ! i\<rparr>"
    let ?p' = "?p\<lparr>incoming_settings := (incoming_settings p)[i := new ! i]\<rparr>"
    let ?t' = "t\<lparr>initial_window_update := initial_window_update t +
        (uint ((incoming_settings p)[i := new ! i] ! 3) - uint (incoming_settings p ! 3))\<rparr>"
    have "settings_loop (setting_entry new i) (p, t) = Some (None, ?p', ?t')"
      using settings_loop_entry [OF Cons.prems(1), of new i t] settings_entry_valid [of i ?p t] Cons.prems True by simp
    moreover from Cons.IH [of ?p' ?t'] Cons.prems obtain a v where
      "settings_loop (concat (map (\<lambda>i. if send i then setting_entry new i else []) js)) (?p', ?t') =
         Some (None, ?p'\<lparr>sps_id := a, sps_value := v,
             incoming_settings := entries_effect send new js ((incoming_settings p)[i := new ! i])\<rparr>,
           ?t'\<lparr>initial_window_update := initial_window_update ?t' +
             (uint (entries_effect send new js ((incoming_settings p)[i := new ! i]) ! 3)
               - uint ((incoming_settings p)[i := new ! i] ! 3))\<rparr>)" by auto
    ultimately show ?thesis using True by (auto simp: settings_loop_append entries_effect_def)
  qed
qed

lemma entries_effect_nth:
  "j < length vs \<Longrightarrow> entries_effect send new js vs ! j = (if j \<in> set js \<and> send j then new ! j else vs ! j)"
  unfolding entries_effect_def
proof (induction js arbitrary: vs)
  case (Cons a js)
  then show ?case by (cases "a = j") auto
qed simp

lemma entries_effect_all:
  assumes "length old = n" "length new = n"
  shows "entries_effect (must_send old new m) new [0..<n] old = new"
  using assms by (intro nth_equalityI) (auto simp: entries_effect_nth must_send_def)

lemma length_setting_entry [simp]: "length (setting_entry new i) = 6"
  by (simp add: setting_entry_def)

lemma length_entries: "length (concat (map (\<lambda>i. if send i then setting_entry new i else []) js)) = 6 * length (filter send js)"
  by (induction js) auto

lemma settings_create_eq:
  "grpc_chttp2_settings_create old new m count =
     Some (fill_header (of_nat (6 * length (filter (must_send old new m) [0..<count]))) 0 @
             concat (map (\<lambda>i. if must_send old new m i then setting_entry new i else []) [0..<count]),
           entries_effect (must_send old new m) new [0..<count] old)"
  by (simp add: grpc_chttp2_settings_create_def Let_def length_entries entries_effect_def fill_header_def)

lemma settings_row_set: "length vs = GRPC_CHTTP2_NUM_SETTINGS \<Longrightarrow> settings_row (set_settings_row w vs st) w = vs"
  by (rule nth_equalityI)
    (auto simp: settings_row_def set_settings_row_def setting_ids_def GRPC_CHTTP2_NUM_SETTINGS_def less_Suc_eq numeral_eq_Suc)

text \<open>C19: SETTINGS round trip.  The frame that \<open>settings_create\<close> writes for a change from \<open>old\<close> to \<open>new\<close> always fills its buffer exactly and updates the sender's copy to
  \<open>new\<close>.  A receiver whose row of settings for this peer is \<open>old\<close>, fed the payload in any slices, accepts it if the values sent are in range: it ends
  with exactly \<open>new\<close> in that row, has queued one acknowledgement, and has accumulated exactly the change of the initial window.\<close>

theorem settings_roundtrip:
  assumes "length old = GRPC_CHTTP2_NUM_SETTINGS" "length new = GRPC_CHTTP2_NUM_SETTINGS"
    and "\<And>i. i < GRPC_CHTTP2_NUM_SETTINGS \<Longrightarrow> must_send old new m i \<Longrightarrow> setting_in_range i (new ! i)"
    and "settings_row (t_settings t) GRPC_PEER_SETTINGS = old" "flow_control_enabled t" "\<not> window_check t"
    and "grpc_chttp2_settings_create old new m GRPC_CHTTP2_NUM_SETTINGS = Some (frame, old')"
    and "concat slices = frame_payload frame" "list_all (\<lambda>x. x \<noteq> []) slices" "slices \<noteq> []"
  shows "old' = new \<and>
    (\<exists>q p t'. grpc_chttp2_settings_parser_begin_frame (of_nat (length (concat slices))) 0 GRPC_PEER_SETTINGS (t_settings t) p0 = (None, q) \<and>
      feed_slices grpc_chttp2_settings_parser_parse slices (q, t) = Some (None, p, t') \<and>
      settings_row (t_settings t') GRPC_PEER_SETTINGS = new \<and> qbuf t' = qbuf t @ [grpc_chttp2_settings_ack_create] \<and>
      initial_window_update t' = initial_window_update t + (uint (new ! 3) - uint (old ! 3)))"
proof -
  let ?send = "must_send old new m" and ?js = "[0..<GRPC_CHTTP2_NUM_SETTINGS]"
  let ?es = "concat (map (\<lambda>i. if ?send i then setting_entry new i else []) ?js)"
  have eff: "entries_effect ?send new ?js old = new" by (rule entries_effect_all) (simp_all add: assms)
  have o': "old' = new" and fr: "frame_payload frame = ?es"
    using assms(7) eff by (auto simp: settings_create_eq frame_payload_def fill_header_def be24_def)
  define q where "q = p0\<lparr>target_settings := GRPC_PEER_SETTINGS, incoming_settings := old, sps_is_ack := False,
                 sps_state := GRPC_CHTTP2_SPS_ID0\<rparr>"
  have len: "length (concat slices) = 6 * length (filter ?send ?js)" using assms(8) fr length_entries by metis
  have "length (filter ?send ?js) \<le> 7"
    using length_filter_le [of ?send ?js] by (simp add: GRPC_CHTTP2_NUM_SETTINGS_def)
  then have "unat ((of_nat (6 * length (filter ?send ?js)) :: u32) mod 6) = 0"
    by (simp add: unat_mod unat_of_nat take_bit_nat_eq_self del: of_nat_mult)
  then have "(of_nat (length (concat slices)) :: u32) mod 6 = 0" unfolding len by (simp only: unat_0_iff)
  then have b: "grpc_chttp2_settings_parser_begin_frame (of_nat (length (concat slices))) 0 GRPC_PEER_SETTINGS (t_settings t) p0 = (None, q)"
    using assms(4) by (simp add: grpc_chttp2_settings_parser_begin_frame_def Let_def q_def frame_consts)
  have "\<exists>a v. settings_loop ?es (q, t) =
    Some (None, q\<lparr>sps_id := a, sps_value := v, incoming_settings := entries_effect ?send new ?js (incoming_settings q)\<rparr>,
      t\<lparr>initial_window_update := initial_window_update t +
          (uint (entries_effect ?send new ?js (incoming_settings q) ! 3) - uint (incoming_settings q ! 3))\<rparr>)"
    by (rule settings_loop_entries) (use assms in \<open>auto simp: q_def\<close>)
  then obtain a v where l: "settings_loop ?es (q, t) = Some (None, q\<lparr>sps_id := a, sps_value := v, incoming_settings := new\<rparr>,
      t\<lparr>initial_window_update := initial_window_update t + (uint (new ! 3) - uint (old ! 3))\<rparr>)"
    using eff by (auto simp: q_def)
  have "feed_slices grpc_chttp2_settings_parser_parse slices (q, t) = grpc_chttp2_settings_parser_parse ?es True (q, t)"
    using sps.feed_concat [OF assms(10,9)] assms(8) fr by simp
  then show ?thesis
    using o' b l settings_row_set [OF assms(2), of GRPC_PEER_SETTINGS]
    by (auto simp: grpc_chttp2_settings_parser_parse_def settings_commit_def Let_def q_def t_call_out_def)
qed

definition demo_settings :: "u32 list" where
  "demo_settings = [65535, 65535, 65535, 65535, 65535, 65535, 65535]"

definition demo_settings_parser :: settings_parser where
  "demo_settings_parser = \<lparr>sps_state = GRPC_CHTTP2_SPS_VAL2, target_settings = GRPC_LOCAL_SETTINGS, sps_is_ack = True, sps_id = 1,
     sps_value = 2, incoming_settings = []\<rparr>"

theorem settings_roundtrip_witness:
  "\<exists>q p t'. feed_slices grpc_chttp2_settings_parser_parse [[0, 4, 0], [0, 1, 0]] (q, demo_transport) = Some (None, p, t') \<and>
     settings_row (t_settings t') GRPC_PEER_SETTINGS = demo_settings[3 := 256] \<and> initial_window_update t' = 256 - 65535"
proof -
  let ?new = "demo_settings[3 := 256]"
  have row: "settings_row (t_settings demo_transport) GRPC_PEER_SETTINGS = demo_settings"
    by (simp add: settings_row_def setting_ids_def demo_transport_def fc_demo_settings_def demo_settings_def)
  have c: "grpc_chttp2_settings_create demo_settings ?new 0 GRPC_CHTTP2_NUM_SETTINGS
      = Some (fill_header 6 0 @ [0, 4, 0, 0, 1, 0], ?new)"
    by (simp add: settings_create_eq GRPC_CHTTP2_NUM_SETTINGS_def upt_rec must_send_def demo_settings_def setting_entry_def
        grpc_setting_id_to_wire_id_def be16_def be32_def entries_effect_def)
  have s: "setting_in_range i (?new ! i)" if "i < GRPC_CHTTP2_NUM_SETTINGS" "must_send demo_settings ?new 0 i" for i
  proof -
    have "i = 3" using that(2) by (cases "i = 3") (auto simp: must_send_def)
    then show ?thesis
      by (simp add: setting_in_range_def demo_settings_def grpc_chttp2_settings_parameters_def mk_setting_parameters_def)
  qed
  have d: "length demo_settings = GRPC_CHTTP2_NUM_SETTINGS" "length ?new = GRPC_CHTTP2_NUM_SETTINGS"
      "flow_control_enabled demo_transport" "\<not> window_check demo_transport"
    by (simp_all add: demo_settings_def GRPC_CHTTP2_NUM_SETTINGS_def demo_transport_def)
  have pl: "concat [[0, 4, 0], [0, 1, 0]] = frame_payload (fill_header 6 0 @ [0, 4, 0, 0, 1, 0])"
    by (simp add: frame_payload_def fill_header_def be24_def)
  show ?thesis
    using settings_roundtrip [OF d(1,2) s row d(3,4) c pl, where ?p0.0 = demo_settings_parser]
    by (auto simp: demo_transport_def demo_settings_def simp del: feed_slices.simps)
qed



end
