(* ===== verification/Frame_Dispatch.thy ===== *)
theory Frame_Dispatch
  imports Deframer Stream_Map Frame_Settings Frame_Data Hpack_Parser
begin

text \<open>
  The rest of \<^verbatim>\<open>src/core/ext/transport/chttp2/transport/parsing.cc\<close>: \<open>init_frame_parser\<close> chooses the parser for a frame and checks that the frame is
  allowed where it stands; \<open>parse_frame_slice\<close> runs the chosen parser.  Also the end of a header frame,
  \<open>grpc_chttp2_header_parser_parse\<close> of \<^verbatim>\<open>hpack_parser.cc\<close>.  The state joins the parsers of the other theories, the stream map and a store
  of streams; what the functions ask of other parts of the transport is recorded in \<open>cn_calls\<close>.  The surface decides about new streams: it is
  an argument (\<open>accept\<close>) of the definitions.  The functions \<open>set_md\<close> and \<open>now\<close> are the arguments of the HPACK and PING parsers.

  The theorems: which sequences of frames pass, for every behaviour of the other parts; and that the boundary of a skipped header frame is the
  opposite of what its END_HEADERS flag says.
\<close>

section \<open>State\<close>

datatype conn_error =
  FirstFrameNotSettings u8
| ExpectedContinuation u8
| ContinuationOnOtherStream u32 u32
| UnexpectedContinuation
| SettingsOnStream
| MaxStreamCountExceeded
| FlowControlError fc_error
| PingError ping_error
| RstStreamError rst_error
| WindowUpdateError wu_error
| GoawayError goaway_error
| SettingsError settings_error
| HpackError hpack_error
| TooManyTrailerFrames

datatype frame_parser =
  SkipParser | HeaderParser | DataParser nat | RstStreamParser | SettingsParser | WindowUpdateParser | PingParser | GoawayParser

datatype conn_call =
  ScheduleBdpPing
| ActOnFlowControl fc_action "nat option"
| MarkStreamReadClosed nat
| RecordStreamStartedFromRemote
| ParseStreamCompression nat
| MaybeCompleteRecvInitialMetadata nat
| ForceClientRstStream nat

record 'b conn_stream =
  st_id :: u32
  st_control :: chttp2_stream
  st_data :: data_stream
  st_received_bytes :: nat
  st_header_bytes :: nat
  header_frames_received :: nat
  initial_metadata_buffer :: 'b
  trailing_metadata_buffer :: 'b
  trailing_metadata_available :: "bool option"
  published_initial_metadata :: grpc_published_metadata_method

record 'b conn =
  cn_t :: chttp2_transport
  is_first_frame :: bool
  expect_continuation_stream_id :: u32
  header_eof :: bool
  next_stream_id :: u32
  sent_local_settings :: bool
  bdp_ping_blocked :: bool
  last_ping_sent_time :: int
  has_channelz_socket :: bool
  cn_parser :: frame_parser
  cn_ping :: ping_parser
  cn_rst :: rst_parser
  cn_window_update :: wu_parser
  cn_settings :: settings_parser
  cn_goaway :: goaway_parser
  cn_hpack :: "'b hpack_parser"
  cn_map :: "nat stream_map"
  cn_store :: "nat \<Rightarrow> 'b conn_stream"
  cn_incoming_stream :: "nat option"
  cn_calls :: "conn_call list"

abbreviation cn_call :: "conn_call \<Rightarrow> 'b conn \<Rightarrow> 'b conn" where
  "cn_call c t \<equiv> t\<lparr>cn_calls := cn_calls t @ [c]\<rparr>"

abbreviation upd_stream :: "nat \<Rightarrow> ('b conn_stream \<Rightarrow> 'b conn_stream) \<Rightarrow> 'b conn \<Rightarrow> 'b conn" where
  "upd_stream s f t \<equiv> t\<lparr>cn_store := (cn_store t)(s := f (cn_store t s))\<rparr>"

abbreviation acked_setting :: "'b conn \<Rightarrow> setting_id \<Rightarrow> u32" where
  "acked_setting t i \<equiv> t_settings (cn_t t) GRPC_ACKED_SETTINGS i"

abbreviation add_framing_bytes :: "'b conn_stream \<Rightarrow> 'b conn_stream" where
  "add_framing_bytes s \<equiv> s\<lparr>st_control := (st_control s)\<lparr>s_framing_bytes := s_framing_bytes (st_control s) + 9\<rparr>\<rparr>"

definition grpc_chttp2_parsing_lookup_stream :: "'b conn \<Rightarrow> u32 \<Rightarrow> nat option" where
  "grpc_chttp2_parsing_lookup_stream t sid = grpc_chttp2_stream_map_find (cn_map t) sid"

section \<open>Choosing a parser\<close>

type_synonym 'b init_result = "(conn_error option \<times> 'b conn) crashable"

definition hpack_boundary_type :: "'b conn \<Rightarrow> bool \<Rightarrow> boundary" where
  "hpack_boundary_type t is_eoh = (if is_eoh then if header_eof t then EndOfStream else EndOfHeaders else BoundaryNone)"

definition init_header_skip_frame_parser :: "priority \<Rightarrow> 'b conn \<Rightarrow> 'b init_result" where
  "init_header_skip_frame_parser priority_type t =
     (let is_eoh = expect_continuation_stream_id t \<noteq> 0 in
      Some (None, t\<lparr>cn_parser := HeaderParser,
        cn_hpack := HPackParser_BeginFrame None (unat (acked_setting t GRPC_CHTTP2_SETTINGS_MAX_HEADER_LIST_SIZE))
          (hpack_boundary_type t is_eoh) priority_type (cn_hpack t)\<rparr>))"

definition init_non_header_skip_frame_parser :: "'b conn \<Rightarrow> 'b init_result" where
  "init_non_header_skip_frame_parser t = Some (None, t\<lparr>cn_parser := SkipParser\<rparr>)"

definition grpc_chttp2_parsing_become_skip_parser :: "'b conn \<Rightarrow> 'b conn" where
  "grpc_chttp2_parsing_become_skip_parser t =
     (if cn_parser t = HeaderParser then t\<lparr>cn_hpack := StopBufferingFrame (cn_hpack t)\<rparr> else t\<lparr>cn_parser := SkipParser\<rparr>)"

text \<open>What flow control asks of a stream.\<close>

definition flow_ctx :: "'b conn_stream \<Rightarrow> stream_ctx" where
  "flow_ctx s = \<lparr>stream_ctx.on_next = data_stream.on_next (st_data s), stream_ctx.recv_message = data_stream.recv_message_ready (st_data s),
     stream_ctx.pending_byte_stream = data_stream.pending_byte_stream (st_data s),
     frame_storage_length = length (concat (frame_storage (st_data s))), stream_ctx.read_closed = data_stream.read_closed (st_data s)\<rparr>"

text \<open>Flow control of an incoming DATA frame: the error and the action; without flow control neither.\<close>

definition recv_data :: "u32 \<Rightarrow> nat option \<Rightarrow> 'b conn \<Rightarrow> fc_error option \<times> fc_action \<times> 'b conn" where
  "recv_data frame_len s t =
     (if \<not> flow_control_enabled (cn_t t) then (None, FlowControlAction_init, t)
      else case s of
        None \<Rightarrow>
          (case tfc_RecvData (uint frame_len) (t_fc (cn_t t)) of
             (e, fc) \<Rightarrow> (e, tfc_MakeAction fc, t\<lparr>cn_t := (cn_t t)\<lparr>t_fc := fc\<rparr>\<rparr>))
      | Some p \<Rightarrow>
          (case sfc_RecvData (t_settings (cn_t t)) (uint frame_len) (s_fc (st_control (cn_store t p)), t_fc (cn_t t)) of
             (e, sf, fc) \<Rightarrow> (e, sfc_MakeAction (t_settings (cn_t t)) (flow_ctx (cn_store t p)) (sf, fc),
               (upd_stream p (\<lambda>s. s\<lparr>st_control := (st_control s)\<lparr>s_fc := sf\<rparr>\<rparr>) t)\<lparr>cn_t := (cn_t t)\<lparr>t_fc := fc\<rparr>\<rparr>)))"

text \<open>The error of the flag check carries the stream id: it closes the stream and the frame is skipped.  A flow control error does not, and
  closes the connection.\<close>

definition init_data_frame_parser :: "frame_header \<Rightarrow> 'b conn \<Rightarrow> 'b init_result" where
  "init_data_frame_parser h t =
     (let t1 = (if flow_control_enabled (cn_t t)
                then let t' = (if bdp_ping_blocked t then cn_call ScheduleBdpPing (t\<lparr>bdp_ping_blocked := False\<rparr>) else t) in
                     t'\<lparr>cn_t := (cn_t t')\<lparr>t_fc := (t_fc (cn_t t'))\<lparr>bdp_est := AddIncomingBytes (uint (incoming_frame_size h)) (bdp_est (t_fc (cn_t t')))\<rparr>\<rparr>\<rparr>
                else t);
          s = grpc_chttp2_parsing_lookup_stream t1 (incoming_frame_stream h);
          (err, action, t2) = recv_data (incoming_frame_size h) s t1;
          t3 = cn_call (ActOnFlowControl action s) t2 in
      case err of
        Some e \<Rightarrow> Some (Some (FlowControlError e), t3)
      | None \<Rightarrow>
          (case s of
             None \<Rightarrow> init_non_header_skip_frame_parser t3
           | Some p \<Rightarrow>
               let t4 = upd_stream p (\<lambda>s. (add_framing_bytes s)\<lparr>st_received_bytes := st_received_bytes s + unat (incoming_frame_size h)\<rparr>) t3 in
               if data_stream.read_closed (st_data (cn_store t4 p)) then init_non_header_skip_frame_parser t4
               else (case grpc_chttp2_data_parser_begin_frame (incoming_frame_flags h) (st_data (cn_store t4 p)) of
                 (None, d) \<Rightarrow>
                   Some (None, (upd_stream p (\<lambda>s. s\<lparr>st_data := d\<rparr>) t4)
                     \<lparr>cn_incoming_stream := Some p, cn_parser := DataParser p, last_ping_sent_time := GRPC_MILLIS_INF_PAST\<rparr>)
               | (Some e, d) \<Rightarrow>
                   init_non_header_skip_frame_parser
                     ((cn_call (MarkStreamReadClosed p) t4)\<lparr>cn_t :=
                        grpc_chttp2_add_rst_stream_to_next_write (incoming_frame_stream h) (http2_error_value GRPC_HTTP2_PROTOCOL_ERROR) (cn_t t4)\<rparr>))))"

text \<open>A stream whose headers are to be parsed: the buffer depends on how many header frames it has had.\<close>

definition begin_stream_headers :: "bool \<Rightarrow> priority \<Rightarrow> nat \<Rightarrow> 'b conn \<Rightarrow> 'b init_result" where
  "begin_stream_headers is_eoh priority_type p t0 =
     (let t = upd_stream p add_framing_bytes t0 in
      if data_stream.read_closed (st_data (cn_store t p))
      then init_header_skip_frame_parser priority_type (t\<lparr>cn_incoming_stream := None\<rparr>)
      else
        let t1 = t\<lparr>cn_parser := HeaderParser\<rparr>;
            t2 = (if header_eof t1 then upd_stream p (\<lambda>s. s\<lparr>st_data := (st_data s)\<lparr>eos_received := True\<rparr>\<rparr>) t1 else t1);
            s = cn_store t2 p;
            begin_frame = (\<lambda>buf t'. Some (None, t'\<lparr>cn_hpack := HPackParser_BeginFrame buf
              (unat (acked_setting t' GRPC_CHTTP2_SETTINGS_MAX_HEADER_LIST_SIZE)) (hpack_boundary_type t' is_eoh) priority_type (cn_hpack t')\<rparr>)) in
        if header_frames_received s = 0 then
          (if is_client (cn_t t2) \<and> header_eof t2
           then begin_frame (Some (trailing_metadata_buffer s))
             (upd_stream p (\<lambda>s. s\<lparr>trailing_metadata_available := map_option (\<lambda>_. True) (trailing_metadata_available s)\<rparr>) t2)
           else begin_frame (Some (initial_metadata_buffer s)) t2)
        else if header_frames_received s = 1 then begin_frame (Some (trailing_metadata_buffer s)) t2
        else if header_frames_received s = 2 then init_header_skip_frame_parser priority_type t2
        else begin_frame None t2)"

definition init_header_frame_parser ::
    "(u32 \<Rightarrow> 'b conn \<Rightarrow> nat option \<times> 'b conn) \<Rightarrow> bool \<Rightarrow> frame_header \<Rightarrow> 'b conn \<Rightarrow> 'b init_result" where
  "init_header_frame_parser accept is_continuation h t =
     (let is_eoh = (incoming_frame_flags h AND GRPC_CHTTP2_DATA_FLAG_END_HEADERS \<noteq> 0);
          sid = incoming_frame_stream h;
          t1 = t\<lparr>expect_continuation_stream_id := if is_eoh then 0 else sid\<rparr>;
          t2 = (if \<not> is_continuation then t1\<lparr>header_eof := incoming_frame_flags h AND GRPC_CHTTP2_DATA_FLAG_END_STREAM \<noteq> 0\<rparr> else t1);
          priority_type = (if \<not> is_continuation \<and> incoming_frame_flags h AND GRPC_CHTTP2_FLAG_HAS_PRIORITY \<noteq> 0 then Included else PriorityNone);
          t3 = t2\<lparr>last_ping_sent_time := GRPC_MILLIS_INF_PAST\<rparr> in
      case grpc_chttp2_parsing_lookup_stream t3 sid of
        Some p \<Rightarrow> begin_stream_headers is_eoh priority_type p (t3\<lparr>cn_incoming_stream := Some p\<rparr>)
      | None \<Rightarrow>
          if is_continuation then init_header_skip_frame_parser priority_type t3
          else if is_client (cn_t t3) then init_header_skip_frame_parser priority_type t3
          else if sid \<le> last_new_stream_id (cn_t t3) then init_header_skip_frame_parser priority_type t3
          else if sid AND 1 = 0 then init_header_skip_frame_parser priority_type t3
          else if unat (acked_setting t3 GRPC_CHTTP2_SETTINGS_MAX_CONCURRENT_STREAMS) \<le> grpc_chttp2_stream_map_size (cn_map t3)
          then Some (Some MaxStreamCountExceeded, t3)
          else (case accept sid (t3\<lparr>cn_t := (cn_t t3)\<lparr>last_new_stream_id := sid\<rparr>\<rparr>) of
                  (None, t4) \<Rightarrow> init_header_skip_frame_parser priority_type (t4\<lparr>cn_incoming_stream := None\<rparr>)
                | (Some p, t4) \<Rightarrow>
                    let t5 = t4\<lparr>cn_incoming_stream := Some p\<rparr>;
                        t6 = (if has_channelz_socket t5 then cn_call RecordStreamStartedFromRemote t5 else t5) in
                    begin_stream_headers is_eoh priority_type p t6))"

definition init_window_update_frame_parser :: "frame_header \<Rightarrow> 'b conn \<Rightarrow> 'b init_result" where
  "init_window_update_frame_parser h t =
     (case grpc_chttp2_window_update_parser_begin_frame (incoming_frame_size h) (incoming_frame_flags h) (cn_window_update t) of
        (Some e, p) \<Rightarrow> Some (Some (WindowUpdateError e), t\<lparr>cn_window_update := p\<rparr>)
      | (None, p) \<Rightarrow>
          let t1 = t\<lparr>cn_window_update := p\<rparr> in
          if incoming_frame_stream h \<noteq> 0 then
            (let s = grpc_chttp2_parsing_lookup_stream t1 (incoming_frame_stream h); t2 = t1\<lparr>cn_incoming_stream := s\<rparr> in
             case s of
               None \<Rightarrow> init_non_header_skip_frame_parser t2
             | Some q \<Rightarrow> Some (None, (upd_stream q add_framing_bytes t2)\<lparr>cn_parser := WindowUpdateParser\<rparr>))
          else Some (None, t1\<lparr>cn_parser := WindowUpdateParser\<rparr>))"

definition init_ping_parser :: "frame_header \<Rightarrow> 'b conn \<Rightarrow> 'b init_result" where
  "init_ping_parser h t =
     (case grpc_chttp2_ping_parser_begin_frame (incoming_frame_size h) (incoming_frame_flags h) (cn_ping t) of
        (Some e, p) \<Rightarrow> Some (Some (PingError e), t\<lparr>cn_ping := p\<rparr>)
      | (None, p) \<Rightarrow> Some (None, t\<lparr>cn_ping := p, cn_parser := PingParser\<rparr>))"

definition init_rst_stream_parser :: "frame_header \<Rightarrow> 'b conn \<Rightarrow> 'b init_result" where
  "init_rst_stream_parser h t =
     (case grpc_chttp2_rst_stream_parser_begin_frame (incoming_frame_size h) (incoming_frame_flags h) (cn_rst t) of
        (Some e, p) \<Rightarrow> Some (Some (RstStreamError e), t\<lparr>cn_rst := p\<rparr>)
      | (None, p) \<Rightarrow>
          let s = grpc_chttp2_parsing_lookup_stream t (incoming_frame_stream h); t1 = t\<lparr>cn_rst := p, cn_incoming_stream := s\<rparr> in
          (case s of
             None \<Rightarrow> init_non_header_skip_frame_parser t1
           | Some q \<Rightarrow> Some (None, (upd_stream q add_framing_bytes t1)\<lparr>cn_parser := RstStreamParser\<rparr>)))"

definition init_goaway_parser :: "frame_header \<Rightarrow> 'b conn \<Rightarrow> 'b init_result" where
  "init_goaway_parser h t =
     (case grpc_chttp2_goaway_parser_begin_frame (incoming_frame_size h) (incoming_frame_flags h) (cn_goaway t) of
        (Some e, p) \<Rightarrow> Some (Some (GoawayError e), t\<lparr>cn_goaway := p\<rparr>)
      | (None, p) \<Rightarrow> Some (None, t\<lparr>cn_goaway := p, cn_parser := GoawayParser\<rparr>))"

text \<open>An acknowledgement makes the sent settings the acknowledged ones and resizes the decoder table.\<close>

definition init_settings_frame_parser :: "frame_header \<Rightarrow> 'b conn \<Rightarrow> 'b init_result" where
  "init_settings_frame_parser h t =
     (if incoming_frame_stream h \<noteq> 0 then Some (Some SettingsOnStream, t)
      else case grpc_chttp2_settings_parser_begin_frame (incoming_frame_size h) (incoming_frame_flags h) GRPC_PEER_SETTINGS (t_settings (cn_t t))
                  (cn_settings t) of
        (Some e, p) \<Rightarrow> Some (Some (SettingsError e), t\<lparr>cn_settings := p\<rparr>)
      | (None, p) \<Rightarrow>
          let t1 = t\<lparr>cn_settings := p\<rparr> in
          (if incoming_frame_flags h AND GRPC_CHTTP2_FLAG_ACK \<noteq> 0 then
             let st = (t_settings (cn_t t1))(GRPC_ACKED_SETTINGS := t_settings (cn_t t1) GRPC_SENT_SETTINGS) in
             map_option (\<lambda>tbl. (None, t1\<lparr>cn_t := (cn_t t1)\<lparr>t_settings := st\<rparr>, cn_hpack := (cn_hpack t1)\<lparr>hp_table := tbl\<rparr>,
                                          sent_local_settings := False, cn_parser := SettingsParser\<rparr>))
               (HPackTable_SetMaxBytes (unat (st GRPC_ACKED_SETTINGS GRPC_CHTTP2_SETTINGS_HEADER_TABLE_SIZE)) (hp_table (cn_hpack t1)))
           else Some (None, t1\<lparr>cn_parser := SettingsParser\<rparr>)))"

definition init_frame_parser :: "(u32 \<Rightarrow> 'b conn \<Rightarrow> nat option \<times> 'b conn) \<Rightarrow> frame_header \<Rightarrow> 'b conn \<Rightarrow> 'b init_result" where
  "init_frame_parser accept h t0 =
     (let ty = incoming_frame_type h in
      if is_first_frame t0 \<and> ty \<noteq> GRPC_CHTTP2_FRAME_SETTINGS then Some (Some (FirstFrameNotSettings ty), t0)
      else
        let t = t0\<lparr>is_first_frame := False\<rparr> in
        if expect_continuation_stream_id t \<noteq> 0 then
          (if ty \<noteq> GRPC_CHTTP2_FRAME_CONTINUATION then Some (Some (ExpectedContinuation ty), t)
           else if expect_continuation_stream_id t \<noteq> incoming_frame_stream h
           then Some (Some (ContinuationOnOtherStream (expect_continuation_stream_id t) (incoming_frame_stream h)), t)
           else init_header_frame_parser accept True h t)
        else if ty = GRPC_CHTTP2_FRAME_DATA then init_data_frame_parser h t
        else if ty = GRPC_CHTTP2_FRAME_HEADER then init_header_frame_parser accept False h t
        else if ty = GRPC_CHTTP2_FRAME_CONTINUATION then Some (Some UnexpectedContinuation, t)
        else if ty = GRPC_CHTTP2_FRAME_RST_STREAM then init_rst_stream_parser h t
        else if ty = GRPC_CHTTP2_FRAME_SETTINGS then init_settings_frame_parser h t
        else if ty = GRPC_CHTTP2_FRAME_WINDOW_UPDATE then init_window_update_frame_parser h t
        else if ty = GRPC_CHTTP2_FRAME_PING then init_ping_parser h t
        else if ty = GRPC_CHTTP2_FRAME_GOAWAY then init_goaway_parser h t
        else init_non_header_skip_frame_parser t)"

section \<open>Running the parser\<close>

text \<open>The transport as the control-frame parsers see it.\<close>

definition conn_core :: "frame_header \<Rightarrow> 'b conn \<Rightarrow> chttp2_transport" where
  "conn_core h t = (cn_t t)\<lparr>incoming_stream_id := incoming_frame_stream h, stream_map_size := grpc_chttp2_stream_map_size (cn_map t),
     stream_remote_deltas :=
       grpc_chttp2_stream_map_for_each (\<lambda>k p ds. ds @ [remote_window_delta (s_fc (st_control (cn_store t p)))]) (cn_map t) []\<rparr>"

text \<open>The metadata go to the buffer that \<open>begin_stream_headers\<close> chose.\<close>

definition store_metadata :: "nat \<Rightarrow> 'b option \<Rightarrow> 'b conn \<Rightarrow> 'b conn" where
  "store_metadata p buf t =
     (case buf of
        None \<Rightarrow> t
      | Some b \<Rightarrow>
          if header_frames_received (cn_store t p) = 1 \<or> is_client (cn_t t) \<and> header_eof t
          then upd_stream p (\<lambda>s. s\<lparr>trailing_metadata_buffer := b\<rparr>) t
          else upd_stream p (\<lambda>s. s\<lparr>initial_metadata_buffer := b\<rparr>) t)"

definition publish_metadata :: "nat \<Rightarrow> 'b conn \<Rightarrow> 'b init_result" where
  "publish_metadata p t =
     (let n = header_frames_received (cn_store t p) in
      if n = 2 then Some (Some TooManyTrailerFrames, t)
      else if n = 0 then
        Some (None, upd_stream p (\<lambda>s. s\<lparr>published_initial_metadata := GRPC_METADATA_PUBLISHED_FROM_WIRE, header_frames_received := 1\<rparr>)
          (cn_call (MaybeCompleteRecvInitialMetadata p) (cn_call (ParseStreamCompression p) t)))
      else map_option (\<lambda>d. (None, upd_stream p (\<lambda>s. s\<lparr>st_data := d, header_frames_received := n + 1\<rparr>) t))
        (grpc_chttp2_maybe_complete_recv_trailing_metadata
          ((st_data (cn_store t p))\<lparr>published_trailing_metadata := GRPC_METADATA_PUBLISHED_FROM_WIRE\<rparr>)))"

definition grpc_chttp2_header_parser_parse ::
    "(md memento \<Rightarrow> 'b \<Rightarrow> bool \<times> 'b) \<Rightarrow> u8 list \<Rightarrow> bool \<Rightarrow> 'b conn \<Rightarrow> 'b init_result" where
  "grpc_chttp2_header_parser_parse set_md sl is_last t =
     (let t1 = (case cn_incoming_stream t of
                  None \<Rightarrow> t
                | Some p \<Rightarrow> upd_stream p (\<lambda>s. s\<lparr>st_header_bytes := st_header_bytes s + length sl\<rparr>) t) in
      case HPackParser_Parse set_md sl is_last (cn_hpack t1) of
        None \<Rightarrow> None
      | Some (e, hp) \<Rightarrow>
          let t2 = (case cn_incoming_stream t1 of None \<Rightarrow> t1 | Some p \<Rightarrow> store_metadata p (metadata_buffer hp) t1)\<lparr>cn_hpack := hp\<rparr> in
          (case e of
             Some x \<Rightarrow> Some (Some (HpackError x), t2)
           | None \<Rightarrow>
               if \<not> is_last then Some (None, t2)
               else
                 (case (case cn_incoming_stream t2 of
                          None \<Rightarrow> Some (None, t2)
                        | Some p \<Rightarrow>
                            (case (if hp_boundary hp \<noteq> BoundaryNone then publish_metadata p t2 else Some (None, t2)) of
                               None \<Rightarrow> None
                             | Some (Some x, t3) \<Rightarrow> Some (Some x, t3)
                             | Some (None, t3) \<Rightarrow>
                                 Some (None, if hp_boundary hp = EndOfStream
                                   then cn_call (MarkStreamReadClosed p)
                                     (if is_client (cn_t t3) \<and> \<not> data_stream.write_closed (st_data (cn_store t3 p)) then cn_call (ForceClientRstStream p) t3 else t3)
                                   else t3))) of
                    None \<Rightarrow> None
                  | Some (Some x, t4) \<Rightarrow> Some (Some x, t4)
                  | Some (None, t4) \<Rightarrow> Some (None, t4\<lparr>cn_hpack := HPackParser_FinishFrame (cn_hpack t4)\<rparr>))))"

definition run_parser ::
    "(md memento \<Rightarrow> 'b \<Rightarrow> bool \<times> 'b) \<Rightarrow> int \<Rightarrow> frame_header \<Rightarrow> u8 list \<Rightarrow> bool \<Rightarrow> 'b conn \<Rightarrow> 'b init_result" where
  "run_parser set_md now h sl is_last t =
     (case cn_parser t of
        SkipParser \<Rightarrow> Some (None, t)
      | HeaderParser \<Rightarrow> grpc_chttp2_header_parser_parse set_md sl is_last t
      | DataParser p \<Rightarrow>
          map_option (\<lambda>d. (None, upd_stream p (\<lambda>s. s\<lparr>st_data := d\<rparr>) t)) (grpc_chttp2_data_parser_parse sl is_last (st_data (cn_store t p)))
      | PingParser \<Rightarrow>
          map_option (\<lambda>(e, p, c). (map_option PingError e, t\<lparr>cn_ping := p, cn_t := c\<rparr>))
            (grpc_chttp2_ping_parser_parse now sl is_last (cn_ping t, conn_core h t))
      | GoawayParser \<Rightarrow>
          map_option (\<lambda>(e, p, c). (map_option GoawayError e, t\<lparr>cn_goaway := p, cn_t := c\<rparr>))
            (grpc_chttp2_goaway_parser_parse sl is_last (cn_goaway t, conn_core h t))
      | SettingsParser \<Rightarrow>
          map_option (\<lambda>(e, p, c). (map_option SettingsError e, t\<lparr>cn_settings := p, cn_t := c\<rparr>))
            (grpc_chttp2_settings_parser_parse sl is_last (cn_settings t, conn_core h t))
      | WindowUpdateParser \<Rightarrow>
          map_option (\<lambda>(e, p, s, c). (map_option WindowUpdateError e,
              (case (cn_incoming_stream t, s) of (Some q, Some s') \<Rightarrow> upd_stream q (\<lambda>x. x\<lparr>st_control := s'\<rparr>) t | _ \<Rightarrow> t)\<lparr>cn_window_update := p, cn_t := c\<rparr>))
            (grpc_chttp2_window_update_parser_parse sl is_last
              (cn_window_update t, map_option (\<lambda>q. st_control (cn_store t q)) (cn_incoming_stream t), conn_core h t))
      | RstStreamParser \<Rightarrow>
          (case cn_incoming_stream t of
             None \<Rightarrow> None
           | Some q \<Rightarrow>
               map_option (\<lambda>(e, p, s', c). (map_option RstStreamError e, (upd_stream q (\<lambda>x. x\<lparr>st_control := s'\<rparr>) t)\<lparr>cn_rst := p, cn_t := c\<rparr>))
                 (grpc_chttp2_rst_stream_parser_parse sl is_last (cn_rst t, st_control (cn_store t q), conn_core h t))))"

text \<open>No error of a parser carries a stream id, so \<open>parse_frame_slice\<close> returns it as it is; the branch that would close only the stream is
  never taken.  The calls of the read loop.\<close>

definition conn_ops ::
    "(u32 \<Rightarrow> 'b conn \<Rightarrow> nat option \<times> 'b conn) \<Rightarrow> (md memento \<Rightarrow> 'b \<Rightarrow> bool \<times> 'b) \<Rightarrow> int \<Rightarrow> (conn_error, 'b conn) read_ops" where
  "conn_ops accept set_md now =
     \<lparr>init_frame = init_frame_parser accept, parse_slice = run_parser set_md now,
      max_frame_size = (\<lambda>t. if flow_control_enabled (cn_t t) then Some (acked_setting t GRPC_CHTTP2_SETTINGS_MAX_FRAME_SIZE) else None),
      forget_stream = (\<lambda>t. t\<lparr>cn_incoming_stream := None\<rparr>)\<rparr>"

section \<open>The order of frames\<close>

text \<open>What the checks of \<open>init_frame_parser\<close> depend on.\<close>

definition same_order :: "'b conn \<Rightarrow> 'b conn \<Rightarrow> bool" where
  "same_order t t' \<longleftrightarrow> is_first_frame t' = is_first_frame t \<and> expect_continuation_stream_id t' = expect_continuation_stream_id t"

text \<open>The surface does not touch it.\<close>

definition accept_keeps :: "(u32 \<Rightarrow> 'b conn \<Rightarrow> nat option \<times> 'b conn) \<Rightarrow> bool" where
  "accept_keeps accept \<longleftrightarrow> (\<forall>sid t. same_order t (snd (accept sid t)))"

lemma same_order_trans: "same_order a b \<Longrightarrow> same_order b c \<Longrightarrow> same_order a c"
  by (simp add: same_order_def)

definition keeps_order :: "'b conn \<Rightarrow> 'b init_result \<Rightarrow> bool" where
  "keeps_order t r \<longleftrightarrow> (case r of None \<Rightarrow> True | Some (e, t') \<Rightarrow> same_order t t')"

lemma init_skip_order:
  "same_order t t' \<Longrightarrow> keeps_order t (init_header_skip_frame_parser pr t')"
  "same_order t t' \<Longrightarrow> keeps_order t (init_non_header_skip_frame_parser t')"
  by (auto simp: keeps_order_def init_header_skip_frame_parser_def init_non_header_skip_frame_parser_def same_order_def Let_def)

lemma recv_data_order: "recv_data n s t = (e, a, t') \<Longrightarrow> same_order t t'"
  by (auto simp: recv_data_def same_order_def split: if_splits option.splits prod.splits)

lemma same_order_steps [intro]:
  "same_order t t' \<Longrightarrow> same_order t (cn_call c t')"
  "same_order t t' \<Longrightarrow> same_order t (upd_stream p f t')"
  "same_order t t' \<Longrightarrow> same_order t (t'\<lparr>cn_t := x\<rparr>)"
  "same_order t t' \<Longrightarrow> same_order t (t'\<lparr>cn_parser := y\<rparr>)"
  by (simp_all add: same_order_def)

lemma init_data_order: "keeps_order t (init_data_frame_parser h t)"
proof -
  let ?t' = "if bdp_ping_blocked t then cn_call ScheduleBdpPing (t\<lparr>bdp_ping_blocked := False\<rparr>) else t"
  define t1 where "t1 = (if flow_control_enabled (cn_t t)
      then ?t'\<lparr>cn_t := (cn_t ?t')\<lparr>t_fc := (t_fc (cn_t ?t'))\<lparr>bdp_est := AddIncomingBytes (uint (incoming_frame_size h)) (bdp_est (t_fc (cn_t ?t')))\<rparr>\<rparr>\<rparr>
      else t)"
  define s where "s = grpc_chttp2_parsing_lookup_stream t1 (incoming_frame_stream h)"
  obtain err action t2 where r: "recv_data (incoming_frame_size h) s t1 = (err, action, t2)" by (metis prod_cases3)
  define t3 where "t3 = cn_call (ActOnFlowControl action s) t2"
  have "same_order t t1" by (simp add: t1_def same_order_def)
  with recv_data_order [OF r] have t3: "same_order t t3" unfolding t3_def by (metis same_order_steps(1) same_order_trans)
  show ?thesis
    unfolding init_data_frame_parser_def Let_def
    unfolding t1_def [symmetric] s_def [symmetric] r prod.case t3_def [symmetric]
    using t3
    by (cases err; cases s) (simp_all add: keeps_order_def init_non_header_skip_frame_parser_def same_order_def split: prod.splits option.splits)
qed

lemma begin_stream_headers_order: "same_order t t' \<Longrightarrow> keeps_order t (begin_stream_headers eoh pr p t')"
  unfolding begin_stream_headers_def Let_def
  by (auto simp: keeps_order_def init_header_skip_frame_parser_def same_order_def Let_def)

lemma init_control_order:
  "keeps_order t (init_window_update_frame_parser h t)" "keeps_order t (init_ping_parser h t)" "keeps_order t (init_rst_stream_parser h t)"
  "keeps_order t (init_goaway_parser h t)" "keeps_order t (init_settings_frame_parser h t)"
  by (auto simp: keeps_order_def same_order_def Let_def init_window_update_frame_parser_def init_ping_parser_def init_rst_stream_parser_def
      init_goaway_parser_def init_settings_frame_parser_def init_non_header_skip_frame_parser_def split: option.splits prod.splits)

text \<open>What \<open>init_header_frame_parser\<close> leaves: a continuation is due exactly after a frame without END_HEADERS.\<close>

abbreviation ends_headers :: "u8 \<Rightarrow> bool" where
  "ends_headers flags \<equiv> flags AND GRPC_CHTTP2_DATA_FLAG_END_HEADERS \<noteq> 0"

lemma init_header_order:
  assumes "accept_keeps accept" "init_header_frame_parser accept c h t = Some (e, t')"
  shows "is_first_frame t' = is_first_frame t"
    and "expect_continuation_stream_id t' = (if ends_headers (incoming_frame_flags h) then 0 else incoming_frame_stream h)"
proof -
  let ?t1 = "t\<lparr>expect_continuation_stream_id := if ends_headers (incoming_frame_flags h) then 0 else incoming_frame_stream h\<rparr>"
  let ?t2 = "if \<not> c then ?t1\<lparr>header_eof := incoming_frame_flags h AND GRPC_CHTTP2_DATA_FLAG_END_STREAM \<noteq> 0\<rparr> else ?t1"
  define t3 where "t3 = ?t2\<lparr>last_ping_sent_time := GRPC_MILLIS_INF_PAST\<rparr>"
  have t3: "same_order ?t1 t3" by (simp add: t3_def same_order_def)
  have new: "same_order t3 t4" if "accept sid (t3\<lparr>cn_t := x\<rparr>) = (p, t4)" for sid x p t4
    using assms(1) that same_order_trans [of t3 "t3\<lparr>cn_t := x\<rparr>" t4] by (metis accept_keeps_def same_order_def same_order_steps(3) snd_conv)
  have "keeps_order t3 (init_header_frame_parser accept c h t)"
    unfolding init_header_frame_parser_def Let_def t3_def [symmetric]
    by (auto intro!: init_skip_order begin_stream_headers_order simp: keeps_order_def [of _ "Some (Some _, _)"] same_order_def [of t3 t3]
        dest!: new split: option.splits prod.splits) (simp_all add: same_order_def)
  with assms(2) have "same_order t3 t'" by (simp add: keeps_order_def)
  with t3 have "same_order ?t1 t'" by (rule same_order_trans)
  then show "is_first_frame t' = is_first_frame t"
    and "expect_continuation_stream_id t' = (if ends_headers (incoming_frame_flags h) then 0 else incoming_frame_stream h)"
    by (auto simp: same_order_def)
qed

lemma publish_metadata_order: "keeps_order t (publish_metadata p t)"
  by (auto simp: keeps_order_def publish_metadata_def same_order_def Let_def split: option.splits)

lemma store_metadata_order: "same_order t (store_metadata p buf t)"
  by (auto simp: store_metadata_def same_order_def split: option.splits)

lemma header_parser_order: "keeps_order t (grpc_chttp2_header_parser_parse set_md sl is_last t)"
proof -
  define t1 where "t1 = (case cn_incoming_stream t of
      None \<Rightarrow> t | Some p \<Rightarrow> upd_stream p (\<lambda>s. s\<lparr>st_header_bytes := st_header_bytes s + length sl\<rparr>) t)"
  have t1: "same_order t t1" by (simp add: t1_def same_order_def split: option.split)
  define t2 where "t2 hp = (case cn_incoming_stream t1 of None \<Rightarrow> t1 | Some p \<Rightarrow> store_metadata p (metadata_buffer hp) t1)\<lparr>cn_hpack := hp\<rparr>" for hp
  have t2: "same_order t (t2 hp)" for hp
    using t1 store_metadata_order [of t1 _ "metadata_buffer hp"] by (auto simp: t2_def same_order_def split: option.split)
  have pub: "same_order t t3" if "publish_metadata p (t2 hp) = Some (e, t3)" for p hp e t3
  proof (rule same_order_trans [OF t2])
    show "same_order (t2 hp) t3" using publish_metadata_order [of "t2 hp" p] unfolding that by (simp add: keeps_order_def)
  qed
  have fin: "keeps_order t (case (if b then publish_metadata p (t2 hp) else Some (None, t2 hp)) of
        None \<Rightarrow> None
      | Some (Some x, t3) \<Rightarrow> Some (Some x, t3)
      | Some (None, t3) \<Rightarrow> Some (None, if c then cn_call m (if d t3 then cn_call n t3 else t3) else t3))" for b p hp c m d n
  proof (cases "if b then publish_metadata p (t2 hp) else Some (None, t2 hp)")
    case (Some a)
    obtain e t3 where a: "a = (e, t3)" by fastforce
    have t3: "same_order t t3" using Some t2 [of hp] pub unfolding a by (cases b) auto
    then have "same_order t (if c then cn_call m (if d t3 then cn_call n t3 else t3) else t3)" by (simp add: same_order_def)
    with t3 show ?thesis unfolding Some a by (cases e) (simp_all add: keeps_order_def)
  qed (simp add: keeps_order_def)
  have fin2: "keeps_order t (case r of None \<Rightarrow> None | Some (Some x, t4) \<Rightarrow> Some (Some x, t4)
      | Some (None, t4) \<Rightarrow> Some (None, t4\<lparr>cn_hpack := HPackParser_FinishFrame (cn_hpack t4)\<rparr>))" if "keeps_order t r" for r :: "'a init_result"
    using that by (auto simp: keeps_order_def same_order_def split: option.splits)
  show ?thesis
  proof (cases "HPackParser_Parse set_md sl is_last (cn_hpack t1)")
    case None
    then show ?thesis unfolding grpc_chttp2_header_parser_parse_def Let_def t1_def [symmetric] by (simp add: keeps_order_def)
  next
    case (Some a)
    obtain e hp where a: "a = (e, hp)" by fastforce
    have t2': "keeps_order t (Some (x, t2 hp))" for x using t2 by (simp add: keeps_order_def)
    show ?thesis
      unfolding grpc_chttp2_header_parser_parse_def Let_def t1_def [symmetric] Some a option.case prod.case t2_def [symmetric]
      apply (cases e; cases is_last)
         apply (simp_all only: option.case not_True_eq_False not_False_eq_True if_True if_False t2')
      apply (rule fin2)
      apply (cases "cn_incoming_stream (t2 hp)")
       apply (simp_all only: option.case fin t2')
      done
  qed
qed

lemma keeps_order_map: "(\<And>y e t'. f y = (e, t') \<Longrightarrow> same_order t t') \<Longrightarrow> keeps_order t (map_option f r)"
  by (cases r) (auto simp: keeps_order_def split: prod.splits)

lemma run_parser_order: "keeps_order t (run_parser set_md now h sl is_last t)"
proof (cases "cn_parser t")
  case HeaderParser
  then show ?thesis by (simp add: run_parser_def header_parser_order)
next
  case RstStreamParser
  then show ?thesis unfolding run_parser_def
    by (cases "cn_incoming_stream t") (auto simp: keeps_order_def [of _ None] intro!: keeps_order_map simp: same_order_def)
next
  case WindowUpdateParser
  then show ?thesis unfolding run_parser_def
    by (cases "cn_incoming_stream t") (auto intro!: keeps_order_map simp: same_order_def split: option.splits)
qed (auto simp: run_parser_def keeps_order_def [of _ "Some _"] intro!: keeps_order_map simp: same_order_def)

text \<open>Which frame may follow which: inside a header block of a stream only its continuation, outside none.\<close>

definition opens_block :: "http2_frame \<Rightarrow> bool" where
  "opens_block f \<longleftrightarrow> (fr_type f = GRPC_CHTTP2_FRAME_HEADER \<or> fr_type f = GRPC_CHTTP2_FRAME_CONTINUATION) \<and>
     \<not> ends_headers (fr_flags f) \<and> fr_stream f AND 0x7fffffff \<noteq> 0"

definition may_follow :: "http2_frame \<Rightarrow> http2_frame \<Rightarrow> bool" where
  "may_follow f g \<longleftrightarrow>
     (if opens_block f then fr_type g = GRPC_CHTTP2_FRAME_CONTINUATION \<and> fr_stream g AND 0x7fffffff = fr_stream f AND 0x7fffffff
      else fr_type g \<noteq> GRPC_CHTTP2_FRAME_CONTINUATION)"

definition awaited :: "http2_frame \<Rightarrow> u32" where
  "awaited f = (if opens_block f then fr_stream f AND 0x7fffffff else 0)"

lemma init_frame_order:
  assumes acc: "accept_keeps accept" and r: "init_frame_parser accept (header_of f) t = Some (None, t')"
  shows "is_first_frame t \<Longrightarrow> fr_type f = GRPC_CHTTP2_FRAME_SETTINGS"
    and "if expect_continuation_stream_id t \<noteq> 0
         then fr_type f = GRPC_CHTTP2_FRAME_CONTINUATION \<and> fr_stream f AND 0x7fffffff = expect_continuation_stream_id t
         else fr_type f \<noteq> GRPC_CHTTP2_FRAME_CONTINUATION"
    and "\<not> is_first_frame t'" "expect_continuation_stream_id t' = awaited f"
proof -
  let ?t = "t\<lparr>is_first_frame := False\<rparr>"
  note k = init_control_order [of ?t "header_of f"] init_data_order [of ?t "header_of f"] init_skip_order(2) [of ?t ?t]
  note hd = init_header_order [OF acc, of _ "header_of f" ?t None t']
  show "fr_type f = GRPC_CHTTP2_FRAME_SETTINGS" if "is_first_frame t"
    using r that by (auto simp: init_frame_parser_def header_of_def Let_def split: if_splits)
  show "if expect_continuation_stream_id t \<noteq> 0
         then fr_type f = GRPC_CHTTP2_FRAME_CONTINUATION \<and> fr_stream f AND 0x7fffffff = expect_continuation_stream_id t
         else fr_type f \<noteq> GRPC_CHTTP2_FRAME_CONTINUATION"
    using r by (auto simp: init_frame_parser_def header_of_def Let_def frame_consts split: if_splits)
  show "\<not> is_first_frame t'" "expect_continuation_stream_id t' = awaited f"
    using r k hd
    by (auto simp: init_frame_parser_def header_of_def Let_def keeps_order_def same_order_def awaited_def opens_block_def frame_consts split: if_splits)
qed

lemma run_payload_order: "keeps_order t (run_payload (conn_ops accept set_md now) h cs t)"
proof (induction cs arbitrary: h t)
  case (Cons c cs)
  show ?case
  proof (cases "run_parser set_md now h c (cs = []) t")
    case (Some a)
    obtain e t1 where a: "a = (e, t1)" by fastforce
    have t1: "same_order t t1" using run_parser_order [of t set_md now h c "cs = []"] unfolding Some a by (simp add: keeps_order_def)
    have "keeps_order t r" if "keeps_order t1 r" for r :: "'a init_result"
      using that t1 by (auto simp: keeps_order_def intro: same_order_trans split: option.splits)
    with Some a t1 Cons.IH show ?thesis by (cases e) (simp_all add: conn_ops_def keeps_order_def)
  qed (simp add: conn_ops_def keeps_order_def)
qed (simp add: keeps_order_def same_order_def)

lemma run_frame_order:
  assumes "run_frame (conn_ops accept set_md now) f cs t = Some (None, t')"
  obtains t1 where "init_frame_parser accept (header_of f) t = Some (None, t1)" "same_order t1 t'"
proof -
  obtain t1 where t1: "init_frame_parser accept (header_of f) t = Some (None, t1)"
    using assms by (auto simp: run_frame_def conn_ops_def split: option.splits prod.splits)
  have i: "init_frame (conn_ops accept set_md now) = init_frame_parser accept" by (simp add: conn_ops_def)
  have "run_payload (conn_ops accept set_md now) (header_of f) cs t1 = Some (None, t')"
    using assms unfolding run_frame_def i t1 by (auto split: option.splits if_splits)
  with run_payload_order [of t1 accept set_md now "header_of f" cs] have "same_order t1 t'" by (simp add: keeps_order_def)
  with t1 show ?thesis by (rule that)
qed

lemma run_frames_order:
  assumes "accept_keeps accept" "length css = length fs" "run_frames (conn_ops accept set_md now) (zip fs css) t = Some (None, t')"
  shows "successively may_follow fs \<and>
    (case fs of [] \<Rightarrow> True | f # _ \<Rightarrow> (is_first_frame t \<longrightarrow> fr_type f = GRPC_CHTTP2_FRAME_SETTINGS) \<and>
       (if expect_continuation_stream_id t \<noteq> 0
        then fr_type f = GRPC_CHTTP2_FRAME_CONTINUATION \<and> fr_stream f AND 0x7fffffff = expect_continuation_stream_id t
        else fr_type f \<noteq> GRPC_CHTTP2_FRAME_CONTINUATION))"
  using assms(2,3)
proof (induction fs arbitrary: css t)
  case (Cons f fs)
  then obtain cs css' where css: "css = cs # css'" "length css' = length fs" by (cases css) auto
  from Cons.prems(2) obtain t1 where t1: "run_frame (conn_ops accept set_md now) f cs t = Some (None, t1)"
    and rest: "run_frames (conn_ops accept set_md now) (zip fs css') (t1\<lparr>cn_incoming_stream := None\<rparr>) = Some (None, t')"
    by (auto simp: css conn_ops_def split: option.splits prod.splits)
  from t1 obtain t0 where t0: "init_frame_parser accept (header_of f) t = Some (None, t0)" "same_order t0 t1" by (rule run_frame_order)
  note o = init_frame_order [OF assms(1) t0(1)]
  have nxt: "expect_continuation_stream_id t1 = awaited f" using o(4) t0(2) by (simp add: same_order_def)
  have "successively may_follow (f # fs)"
    using Cons.IH [OF css(2) rest] nxt by (cases fs) (auto simp: may_follow_def awaited_def opens_block_def)
  with o(1,2) show ?case by simp
qed simp

section \<open>Skipped header frames\<close>

lemma half_a_header:
  assumes "unparsed_bytes p = []" "hp_priority p = PriorityNone"
  shows "HPackParser_Parse set_md [0x40] True p =
    Some (if hp_boundary p = BoundaryNone then (None, p\<lparr>unparsed_bytes := [0x40]\<rparr>) else (Some IncompleteHeader, p))"
proof -
  have "parse_loop set_md p (Input_init [0x40]) = Some (False, p, UnexpectedEOF ((Input_init [0x40])\<lparr>in_rest := []\<rparr>))"
    unfolding parse_loop_Cons
    by (simp add: Parser_dispatch_def ParseLiteralKey_def String_Parse_def ParseStringPrefix_def read_then_def Next_def
        Input_init_def UnexpectedEOF_def FinishHeaderAndAddToTable_def Let_def)
  with assms show ?thesis by (simp add: HPackParser_Parse_def ParseInput_def ParseInputInner_def UnexpectedEOF_def Input_init_def)
qed

lemma init_header_unknown_stream:
  assumes "is_client (cn_t t)" "grpc_chttp2_parsing_lookup_stream t (incoming_frame_stream h) = None"
  shows "\<exists>t'. init_header_frame_parser accept False h t = Some (None, t') \<and> cn_parser t' = HeaderParser \<and>
    cn_incoming_stream t' = cn_incoming_stream t \<and> unparsed_bytes (cn_hpack t') = unparsed_bytes (cn_hpack t) \<and>
    hp_priority (cn_hpack t') = (if incoming_frame_flags h AND GRPC_CHTTP2_FLAG_HAS_PRIORITY \<noteq> 0 then Included else PriorityNone) \<and>
    (hp_boundary (cn_hpack t') = BoundaryNone \<longleftrightarrow> ends_headers (incoming_frame_flags h) \<or> incoming_frame_stream h = 0)"
  using assms
  by (simp add: init_header_frame_parser_def init_header_skip_frame_parser_def grpc_chttp2_parsing_lookup_stream_def hpack_boundary_type_def
      HPackParser_BeginFrame_def Let_def)

section \<open>An example\<close>

text \<open>A client that has had no frame and has no streams.\<close>

definition demo_conn :: "(nat \<Rightarrow> nat conn_stream) \<Rightarrow> nat conn" where
  "demo_conn store =
     \<lparr>cn_t = demo_transport\<lparr>is_client := True\<rparr>, is_first_frame = True, expect_continuation_stream_id = 0, header_eof = False, next_stream_id = 3,
      sent_local_settings = True, bdp_ping_blocked = False, last_ping_sent_time = 0, has_channelz_socket = False, cn_parser = SkipParser,
      cn_ping = \<lparr>ping_byte = 0, is_ack = 0, opaque_8bytes = 0\<rparr>, cn_rst = \<lparr>rst_byte = 0, reason_bytes = [0, 0, 0, 0]\<rparr>,
      cn_window_update = \<lparr>wu_byte = 0, amount = 0\<rparr>, cn_settings = demo_settings_parser, cn_goaway = demo_goaway_parser,
      cn_hpack = HPackParser_init [], cn_map = \<lparr>sm_keys = [], sm_values = [], sm_count = 0, sm_free = 0, sm_capacity = 8\<rparr>,
      cn_store = store, cn_incoming_stream = None, cn_calls = []\<rparr>"

text \<open>A SETTINGS frame, then a header block for a stream that is gone, in two frames.\<close>

definition demo_frames :: "http2_frame list" where
  "demo_frames =
     [\<lparr>fr_type = 4, fr_flags = 0, fr_stream = 0, fr_payload = []\<rparr>, \<lparr>fr_type = 1, fr_flags = 0, fr_stream = 1, fr_payload = []\<rparr>,
      \<lparr>fr_type = 9, fr_flags = 4, fr_stream = 1, fr_payload = []\<rparr>]"

definition demo_accept :: "u32 \<Rightarrow> nat conn \<Rightarrow> nat option \<times> nat conn" where
  "demo_accept sid t = (None, t)"

definition demo_header :: frame_header where
  "demo_header = \<lparr>incoming_frame_size = 0, incoming_frame_type = 0, incoming_frame_flags = 0, incoming_frame_stream = 0\<rparr>"

lemma demo_settings_frame:
  "\<exists>t1. run_frame (conn_ops demo_accept (\<lambda>m b. (True, b)) 0) (demo_frames ! 0) [[]] (demo_conn store) = Some (None, t1) \<and>
     \<not> is_first_frame t1 \<and> expect_continuation_stream_id t1 = 0 \<and> cn_map t1 = cn_map (demo_conn store) \<and>
     is_client (cn_t t1) \<and> cn_hpack t1 = HPackParser_init []"
  by (simp add: demo_frames_def demo_conn_def run_frame_def conn_ops_def header_of_def init_frame_parser_def init_settings_frame_parser_def
      grpc_chttp2_settings_parser_begin_frame_def run_parser_def grpc_chttp2_settings_parser_parse_def settings_commit_def conn_core_def
      demo_transport_def frame_consts Let_def)

lemma empty_header_frame:
  assumes "cn_parser t = HeaderParser" "cn_incoming_stream t = None" "unparsed_bytes (cn_hpack t) = []" "hp_priority (cn_hpack t) = PriorityNone"
  shows "run_parser set_md now h [] True t = Some (None, t\<lparr>cn_hpack := HPackParser_FinishFrame (cn_hpack t)\<rparr>)"
  using assms
  by (simp add: run_parser_def grpc_chttp2_header_parser_parse_def HPackParser_Parse_def ParseInput_def ParseInputInner_def parse_loop_Nil Let_def)

lemma demo_header_frame:
  assumes t: "\<not> is_first_frame t" "cn_map t = cn_map (demo_conn store)" "is_client (cn_t t)" "unparsed_bytes (cn_hpack t) = []"
      "cn_incoming_stream t = None"
    and i: "i = 1 \<and> expect_continuation_stream_id t = 0 \<or> i = 2 \<and> expect_continuation_stream_id t = 1"
  shows "\<exists>t1. run_frame (conn_ops demo_accept (\<lambda>m b. (True, b)) 0) (demo_frames ! i) [[]] t = Some (None, t1) \<and>
     \<not> is_first_frame t1 \<and> expect_continuation_stream_id t1 = (if i = 1 then 1 else 0) \<and> cn_map t1 = cn_map (demo_conn store) \<and>
     is_client (cn_t t1) \<and> unparsed_bytes (cn_hpack t1) = []"
proof -
  have find: "grpc_chttp2_stream_map_find (cn_map t) 1 = None" using t(2) by (simp add: demo_conn_def grpc_chttp2_stream_map_find_def find_lax_def)
  have "\<exists>t1. init_frame_parser demo_accept (header_of (demo_frames ! i)) t = Some (None, t1) \<and> cn_parser t1 = HeaderParser \<and>
      cn_incoming_stream t1 = None \<and> unparsed_bytes (cn_hpack t1) = [] \<and> hp_priority (cn_hpack t1) = PriorityNone \<and> \<not> is_first_frame t1 \<and>
      expect_continuation_stream_id t1 = (if i = 1 then 1 else 0) \<and> cn_map t1 = cn_map t \<and> is_client (cn_t t1)"
    using i
  proof
    assume i: "i = 1 \<and> expect_continuation_stream_id t = 0"
    with t find show ?thesis
      by (simp add: demo_frames_def header_of_def init_frame_parser_def init_header_frame_parser_def init_header_skip_frame_parser_def
          grpc_chttp2_parsing_lookup_stream_def HPackParser_BeginFrame_def frame_consts Let_def)
  next
    assume i: "i = 2 \<and> expect_continuation_stream_id t = 1"
    with t find show ?thesis
      by (simp add: demo_frames_def header_of_def init_frame_parser_def init_header_frame_parser_def init_header_skip_frame_parser_def
          grpc_chttp2_parsing_lookup_stream_def HPackParser_BeginFrame_def frame_consts Let_def)
  qed
  then obtain t1 where t1: "init_frame_parser demo_accept (header_of (demo_frames ! i)) t = Some (None, t1)" "cn_parser t1 = HeaderParser"
      "cn_incoming_stream t1 = None" "unparsed_bytes (cn_hpack t1) = []" "hp_priority (cn_hpack t1) = PriorityNone" "\<not> is_first_frame t1"
      "expect_continuation_stream_id t1 = (if i = 1 then 1 else 0)" "cn_map t1 = cn_map t" "is_client (cn_t t1)" by blast
  have p: "fr_payload (demo_frames ! i) = []" using i by (auto simp: demo_frames_def)
  show ?thesis
    using t1(6-9) t(2) empty_header_frame [OF t1(2-5)] t1(1,4) by (simp add: run_frame_def conn_ops_def p HPackParser_FinishFrame_def)
qed

lemma demo_run_frames:
  "\<exists>t'. run_frames (conn_ops demo_accept (\<lambda>m b. (True, b)) 0) (zip demo_frames [[[]], [[]], [[]]]) (demo_conn store) = Some (None, t')"
proof -
  let ?ops = "conn_ops demo_accept (\<lambda>m (b :: nat). (True, b)) 0"
  have fs: "demo_frames = [demo_frames ! 0, demo_frames ! 1, demo_frames ! 2]" by (simp add: demo_frames_def)
  have forget: "forget_stream ?ops t = t\<lparr>cn_incoming_stream := None\<rparr>" for t by (simp add: conn_ops_def)
  obtain t1 where t1: "run_frame ?ops (demo_frames ! 0) [[]] (demo_conn store) = Some (None, t1)" "\<not> is_first_frame t1"
      "expect_continuation_stream_id t1 = 0" "cn_map t1 = cn_map (demo_conn store)" "is_client (cn_t t1)" "cn_hpack t1 = HPackParser_init []"
    using demo_settings_frame by blast
  obtain t2 where t2: "run_frame ?ops (demo_frames ! 1) [[]] (t1\<lparr>cn_incoming_stream := None\<rparr>) = Some (None, t2)" "\<not> is_first_frame t2"
      "expect_continuation_stream_id t2 = 1" "cn_map t2 = cn_map (demo_conn store)" "is_client (cn_t t2)" "unparsed_bytes (cn_hpack t2) = []"
    using demo_header_frame [of "t1\<lparr>cn_incoming_stream := None\<rparr>" store 1] t1(2-) by (auto simp: HPackParser_init_def)
  obtain t3 where t3: "run_frame ?ops (demo_frames ! 2) [[]] (t2\<lparr>cn_incoming_stream := None\<rparr>) = Some (None, t3)"
    using demo_header_frame [of "t2\<lparr>cn_incoming_stream := None\<rparr>" store 2] t2(2-) by auto
  show ?thesis by (subst fs) (simp add: t1(1) t2(1) [unfolded One_nat_def] t3 forget)
qed

lemma demo_reads:
  "\<exists>st h' t'. read_slices (conn_ops demo_accept (\<lambda>m b. (True, b)) 0) [all_bytes demo_frames] GRPC_DTS_FH_0 demo_header (demo_conn store) =
     Some (None, st, h', t')"
proof -
  have ok: "frames_ok demo_frames" "small_slices [all_bytes demo_frames]"
    by (simp_all add: frames_ok_def small_slices_def demo_frames_def frame_bytes_def)
  obtain css where css: "cuts demo_frames css"
    "map_option (\<lambda>(e, st, h, x). (e, x))
       (read_slices (conn_ops demo_accept (\<lambda>m b. (True, b)) 0) [all_bytes demo_frames] GRPC_DTS_FH_0 demo_header (demo_conn store)) =
     run_frames (conn_ops demo_accept (\<lambda>m b. (True, b)) 0) (zip demo_frames css) (demo_conn store)"
    using read_slices_frames [OF ok, of False] by fastforce
  then have "css = [[[]], [[]], [[]]]" by (auto simp: cuts_def demo_frames_def cut_into_def list_all2_Cons1)
  with css(2) demo_run_frames [of store] obtain t' where "map_option (\<lambda>(e, st, h, x). (e, x))
       (read_slices (conn_ops demo_accept (\<lambda>m b. (True, b)) 0) [all_bytes demo_frames] GRPC_DTS_FH_0 demo_header (demo_conn store)) =
     Some (None, t')" by metis
  then show ?thesis by auto
qed

section \<open>Properties\<close>

text \<open>C6: the order of frames.  Whatever the frames of a connection are, however the endpoint cuts their bytes into slices, and whatever the
  surface does with new streams: if the read loop takes all of them without an error, then the first one is a SETTINGS frame, a HEADERS or
  CONTINUATION frame of a stream (not of stream 0) without END_HEADERS is followed by a CONTINUATION frame of the same stream and nothing else, and a CONTINUATION frame
  stands nowhere else.\<close>

theorem frame_order_enforced:
  assumes "accept_keeps accept" "is_first_frame t" "expect_continuation_stream_id t = 0"
    and "frames_ok fs" "small_slices slices"
    and "concat slices = (if is_client_preface then GRPC_CHTTP2_CLIENT_CONNECT_STRING else []) @ all_bytes fs"
    and "read_slices (conn_ops accept set_md now) slices (if is_client_preface then GRPC_DTS_CLIENT_PREFIX 0 else GRPC_DTS_FH_0) h t =
           Some (None, st, h', t')"
  shows "(case fs of [] \<Rightarrow> True | f # _ \<Rightarrow> fr_type f = GRPC_CHTTP2_FRAME_SETTINGS) \<and> successively may_follow fs"
proof -
  obtain css where css: "cuts fs css" "run_frames (conn_ops accept set_md now) (zip fs css) t = Some (None, t')"
    using read_slices_frames [OF assms(4-6), of "conn_ops accept set_md now" h t] assms(7) by auto
  then have "length css = length fs" by (simp add: cuts_def list_all2_lengthD)
  from run_frames_order [OF assms(1) this css(2)] assms(2) show ?thesis by (auto split: list.splits)
qed

theorem frame_order_enforced_witness:
  "\<forall>store. \<exists>st h' t'.
     read_slices (conn_ops demo_accept (\<lambda>m b. (True, b)) 0) [all_bytes demo_frames] GRPC_DTS_FH_0 demo_header (demo_conn store) =
       Some (None, st, h', t') \<and> successively may_follow demo_frames \<and> fr_type (hd demo_frames) = GRPC_CHTTP2_FRAME_SETTINGS"
proof
  fix store
  obtain st h' t' where r: "read_slices (conn_ops demo_accept (\<lambda>m b. (True, b)) 0) [all_bytes demo_frames] GRPC_DTS_FH_0 demo_header
      (demo_conn store) = Some (None, st, h', t')" using demo_reads by blast
  have "accept_keeps demo_accept" "is_first_frame (demo_conn store)" "expect_continuation_stream_id (demo_conn store) = 0"
    by (simp_all add: accept_keeps_def demo_accept_def same_order_def demo_conn_def)
  moreover have "frames_ok demo_frames" "small_slices [all_bytes demo_frames]"
    by (simp_all add: frames_ok_def small_slices_def demo_frames_def frame_bytes_def)
  ultimately have "(case demo_frames of [] \<Rightarrow> True | f # _ \<Rightarrow> fr_type f = GRPC_CHTTP2_FRAME_SETTINGS) \<and> successively may_follow demo_frames"
    using frame_order_enforced [of demo_accept "demo_conn store" demo_frames "[all_bytes demo_frames]" False _ _ demo_header st h' t'] r by simp
  with r show "\<exists>st h' t'. read_slices (conn_ops demo_accept (\<lambda>m b. (True, b)) 0) [all_bytes demo_frames] GRPC_DTS_FH_0 demo_header
      (demo_conn store) = Some (None, st, h', t') \<and> successively may_follow demo_frames \<and> fr_type (hd demo_frames) = GRPC_CHTTP2_FRAME_SETTINGS"
    by (auto simp: demo_frames_def)
qed

text \<open>C39: the boundary of a skipped header frame.  On a client, a HEADERS frame for a stream that is gone (cancelled, for instance) is parsed
  without a buffer, and its boundary is the opposite of what its END_HEADERS flag says.  So a header field that a frame without END_HEADERS
  leaves for the CONTINUATION frame to finish, which is allowed, closes the connection, and a field that a frame with END_HEADERS leaves
  unfinished, which is an error, is kept and put before the next header block.\<close>

theorem skipped_header_boundary:
  assumes "is_client (cn_t t)" "grpc_chttp2_parsing_lookup_stream t (incoming_frame_stream h) = None" "incoming_frame_stream h \<noteq> 0"
    and "cn_incoming_stream t = None" "unparsed_bytes (cn_hpack t) = []" "incoming_frame_flags h AND GRPC_CHTTP2_FLAG_HAS_PRIORITY = 0"
  shows "\<exists>t' t''. init_header_frame_parser accept False h t = Some (None, t') \<and>
    (hp_boundary (cn_hpack t') = BoundaryNone \<longleftrightarrow> incoming_frame_flags h AND GRPC_CHTTP2_DATA_FLAG_END_HEADERS \<noteq> 0) \<and>
    run_parser set_md now h [0x40] True t' =
      Some (if incoming_frame_flags h AND GRPC_CHTTP2_DATA_FLAG_END_HEADERS = 0 then Some (HpackError IncompleteHeader) else None, t'') \<and>
    (incoming_frame_flags h AND GRPC_CHTTP2_DATA_FLAG_END_HEADERS \<noteq> 0 \<longrightarrow> unparsed_bytes (cn_hpack t'') = [0x40])"
proof -
  obtain t' where i: "init_header_frame_parser accept False h t = Some (None, t')" "cn_parser t' = HeaderParser" "cn_incoming_stream t' = None"
      "unparsed_bytes (cn_hpack t') = []" "hp_priority (cn_hpack t') = PriorityNone"
      "hp_boundary (cn_hpack t') = BoundaryNone \<longleftrightarrow> ends_headers (incoming_frame_flags h)"
    using init_header_unknown_stream [OF assms(1,2), of accept] assms(3-6) by auto
  then show ?thesis
    by (auto simp: run_parser_def grpc_chttp2_header_parser_parse_def half_a_header HPackParser_FinishFrame_def Let_def)
qed

theorem skipped_header_boundary_witness:
  "\<forall>store. \<exists>t' t''. init_header_frame_parser demo_accept False (demo_header\<lparr>incoming_frame_stream := 1\<rparr>) (demo_conn store) = Some (None, t') \<and>
     run_parser (\<lambda>m b. (True, b)) 0 (demo_header\<lparr>incoming_frame_stream := 1\<rparr>) [0x40] True t' = Some (Some (HpackError IncompleteHeader), t'')"
proof
  fix store
  show "\<exists>t' t''. init_header_frame_parser demo_accept False (demo_header\<lparr>incoming_frame_stream := 1\<rparr>) (demo_conn store) = Some (None, t') \<and>
     run_parser (\<lambda>m b. (True, b)) 0 (demo_header\<lparr>incoming_frame_stream := 1\<rparr>) [0x40] True t' = Some (Some (HpackError IncompleteHeader), t'')"
    using skipped_header_boundary [of "demo_conn store" "demo_header\<lparr>incoming_frame_stream := 1\<rparr>" demo_accept "\<lambda>m b. (True, b)" 0]
    by (auto simp: demo_conn_def demo_header_def grpc_chttp2_parsing_lookup_stream_def grpc_chttp2_stream_map_find_def find_lax_def HPackParser_init_def)
qed

end
