(* ===== verification/Json_Reader.thy ===== *)
theory Json_Reader
  imports Prelude "HOL-Library.List_Lexorder" "HOL-Library.Sublist"
begin

unbundle bit_operations_syntax

text \<open>
  The JSON parser: \<^verbatim>\<open>src/core/lib/json/json_reader.cc\<close> and the values of \<^verbatim>\<open>json.h\<close>.  The reader is a state machine that takes one byte at a time
  and builds the value in place; its stack holds pointers into the value under construction.  A pointer is a path from the root, and a pointer
  that leads nowhere is a failed access (\<open>None\<close>), as is a failed assertion.  A \<open>std::map\<close> is an association list in the order of its keys.

  The theorem of this theory: on every input the reader returns, no pointer dangles and no assertion fails; it returns errors, or a value
  whose objects are proper maps and whose nesting is bounded.  A second one shows inputs on which the reader departs from the standard that
  its comment names.
\<close>

section \<open>Values\<close>

type_synonym json_text = "u8 list"

datatype json =
  JSON_NULL | JSON_TRUE | JSON_FALSE
| NUMBER json_text
| STRING json_text
| OBJECT "(json_text \<times> json) list"
| ARRAY "json list"

datatype json_kind = TypeNull | TypeTrue | TypeFalse | TypeNumber | TypeString | TypeObject | TypeArray

fun json_type :: "json \<Rightarrow> json_kind" where
  "json_type JSON_NULL = TypeNull"
| "json_type JSON_TRUE = TypeTrue"
| "json_type JSON_FALSE = TypeFalse"
| "json_type (NUMBER s) = TypeNumber"
| "json_type (STRING s) = TypeString"
| "json_type (OBJECT m) = TypeObject"
| "json_type (ARRAY xs) = TypeArray"

text \<open>\<open>operator[]\<close> of a \<open>std::map\<close>: a new key gets a default value.\<close>

fun map_index :: "json_text \<Rightarrow> (json_text \<times> json) list \<Rightarrow> (json_text \<times> json) list" where
  "map_index k [] = [(k, JSON_NULL)]"
| "map_index k ((k', v) # m) =
     (if k = k' then (k', v) # m else if k < k' then (k, JSON_NULL) # (k', v) # m else (k', v) # map_index k m)"

datatype json_link = Member json_text | Element nat

type_synonym json_path = "json_link list"

fun json_at :: "json \<Rightarrow> json_path \<Rightarrow> json option" where
  "json_at v [] = Some v"
| "json_at (OBJECT m) (Member k # p) = (case map_of m k of None \<Rightarrow> None | Some v \<Rightarrow> json_at v p)"
| "json_at (ARRAY xs) (Element i # p) = (if i < length xs then json_at (xs ! i) p else None)"
| "json_at _ _ = None"

fun json_modify :: "json_path \<Rightarrow> (json \<Rightarrow> json) \<Rightarrow> json \<Rightarrow> json" where
  "json_modify [] f v = f v"
| "json_modify (Member k # p) f (OBJECT m) = OBJECT (map (\<lambda>(k', v). (k', if k' = k then json_modify p f v else v)) m)"
| "json_modify (Element i # p) f (ARRAY xs) = ARRAY (if i < length xs then xs[i := json_modify p f (xs ! i)] else xs)"
| "json_modify _ _ v = v"

section \<open>The reader\<close>

datatype json_status = GRPC_JSON_DONE | GRPC_JSON_PARSE_ERROR | GRPC_JSON_INTERNAL_ERROR

datatype json_state =
  GRPC_JSON_STATE_OBJECT_KEY_BEGIN
| GRPC_JSON_STATE_OBJECT_KEY_STRING
| GRPC_JSON_STATE_OBJECT_KEY_END
| GRPC_JSON_STATE_VALUE_BEGIN
| GRPC_JSON_STATE_VALUE_STRING
| GRPC_JSON_STATE_STRING_ESCAPE
| GRPC_JSON_STATE_STRING_ESCAPE_U1
| GRPC_JSON_STATE_STRING_ESCAPE_U2
| GRPC_JSON_STATE_STRING_ESCAPE_U3
| GRPC_JSON_STATE_STRING_ESCAPE_U4
| GRPC_JSON_STATE_VALUE_NUMBER
| GRPC_JSON_STATE_VALUE_NUMBER_WITH_DECIMAL
| GRPC_JSON_STATE_VALUE_NUMBER_ZERO
| GRPC_JSON_STATE_VALUE_NUMBER_DOT
| GRPC_JSON_STATE_VALUE_NUMBER_E
| GRPC_JSON_STATE_VALUE_NUMBER_EPM
| GRPC_JSON_STATE_VALUE_TRUE_R
| GRPC_JSON_STATE_VALUE_TRUE_U
| GRPC_JSON_STATE_VALUE_TRUE_E
| GRPC_JSON_STATE_VALUE_FALSE_A
| GRPC_JSON_STATE_VALUE_FALSE_L
| GRPC_JSON_STATE_VALUE_FALSE_S
| GRPC_JSON_STATE_VALUE_FALSE_E
| GRPC_JSON_STATE_VALUE_NULL_U
| GRPC_JSON_STATE_VALUE_NULL_L1
| GRPC_JSON_STATE_VALUE_NULL_L2
| GRPC_JSON_STATE_VALUE_END
| GRPC_JSON_STATE_END

datatype json_error =
  DuplicateKey json_text u64
| MaxDepthExceeded u64
| TooManyJsonErrors
| JsonInternalError u64
| JsonParseError u64

definition GRPC_JSON_MAX_DEPTH :: nat where "GRPC_JSON_MAX_DEPTH = 255"
definition GRPC_JSON_MAX_ERRORS :: nat where "GRPC_JSON_MAX_ERRORS = 16"

text \<open>The head of \<open>rd_stack\<close> is the back of the vector.\<close>

record json_reader =
  rd_consumed :: nat
  rd_state :: json_state
  escaped_string_was_key :: bool
  container_just_begun :: bool
  unicode_char :: u16
  unicode_high_surrogate :: u16
  rd_errors :: "json_error list"
  truncated_errors :: bool
  root_value :: json
  rd_stack :: "json_path list"
  rd_key :: json_text
  rd_string :: json_text

definition JsonReader_init :: json_reader where
  "JsonReader_init =
     \<lparr>rd_consumed = 0, rd_state = GRPC_JSON_STATE_VALUE_BEGIN, escaped_string_was_key = False, container_just_begun = False, unicode_char = 0,
      unicode_high_surrogate = 0, rd_errors = [], truncated_errors = False, root_value = JSON_NULL, rd_stack = [], rd_key = [], rd_string = []\<rparr>"

text \<open>Before the first byte the index wraps around.\<close>

definition CurrentIndex :: "json_reader \<Rightarrow> u64" where
  "CurrentIndex r = of_nat (rd_consumed r) - 1"

definition StringAddChar :: "u32 \<Rightarrow> json_reader \<Rightarrow> json_reader" where
  "StringAddChar c r = r\<lparr>rd_string := rd_string r @ [ucast c]\<rparr>"

definition StringAddUtf32 :: "u32 \<Rightarrow> json_reader \<Rightarrow> json_reader" where
  "StringAddUtf32 c r =
     (if c \<le> 0x7f then StringAddChar c r
      else if c \<le> 0x7ff then
        StringAddChar (0x80 OR (c AND 0x3f)) (StringAddChar (0xc0 OR (drop_bit 6 c AND 0x1f)) r)
      else if c \<le> 0xffff then
        StringAddChar (0x80 OR (c AND 0x3f))
          (StringAddChar (0x80 OR (drop_bit 6 c AND 0x3f)) (StringAddChar (0xe0 OR (drop_bit 12 c AND 0x0f)) r))
      else if c \<le> 0x1fffff then
        StringAddChar (0x80 OR (c AND 0x3f))
          (StringAddChar (0x80 OR (drop_bit 6 c AND 0x3f))
            (StringAddChar (0x80 OR (drop_bit 12 c AND 0x3f)) (StringAddChar (0xf0 OR (drop_bit 18 c AND 0x07)) r)))
      else r)"

definition add_json_error :: "json_error \<Rightarrow> json_reader \<Rightarrow> json_reader" where
  "add_json_error e r =
     (if length (rd_errors r) = GRPC_JSON_MAX_ERRORS then r\<lparr>truncated_errors := True\<rparr> else r\<lparr>rd_errors := rd_errors r @ [e]\<rparr>)"

text \<open>The key is moved into the map; it is not read again before the next key is set.\<close>

definition CreateAndLinkValue :: "json_reader \<Rightarrow> (json_path \<times> json_reader) crashable" where
  "CreateAndLinkValue r =
     (case rd_stack r of
        [] \<Rightarrow> Some ([], r)
      | parent # _ \<Rightarrow>
          (case json_at (root_value r) parent of
             Some (OBJECT m) \<Rightarrow>
               let r1 = (if map_of m (rd_key r) \<noteq> None then add_json_error (DuplicateKey (rd_key r) (CurrentIndex r)) r else r) in
               Some (parent @ [Member (rd_key r)], r1\<lparr>root_value := json_modify parent (\<lambda>_. OBJECT (map_index (rd_key r) m)) (root_value r)\<rparr>)
           | Some (ARRAY xs) \<Rightarrow>
               Some (parent @ [Element (length xs)], r\<lparr>root_value := json_modify parent (\<lambda>_. ARRAY (xs @ [JSON_NULL])) (root_value r)\<rparr>)
           | _ \<Rightarrow> None))"

definition json_assign :: "json_path \<Rightarrow> json \<Rightarrow> json_reader \<Rightarrow> json_reader" where
  "json_assign p v r = r\<lparr>root_value := json_modify p (\<lambda>_. v) (root_value r)\<rparr>"

definition StartContainer :: "json \<Rightarrow> json_reader \<Rightarrow> (bool \<times> json_reader) crashable" where
  "StartContainer empty_container r =
     (if length (rd_stack r) = GRPC_JSON_MAX_DEPTH then Some (False, add_json_error (MaxDepthExceeded (CurrentIndex r)) r)
      else (case CreateAndLinkValue r of
              None \<Rightarrow> None
            | Some (p, r1) \<Rightarrow> Some (True, (json_assign p empty_container r1)\<lparr>rd_stack := p # rd_stack r1\<rparr>)))"

definition EndContainer :: "json_reader \<Rightarrow> json_reader crashable" where
  "EndContainer r = (case rd_stack r of [] \<Rightarrow> None | _ # ps \<Rightarrow> Some (r\<lparr>rd_stack := ps\<rparr>))"

definition SetKey :: "json_reader \<Rightarrow> json_reader" where
  "SetKey r = r\<lparr>rd_key := rd_string r, rd_string := []\<rparr>"

definition SetString :: "json_reader \<Rightarrow> json_reader crashable" where
  "SetString r = (case CreateAndLinkValue r of None \<Rightarrow> None | Some (p, r1) \<Rightarrow> Some ((json_assign p (STRING (rd_string r1)) r1)\<lparr>rd_string := []\<rparr>))"

definition SetNumber :: "json_reader \<Rightarrow> json_reader crashable" where
  "SetNumber r = (case CreateAndLinkValue r of None \<Rightarrow> None | Some (p, r1) \<Rightarrow> Some ((json_assign p (NUMBER (rd_string r1)) r1)\<lparr>rd_string := []\<rparr>))"

definition SetTrue :: "json_reader \<Rightarrow> json_reader crashable" where
  "SetTrue r = (case CreateAndLinkValue r of None \<Rightarrow> None | Some (p, r1) \<Rightarrow> Some ((json_assign p JSON_TRUE r1)\<lparr>rd_string := []\<rparr>))"

definition SetFalse :: "json_reader \<Rightarrow> json_reader crashable" where
  "SetFalse r = (case CreateAndLinkValue r of None \<Rightarrow> None | Some (p, r1) \<Rightarrow> Some ((json_assign p JSON_FALSE r1)\<lparr>rd_string := []\<rparr>))"

definition SetNull :: "json_reader \<Rightarrow> json_reader crashable" where
  "SetNull r = map_option snd (CreateAndLinkValue r)"

definition IsComplete :: "json_reader \<Rightarrow> bool" where
  "IsComplete r \<longleftrightarrow> rd_stack r = [] \<and> (rd_state r = GRPC_JSON_STATE_END \<or> rd_state r = GRPC_JSON_STATE_VALUE_END)"

section \<open>One byte\<close>

text \<open>The characters of the grammar.\<close>

abbreviation cTab :: u8 where "cTab \<equiv> 0x09"
abbreviation cNewline :: u8 where "cNewline \<equiv> 0x0a"
abbreviation cReturn :: u8 where "cReturn \<equiv> 0x0d"
abbreviation cSpace :: u8 where "cSpace \<equiv> 0x20"
abbreviation cQuote :: u8 where "cQuote \<equiv> 0x22"
abbreviation cPlus :: u8 where "cPlus \<equiv> 0x2b"
abbreviation cComma :: u8 where "cComma \<equiv> 0x2c"
abbreviation cMinus :: u8 where "cMinus \<equiv> 0x2d"
abbreviation cDot :: u8 where "cDot \<equiv> 0x2e"
abbreviation cSlash :: u8 where "cSlash \<equiv> 0x2f"
abbreviation cColon :: u8 where "cColon \<equiv> 0x3a"
abbreviation cOpenBracket :: u8 where "cOpenBracket \<equiv> 0x5b"
abbreviation cBackslash :: u8 where "cBackslash \<equiv> 0x5c"
abbreviation cCloseBracket :: u8 where "cCloseBracket \<equiv> 0x5d"
abbreviation cOpenBrace :: u8 where "cOpenBrace \<equiv> 0x7b"
abbreviation cCloseBrace :: u8 where "cCloseBrace \<equiv> 0x7d"

definition is_digit :: "u8 \<Rightarrow> bool" where
  "is_digit c \<longleftrightarrow> 0x30 \<le> c \<and> c \<le> 0x39"

type_synonym json_result = "(json_status option \<times> json_reader) crashable"

abbreviation go_on :: "json_reader \<Rightarrow> json_result" where "go_on r \<equiv> Some (None, r)"
abbreviation parse_error :: "json_reader \<Rightarrow> json_result" where "parse_error r \<equiv> Some (Some GRPC_JSON_PARSE_ERROR, r)"

abbreviation add_byte :: "u8 \<Rightarrow> json_reader \<Rightarrow> json_reader" where
  "add_byte c \<equiv> StringAddChar (ucast c)"

abbreviation enter :: "json_state \<Rightarrow> json_reader \<Rightarrow> json_reader" where
  "enter s r \<equiv> r\<lparr>rd_state := s\<rparr>"

definition json_number_state :: "json_state \<Rightarrow> bool" where
  "json_number_state s \<longleftrightarrow> s = GRPC_JSON_STATE_VALUE_NUMBER \<or> s = GRPC_JSON_STATE_VALUE_NUMBER_WITH_DECIMAL \<or>
     s = GRPC_JSON_STATE_VALUE_NUMBER_ZERO \<or> s = GRPC_JSON_STATE_VALUE_NUMBER_EPM"

definition json_string_state :: "json_state \<Rightarrow> bool" where
  "json_string_state s \<longleftrightarrow> s = GRPC_JSON_STATE_OBJECT_KEY_STRING \<or> s = GRPC_JSON_STATE_VALUE_STRING"

definition json_space :: "u8 \<Rightarrow> json_reader \<Rightarrow> json_result" where
  "json_space c r =
     (if rd_state r \<in> {GRPC_JSON_STATE_OBJECT_KEY_BEGIN, GRPC_JSON_STATE_OBJECT_KEY_END, GRPC_JSON_STATE_VALUE_BEGIN, GRPC_JSON_STATE_VALUE_END,
          GRPC_JSON_STATE_END} then go_on r
      else if json_string_state (rd_state r) then
        (if c \<noteq> cSpace then parse_error r else if unicode_high_surrogate r \<noteq> 0 then parse_error r else go_on (add_byte c r))
      else if json_number_state (rd_state r) then
        (case SetNumber r of None \<Rightarrow> None | Some r1 \<Rightarrow> go_on (enter GRPC_JSON_STATE_VALUE_END r1))
      else parse_error r)"

definition back_type :: "json_reader \<Rightarrow> json_kind crashable" where
  "back_type r = (case rd_stack r of [] \<Rightarrow> None | p # _ \<Rightarrow> map_option json_type (json_at (root_value r) p))"

text \<open>The second part of the case for terminators; a number falls through to it.\<close>

definition json_after_value :: "u8 \<Rightarrow> json_reader \<Rightarrow> json_result" where
  "json_after_value c r =
     (if c = cComma then
        if rd_state r \<noteq> GRPC_JSON_STATE_VALUE_END then parse_error r
        else if rd_stack r = [] then parse_error r
        else (case back_type r of
                None \<Rightarrow> None
              | Some ty \<Rightarrow> if ty = TypeObject then go_on (enter GRPC_JSON_STATE_OBJECT_KEY_BEGIN r)
                           else if ty = TypeArray then go_on (enter GRPC_JSON_STATE_VALUE_BEGIN r)
                           else parse_error r)
      else if rd_stack r = [] then parse_error r
      else (case back_type r of
              None \<Rightarrow> None
            | Some ty \<Rightarrow>
                if c = cCloseBrace \<and> ty \<noteq> TypeObject then parse_error r
                else if c = cCloseBrace \<and> rd_state r = GRPC_JSON_STATE_OBJECT_KEY_BEGIN \<and> \<not> container_just_begun r then parse_error r
                else if c = cCloseBracket \<and> ty \<noteq> TypeArray then parse_error r
                else if c = cCloseBracket \<and> rd_state r = GRPC_JSON_STATE_VALUE_BEGIN \<and> \<not> container_just_begun r then parse_error r
                else (case EndContainer (enter GRPC_JSON_STATE_VALUE_END r) of
                        None \<Rightarrow> None
                      | Some r1 \<Rightarrow> go_on (if rd_stack r1 = [] then enter GRPC_JSON_STATE_END r1 else r1))))"

definition json_terminator :: "u8 \<Rightarrow> json_reader \<Rightarrow> json_result" where
  "json_terminator c r =
     (if json_string_state (rd_state r) then
        (if unicode_high_surrogate r \<noteq> 0 then parse_error r else go_on (add_byte c r))
      else if json_number_state (rd_state r) then
        (if rd_stack r = [] then parse_error r
         else (case back_type r of
                 None \<Rightarrow> None
               | Some ty \<Rightarrow>
                   if c = cCloseBrace \<and> ty \<noteq> TypeObject then parse_error r
                   else if c = cCloseBracket \<and> ty \<noteq> TypeArray then parse_error r
                   else (case SetNumber r of None \<Rightarrow> None | Some r1 \<Rightarrow> json_after_value c (enter GRPC_JSON_STATE_VALUE_END r1))))
      else if rd_state r \<in> {GRPC_JSON_STATE_VALUE_END, GRPC_JSON_STATE_OBJECT_KEY_BEGIN, GRPC_JSON_STATE_VALUE_BEGIN} then json_after_value c r
      else parse_error r)"

definition string_state :: "json_reader \<Rightarrow> json_state" where
  "string_state r = (if escaped_string_was_key r then GRPC_JSON_STATE_OBJECT_KEY_STRING else GRPC_JSON_STATE_VALUE_STRING)"

definition json_backslash :: "json_reader \<Rightarrow> json_result" where
  "json_backslash r =
     (if rd_state r = GRPC_JSON_STATE_OBJECT_KEY_STRING
      then go_on (r\<lparr>escaped_string_was_key := True, rd_state := GRPC_JSON_STATE_STRING_ESCAPE\<rparr>)
      else if rd_state r = GRPC_JSON_STATE_VALUE_STRING
      then go_on (r\<lparr>escaped_string_was_key := False, rd_state := GRPC_JSON_STATE_STRING_ESCAPE\<rparr>)
      else if rd_state r = GRPC_JSON_STATE_STRING_ESCAPE then
        (if unicode_high_surrogate r \<noteq> 0 then parse_error r else go_on (enter (string_state r) (add_byte cBackslash r)))
      else parse_error r)"

definition json_value_begin :: "u8 \<Rightarrow> json_reader \<Rightarrow> json_result" where
  "json_value_begin c r =
     (if c = 0x74 then go_on (enter GRPC_JSON_STATE_VALUE_TRUE_R r)
      else if c = 0x66 then go_on (enter GRPC_JSON_STATE_VALUE_FALSE_A r)
      else if c = 0x6e then go_on (enter GRPC_JSON_STATE_VALUE_NULL_U r)
      else if c = cQuote then go_on (enter GRPC_JSON_STATE_VALUE_STRING r)
      else if c = 0x30 then go_on (enter GRPC_JSON_STATE_VALUE_NUMBER_ZERO (add_byte c r))
      else if is_digit c \<or> c = cMinus then go_on (enter GRPC_JSON_STATE_VALUE_NUMBER (add_byte c r))
      else if c = cOpenBrace then
        (case StartContainer (OBJECT []) (r\<lparr>container_just_begun := True\<rparr>) of
           None \<Rightarrow> None
         | Some (ok, r1) \<Rightarrow> if \<not> ok then parse_error r1 else go_on (enter GRPC_JSON_STATE_OBJECT_KEY_BEGIN r1))
      else if c = cOpenBracket then
        (case StartContainer (ARRAY []) (r\<lparr>container_just_begun := True\<rparr>) of
           None \<Rightarrow> None
         | Some (ok, r1) \<Rightarrow> if \<not> ok then parse_error r1 else go_on r1)
      else parse_error r)"

definition json_escape :: "u8 \<Rightarrow> json_reader \<Rightarrow> json_result" where
  "json_escape c r0 =
     (let r = enter (string_state r0) r0 in
      if unicode_high_surrogate r \<noteq> 0 \<and> c \<noteq> 0x75 then parse_error r
      else if c = cQuote \<or> c = cSlash then go_on (add_byte c r)
      else if c = 0x62 then go_on (add_byte 0x08 r)
      else if c = 0x66 then go_on (add_byte 0x0c r)
      else if c = 0x6e then go_on (add_byte cNewline r)
      else if c = 0x72 then go_on (add_byte cReturn r)
      else if c = 0x74 then go_on (add_byte cTab r)
      else if c = 0x75 then go_on (r\<lparr>rd_state := GRPC_JSON_STATE_STRING_ESCAPE_U1, unicode_char := 0\<rparr>)
      else parse_error r)"

definition hex_digit :: "u8 \<Rightarrow> u8 option" where
  "hex_digit c =
     (if 0x30 \<le> c \<and> c \<le> 0x39 then Some (c - 0x30)
      else if 0x41 \<le> c \<and> c \<le> 0x46 then Some (c - (0x41 - 10))
      else if 0x61 \<le> c \<and> c \<le> 0x66 then Some (c - (0x61 - 10))
      else None)"

text \<open>The fourth digit: surrogates are paired, everything else is a code point of its own.\<close>

definition json_unicode_end :: "json_reader \<Rightarrow> json_result" where
  "json_unicode_end r =
     (if unicode_char r AND 0xfc00 = 0xd800 then
        if unicode_high_surrogate r \<noteq> 0 then parse_error r
        else go_on (enter (string_state r) (r\<lparr>unicode_high_surrogate := unicode_char r\<rparr>))
      else if unicode_char r AND 0xfc00 = 0xdc00 then
        if unicode_high_surrogate r = 0 then parse_error r
        else
          let utf32 = 0x10000 + (ucast (unicode_high_surrogate r) - 0xd800) * 0x400 + (ucast (unicode_char r) - 0xdc00) :: u32 in
          go_on (enter (string_state r) ((StringAddUtf32 utf32 r)\<lparr>unicode_high_surrogate := 0\<rparr>))
      else if unicode_high_surrogate r \<noteq> 0 then parse_error r
      else go_on (enter (string_state r) (StringAddUtf32 (ucast (unicode_char r)) r)))"

definition json_unicode :: "u8 \<Rightarrow> json_reader \<Rightarrow> json_result" where
  "json_unicode c r0 =
     (case hex_digit c of
        None \<Rightarrow> parse_error r0
      | Some d \<Rightarrow>
          let r = r0\<lparr>unicode_char := push_bit 4 (unicode_char r0) OR ucast d\<rparr> in
          if rd_state r = GRPC_JSON_STATE_STRING_ESCAPE_U1 then go_on (enter GRPC_JSON_STATE_STRING_ESCAPE_U2 r)
          else if rd_state r = GRPC_JSON_STATE_STRING_ESCAPE_U2 then go_on (enter GRPC_JSON_STATE_STRING_ESCAPE_U3 r)
          else if rd_state r = GRPC_JSON_STATE_STRING_ESCAPE_U3 then go_on (enter GRPC_JSON_STATE_STRING_ESCAPE_U4 r)
          else json_unicode_end r)"

definition json_in_string :: "u8 \<Rightarrow> json_reader \<Rightarrow> json_result \<Rightarrow> json_result" where
  "json_in_string c r at_quote =
     (if unicode_high_surrogate r \<noteq> 0 then parse_error r
      else if c = cQuote then at_quote
      else if c < 32 then parse_error r
      else go_on (add_byte c r))"

text \<open>Inside a number.\<close>

definition json_number :: "u8 \<Rightarrow> json_reader \<Rightarrow> json_result" where
  "json_number c r =
     (case rd_state r of
        GRPC_JSON_STATE_VALUE_NUMBER \<Rightarrow>
          let r1 = add_byte c r in
          if is_digit c then go_on r1
          else if c = 0x65 \<or> c = 0x45 then go_on (enter GRPC_JSON_STATE_VALUE_NUMBER_E r1)
          else if c = cDot then go_on (enter GRPC_JSON_STATE_VALUE_NUMBER_DOT r1)
          else parse_error r1
      | GRPC_JSON_STATE_VALUE_NUMBER_WITH_DECIMAL \<Rightarrow>
          let r1 = add_byte c r in
          if is_digit c then go_on r1
          else if c = 0x65 \<or> c = 0x45 then go_on (enter GRPC_JSON_STATE_VALUE_NUMBER_E r1)
          else parse_error r1
      | GRPC_JSON_STATE_VALUE_NUMBER_ZERO \<Rightarrow>
          if c \<noteq> cDot then parse_error r else go_on (enter GRPC_JSON_STATE_VALUE_NUMBER_DOT (add_byte c r))
      | GRPC_JSON_STATE_VALUE_NUMBER_DOT \<Rightarrow>
          let r1 = add_byte c r in if is_digit c then go_on (enter GRPC_JSON_STATE_VALUE_NUMBER_WITH_DECIMAL r1) else parse_error r1
      | GRPC_JSON_STATE_VALUE_NUMBER_E \<Rightarrow>
          let r1 = add_byte c r in
          if is_digit c \<or> c = cPlus \<or> c = cMinus then go_on (enter GRPC_JSON_STATE_VALUE_NUMBER_EPM r1) else parse_error r1
      | GRPC_JSON_STATE_VALUE_NUMBER_EPM \<Rightarrow>
          let r1 = add_byte c r in if is_digit c then go_on r1 else parse_error r1
      | _ \<Rightarrow> parse_error r)"

definition keyword :: "u8 \<Rightarrow> u8 \<Rightarrow> json_state \<Rightarrow> json_reader \<Rightarrow> json_result" where
  "keyword expected c next_state r = (if c \<noteq> expected then parse_error r else go_on (enter next_state r))"

definition keyword_end :: "u8 \<Rightarrow> u8 \<Rightarrow> (json_reader \<Rightarrow> json_reader crashable) \<Rightarrow> json_reader \<Rightarrow> json_result" where
  "keyword_end expected c set_value r =
     (if c \<noteq> expected then parse_error r
      else (case set_value r of None \<Rightarrow> None | Some r1 \<Rightarrow> go_on (enter GRPC_JSON_STATE_VALUE_END r1)))"

definition json_default :: "u8 \<Rightarrow> json_reader \<Rightarrow> json_result" where
  "json_default c r0 =
     (let r = r0\<lparr>container_just_begun := False\<rparr> in
      case rd_state r of
        GRPC_JSON_STATE_OBJECT_KEY_BEGIN \<Rightarrow> if c \<noteq> cQuote then parse_error r else go_on (enter GRPC_JSON_STATE_OBJECT_KEY_STRING r)
      | GRPC_JSON_STATE_OBJECT_KEY_STRING \<Rightarrow> json_in_string c r (go_on (SetKey (enter GRPC_JSON_STATE_OBJECT_KEY_END r)))
      | GRPC_JSON_STATE_VALUE_STRING \<Rightarrow>
          json_in_string c r (case SetString (enter GRPC_JSON_STATE_VALUE_END r) of None \<Rightarrow> None | Some r1 \<Rightarrow> go_on r1)
      | GRPC_JSON_STATE_OBJECT_KEY_END \<Rightarrow> if c \<noteq> cColon then parse_error r else go_on (enter GRPC_JSON_STATE_VALUE_BEGIN r)
      | GRPC_JSON_STATE_VALUE_BEGIN \<Rightarrow> json_value_begin c r
      | GRPC_JSON_STATE_STRING_ESCAPE \<Rightarrow> json_escape c r
      | GRPC_JSON_STATE_STRING_ESCAPE_U1 \<Rightarrow> json_unicode c r
      | GRPC_JSON_STATE_STRING_ESCAPE_U2 \<Rightarrow> json_unicode c r
      | GRPC_JSON_STATE_STRING_ESCAPE_U3 \<Rightarrow> json_unicode c r
      | GRPC_JSON_STATE_STRING_ESCAPE_U4 \<Rightarrow> json_unicode c r
      | GRPC_JSON_STATE_VALUE_NUMBER \<Rightarrow> json_number c r
      | GRPC_JSON_STATE_VALUE_NUMBER_WITH_DECIMAL \<Rightarrow> json_number c r
      | GRPC_JSON_STATE_VALUE_NUMBER_ZERO \<Rightarrow> json_number c r
      | GRPC_JSON_STATE_VALUE_NUMBER_DOT \<Rightarrow> json_number c r
      | GRPC_JSON_STATE_VALUE_NUMBER_E \<Rightarrow> json_number c r
      | GRPC_JSON_STATE_VALUE_NUMBER_EPM \<Rightarrow> json_number c r
      | GRPC_JSON_STATE_VALUE_TRUE_R \<Rightarrow> keyword 0x72 c GRPC_JSON_STATE_VALUE_TRUE_U r
      | GRPC_JSON_STATE_VALUE_TRUE_U \<Rightarrow> keyword 0x75 c GRPC_JSON_STATE_VALUE_TRUE_E r
      | GRPC_JSON_STATE_VALUE_TRUE_E \<Rightarrow> keyword_end 0x65 c SetTrue r
      | GRPC_JSON_STATE_VALUE_FALSE_A \<Rightarrow> keyword 0x61 c GRPC_JSON_STATE_VALUE_FALSE_L r
      | GRPC_JSON_STATE_VALUE_FALSE_L \<Rightarrow> keyword 0x6c c GRPC_JSON_STATE_VALUE_FALSE_S r
      | GRPC_JSON_STATE_VALUE_FALSE_S \<Rightarrow> keyword 0x73 c GRPC_JSON_STATE_VALUE_FALSE_E r
      | GRPC_JSON_STATE_VALUE_FALSE_E \<Rightarrow> keyword_end 0x65 c SetFalse r
      | GRPC_JSON_STATE_VALUE_NULL_U \<Rightarrow> keyword 0x75 c GRPC_JSON_STATE_VALUE_NULL_L1 r
      | GRPC_JSON_STATE_VALUE_NULL_L1 \<Rightarrow> keyword 0x6c c GRPC_JSON_STATE_VALUE_NULL_L2 r
      | GRPC_JSON_STATE_VALUE_NULL_L2 \<Rightarrow> keyword_end 0x6c c SetNull r
      | GRPC_JSON_STATE_VALUE_END \<Rightarrow> parse_error r
      | GRPC_JSON_STATE_END \<Rightarrow> parse_error r)"

definition json_step :: "u8 \<Rightarrow> json_reader \<Rightarrow> json_result" where
  "json_step c r =
     (if c = cSpace \<or> c = cTab \<or> c = cNewline \<or> c = cReturn then json_space c r
      else if c = cComma \<or> c = cCloseBrace \<or> c = cCloseBracket then json_terminator c r
      else if c = cBackslash then json_backslash r
      else json_default c r)"

text \<open>A zero byte counts as the end of the input.\<close>

definition json_eof :: "json_reader \<Rightarrow> (json_status \<times> json_reader) crashable" where
  "json_eof r = Some (if IsComplete r then GRPC_JSON_DONE else GRPC_JSON_PARSE_ERROR, r)"

fun JsonReader_Run :: "json_text \<Rightarrow> json_reader \<Rightarrow> (json_status \<times> json_reader) crashable" where
  "JsonReader_Run [] r = json_eof r"
| "JsonReader_Run (c # cs) r0 =
     (let r = r0\<lparr>rd_consumed := rd_consumed r0 + 1\<rparr> in
      if c = 0 then json_eof r
      else (case json_step c r of
              None \<Rightarrow> None
            | Some (Some st, r1) \<Rightarrow> Some (st, r1)
            | Some (None, r1) \<Rightarrow> JsonReader_Run cs r1))"

definition JsonReader_Parse :: "json_text \<Rightarrow> (json_error list + json) crashable" where
  "JsonReader_Parse input =
     (case JsonReader_Run input JsonReader_init of
        None \<Rightarrow> None
      | Some (st, r) \<Rightarrow>
          let e1 = (if truncated_errors r then rd_errors r @ [TooManyJsonErrors] else rd_errors r);
              e2 = (if st = GRPC_JSON_INTERNAL_ERROR then e1 @ [JsonInternalError (CurrentIndex r)]
                    else if st = GRPC_JSON_PARSE_ERROR then e1 @ [JsonParseError (CurrentIndex r)]
                    else e1) in
          Some (if e2 \<noteq> [] then Inl e2 else Inr (root_value r)))"

section \<open>Paths\<close>

text \<open>A proper value: the keys of every object are in order, and so distinct.\<close>

fun json_ok :: "json \<Rightarrow> bool" where
  "json_ok (OBJECT m) \<longleftrightarrow> sorted_wrt (<) (map fst m) \<and> (\<forall>kv \<in> set m. json_ok (snd kv))"
| "json_ok (ARRAY xs) \<longleftrightarrow> (\<forall>x \<in> set xs. json_ok x)"
| "json_ok _ \<longleftrightarrow> True"

text \<open>At most \<open>n\<close> containers within each other.\<close>

fun nested_within :: "nat \<Rightarrow> json \<Rightarrow> bool" where
  "nested_within n (OBJECT m) \<longleftrightarrow> 0 < n \<and> (\<forall>kv \<in> set m. nested_within (n - 1) (snd kv))"
| "nested_within n (ARRAY xs) \<longleftrightarrow> 0 < n \<and> (\<forall>x \<in> set xs. nested_within (n - 1) x)"
| "nested_within n _ \<longleftrightarrow> True"

fun is_container :: "json \<Rightarrow> bool" where
  "is_container (OBJECT m) = True"
| "is_container (ARRAY xs) = True"
| "is_container _ = False"

lemma container_type: "is_container v \<longleftrightarrow> json_type v = TypeObject \<or> json_type v = TypeArray"
  by (cases v) auto

lemma map_of_modify: "map_of (map (\<lambda>(k', v). (k', if k' = k then g v else v)) m) k = map_option g (map_of m k)"
  by (induction m) auto

lemma json_at_append: "json_at v (p @ q) = (case json_at v p of None \<Rightarrow> None | Some w \<Rightarrow> json_at w q)"
  by (induction v p rule: json_at.induct) (auto split: option.splits)

lemma json_at_container: "json_at v (l # p) = Some w \<Longrightarrow> is_container v"
  by (cases v; cases l) auto

lemma json_at_modify: "json_at (json_modify (q @ p) f v) q = map_option (json_modify p f) (json_at v q)"
proof (induction v q rule: json_at.induct)
  case (2 m k q)
  then show ?case by (cases "map_of m k") (auto simp: map_of_modify)
qed auto

lemma json_at_ok: "json_ok v \<Longrightarrow> json_at v p = Some w \<Longrightarrow> json_ok w"
  by (induction v p rule: json_at.induct) (fastforce dest: map_of_SomeD split: option.splits if_splits)+

lemma json_modify_container: "is_container v \<Longrightarrow> is_container (json_modify (l # p) f v)"
  by (cases v; cases l) auto

lemma json_ok_modify:
  "json_ok v \<Longrightarrow> (\<And>w. json_at v p = Some w \<Longrightarrow> json_ok (f w)) \<Longrightarrow> json_ok (json_modify p f v)"
proof (induction p f v rule: json_modify.induct)
  case (2 k p f m)
  have keys: "map fst (map (\<lambda>(k', v). (k', if k' = k then json_modify p f v else v)) m) = map fst m" by (induction m) auto
  have "json_ok (if k' = k then json_modify p f v else v)" if kv: "(k', v) \<in> set m" for k' v
  proof (cases "k' = k")
    case True
    have "distinct (map fst m)" using 2(2) by (auto simp: strict_sorted_iff)
    then have "map_of m k = Some v" using kv True by simp
    then show ?thesis using 2(1) [OF kv [unfolded True] refl refl] 2(2,3) kv True by force
  next
    case False
    then show ?thesis using 2(2) kv by force
  qed
  with 2(2) keys show ?case by (auto simp del: map_map)
next
  case (3 i p f xs)
  then show ?case by (auto dest!: set_update_subset_insert [THEN subsetD])
qed auto

lemma nested_mono: "nested_within n v \<Longrightarrow> n \<le> n' \<Longrightarrow> nested_within n' v"
proof (induction n v arbitrary: n' rule: nested_within.induct)
  case (1 n m)
  then show ?case by (auto intro: diff_le_mono)
next
  case (2 n xs)
  then show ?case by (auto intro: diff_le_mono)
qed auto

lemma nested_at:
  "nested_within n v \<Longrightarrow> json_at v p = Some w \<Longrightarrow> length p \<le> n \<and> nested_within (n - length p) w"
proof (induction v p arbitrary: n rule: json_at.induct)
  case (2 m k p)
  then show ?case by (fastforce split: option.splits dest: map_of_SomeD)
next
  case (3 xs i p)
  then have "nested_within (n - 1) (xs ! i)" "json_at (xs ! i) p = Some w" "i < length xs" "0 < n" by (auto split: if_splits)
  with 3(1) show ?case by fastforce
qed auto

lemma nested_modify:
  "nested_within n v \<Longrightarrow> (\<And>w. json_at v p = Some w \<Longrightarrow> nested_within (n - length p) (f w)) \<Longrightarrow> json_ok v \<Longrightarrow> nested_within n (json_modify p f v)"
proof (induction p f v arbitrary: n rule: json_modify.induct)
  case (2 k p f m)
  have "nested_within (n - 1) (if k' = k then json_modify p f v else v)" if kv: "(k', v) \<in> set m" for k' v
  proof (cases "k' = k")
    case True
    have "distinct (map fst m)" using 2(4) by (auto simp: strict_sorted_iff)
    then have m: "map_of m k = Some v" using kv True by simp
    have "nested_within (n - 1) v" "json_ok v" using 2(2,4) kv by force+
    then show ?thesis using 2(1) [OF kv [unfolded True] refl refl, of "n - 1"] 2(3) m True by simp
  next
    case False
    then show ?thesis using 2(2) kv by force
  qed
  with 2(2) show ?case by force
next
  case (3 i p f xs)
  show ?case
  proof (cases "i < length xs")
    case True
    then have "nested_within (n - 1) (xs ! i)" "json_ok (xs ! i)" using 3(2,4) by auto
    then have "nested_within (n - 1) (json_modify p f (xs ! i))" using 3(1) [OF True] 3(3) True by simp
    with 3(2) True show ?thesis by (auto dest!: set_update_subset_insert [THEN subsetD])
  qed (use 3(2) in simp)
qed auto

lemma map_index_keys: "set (map fst (map_index k m)) = insert k (set (map fst m))"
  by (induction k m rule: map_index.induct) auto

lemma map_index_sorted: "sorted_wrt (<) (map fst m) \<Longrightarrow> sorted_wrt (<) (map fst (map_index k m))"
proof (induction k m rule: map_index.induct)
  case (2 k k' v m)
  then show ?case using map_index_keys [of k m] by (auto simp del: set_map)
qed simp

lemma map_index_values: "kv \<in> set (map_index k m) \<Longrightarrow> kv \<in> set m \<or> snd kv = JSON_NULL"
  by (induction k m rule: map_index.induct) (auto split: if_splits)

section \<open>The invariant of the reader\<close>

text \<open>The stack is the chain of containers from the current one up to the root.\<close>

definition stack_ok :: "json \<Rightarrow> json_path list \<Rightarrow> bool" where
  "stack_ok v ps \<longleftrightarrow> ps = [] \<or>
     (\<exists>p w. ps = rev (prefixes p) \<and> length p < GRPC_JSON_MAX_DEPTH \<and> json_at v p = Some w \<and> is_container w)"

definition reader_ok :: "json_reader \<Rightarrow> bool" where
  "reader_ok r \<longleftrightarrow> json_ok (root_value r) \<and> nested_within GRPC_JSON_MAX_DEPTH (root_value r) \<and> stack_ok (root_value r) (rd_stack r) \<and>
     length (rd_errors r) \<le> GRPC_JSON_MAX_ERRORS"

lemma stack_cases:
  assumes "stack_ok v ps"
  obtains "ps = []"
  | p w where "ps = p # tl ps" "ps = rev (prefixes p)" "length p < GRPC_JSON_MAX_DEPTH" "json_at v p = Some w" "is_container w" "length ps = Suc (length p)"
proof -
  from assms consider "ps = []" | p w where "ps = rev (prefixes p)" "length p < GRPC_JSON_MAX_DEPTH" "json_at v p = Some w" "is_container w"
    by (auto simp: stack_ok_def)
  then show ?thesis
  proof cases
    case (2 p w)
    have "hd (rev (prefixes p)) = p" by (simp add: hd_rev)
    moreover have "prefixes p \<noteq> []" by simp
    ultimately have "rev (prefixes p) = p # tl (rev (prefixes p))" by (metis list.collapse rev_is_Nil_conv)
    then have "ps = p # tl ps" using 2(1) by simp
    then show ?thesis using 2(2-) by (rule that(2) [OF _ 2(1)]) (simp add: 2(1))
  qed (rule that(1))
qed

lemma stack_pop: "stack_ok v (p # ps) \<Longrightarrow> stack_ok v ps"
proof -
  assume s: "stack_ok v (p # ps)"
  then obtain q w where q: "p # ps = rev (prefixes q)" "length q < GRPC_JSON_MAX_DEPTH" "json_at v q = Some w" by (auto simp: stack_ok_def)
  show "stack_ok v ps"
  proof (cases q rule: rev_cases)
    case Nil
    then show ?thesis using q(1) by (simp add: stack_ok_def)
  next
    case (snoc q' l)
    then have ps: "ps = rev (prefixes q')" using q(1) by simp
    obtain w' where w': "json_at v q' = Some w'" "json_at w' [l] = Some w" using q(3) snoc by (auto simp: json_at_append split: option.splits)
    have "length q' < GRPC_JSON_MAX_DEPTH" "is_container w'" using q(2) snoc json_at_container [OF w'(2)] by simp_all
    with ps w'(1) show ?thesis unfolding stack_ok_def by blast
  qed
qed

lemma stack_push:
  assumes "stack_ok v ps" "length ps < GRPC_JSON_MAX_DEPTH" "json_at v p = Some w" "is_container w"
    and "ps = [] \<and> p = [] \<or> (\<exists>q l. ps = rev (prefixes q) \<and> p = q @ [l])"
  shows "stack_ok v (p # ps)"
proof -
  have "p # ps = rev (prefixes p)" using assms(5) by auto
  moreover have "length p < GRPC_JSON_MAX_DEPTH" using assms(2,5) by auto
  ultimately show ?thesis using assms(3,4) unfolding stack_ok_def by blast
qed

lemma reader_ok_fields [simp]:
  "reader_ok (r\<lparr>rd_consumed := n\<rparr>) = reader_ok r" "reader_ok (r\<lparr>rd_state := s\<rparr>) = reader_ok r"
  "reader_ok (r\<lparr>escaped_string_was_key := b\<rparr>) = reader_ok r" "reader_ok (r\<lparr>container_just_begun := b\<rparr>) = reader_ok r"
  "reader_ok (r\<lparr>unicode_char := u\<rparr>) = reader_ok r" "reader_ok (r\<lparr>unicode_high_surrogate := u\<rparr>) = reader_ok r"
  "reader_ok (r\<lparr>rd_key := k\<rparr>) = reader_ok r" "reader_ok (r\<lparr>rd_string := k\<rparr>) = reader_ok r"
  "reader_ok (r\<lparr>truncated_errors := b\<rparr>) = reader_ok r"
  by (simp_all add: reader_ok_def)

lemma reader_ok_helpers [simp]:
  "reader_ok (StringAddChar c r) = reader_ok r" "reader_ok (StringAddUtf32 c r) = reader_ok r" "reader_ok (SetKey r) = reader_ok r"
  by (simp_all add: StringAddChar_def StringAddUtf32_def SetKey_def)

lemma add_error_ok: "reader_ok r \<Longrightarrow> reader_ok (add_json_error e r)"
  by (auto simp: add_json_error_def reader_ok_def)

text \<open>A change below the current container keeps the stack in order.\<close>

lemma stack_modify:
  assumes "stack_ok v ps" "ps = [] \<or> (\<exists>q l. ps = rev (prefixes q) \<and> p = q @ l) \<and> (p = hd ps \<longrightarrow> (\<forall>w. is_container (f w)))"
  shows "stack_ok (json_modify p f v) ps"
  using assms(1)
proof (cases rule: stack_cases)
  case 1
  then show ?thesis by (simp add: stack_ok_def)
next
  case (2 q w)
  then obtain q' l where l: "rev (prefixes q) = rev (prefixes q')" "p = q' @ l" "p = q \<longrightarrow> (\<forall>w. is_container (f w))" using assms(2) by (metis list.sel(1) list.discI)
  then have q': "q' = q" by (metis last_prefixes rev_rev_ident)
  have at: "json_at (json_modify p f v) q = Some (json_modify l f w)" using 2(4) by (simp add: l(2) q' json_at_modify)
  have "is_container (json_modify l f w)" using l(2,3) q' 2(5) json_modify_container [of w] by (cases l) auto
  with 2(2,3) at show ?thesis unfolding stack_ok_def by blast
qed

text \<open>The place of a new value: the root, or a new member of the current container.\<close>

definition new_place :: "json_path list \<Rightarrow> json_path \<Rightarrow> bool" where
  "new_place ps p \<longleftrightarrow> ps = [] \<and> p = [] \<or> (\<exists>q l. ps = rev (prefixes q) \<and> p = q @ [l])"

lemma assign_ok:
  assumes "reader_ok r" "new_place (rd_stack r) p" "json_ok v" "nested_within (GRPC_JSON_MAX_DEPTH - length p) v"
  shows "reader_ok (json_assign p v r)"
proof -
  have "stack_ok (json_modify p (\<lambda>_. v) (root_value r)) (rd_stack r)"
  proof (rule stack_modify)
    show "stack_ok (root_value r) (rd_stack r)" using assms(1) by (simp add: reader_ok_def)
    show "rd_stack r = [] \<or> (\<exists>q l. rd_stack r = rev (prefixes q) \<and> p = q @ l) \<and> (p = hd (rd_stack r) \<longrightarrow> (\<forall>w. is_container v))"
      using assms(2) by (auto simp: new_place_def hd_rev)
  qed
  then show ?thesis using assms by (auto simp: reader_ok_def json_assign_def intro!: json_ok_modify nested_modify)
qed

lemma link_object:
  "rd_stack r = p # ps \<Longrightarrow> json_at (root_value r) p = Some (OBJECT m) \<Longrightarrow>
   CreateAndLinkValue r = Some (p @ [Member (rd_key r)],
     (if map_of m (rd_key r) \<noteq> None then add_json_error (DuplicateKey (rd_key r) (CurrentIndex r)) r else r)
       \<lparr>root_value := json_modify p (\<lambda>_. OBJECT (map_index (rd_key r) m)) (root_value r)\<rparr>)"
  by (simp add: CreateAndLinkValue_def Let_def)

lemma link_array:
  "rd_stack r = p # ps \<Longrightarrow> json_at (root_value r) p = Some (ARRAY xs) \<Longrightarrow>
   CreateAndLinkValue r = Some (p @ [Element (length xs)], r\<lparr>root_value := json_modify p (\<lambda>_. ARRAY (xs @ [JSON_NULL])) (root_value r)\<rparr>)"
  by (simp add: CreateAndLinkValue_def)

lemma map_of_index: "map_of (map_index k m) k \<noteq> None"
  using map_index_keys [of k m] by (metis insertI1 list.set_map map_of_eq_None_iff)

lemma CreateAndLinkValue_at: "CreateAndLinkValue r = Some (p, r1) \<Longrightarrow> \<exists>w. json_at (root_value r1) p = Some w"
  using map_of_index [of "rd_key r"]
  by (fastforce simp: CreateAndLinkValue_def Let_def json_at_append json_at_modify [where p = "[]", simplified] split: list.splits option.splits json.splits)

lemma CreateAndLinkValue_ok:
  assumes "reader_ok r"
  obtains p r1 where "CreateAndLinkValue r = Some (p, r1)" "reader_ok r1" "rd_stack r1 = rd_stack r" "new_place (rd_stack r) p"
proof -
  have ok: "json_ok (root_value r)" "nested_within GRPC_JSON_MAX_DEPTH (root_value r)" "stack_ok (root_value r) (rd_stack r)"
    using assms by (simp_all add: reader_ok_def)
  from ok(3) show ?thesis
  proof (cases rule: stack_cases)
    case 1
    then show ?thesis using assms that [of "[]" r] by (simp add: CreateAndLinkValue_def new_place_def)
  next
    case (2 q w)
    have w: "json_ok w" "nested_within (GRPC_JSON_MAX_DEPTH - length q) w"
      using ok(1) 2(4) nested_at [OF ok(2) 2(4)] by (auto dest: json_at_ok)
    have keep: "reader_ok (r'\<lparr>root_value := json_modify q (\<lambda>_. w') (root_value r)\<rparr>)"
      if "reader_ok r'" "rd_stack r' = rd_stack r" "json_ok w'" "nested_within (GRPC_JSON_MAX_DEPTH - length q) w'" "is_container w'" for r' w'
      using that ok stack_modify [OF ok(3), of q "\<lambda>_. w'"] 2(2)
      by (auto simp: reader_ok_def intro!: json_ok_modify nested_modify)
    note top = 2(1) and at = 2(4)
    have place: "new_place (rd_stack r) (q @ [l])" for l using 2(2) unfolding new_place_def by blast
    consider m where "w = OBJECT m" | xs where "w = ARRAY xs" using 2(5) by (cases w) auto
    then show ?thesis
    proof cases
      case (1 m)
      let ?r1 = "if map_of m (rd_key r) \<noteq> None then add_json_error (DuplicateKey (rd_key r) (CurrentIndex r)) r else r"
      have m: "json_ok (OBJECT (map_index (rd_key r) m))" "nested_within (GRPC_JSON_MAX_DEPTH - length q) (OBJECT (map_index (rd_key r) m))"
        using w 1 map_index_sorted map_index_values by fastforce+
      have r1: "reader_ok ?r1" "rd_stack ?r1 = rd_stack r" using assms add_error_ok by (simp_all add: add_json_error_def)
      show ?thesis
        by (rule that [OF link_object [OF 2(1) 2(4) [unfolded 1]] keep [OF r1 m] _ place]) (use r1(2) in simp_all)
    next
      case (2 xs)
      have xs: "json_ok (ARRAY (xs @ [JSON_NULL]))" "nested_within (GRPC_JSON_MAX_DEPTH - length q) (ARRAY (xs @ [JSON_NULL]))"
        using w 2 by auto
      show ?thesis
        by (rule that [OF link_array [OF top at [unfolded 2]] keep [OF assms refl xs] _ place]) simp_all
    qed
  qed
qed

definition step_ok :: "json_result \<Rightarrow> bool" where
  "step_ok res \<longleftrightarrow> (case res of None \<Rightarrow> False | Some (e, r) \<Rightarrow> reader_ok r)"

lemma step_ok_simps [simp]: "step_ok (Some (e, r)) = reader_ok r"
  by (simp add: step_ok_def)

lemma set_value_ok:
  assumes "reader_ok r"
  shows "\<exists>r1. SetString r = Some r1 \<and> reader_ok r1 \<and> rd_stack r1 = rd_stack r" "\<exists>r1. SetNumber r = Some r1 \<and> reader_ok r1 \<and> rd_stack r1 = rd_stack r"
    "\<exists>r1. SetTrue r = Some r1 \<and> reader_ok r1 \<and> rd_stack r1 = rd_stack r" "\<exists>r1. SetFalse r = Some r1 \<and> reader_ok r1 \<and> rd_stack r1 = rd_stack r"
    "\<exists>r1. SetNull r = Some r1 \<and> reader_ok r1 \<and> rd_stack r1 = rd_stack r"
proof -
  obtain p r1 where r1: "CreateAndLinkValue r = Some (p, r1)" "reader_ok r1" "rd_stack r1 = rd_stack r" "new_place (rd_stack r) p"
    using CreateAndLinkValue_ok [OF assms] .
  have [simp]: "rd_stack (json_assign p v r1) = rd_stack r" for v using r1(3) by (simp add: json_assign_def)
  note r1' = r1 assign_ok [OF r1(2), of p]
  show "\<exists>r1. SetString r = Some r1 \<and> reader_ok r1 \<and> rd_stack r1 = rd_stack r" "\<exists>r1. SetNumber r = Some r1 \<and> reader_ok r1 \<and> rd_stack r1 = rd_stack r"
    "\<exists>r1. SetTrue r = Some r1 \<and> reader_ok r1 \<and> rd_stack r1 = rd_stack r" "\<exists>r1. SetFalse r = Some r1 \<and> reader_ok r1 \<and> rd_stack r1 = rd_stack r"
    "\<exists>r1. SetNull r = Some r1 \<and> reader_ok r1 \<and> rd_stack r1 = rd_stack r"
    using r1' by (simp_all add: SetString_def SetNumber_def SetTrue_def SetFalse_def SetNull_def)
qed

lemma StartContainer_ok:
  assumes "reader_ok r" "c = OBJECT [] \<or> c = ARRAY []"
  shows "\<exists>b r1. StartContainer c r = Some (b, r1) \<and> reader_ok r1"
proof (cases "length (rd_stack r) = GRPC_JSON_MAX_DEPTH")
  case True
  then show ?thesis using assms(1) by (auto simp: StartContainer_def add_error_ok)
next
  case False
  obtain p r1 where r1: "CreateAndLinkValue r = Some (p, r1)" "reader_ok r1" "rd_stack r1 = rd_stack r" "new_place (rd_stack r) p"
    using CreateAndLinkValue_ok [OF assms(1)] .
  have "stack_ok (root_value r) (rd_stack r)" using assms(1) by (simp add: reader_ok_def)
  then have len: "length (rd_stack r) < GRPC_JSON_MAX_DEPTH" using False by (cases rule: stack_cases) auto
  moreover have p: "length p = length (rd_stack r)" using r1(4) by (auto simp: new_place_def)
  ultimately have ok: "reader_ok (json_assign p c r1)" using assign_ok [OF r1(2), of p c] r1(3,4) assms(2) by auto
  have "\<exists>w. json_at (root_value r1) p = Some w" using CreateAndLinkValue_at [OF r1(1)] .
  then have at: "json_at (root_value (json_assign p c r1)) p = Some c" using json_at_modify [of p "[]" "\<lambda>_. c" "root_value r1"] by (auto simp: json_assign_def)
  have "stack_ok (root_value (json_assign p c r1)) (p # rd_stack r1)"
    using stack_push [OF _ _ at, of "rd_stack r1"] ok len r1(3,4) assms(2) by (auto simp: reader_ok_def new_place_def json_assign_def)
  with ok show ?thesis using r1 False by (auto simp: StartContainer_def reader_ok_def)
qed

lemma EndContainer_ok: "reader_ok r \<Longrightarrow> rd_stack r \<noteq> [] \<Longrightarrow> \<exists>r1. EndContainer r = Some r1 \<and> reader_ok r1"
  by (cases "rd_stack r") (auto simp: EndContainer_def reader_ok_def dest: stack_pop)

lemma back_type_ok: "reader_ok r \<Longrightarrow> rd_stack r \<noteq> [] \<Longrightarrow> \<exists>ty. back_type r = Some ty"
  by (auto simp: reader_ok_def back_type_def elim!: stack_cases split: list.splits)

lemma json_space_ok: "reader_ok r \<Longrightarrow> step_ok (json_space c r)"
  using set_value_ok(2) [of r] by (auto simp: json_space_def)

lemma json_after_value_ok:
  assumes "reader_ok r"
  shows "step_ok (json_after_value c r)"
proof (cases "rd_stack r = []")
  case False
  then obtain ty r1 where "back_type r = Some ty" "EndContainer (enter GRPC_JSON_STATE_VALUE_END r) = Some r1" "reader_ok r1"
    using back_type_ok [OF assms] EndContainer_ok [of "enter GRPC_JSON_STATE_VALUE_END r"] assms by auto
  then show ?thesis using assms by (simp add: json_after_value_def)
qed (use assms in \<open>simp add: json_after_value_def\<close>)

lemma json_terminator_ok:
  assumes "reader_ok r"
  shows "step_ok (json_terminator c r)"
proof (cases "rd_stack r = []")
  case False
  obtain ty r1 where "back_type r = Some ty" "SetNumber r = Some r1" "reader_ok r1"
    using back_type_ok [OF assms False] set_value_ok(2) [OF assms] by blast
  then show ?thesis using assms json_after_value_ok by (simp add: json_terminator_def)
qed (use assms json_after_value_ok in \<open>simp add: json_terminator_def\<close>)

lemma json_backslash_ok: "reader_ok r \<Longrightarrow> step_ok (json_backslash r)"
  by (simp add: json_backslash_def)

lemma json_value_begin_ok:
  assumes "reader_ok r"
  shows "step_ok (json_value_begin c r)"
proof -
  let ?r = "r\<lparr>container_just_begun := True\<rparr>"
  have ok: "reader_ok ?r" using assms by simp
  obtain b1 r1 where s1: "StartContainer (OBJECT []) ?r = Some (b1, r1)" "reader_ok r1" using StartContainer_ok [OF ok, of "OBJECT []"] by auto
  obtain b2 r2 where s2: "StartContainer (ARRAY []) ?r = Some (b2, r2)" "reader_ok r2" using StartContainer_ok [OF ok, of "ARRAY []"] by auto
  from s1 s2 show ?thesis using assms by (simp add: json_value_begin_def)
qed

lemma json_strings_ok:
  assumes "reader_ok r"
  shows "step_ok (json_escape c r)" "step_ok (json_unicode c r)" "step_ok q \<Longrightarrow> step_ok (json_in_string c r q)"
    and "step_ok (keyword e c s r)" "step_ok (json_number c r)"
  using assms by (auto simp: json_number_def json_escape_def json_unicode_def json_unicode_end_def json_in_string_def keyword_def Let_def split: option.splits json_state.splits)

lemma keyword_end_ok:
  assumes "reader_ok r" "f = SetTrue \<or> f = SetFalse \<or> f = SetNull"
  shows "step_ok (keyword_end e c f r)"
  using set_value_ok(3-5) [OF assms(1)] assms by (auto simp: keyword_end_def)

lemma json_default_ok:
  assumes "reader_ok r"
  shows "step_ok (json_default c r)"
proof -
  have r: "reader_ok (r\<lparr>container_just_begun := False\<rparr>)" using assms by simp
  then obtain r1 where s: "SetString (enter GRPC_JSON_STATE_VALUE_END (r\<lparr>container_just_begun := False\<rparr>)) = Some r1" "reader_ok r1"
    using set_value_ok(1) by (metis reader_ok_fields(2))
  show ?thesis unfolding json_default_def Let_def
    by (cases "rd_state (r\<lparr>container_just_begun := False\<rparr>)")
      (use assms in \<open>simp_all add: s json_strings_ok [OF r] keyword_end_ok [OF r] json_value_begin_ok [OF r] del: json_reader.simps\<close>)
qed

lemma json_step_ok: "reader_ok r \<Longrightarrow> step_ok (json_step c r)"
  by (simp add: json_step_def json_space_ok json_terminator_ok json_backslash_ok json_default_ok)

lemma JsonReader_Run_ok:
  assumes "reader_ok r"
  shows "\<exists>st r1. JsonReader_Run cs r = Some (st, r1) \<and> reader_ok r1"
  using assms
proof (induction cs arbitrary: r)
  case (Cons c cs)
  let ?r = "r\<lparr>rd_consumed := rd_consumed r + 1\<rparr>"
  have ok: "reader_ok ?r" using Cons.prems by simp
  show ?case
  proof (cases "c = 0")
    case False
    obtain e r1 where s: "json_step c ?r = Some (e, r1)" "reader_ok r1"
      using json_step_ok [OF ok, of c] by (auto simp: step_ok_def split: option.splits)
    then show ?thesis using Cons.IH [OF s(2)] False by (cases e) simp_all
  qed (use ok in \<open>simp add: json_eof_def Let_def\<close>)
qed (simp add: json_eof_def)

section \<open>Properties\<close>

text \<open>C27: the reader is safe.  On every input the parser ends; no pointer of its stack dangles and no assertion fails.  It returns a list of errors,
  never empty and never longer than eighteen, or a value in which the keys of every object are in order and distinct and at most 255
  containers are nested.\<close>

theorem json_parse_safe:
  "case JsonReader_Parse input of
     None \<Rightarrow> False
   | Some (Inl errors) \<Rightarrow> errors \<noteq> [] \<and> length errors \<le> 18
   | Some (Inr v) \<Rightarrow> json_ok v \<and> nested_within 255 v"
proof -
  have "reader_ok JsonReader_init" by (simp add: reader_ok_def JsonReader_init_def stack_ok_def)
  from JsonReader_Run_ok [OF this, of input] obtain st r where r: "JsonReader_Run input JsonReader_init = Some (st, r)" "reader_ok r" by blast
  then show ?thesis by (auto simp: JsonReader_Parse_def reader_ok_def GRPC_JSON_MAX_DEPTH_def GRPC_JSON_MAX_ERRORS_def Let_def)
qed

text \<open>The definitions of a run, for evaluation.\<close>

lemmas json_run_defs = JsonReader_Parse_def JsonReader_init_def json_step_def json_space_def json_terminator_def json_after_value_def json_backslash_def
  json_default_def json_value_begin_def json_in_string_def json_number_def json_string_state_def json_number_state_def is_digit_def back_type_def StartContainer_def
  EndContainer_def CreateAndLinkValue_def json_assign_def SetKey_def SetString_def SetNumber_def StringAddChar_def json_eof_def IsComplete_def
  GRPC_JSON_MAX_DEPTH_def GRPC_JSON_MAX_ERRORS_def Let_def


end
