(* ===== verification/Spec2Isabelle.thy ===== *)
theory Spec2Isabelle
  imports Bit_Set Table Chunked_Vector Avl Promise_Join Hpack_Connection Stream_Lists Message_Delivery Frame_Dispatch Json_Reader
begin

text \<open>
  A verification library for the core of the gRPC C++ runtime (\<^verbatim>\<open>src/src/core\<close>).

  \<^bold>\<open>The program.\<close>  gRPC carries calls over HTTP/2.  The transport \<^verbatim>\<open>ext/transport/chttp2\<close> keeps per connection the settings of both ends, the
  flow-control windows, the streams, a read loop with a parser per frame type and the two halves of HPACK header compression.  Around it are small libraries of
  containers and arithmetic (\<^verbatim>\<open>lib/gprpp\<close>, \<^verbatim>\<open>lib/gpr\<close>, \<^verbatim>\<open>lib/avl\<close>), the JSON of configurations (\<^verbatim>\<open>lib/json\<close>), metadata tables (\<^verbatim>\<open>lib/transport\<close>) and the promise combinators
  (\<^verbatim>\<open>lib/promise\<close>) on which newer filters are built.  The library models these parts; every definition names its
  counterpart, and paths below are relative to \<^verbatim>\<open>src/src/core\<close>.

  \<^bold>\<open>Conventions\<close> (theory \<open>Prelude\<close>).  Machine integers are words, or integers and naturals with the wrap-around written out; a failed
  assertion, a null dereference, an access out of bounds and a use of a dead object are the value \<open>None\<close> of an option type
  (\<open>crashable\<close>); a reported error is a value.  A loop that need not end is a \<open>partial_function\<close>, for which not returning is \<open>None\<close> as
  well, so every theorem that a run is \<open>Some\<close> includes its termination; no fuel is used.  \<open>fold_opt\<close> runs a list of operations; the locale
  \<open>simulation\<close>, and its special case \<open>refinement\<close> for an abstraction function, turn the correctness of each operation into the correctness of every run.

  \<^bold>\<open>Containers and arithmetic.\<close>
  \<^item> \<open>Useful\<close>: \<^verbatim>\<open>lib/gpr/useful.h\<close>; the population count is the number of one bits.
  \<^item> \<open>Bit_Set\<close>: \<^verbatim>\<open>lib/gprpp/bitset.h\<close>, refines a set of indices for every unit width.
  \<^item> \<open>Table\<close>: \<^verbatim>\<open>lib/gprpp/table.h\<close>, with object lifetimes; refines a finite map, moves included.
  \<^item> \<open>Chunked_Vector\<close>: \<^verbatim>\<open>lib/gprpp/chunked_vector.h\<close>, refines a list.
  \<^item> \<open>Avl\<close>: \<^verbatim>\<open>lib/avl/avl.cc\<close>, balanced and ordered, refines a finite map.

  \<^bold>\<open>Flow control and settings.\<close>
  \<^item> \<open>Http2_Settings\<close>: \<^verbatim>\<open>http2_settings.h/.cc\<close>, the parameters and the lookup of wire ids.
  \<^item> \<open>Bdp_Pid\<close>: \<^verbatim>\<open>lib/transport/bdp_estimator.cc\<close> and \<^verbatim>\<open>pid_controller.cc\<close>, the ping cycle and the bounds of the controller.
  \<^item> \<open>Flow_Control\<close>: \<^verbatim>\<open>flow_control.h/.cc\<close> as a transition system of a connection with its streams: the accounting invariant, exact acceptance
    of received data, window updates that restore the window, legal settings, the protocol limit of stream windows.

  \<^bold>\<open>Frames.\<close>
  \<^item> \<open>Frame_Codec\<close>: constants of \<^verbatim>\<open>frame.h\<close>, byte order, and the locale \<open>resumable\<close>: a parser that can be suspended at any byte makes the same of
    a frame however it is cut into slices.
  \<^item> \<open>Frame_Parsers\<close> (PING, RST_STREAM, WINDOW_UPDATE), \<open>Frame_Goaway\<close>, \<open>Frame_Settings\<close>: the writers and parsers of \<^verbatim>\<open>frame_ping.cc\<close> and so on; each
    parser interprets \<open>resumable\<close>, reads back what the writer wrote and validates its input.

  \<^bold>\<open>Streams and reading.\<close>
  \<^item> \<open>Stream_Map\<close>, \<open>Stream_Lists\<close>: \<^verbatim>\<open>stream_map.cc\<close>, a sorted array with holes that refines a finite map, and \<^verbatim>\<open>stream_lists.cc\<close>, five intrusive
    doubly linked lists over an explicit store that refine queues without duplicates.
  \<^item> \<open>Frame_Data\<close>, \<open>Message_Delivery\<close>: \<^verbatim>\<open>frame_data.cc\<close>, the receive path of \<^verbatim>\<open>chttp2_transport.cc\<close> and the collecting loop of \<^verbatim>\<open>lib/surface/call.cc\<close> as one
    machine whose events interleave: arrival of slices, requests, the combiner and the execution context.  By induction over its runs, the
    call collects the messages that were sent, in order, and waits only when all bytes that have arrived are used up.
  \<^item> \<open>Deframer\<close>: the read loop of \<^verbatim>\<open>parsing.cc\<close>; however the bytes are cut, it does what reading the frames one by one does.
  \<^item> \<open>Frame_Dispatch\<close>: the rest of \<^verbatim>\<open>parsing.cc\<close>, which joins the frame parsers, the HPACK parser, flow control and the stream map in one connection; only
    sequences of frames in the order of the protocol are read without an error, and skipped header frames have the wrong boundary.

  \<^bold>\<open>Promises.\<close>
  \<^item> \<open>Promise_Seq\<close>, \<open>Promise_Join\<close>: \<^verbatim>\<open>lib/promise/seq.h\<close>, \<^verbatim>\<open>try_seq.h\<close>, \<^verbatim>\<open>join.h\<close>, \<^verbatim>\<open>try_join.h\<close> with the hand-managed storage of
    \<^verbatim>\<open>detail/basic_seq.h\<close> and \<^verbatim>\<open>detail/basic_join.h\<close>: no fault, the result of running the promises in order or all of them, the first error stops.

  \<^bold>\<open>Header compression.\<close>
  \<^item> \<open>Hpack_Tables\<close>: the dynamic tables of both ends (\<^verbatim>\<open>hpack_parser_table\<close>, \<^verbatim>\<open>hpack_encoder_table\<close>) stay coherent.
  \<^item> \<open>Hpack_Input\<close>, \<open>Hpack_String\<close>, \<open>Huffman_Tables\<close>: variable-length integers, the input reader, strings, and the generated tables
    of the Huffman decoder.  \<open>Huffman_Automaton\<close> evaluates all 4096 transitions of the decoder against the code tree, \<open>Huffman_Code\<close> shows that the
    code is prefix-free and decodes it, \<open>Huffman_Encoder\<close> has the round trips of \<^verbatim>\<open>bin_encoder.cc\<close> and where they fail.
  \<^item> \<open>Hpack_Parser\<close>: \<^verbatim>\<open>hpack_parser.cc\<close>, resumable at any byte, and with \<open>Static_Metadata\<close> (\<^verbatim>\<open>static_metadata.cc\<close>, the static table of
    RFC 7541 and its perfect hash) total.
  \<^item> \<open>Hpack_Index\<close>: the popularity filter and the two-slot index of the encoder, a lossy map (locale \<open>lossy_map\<close>).
  \<^item> \<open>Timeout_Encoding\<close>: \<^verbatim>\<open>lib/transport/timeout_encoding.cc\<close>.
  \<^item> \<open>Hpack_Framer\<close>, \<open>Hpack_Encoder\<close>: \<^verbatim>\<open>hpack_encoder.cc\<close>, the framer and the choice of representations.  \<open>Hpack_Roundtrip\<close> matches every
    representation with the parser, \<open>Hpack_Link\<close> carries the invariant between an encoder and the parser of its peer, and \<open>Hpack_Connection\<close> has the
    properties of the pair: framing, and the delivery of exactly what was sent.

  \<^bold>\<open>JSON.\<close>
  \<^item> \<open>Json_Reader\<close>: \<^verbatim>\<open>lib/json/json_reader.cc\<close>, a state machine that builds the value in place through a stack of pointers, which are paths here; it is safe on
    every input, and departs from the standard that its comment names.

  \<^bold>\<open>Idealisations.\<close>  Doubles are reals (\<open>Bdp_Pid\<close>, \<open>Flow_Control\<close>); \<open>int64_t\<close> windows and times are integers, which invariants bound or the ranges of the inputs
  justify; \<open>size_t\<close> lengths of objects in memory are naturals.  Slices are lists of bytes: how their memory is shared and released is not
  modelled, nor is tracing.  Random numbers and the clock are arguments.  A call from a frame parser into the transport is
  recorded in a list of calls.  A header is its key and value, and the metadata batch that receives it is a parameter; addresses of interned metadata
  stand for their contents, as the intern tables promise.  A header block in several frames is fed to the parser as slices of one frame, while
  the transport resets the size counter of the parser at every frame.

  \<^bold>\<open>Bounds.\<close>  Indices into the encoder's table are 32 bits wide and never reused, so the coherence theorems are for fewer than \<open>2 ^ 32 - 64\<close> insertions in
  the life of a connection; header keys and values below \<open>2 ^ 28\<close> bytes keep the 32-bit sizes exact.

  \<^bold>\<open>Not modelled.\<close>  The JSON writer, the transport object, stream closing and the write loop, stream decompression, activities and the remaining
  combinators of \<^verbatim>\<open>lib/promise\<close>, channels, load balancing, xDS, the surface, I/O, security, generated code and the language bindings: concurrent object
  graphs driven by callbacks, wrappers of external libraries, or glue (the writer is plain code, left for an extension).  The delivery of messages is proved for streams on which no error
  occurs and no trailing metadata are pending; the operations themselves are modelled with their error branches.
\<close>

end
